(* ===== verification/Prelude.thy ===== *)
theory Prelude
  imports Main "HOL-Library.Word"
begin

text \<open>
  Shared vocabulary of the development: the machine integers of the Rust sources
  (\<open>u8\<close>, \<open>u16\<close>, \<open>u32\<close>, \<open>u64\<close> as words; \<open>usize\<close> counters and
  indices, which the code keeps far below \<open>2 ^ 64\<close>, as \<open>nat\<close>), the checked and
  saturating arithmetic of Rust's standard library, the loops that occur in every
  component (first slot with a property, byte-wise copy into an array, feed a bounded
  buffer until it refuses, drain it), and the lemmas on them that the component
  theories use.  The named collections \<open>arith_defs\<close> and \<open>loop_simps\<close> carry the
  component proofs.
\<close>

unbundle bit_operations_syntax

type_synonym u8 = "8 word"
type_synonym u16 = "16 word"
type_synonym u32 = "32 word"
type_synonym u64 = "64 word"

named_theorems arith_defs \<open>definitions of the standard library's integer operations\<close>
named_theorems loop_simps \<open>characterisations of the loops shared by the components\<close>

section \<open>Integer operations of the Rust standard library\<close>

definition checked_add :: "'a::len word \<Rightarrow> 'a word \<Rightarrow> 'a word option" where
  [arith_defs]: "checked_add a b =
     (if unat a + unat b < 2 ^ LENGTH('a) then Some (a + b) else None)"

definition checked_sub :: "'a::len word \<Rightarrow> 'a word \<Rightarrow> 'a word option" where
  [arith_defs]: "checked_sub a b = (if b \<le> a then Some (a - b) else None)"

definition saturating_add :: "'a::len word \<Rightarrow> 'a word \<Rightarrow> 'a word" where
  [arith_defs]: "saturating_add a b =
     (if unat a + unat b < 2 ^ LENGTH('a) then a + b else - 1)"

definition saturating_sub :: "'a::len word \<Rightarrow> 'a word \<Rightarrow> 'a word" where
  [arith_defs]: "saturating_sub a b = (if b \<le> a then a - b else 0)"

definition u64_max :: u64 where
  "u64_max = - 1"

lemma checked_add_Some:
  "checked_add a b = Some c \<Longrightarrow> unat c = unat a + unat b"
  by (auto simp: checked_add_def unat_word_ariths split: if_splits)

lemma checked_add_None:
  "checked_add (a :: 'a::len word) b = None \<longleftrightarrow> 2 ^ LENGTH('a) \<le> unat a + unat b"
  by (auto simp: checked_add_def)

lemma checked_sub_Some:
  "checked_sub a b = Some c \<Longrightarrow> unat c = unat a - unat b \<and> b \<le> a"
  by (auto simp: checked_sub_def unat_sub split: if_splits)

lemma unat_saturating_add:
  "unat (saturating_add (a :: 'a::len word) b) = min (unat a + unat b) (2 ^ LENGTH('a) - 1)"
  by (auto simp: saturating_add_def unat_word_ariths unsigned_minus_1_eq_mask mask_eq_exp_minus_1)

lemma unat_min_word: "unat (min a b) = min (unat a) (unat b)"
  by (simp add: min_def word_le_nat_alt)

lemma unat_u64_lt: "unat (a :: u64) < 18446744073709551616"
  using unsigned_less [of a] by simp

section \<open>Loops shared by the components\<close>

text \<open>\<open>for slot in 0..n { if p(array[slot]) { return Some(slot) } } None\<close>\<close>

primrec find_index :: "('a \<Rightarrow> bool) \<Rightarrow> 'a list \<Rightarrow> nat option" where
  "find_index p [] = None"
| "find_index p (x # xs) = (if p x then Some 0 else map_option Suc (find_index p xs))"

lemma find_index_Some [loop_simps]:
  "find_index p xs = Some i \<longleftrightarrow> i < length xs \<and> p (xs ! i) \<and> (\<forall>j < i. \<not> p (xs ! j))"
  by (induction xs arbitrary: i) (auto simp: less_Suc_eq_0_disj nth_Cons split: nat.splits)

lemma find_index_None [loop_simps]:
  "find_index p xs = None \<longleftrightarrow> (\<forall>x \<in> set xs. \<not> p x)"
  by (induction xs) auto

lemma find_index_length: "find_index p xs = Some i \<Longrightarrow> i < length xs"
  by (simp add: loop_simps)

text \<open>
  \<open>for (index, byte) in data.iter().enumerate() { array[offset + index] = byte }\<close>.
  The array keeps its length; the callers establish that the range fits.
\<close>

primrec store_bytes :: "'a list \<Rightarrow> nat \<Rightarrow> 'a list \<Rightarrow> 'a list" where
  "store_bytes xs i [] = xs"
| "store_bytes xs i (b # bs) = store_bytes (xs[i := b]) (Suc i) bs"

lemma length_store_bytes [simp]: "length (store_bytes xs i bs) = length xs"
  by (induction bs arbitrary: xs i) auto

lemma nth_store_bytes [loop_simps]:
  "k < length xs \<Longrightarrow> store_bytes xs i bs ! k =
     (if i \<le> k \<and> k < i + length bs then bs ! (k - i) else xs ! k)"
proof (induction bs arbitrary: xs i)
  case Nil
  then show ?case by auto
next
  case (Cons b bs)
  then show ?case
    by (cases "k = i") (auto simp: nth_Cons')
qed

lemma take_store_bytes_0 [simp]:
  "length bs \<le> length xs \<Longrightarrow> take (length bs) (store_bytes xs 0 bs) = bs"
  by (rule nth_equalityI) (auto simp: nth_store_bytes)

text \<open>A Rust slice \<open>&xs[a..b]\<close>, in range whenever the callers use it.\<close>

definition slice :: "'a list \<Rightarrow> nat \<Rightarrow> nat \<Rightarrow> 'a list" where
  "slice xs a b = take (b - a) (drop a xs)"

lemma length_slice [simp]: "b \<le> length xs \<Longrightarrow> length (slice xs a b) = b - a"
  by (simp add: slice_def)

lemma nth_slice [simp]:
  "a + i < b \<Longrightarrow> b \<le> length xs \<Longrightarrow> slice xs a b ! i = xs ! (a + i)"
  by (simp add: slice_def)

text \<open>Byte strings: literals, \<open>str::strip_prefix\<close> and \<open>str::split('/')\<close>.\<close>

definition ascii :: "string \<Rightarrow> u8 list" where
  "ascii s = map of_char s"

definition strip_prefix :: "'a list \<Rightarrow> 'a list \<Rightarrow> 'a list option" where
  "strip_prefix prefix xs =
     (if take (length prefix) xs = prefix then Some (drop (length prefix) xs) else None)"

lemma strip_prefix_Some [simp]: "strip_prefix prefix xs = Some ys \<longleftrightarrow> xs = prefix @ ys"
  by (auto simp: strip_prefix_def) (metis append_take_drop_id)

lemma strip_prefix_append [simp]: "strip_prefix prefix (prefix @ xs) = Some xs"
  by simp

lemma strip_prefix_None: "strip_prefix prefix xs = None \<longleftrightarrow> (\<forall>ys. xs \<noteq> prefix @ ys)"
  by (metis strip_prefix_Some not_None_eq option.distinct(1))

primrec split_at :: "'a \<Rightarrow> 'a list \<Rightarrow> 'a list list" where
  "split_at c [] = [[]]"
| "split_at c (x # xs) =
     (if x = c then [] # split_at c xs
      else case split_at c xs of [] \<Rightarrow> [[x]] | y # ys \<Rightarrow> (x # y) # ys)"

lemma split_at_nonempty [simp]: "split_at c xs \<noteq> []"
  by (induction xs) (auto split: list.splits)

lemma split_at_plain [simp]: "c \<notin> set xs \<Longrightarrow> split_at c xs = [xs]"
  by (induction xs) auto

lemma split_at_single: "split_at c xs = [ys] \<longleftrightarrow> c \<notin> set xs \<and> ys = xs"
proof (induction xs arbitrary: ys)
  case Nil
  then show ?case by auto
next
  case (Cons x xs)
  then show ?case by (cases "x = c"; cases "split_at c xs") auto
qed

lemma split_at_Cons:
  "split_at c xs = y # z # zs \<longleftrightarrow> c \<notin> set y \<and> (\<exists>rest. xs = y @ c # rest \<and> split_at c rest = z # zs)"
proof (induction xs arbitrary: y)
  case Nil
  then show ?case by simp
next
  case (Cons x xs)
  show ?case
  proof (cases "x = c")
    case True
    then show ?thesis by (cases y) auto
  next
    case False
    then show ?thesis
    proof (cases "split_at c xs")
      case (Cons a as)
      then show ?thesis using False Cons.IH [of "tl y"] by (cases y) auto
    qed simp
  qed
qed

text \<open>
  Feeding a bounded buffer one element at a time until it refuses (the count of the
  accepted ones is returned), and draining at most \<open>n\<close> elements out of it.
\<close>

fun feed :: "('a \<Rightarrow> 'q \<Rightarrow> bool \<times> 'q) \<Rightarrow> 'a list \<Rightarrow> 'q \<Rightarrow> nat \<times> 'q" where
  "feed push [] q = (0, q)"
| "feed push (x # xs) q =
     (case push x q of
        (False, q') \<Rightarrow> (0, q')
      | (True, q') \<Rightarrow> (case feed push xs q' of (n, q'') \<Rightarrow> (Suc n, q'')))"

fun drain :: "('q \<Rightarrow> 'a option \<times> 'q) \<Rightarrow> nat \<Rightarrow> 'q \<Rightarrow> 'a list \<times> 'q" where
  "drain pop 0 q = ([], q)"
| "drain pop (Suc n) q =
     (case pop q of
        (None, q') \<Rightarrow> ([], q')
      | (Some x, q') \<Rightarrow> (case drain pop n q' of (xs, q'') \<Rightarrow> (x # xs, q'')))"

section \<open>Bounded first-in first-out buffers\<close>

text \<open>
  The contract that both ring buffers of the kernel offer to their clients: the byte
  rings of a pseudo-terminal and the scheduler's run queue.  \<open>contents\<close> is the
  abstract queue, \<open>wf\<close> the representation invariant, \<open>cap\<close> the capacity.
\<close>

locale bounded_fifo =
  fixes push :: "'a \<Rightarrow> 'q \<Rightarrow> bool \<times> 'q"
    and pop :: "'q \<Rightarrow> 'a option \<times> 'q"
    and contents :: "'q \<Rightarrow> 'a list"
    and wf :: "'q \<Rightarrow> bool"
    and cap :: nat
  assumes push_room: "wf q \<Longrightarrow> length (contents q) < cap \<Longrightarrow>
      \<exists>q'. push x q = (True, q') \<and> wf q' \<and> contents q' = contents q @ [x]"
    and push_full: "wf q \<Longrightarrow> length (contents q) = cap \<Longrightarrow> push x q = (False, q)"
    and pop_empty: "wf q \<Longrightarrow> contents q = [] \<Longrightarrow> pop q = (None, q)"
    and pop_cons: "wf q \<Longrightarrow> contents q = x # xs \<Longrightarrow>
      \<exists>q'. pop q = (Some x, q') \<and> wf q' \<and> contents q' = xs"
    and bounded: "wf q \<Longrightarrow> length (contents q) \<le> cap"
begin

lemma push_cases:
  assumes "wf q"
  obtains (room) q' where "length (contents q) < cap" and "push x q = (True, q')" and "wf q'"
      and "contents q' = contents q @ [x]"
    | (full) "length (contents q) = cap" and "push x q = (False, q)"
proof (cases "length (contents q) < cap")
  case True
  then show ?thesis using push_room [OF assms] room by blast
next
  case False
  then have "length (contents q) = cap" using bounded [OF assms] by simp
  then show ?thesis using push_full [OF assms] full by blast
qed

lemma feed_contents:
  assumes "wf q"
  shows "\<exists>q'. feed push xs q = (min (length xs) (cap - length (contents q)), q') \<and> wf q' \<and>
     contents q' = contents q @ take (cap - length (contents q)) xs"
  using assms
proof (induction xs arbitrary: q)
  case Nil
  then show ?case by simp
next
  case (Cons x xs)
  from \<open>wf q\<close> show ?case
  proof (rule push_cases [where x = x])
    fix q1
    assume room: "length (contents q) < cap" "push x q = (True, q1)" "wf q1"
      "contents q1 = contents q @ [x]"
    then obtain k where k: "cap - length (contents q) = Suc k"
      "cap - length (contents q1) = k"
      by (metis Suc_diff_Suc diff_Suc_eq_diff_pred diff_diff_left length_append_singleton
          Suc_eq_plus1)
    from Cons.IH [OF \<open>wf q1\<close>] room k show ?thesis by auto
  next
    assume "length (contents q) = cap" "push x q = (False, q)"
    then show ?thesis using \<open>wf q\<close> by simp
  qed
qed

lemma drain_contents:
  assumes "wf q"
  shows "\<exists>q'. drain pop n q = (take n (contents q), q') \<and> wf q' \<and>
     contents q' = drop n (contents q)"
  using assms
proof (induction n arbitrary: q)
  case 0
  then show ?case by simp
next
  case (Suc n)
  show ?case
  proof (cases "contents q")
    case Nil
    then show ?thesis using pop_empty [OF Suc.prems] Suc.prems by simp
  next
    case (Cons x xs)
    from pop_cons [OF Suc.prems Cons] obtain q1 where
      q1: "pop q = (Some x, q1)" "wf q1" "contents q1 = xs" by blast
    from Suc.IH [OF q1(2)] q1 Cons show ?thesis by auto
  qed
qed

text \<open>Whatever an empty buffer accepted comes out again in order.\<close>

lemma feed_drain:
  assumes "wf q" and "contents q = []"
  shows "\<exists>q' q''. feed push xs q = (min (length xs) cap, q') \<and>
     drain pop (length xs) q' = (take cap xs, q'') \<and> contents q'' = []"
proof -
  from feed_contents [OF assms(1), of xs] assms(2) obtain q' where
    q': "feed push xs q = (min (length xs) cap, q')" "wf q'" "contents q' = take cap xs" by auto
  from drain_contents [OF q'(2), of "length xs"] obtain q'' where
    "drain pop (length xs) q' = (take (length xs) (contents q'), q'')"
    "contents q'' = drop (length xs) (contents q')" by blast
  with q' show ?thesis by (auto simp: min_def)
qed

end

section \<open>Ring buffers\<close>

text \<open>
  The window of a circular array: the \<open>cnt\<close> elements that start at \<open>front\<close>.  Both ring
  buffers of the kernel write behind the window and read at its start.
\<close>

definition ring_window :: "nat \<Rightarrow> 'a list \<Rightarrow> nat \<Rightarrow> nat \<Rightarrow> 'a list" where
  "ring_window cap buf front cnt = map (\<lambda>i. buf ! ((front + i) mod cap)) [0..<cnt]"

lemma length_ring_window [simp]: "length (ring_window cap buf front cnt) = cnt"
  by (simp add: ring_window_def)

lemma ring_window_0 [simp]: "ring_window cap buf front 0 = []"
  by (simp add: ring_window_def)

lemma ring_window_Nil [simp]: "ring_window cap buf front cnt = [] \<longleftrightarrow> cnt = 0"
  by (simp add: ring_window_def)

lemma mod_add_inj:
  assumes "(h + i) mod cap = (h + j) mod cap" and "i < cap" and "j < (cap :: nat)"
  shows "i = j"
  using assms
proof (induction h)
  case (Suc h)
  then have "Suc (h + i) mod cap = Suc (h + j) mod cap" by simp
  then have "(h + i) mod cap = (h + j) mod cap"
    by (metis Suc_inject mod_Suc nat.distinct(1))
  with Suc show ?case by simp
qed simp

lemma ring_window_push:
  assumes "length buf = cap" and "cnt < cap"
  shows "ring_window cap (buf[(front + cnt) mod cap := x]) front (Suc cnt) = ring_window cap buf front cnt @ [x]"
proof -
  have "(front + cnt) mod cap \<noteq> (front + i) mod cap" if "i < cnt" for i
    using mod_add_inj [of front i cap cnt] that assms(2) by auto
  then show ?thesis using assms by (auto simp: ring_window_def nth_list_update)
qed

lemma ring_window_pop:
  assumes "0 < cnt" and "front < cap"
  shows "ring_window cap buf front cnt = buf ! front # ring_window cap buf ((front + 1) mod cap) (cnt - 1)"
proof -
  obtain n where n: "cnt = Suc n" using assms(1) by (cases cnt) auto
  have "ring_window cap buf front (Suc n) = buf ! (front mod cap) #
      map (\<lambda>i. buf ! ((front + i) mod cap)) (map Suc [0..<n])"
    by (simp add: ring_window_def map_Suc_upt upt_conv_Cons del: upt_Suc)
  also have "map (\<lambda>i. buf ! ((front + i) mod cap)) (map Suc [0..<n]) =
      ring_window cap buf ((front + 1) mod cap) n"
    by (simp add: ring_window_def mod_add_left_eq)
  finally show ?thesis using n assms(2) by simp
qed

end
