(* ===== verification/Frames.thy ===== *)
theory Frames
  imports Prelude
begin

text \<open>
  The physical frame allocator, \<open>kernel-core/src/memory.rs\<close>: two bitmaps over the
  first 4 GiB of physical memory (\<open>FRAME_BITMAP\<close>: reserved or allocated;
  \<open>ALLOCATED_BITMAP\<close>: handed out by \<open>allocate\<close>) and the free-frame counter.
  The 131072-byte bitmaps are total functions from the byte index; every index the code
  computes is \<open>frame / 8\<close> with \<open>frame < MAX_PHYSICAL_FRAMES\<close>.
  The abstraction is a pair of frame sets (free, handed out); the refinement lemmas say
  what each operation does to them, and the \<open>frame_allocator\<close> contract is what the
  paging code relies on.
\<close>

section \<open>Data\<close>

definition PAGE_SIZE :: u64 where "PAGE_SIZE = 4096"
definition MAX_PHYSICAL_ADDRESS :: u64 where "MAX_PHYSICAL_ADDRESS = 4294967296"
definition MAX_PHYSICAL_FRAMES :: nat where "MAX_PHYSICAL_FRAMES = 1048576"

datatype region_kind = Usable | Reserved

record memory_region =
  region_base :: u64
  region_length :: u64
  region_kind :: region_kind

record memory_range =
  range_base :: u64
  range_length :: u64

record memory_stats =
  free_frames :: nat
  tracked_frames :: nat

record frame_state =
  frame_bitmap :: "nat \<Rightarrow> u8"
  allocated_bitmap :: "nat \<Rightarrow> u8"
  mem_stats :: memory_stats

section \<open>Bitmap primitives\<close>

definition bitmap_bit :: "(nat \<Rightarrow> u8) \<Rightarrow> nat \<Rightarrow> bool" where
  "bitmap_bit bm frame \<longleftrightarrow> bm (frame div 8) AND push_bit (frame mod 8) 1 \<noteq> 0"

definition bitmap_set :: "(nat \<Rightarrow> u8) \<Rightarrow> nat \<Rightarrow> bool \<Rightarrow> (nat \<Rightarrow> u8)" where
  "bitmap_set bm frame value =
     (let mask = push_bit (frame mod 8) 1; current = bm (frame div 8)
      in bm(frame div 8 := (if value then current OR mask else current AND NOT mask)))"

definition reserved :: "frame_state \<Rightarrow> nat \<Rightarrow> bool" where
  "reserved s frame = bitmap_bit (frame_bitmap s) frame"

definition mark_frames :: "nat \<Rightarrow> nat \<Rightarrow> bool \<Rightarrow> (nat \<Rightarrow> u8) \<Rightarrow> (nat \<Rightarrow> u8)" where
  "mark_frames start end v bm = fold (\<lambda>frame bm. bitmap_set bm frame v) [start..<end] bm"

definition mark_range :: "u64 \<Rightarrow> u64 \<Rightarrow> bool \<Rightarrow> frame_state \<Rightarrow> frame_state" where
  "mark_range base len is_reserved s =
     (let start = saturating_add base (PAGE_SIZE - 1) div PAGE_SIZE;
          end = min (saturating_add base len) MAX_PHYSICAL_ADDRESS div PAGE_SIZE
      in s\<lparr>frame_bitmap := mark_frames (unat (min start (of_nat MAX_PHYSICAL_FRAMES))) (unat end)
             is_reserved (frame_bitmap s)\<rparr>)"

definition mark_reserved_range :: "u64 \<Rightarrow> u64 \<Rightarrow> frame_state \<Rightarrow> frame_state" where
  "mark_reserved_range base len s =
     (let start = base div PAGE_SIZE;
          end = min (saturating_add (saturating_add base len) (PAGE_SIZE - 1))
                  MAX_PHYSICAL_ADDRESS div PAGE_SIZE
      in s\<lparr>frame_bitmap := mark_frames (unat (min start (of_nat MAX_PHYSICAL_FRAMES))) (unat end)
             True (frame_bitmap s)\<rparr>)"

section \<open>Operations\<close>

definition count_free :: "frame_state \<Rightarrow> nat" where
  "count_free s = length (filter (\<lambda>frame. \<not> reserved s frame) [0..<MAX_PHYSICAL_FRAMES])"

definition init_bitmaps ::
  "memory_region list \<Rightarrow> memory_range list \<Rightarrow> frame_state \<Rightarrow> frame_state" where
  "init_bitmaps regions reserved_ranges s =
     (let s = s\<lparr>frame_bitmap := (\<lambda>_. - 1), allocated_bitmap := (\<lambda>_. 0)\<rparr>;
          s = fold (\<lambda>r s. if region_kind r = Usable
                          then mark_range (region_base r) (region_length r) False s else s)
                regions s;
          s = mark_reserved_range 0 (1024 * 1024) s
      in fold (\<lambda>r s. mark_reserved_range (range_base r) (range_length r) s) reserved_ranges s)"

definition frames_initialize ::
  "memory_region list \<Rightarrow> memory_range list \<Rightarrow> frame_state \<Rightarrow> memory_stats \<times> frame_state" where
  "frames_initialize regions reserved_ranges s =
     (let s = init_bitmaps regions reserved_ranges s;
          stats = \<lparr>free_frames = count_free s, tracked_frames = MAX_PHYSICAL_FRAMES\<rparr>
      in (stats, s\<lparr>mem_stats := stats\<rparr>))"

function first_free :: "frame_state \<Rightarrow> nat \<Rightarrow> nat option" where
  "first_free s frame =
     (if frame < MAX_PHYSICAL_FRAMES
      then if \<not> reserved s frame then Some frame else first_free s (Suc frame)
      else None)"
  by pat_completeness auto
termination
  by (relation "measure (\<lambda>(s, frame). MAX_PHYSICAL_FRAMES - frame)") auto

declare first_free.simps [simp del]

definition frames_allocate :: "frame_state \<Rightarrow> u64 option \<times> frame_state" where
  "frames_allocate s =
     (case first_free s 0 of
        Some frame \<Rightarrow>
          (Some (of_nat frame * PAGE_SIZE),
           s\<lparr>frame_bitmap := bitmap_set (frame_bitmap s) frame True,
             allocated_bitmap := bitmap_set (allocated_bitmap s) frame True,
             mem_stats := (mem_stats s)\<lparr>free_frames := free_frames (mem_stats s) - 1\<rparr>\<rparr>)
      | None \<Rightarrow> (None, s))"

definition frames_free :: "u64 \<Rightarrow> frame_state \<Rightarrow> frame_state" where
  "frames_free address s =
     (if address mod PAGE_SIZE \<noteq> 0 \<or> MAX_PHYSICAL_ADDRESS \<le> address then s
      else let frame = unat (address div PAGE_SIZE)
           in if bitmap_bit (allocated_bitmap s) frame
              then s\<lparr>frame_bitmap := bitmap_set (frame_bitmap s) frame False,
                     allocated_bitmap := bitmap_set (allocated_bitmap s) frame False,
                     mem_stats := (mem_stats s)\<lparr>free_frames := free_frames (mem_stats s) + 1\<rparr>\<rparr>
              else s)"

definition frames_stats :: "frame_state \<Rightarrow> memory_stats" where
  "frames_stats s = mem_stats s"

section \<open>Bitmaps as sets\<close>

lemma mask_bit: "(w :: u8) AND push_bit k 1 \<noteq> 0 \<longleftrightarrow> bit w k" if "k < 8"
proof -
  have "w AND push_bit k 1 = (if bit w k then push_bit k 1 else 0)"
    by (rule bit_eqI) (auto simp: bit_simps that)
  moreover have "push_bit k 1 \<noteq> (0 :: u8)"
    using that by (auto simp: bit_eq_iff bit_simps intro!: exI [of _ k])
  ultimately show ?thesis by simp
qed

lemma bitmap_bit_iff: "bitmap_bit bm frame \<longleftrightarrow> bit (bm (frame div 8)) (frame mod 8)"
  unfolding bitmap_bit_def by (rule mask_bit) simp

lemma bitmap_bit_set [loop_simps]:
  "bitmap_bit (bitmap_set bm f v) g = (if f = g then v else bitmap_bit bm g)"
proof (cases "f div 8 = g div 8")
  case True
  then have "f = g \<longleftrightarrow> f mod 8 = g mod 8"
    by (metis mult_div_mod_eq)
  then show ?thesis using True
    by (auto simp: bitmap_bit_iff bitmap_set_def Let_def bit_simps)
next
  case False
  then show ?thesis by (auto simp: bitmap_bit_iff bitmap_set_def Let_def)
qed

lemma bitmap_bit_mark_frames [loop_simps]:
  "bitmap_bit (mark_frames a b v bm) f = (if a \<le> f \<and> f < b then v else bitmap_bit bm f)"
proof -
  have "bitmap_bit (fold (\<lambda>frame bm. bitmap_set bm frame v) xs bm) f =
        (if f \<in> set xs then v else bitmap_bit bm f)" for xs
    by (induction xs arbitrary: bm) (auto simp: bitmap_bit_set)
  then show ?thesis by (simp add: mark_frames_def)
qed

lemma first_free_Some:
  "first_free s n = Some f \<Longrightarrow>
     n \<le> f \<and> f < MAX_PHYSICAL_FRAMES \<and> \<not> reserved s f \<and> (\<forall>g. n \<le> g \<and> g < f \<longrightarrow> reserved s g)"
proof (induction s n rule: first_free.induct)
  case (1 s n)
  show ?case
  proof (cases "n < MAX_PHYSICAL_FRAMES \<and> reserved s n")
    case True
    with "1.prems" have "first_free s (Suc n) = Some f"
      by (subst (asm) first_free.simps) simp
    with True "1.IH" have "Suc n \<le> f" and "f < MAX_PHYSICAL_FRAMES" and "\<not> reserved s f"
      and g: "\<forall>g. Suc n \<le> g \<and> g < f \<longrightarrow> reserved s g" by auto
    moreover have "\<forall>g. n \<le> g \<and> g < f \<longrightarrow> reserved s g"
      using g True by (metis Suc_leI le_neq_implies_less)
    ultimately show ?thesis by simp
  next
    case False
    with "1.prems" show ?thesis
      by (subst (asm) first_free.simps) (auto split: if_splits)
  qed
qed

lemma first_free_None:
  "first_free s n = None \<Longrightarrow> n \<le> g \<Longrightarrow> g < MAX_PHYSICAL_FRAMES \<Longrightarrow> reserved s g"
proof (induction s n rule: first_free.induct)
  case (1 s n)
  have "n < MAX_PHYSICAL_FRAMES" using "1.prems" by simp
  with "1.prems"(1) have n: "reserved s n" and "first_free s (Suc n) = None"
    by (subst (asm) first_free.simps, simp split: if_splits)+
  with "1.IH" "1.prems" \<open>n < MAX_PHYSICAL_FRAMES\<close> have "Suc n \<le> g \<Longrightarrow> reserved s g" by simp
  with n "1.prems"(2) show ?case by (metis Suc_leI le_neq_implies_less)
qed

section \<open>The abstract allocator: which frames are free, which are handed out\<close>

definition free_set :: "frame_state \<Rightarrow> nat set" where
  "free_set s = {f. f < MAX_PHYSICAL_FRAMES \<and> \<not> reserved s f}"

definition owned_set :: "frame_state \<Rightarrow> nat set" where
  "owned_set s = {f. f < MAX_PHYSICAL_FRAMES \<and> bitmap_bit (allocated_bitmap s) f}"

definition frames_inv :: "frame_state \<Rightarrow> bool" where
  "frames_inv s \<longleftrightarrow> free_set s \<inter> owned_set s = {} \<and>
     free_frames (mem_stats s) = card (free_set s) \<and>
     tracked_frames (mem_stats s) = MAX_PHYSICAL_FRAMES"

definition frame_address :: "nat \<Rightarrow> u64" where
  "frame_address f = of_nat f * PAGE_SIZE"

lemma finite_free_set [simp]: "finite (free_set s)"
  by (rule finite_subset [of _ "{..<MAX_PHYSICAL_FRAMES}"]) (auto simp: free_set_def)

lemma unat_frame_address:
  "f < MAX_PHYSICAL_FRAMES \<Longrightarrow> unat (frame_address f) = f * 4096"
  by (simp add: frame_address_def PAGE_SIZE_def MAX_PHYSICAL_FRAMES_def unat_word_ariths
      unat_of_nat)

lemma frame_address_inject:
  "f < MAX_PHYSICAL_FRAMES \<Longrightarrow> g < MAX_PHYSICAL_FRAMES \<Longrightarrow>
     frame_address f = frame_address g \<longleftrightarrow> f = g"
  by (metis mult_cancel2 unat_frame_address zero_neq_numeral)

lemma count_free_card: "count_free s = card (free_set s)"
proof -
  have "set (filter (\<lambda>f. \<not> reserved s f) [0..<MAX_PHYSICAL_FRAMES]) = free_set s"
    by (auto simp: free_set_def)
  then show ?thesis
    by (metis count_free_def distinct_card distinct_filter distinct_upt)
qed

lemma free_setD: "f \<in> free_set s \<Longrightarrow> f < MAX_PHYSICAL_FRAMES"
  by (simp add: free_set_def)

lemma owned_setD: "f \<in> owned_set s \<Longrightarrow> f < MAX_PHYSICAL_FRAMES"
  by (simp add: owned_set_def)

lemma allocate_cases:
  obtains (none) "frames_allocate s = (None, s)" and "free_set s = {}"
    | (some) f s' where "frames_allocate s = (Some (frame_address f), s')"
      and "f \<in> free_set s" and "\<forall>g \<in> free_set s. f \<le> g"
      and "free_set s' = free_set s - {f}" and "owned_set s' = insert f (owned_set s)"
      and "mem_stats s' = (mem_stats s)\<lparr>free_frames := free_frames (mem_stats s) - 1\<rparr>"
proof (cases "first_free s 0")
  case None
  then have "free_set s = {}" using first_free_None by (auto simp: free_set_def)
  then show ?thesis using None none by (simp add: frames_allocate_def)
next
  case (Some f)
  note f = first_free_Some [OF Some]
  let ?s' = "snd (frames_allocate s)"
  have "frames_allocate s = (Some (frame_address f), ?s')"
    using Some by (simp add: frames_allocate_def frame_address_def)
  moreover have "f \<in> free_set s" using f by (simp add: free_set_def)
  moreover have "\<forall>g \<in> free_set s. f \<le> g" using f
    by (metis free_set_def le0 mem_Collect_eq not_le)
  moreover have "free_set ?s' = free_set s - {f}" and "owned_set ?s' = insert f (owned_set s)"
    and "mem_stats ?s' = (mem_stats s)\<lparr>free_frames := free_frames (mem_stats s) - 1\<rparr>"
    using Some f
    by (auto simp: frames_allocate_def free_set_def owned_set_def reserved_def bitmap_bit_set)
  ultimately show ?thesis using some by blast
qed

lemma frames_free_ignored:
  "unat a mod 4096 \<noteq> 0 \<or> unat a div 4096 \<notin> owned_set s \<Longrightarrow> frames_free a s = s"
  by (auto simp: frames_free_def owned_set_def PAGE_SIZE_def MAX_PHYSICAL_ADDRESS_def
      MAX_PHYSICAL_FRAMES_def Let_def unat_div word_le_nat_alt unat_mod simp flip: unat_eq_0)

lemma frames_free_owned:
  assumes "f \<in> owned_set s"
  shows "free_set (frames_free (frame_address f) s) = insert f (free_set s)"
    and "owned_set (frames_free (frame_address f) s) = owned_set s - {f}"
    and "mem_stats (frames_free (frame_address f) s) =
       (mem_stats s)\<lparr>free_frames := free_frames (mem_stats s) + 1\<rparr>"
proof -
  have f: "f < MAX_PHYSICAL_FRAMES" "bitmap_bit (allocated_bitmap s) f"
    using assms by (auto simp: owned_set_def)
  have "unat (frame_address f) = f * 4096" using f by (simp add: unat_frame_address)
  then have "frame_address f mod PAGE_SIZE = 0" and "unat (frame_address f div PAGE_SIZE) = f"
    and "\<not> MAX_PHYSICAL_ADDRESS \<le> frame_address f"
    using f by (auto simp: PAGE_SIZE_def MAX_PHYSICAL_ADDRESS_def MAX_PHYSICAL_FRAMES_def
      unat_div word_le_nat_alt unat_mod simp flip: unat_eq_0)
  then have eq: "frames_free (frame_address f) s =
     s\<lparr>frame_bitmap := bitmap_set (frame_bitmap s) f False,
       allocated_bitmap := bitmap_set (allocated_bitmap s) f False,
       mem_stats := (mem_stats s)\<lparr>free_frames := free_frames (mem_stats s) + 1\<rparr>\<rparr>"
    using f by (simp add: frames_free_def Let_def)
  show "free_set (frames_free (frame_address f) s) = insert f (free_set s)"
    and "owned_set (frames_free (frame_address f) s) = owned_set s - {f}"
    and "mem_stats (frames_free (frame_address f) s) =
       (mem_stats s)\<lparr>free_frames := free_frames (mem_stats s) + 1\<rparr>"
    using f by (auto simp: eq free_set_def owned_set_def reserved_def bitmap_bit_set)
qed

section \<open>Initialisation\<close>

lemma page_div_le: "(n :: nat) div 4096 \<le> f \<longleftrightarrow> n < 4096 * (f + 1)"
  using div_less_iff_less_mult [of 4096 n "f + 1"] by (simp add: less_Suc_eq_le mult.commute)

lemma page_less_div: "f < (n :: nat) div 4096 \<longleftrightarrow> 4096 * (f + 1) \<le> n"
  using less_eq_div_iff_mult_less_eq [of 4096 "f + 1" n] by (simp add: Suc_le_eq mult.commute)

lemma mark_range_bounds:
  "unat (min (saturating_add base (PAGE_SIZE - 1) div PAGE_SIZE) (of_nat MAX_PHYSICAL_FRAMES)) =
     min (min (unat base + 4095) 18446744073709551615 div 4096) 1048576"
  "unat (min (saturating_add base len) MAX_PHYSICAL_ADDRESS div PAGE_SIZE) =
     min (min (unat base + unat len) 18446744073709551615) 4294967296 div 4096"
  by (simp_all add: unat_min_word unat_div unat_saturating_add PAGE_SIZE_def
        MAX_PHYSICAL_FRAMES_def MAX_PHYSICAL_ADDRESS_def)

lemma mark_reserved_range_bounds:
  "unat (min (base div PAGE_SIZE) (of_nat MAX_PHYSICAL_FRAMES)) = min (unat base div 4096) 1048576"
  "unat (min (saturating_add (saturating_add base len) (PAGE_SIZE - 1)) MAX_PHYSICAL_ADDRESS
       div PAGE_SIZE) =
     min (min (min (unat base + unat len) 18446744073709551615 + 4095) 18446744073709551615)
       4294967296 div 4096"
  by (simp_all add: unat_min_word unat_div unat_saturating_add PAGE_SIZE_def
        MAX_PHYSICAL_FRAMES_def MAX_PHYSICAL_ADDRESS_def)

lemma mark_range_reserved:
  "reserved (mark_range base len v s) f \<longleftrightarrow>
     (if unat base \<le> 4096 * f \<and> 4096 * (f + 1) \<le> unat base + unat len \<and> f < MAX_PHYSICAL_FRAMES
      then v else reserved s f)"
proof -
  have arith: "(min (min (b + 4095) 18446744073709551615 div 4096) 1048576 \<le> f \<and>
      f < min (min (b + l) 18446744073709551615) 4294967296 div 4096) \<longleftrightarrow>
     (b \<le> 4096 * f \<and> 4096 * (f + 1) \<le> b + l \<and> f < MAX_PHYSICAL_FRAMES)" for b l :: nat
    unfolding min_le_iff_disj page_div_le page_less_div MAX_PHYSICAL_FRAMES_def
    by (auto simp: min_def)
  show ?thesis
    by (simp add: mark_range_def reserved_def Let_def bitmap_bit_mark_frames mark_range_bounds
        arith)
qed

lemma mark_reserved_range_reserved:
  "reserved (mark_reserved_range base len s) f \<longleftrightarrow>
     reserved s f \<or>
     (unat base < 4096 * (f + 1) \<and> 4096 * f < unat base + unat len \<and> f < MAX_PHYSICAL_FRAMES)"
proof -
  have arith: "(min (b div 4096) 1048576 \<le> f \<and>
      f < min (min (min (b + l) 18446744073709551615 + 4095) 18446744073709551615) 4294967296 div 4096) \<longleftrightarrow>
     (b < 4096 * (f + 1) \<and> 4096 * f < b + l \<and> f < MAX_PHYSICAL_FRAMES)" for b l :: nat
    unfolding min_le_iff_disj page_div_le page_less_div MAX_PHYSICAL_FRAMES_def
    by (auto simp: min_def)
  show ?thesis
    by (auto simp add: mark_reserved_range_def reserved_def Let_def bitmap_bit_mark_frames
        mark_reserved_range_bounds arith)
qed

definition usable_frame :: "memory_region list \<Rightarrow> nat \<Rightarrow> bool" where
  "usable_frame regions f \<longleftrightarrow> list_ex (\<lambda>r. region_kind r = Usable \<and>
     unat (region_base r) \<le> 4096 * f \<and>
     4096 * (f + 1) \<le> unat (region_base r) + unat (region_length r)) regions"

definition touched_frame :: "memory_range list \<Rightarrow> nat \<Rightarrow> bool" where
  "touched_frame ranges f \<longleftrightarrow> list_ex (\<lambda>r. unat (range_base r) < 4096 * (f + 1) \<and>
     4096 * f < unat (range_base r) + unat (range_length r)) ranges"

lemma fold_mark_usable:
  "reserved (fold (\<lambda>r s. if region_kind r = Usable
       then mark_range (region_base r) (region_length r) False s else s) regions s) f \<longleftrightarrow>
     reserved s f \<and> \<not> (usable_frame regions f \<and> f < MAX_PHYSICAL_FRAMES)"
  by (induction regions arbitrary: s) (auto simp: usable_frame_def mark_range_reserved)

lemma fold_mark_ranges:
  "reserved (fold (\<lambda>r s. mark_reserved_range (range_base r) (range_length r) s) ranges s) f \<longleftrightarrow>
     reserved s f \<or> (touched_frame ranges f \<and> f < MAX_PHYSICAL_FRAMES)"
  by (induction ranges arbitrary: s) (auto simp: touched_frame_def mark_reserved_range_reserved)

lemma mark_frame_fields:
  "allocated_bitmap (mark_range b l v s) = allocated_bitmap s"
  "allocated_bitmap (mark_reserved_range b l s) = allocated_bitmap s"
  by (simp_all add: mark_range_def mark_reserved_range_def Let_def)

lemma fold_mark_allocated:
  "allocated_bitmap (fold (\<lambda>r s. if region_kind r = Usable
       then mark_range (region_base r) (region_length r) False s else s) regions s) = allocated_bitmap s"
  "allocated_bitmap (fold (\<lambda>r s. mark_reserved_range (range_base r) (range_length r) s) ranges s) =
     allocated_bitmap s"
  by (induction regions arbitrary: s) (simp_all add: mark_frame_fields,
      induction ranges arbitrary: s, simp_all add: mark_frame_fields)

lemma bitmap_bit_constant [simp]:
  "bitmap_bit (\<lambda>_. - 1) f" "\<not> bitmap_bit (\<lambda>_. 0) f"
  by (simp_all add: bitmap_bit_iff)

lemma init_bitmaps_reserved:
  "reserved (init_bitmaps regions ranges s) f \<longleftrightarrow>
     \<not> (usable_frame regions f \<and> f < MAX_PHYSICAL_FRAMES) \<or>
     (4096 * f < 1048576 \<and> f < MAX_PHYSICAL_FRAMES) \<or>
     (touched_frame ranges f \<and> f < MAX_PHYSICAL_FRAMES)"
proof -
  have "reserved (s\<lparr>frame_bitmap := \<lambda>_. - 1, allocated_bitmap := \<lambda>_. 0\<rparr>) f"
    by (simp add: reserved_def)
  then show ?thesis
    by (simp add: init_bitmaps_def fold_mark_ranges mark_reserved_range_reserved fold_mark_usable)
qed

lemma init_bitmaps_allocated:
  "allocated_bitmap (init_bitmaps regions ranges s) = (\<lambda>_. 0)"
  by (simp add: init_bitmaps_def fold_mark_allocated mark_frame_fields)

lemma set_stats_sets [simp]:
  "free_set (s\<lparr>mem_stats := x\<rparr>) = free_set s" "owned_set (s\<lparr>mem_stats := x\<rparr>) = owned_set s"
  by (simp_all add: free_set_def owned_set_def reserved_def)

lemma frames_initialized:
  "(case frames_initialize regions ranges s of (stats, s') \<Rightarrow>
     free_set s' = {f. f < MAX_PHYSICAL_FRAMES \<and> 256 \<le> f \<and> usable_frame regions f \<and>
       \<not> touched_frame ranges f} \<and>
     owned_set s' = {} \<and> free_frames stats = card (free_set s') \<and>
     tracked_frames stats = MAX_PHYSICAL_FRAMES \<and> mem_stats s' = stats)"
proof -
  let ?s = "init_bitmaps regions ranges s"
  have "free_set ?s = {f. f < MAX_PHYSICAL_FRAMES \<and> 256 \<le> f \<and> usable_frame regions f \<and>
       \<not> touched_frame ranges f}"
    by (auto simp: free_set_def init_bitmaps_reserved)
  moreover have "owned_set ?s = {}"
    by (simp add: owned_set_def init_bitmaps_allocated)
  ultimately show ?thesis
    by (simp add: frames_initialize_def Let_def count_free_card)
qed

lemma frames_initialized_inv:
  "frames_inv (snd (frames_initialize regions ranges s))"
  "owned_set (snd (frames_initialize regions ranges s)) = {}"
  using frames_initialized [of regions ranges s]
  by (auto simp: frames_inv_def split: prod.splits)

text \<open>
  After initialisation exactly those frames are free that lie wholly inside a usable
  region of the boot memory map, above the first MiB, and are not touched by any reserved
  range; nothing is handed out, and the reported free count is the number of such frames.
\<close>

theorem frames_initialize_exact:
  "(case frames_initialize regions ranges s of (stats, s') \<Rightarrow>
     free_set s' = {f. f < MAX_PHYSICAL_FRAMES \<and> 256 \<le> f \<and> usable_frame regions f \<and>
       \<not> touched_frame ranges f} \<and>
     owned_set s' = {} \<and> free_frames stats = card (free_set s') \<and>
     tracked_frames stats = MAX_PHYSICAL_FRAMES \<and> mem_stats s' = stats)"
  by (rule frames_initialized)

section \<open>The allocator refines its abstract specification\<close>

definition abs_frames :: "frame_state \<Rightarrow> nat set \<times> nat set" where
  "abs_frames s = (free_set s, owned_set s)"

definition spec_allocate :: "nat set \<times> nat set \<Rightarrow> u64 option \<times> nat set \<times> nat set" where
  "spec_allocate = (\<lambda>(F, A). if F = {} then (None, F, A)
     else (Some (frame_address (Min F)), F - {Min F}, insert (Min F) A))"

definition spec_free :: "u64 \<Rightarrow> nat set \<times> nat set \<Rightarrow> nat set \<times> nat set" where
  "spec_free a = (\<lambda>(F, A). let f = unat a div 4096
     in if unat a mod 4096 = 0 \<and> f \<in> A then (insert f F, A - {f}) else (F, A))"

lemma frame_address_div:
  assumes "unat a mod 4096 = 0" and "unat a div 4096 < MAX_PHYSICAL_FRAMES"
  shows "a = frame_address (unat a div 4096)"
proof -
  have "unat a = unat (frame_address (unat a div 4096))"
    using assms(1) by (simp add: unat_frame_address [OF assms(2)] mod_0_imp_dvd)
  then show ?thesis by (rule unsigned_word_eqI)
qed

text \<open>
  \<open>allocate\<close> hands out the lowest free frame and fails only when none is free;
  \<open>free\<close> returns a frame exactly when its address is page aligned and was handed out,
  and ignores every other address.
\<close>

theorem frames_refine_spec:
  "(case frames_allocate s of (r, s') \<Rightarrow> (r, abs_frames s') = spec_allocate (abs_frames s)) \<and>
   abs_frames (frames_free a s) = spec_free a (abs_frames s)"
proof
  show "case frames_allocate s of (r, s') \<Rightarrow> (r, abs_frames s') = spec_allocate (abs_frames s)"
  proof (cases rule: allocate_cases [of s])
    case none
    then show ?thesis by (simp add: spec_allocate_def abs_frames_def)
  next
    case (some f s')
    then have "Min (free_set s) = f" by (intro Min_eqI) auto
    with some show ?thesis by (auto simp: spec_allocate_def abs_frames_def)
  qed
  show "abs_frames (frames_free a s) = spec_free a (abs_frames s)"
  proof (cases "unat a mod 4096 = 0 \<and> unat a div 4096 \<in> owned_set s")
    case True
    then have "a = frame_address (unat a div 4096)"
      by (intro frame_address_div) (auto dest: owned_setD)
    with True show ?thesis
      using frames_free_owned [of "unat a div 4096" s]
      by (auto simp: abs_frames_def spec_free_def Let_def)
  next
    case False
    then show ?thesis
      by (auto simp: abs_frames_def spec_free_def Let_def frames_free_ignored)
  qed
qed

section \<open>Runs of the allocator\<close>

datatype frame_op = Alloc | Free u64

fun frames_step :: "frame_op \<Rightarrow> frame_state \<times> u64 list \<Rightarrow> frame_state \<times> u64 list" where
  "frames_step Alloc (s, live) =
     (case frames_allocate s of (Some a, s') \<Rightarrow> (s', a # live) | (None, s') \<Rightarrow> (s', live))"
| "frames_step (Free a) (s, live) = (frames_free a s, removeAll a live)"

definition frames_run :: "frame_op list \<Rightarrow> frame_state \<Rightarrow> frame_state \<times> u64 list" where
  "frames_run ops s = fold frames_step ops (s, [])"

text \<open>The frames an initial state offers are conserved between the two sets.\<close>

definition run_inv :: "nat set \<Rightarrow> frame_state \<times> u64 list \<Rightarrow> bool" where
  "run_inv F0 = (\<lambda>(s, live). frames_inv s \<and> free_set s \<union> owned_set s = F0 \<and>
     distinct live \<and> set live = frame_address ` owned_set s)"

lemma frames_inv_allocate:
  assumes "frames_inv s" and "frames_allocate s = (r, s')"
  shows "frames_inv s'"
proof (cases rule: allocate_cases [of s])
  case none
  then show ?thesis using assms by simp
next
  case (some f t)
  then show ?thesis using assms by (auto simp: frames_inv_def card_Diff_singleton)
qed

lemma frames_inv_free:
  assumes "frames_inv s"
  shows "frames_inv (frames_free a s)"
proof (cases "unat a mod 4096 = 0 \<and> unat a div 4096 \<in> owned_set s")
  case True
  let ?f = "unat a div 4096"
  from True have a: "a = frame_address ?f"
    by (intro frame_address_div) (auto dest: owned_setD)
  have notin: "?f \<notin> free_set s" using assms True by (auto simp: frames_inv_def)
  show ?thesis
    using assms frames_free_owned [of ?f s] True notin unfolding a [symmetric]
    by (auto simp: frames_inv_def)
next
  case False
  then show ?thesis using assms by (simp add: frames_free_ignored)
qed

lemma frame_address_inj: "inj_on frame_address {..<MAX_PHYSICAL_FRAMES}"
  by (auto simp: inj_on_def frame_address_inject)

lemma frame_address_image_iff:
  "f < MAX_PHYSICAL_FRAMES \<Longrightarrow> S \<subseteq> {..<MAX_PHYSICAL_FRAMES} \<Longrightarrow>
     frame_address f \<in> frame_address ` S \<longleftrightarrow> f \<in> S"
  by (metis frame_address_inj inj_on_image_mem_iff lessThan_iff)

lemma owned_subset: "owned_set s \<subseteq> {..<MAX_PHYSICAL_FRAMES}"
  by (auto simp: owned_set_def)

lemma free_subset: "free_set s \<subseteq> {..<MAX_PHYSICAL_FRAMES}"
  by (auto simp: free_set_def)

lemma run_inv_step:
  assumes "run_inv F0 (s, live)"
  shows "run_inv F0 (frames_step op (s, live))"
proof (cases op)
  case Alloc
  show ?thesis
  proof (cases rule: allocate_cases [of s])
    case none
    then show ?thesis using assms Alloc by simp
  next
    case (some f t)
    have inv: "frames_inv t"
      using assms frames_inv_allocate [OF _ some(1)] by (simp add: run_inv_def)
    have "f \<notin> owned_set s" using assms some(2) by (auto simp: run_inv_def frames_inv_def)
    then have "frame_address f \<notin> set live"
      using assms some(2) frame_address_image_iff [OF free_setD owned_subset]
      by (auto simp: run_inv_def)
    then show ?thesis using assms inv some Alloc by (auto simp: run_inv_def)
  qed
next
  case (Free a)
  have inv: "frames_inv (frames_free a s)"
    using assms frames_inv_free by (simp add: run_inv_def)
  show ?thesis
  proof (cases "unat a mod 4096 = 0 \<and> unat a div 4096 \<in> owned_set s")
    case True
    let ?f = "unat a div 4096"
    from True have a: "a = frame_address ?f" and f: "?f \<in> owned_set s"
      by (auto intro: frame_address_div dest: owned_setD)
    have "frame_address ` (owned_set s - {?f}) = frame_address ` owned_set s - {a}"
      using inj_on_image_set_diff [OF frame_address_inj, of "owned_set s" "{?f}"] f a
        owned_subset [of s] by auto
    then show ?thesis
      using assms inv Free frames_free_owned [OF f] f unfolding a [symmetric]
      by (auto simp: run_inv_def distinct_removeAll)
  next
    case False
    have "a \<notin> frame_address ` owned_set s"
      using False by (auto simp: unat_frame_address [OF owned_setD])
    then show ?thesis
      using assms Free False by (simp add: run_inv_def frames_free_ignored)
  qed
qed

lemma run_inv_run: "run_inv F0 st \<Longrightarrow> run_inv F0 (fold frames_step ops st)"
proof (induction ops arbitrary: st)
  case (Cons op ops)
  obtain s live where "st = (s, live)" by fastforce
  with Cons.prems have "run_inv F0 (frames_step op st)" by (simp add: run_inv_step)
  then show ?case using Cons.IH by simp
qed simp

text \<open>
  C32: whatever sequence of \<open>allocate\<close> and \<open>free\<close> calls follows initialisation, no
  address is handed out twice without a \<open>free\<close> in between, the handed-out frames are
  never free at the same time, no frame that initialisation reserved ever becomes
  allocatable, and the free counter is the number of free frames.
\<close>

theorem frames_run_safe:
  "(case frames_initialize regions ranges s of (stats, s0) \<Rightarrow>
    case frames_run ops s0 of (s', live) \<Rightarrow>
      distinct live \<and> set live = frame_address ` owned_set s' \<and>
      free_set s' \<inter> owned_set s' = {} \<and> free_set s' \<union> owned_set s' = free_set s0 \<and>
      free_frames (frames_stats s') = card (free_set s'))"
proof -
  obtain stats s0 where s0: "frames_initialize regions ranges s = (stats, s0)" by fastforce
  with frames_initialized [of regions ranges s]
  have "run_inv (free_set s0) (s0, [])" by (auto simp: run_inv_def frames_inv_def)
  then have "run_inv (free_set s0) (frames_run ops s0)"
    unfolding frames_run_def by (rule run_inv_run)
  then show ?thesis using s0
    by (auto simp: run_inv_def frames_inv_def frames_stats_def split: prod.splits)
qed

section \<open>The contract of the frame allocator\<close>

text \<open>What the paging code, the loader and the drivers rely on.\<close>

locale frame_allocator =
  fixes allocate :: "'s \<Rightarrow> u64 option \<times> 's"
    and release :: "u64 \<Rightarrow> 's \<Rightarrow> 's"
    and avail :: "'s \<Rightarrow> u64 set"
    and owned :: "'s \<Rightarrow> u64 set"
    and valid :: "'s \<Rightarrow> bool"
  assumes allocate_None: "allocate s = (None, s') \<Longrightarrow> s' = s \<and> avail s = {}"
    and allocate_Some: "allocate s = (Some a, s') \<Longrightarrow>
      a \<in> avail s \<and> avail s' = avail s - {a} \<and> owned s' = insert a (owned s)"
    and release_owned: "a \<in> owned s \<Longrightarrow>
      avail (release a s) = insert a (avail s) \<and> owned (release a s) = owned s - {a}"
    and release_foreign: "a \<notin> owned s \<Longrightarrow> release a s = s"
    and disjoint: "valid s \<Longrightarrow> avail s \<inter> owned s = {}"
    and valid_allocate: "valid s \<Longrightarrow> allocate s = (r, s') \<Longrightarrow> valid s'"
    and valid_release: "valid s \<Longrightarrow> valid (release a s)"
    and frame_aligned: "a \<in> avail s \<union> owned s \<Longrightarrow> unat a mod 4096 = 0 \<and> unat a < 4294967296"
begin

lemma conserved: "allocate s = (r, s') \<Longrightarrow> avail s' \<union> owned s' = avail s \<union> owned s"
  using allocate_None [of s s'] allocate_Some [of s _ s'] by (cases r) auto

lemma conserved_release: "avail (release a s) \<union> owned (release a s) = avail s \<union> owned s"
  using release_owned [of a s] release_foreign [of a s] by (cases "a \<in> owned s") auto

lemma fresh: "valid s \<Longrightarrow> allocate s = (Some a, s') \<Longrightarrow> a \<notin> owned s \<and> a \<in> owned s'"
  using allocate_Some [of s a s'] disjoint [of s] by auto

lemma allocated_aligned:
  "allocate s = (Some a, s') \<Longrightarrow> unat a mod 4096 = 0 \<and> unat a < 4294967296"
  using allocate_Some frame_aligned by blast

lemma allocate_then_release:
  assumes "valid s" and "allocate s = (Some a, s')"
  shows "avail (release a s') = avail s \<and> owned (release a s') = owned s"
  using allocate_Some [OF assms(2)] fresh [OF assms] release_owned [of a s'] by auto

lemma owned_kept: "allocate s = (r, s') \<Longrightarrow> b \<in> owned s \<Longrightarrow> b \<in> owned s'"
  using allocate_None [of s s'] allocate_Some [of s _ s'] by (cases r) auto

end

definition avail_frames :: "frame_state \<Rightarrow> u64 set" where
  "avail_frames s = frame_address ` free_set s"

definition owned_frames :: "frame_state \<Rightarrow> u64 set" where
  "owned_frames s = frame_address ` owned_set s"

lemma frame_sets_bounded:
  "a \<in> avail_frames s \<union> owned_frames s \<Longrightarrow>
     \<exists>f < MAX_PHYSICAL_FRAMES. a = frame_address f"
  by (auto simp: avail_frames_def owned_frames_def dest: free_setD owned_setD)

lemma owned_frames_iff:
  "a \<in> owned_frames s \<longleftrightarrow> unat a mod 4096 = 0 \<and> unat a div 4096 \<in> owned_set s"
proof
  assume "a \<in> owned_frames s"
  then show "unat a mod 4096 = 0 \<and> unat a div 4096 \<in> owned_set s"
    by (auto simp: owned_frames_def unat_frame_address [OF owned_setD])
next
  assume *: "unat a mod 4096 = 0 \<and> unat a div 4096 \<in> owned_set s"
  then have "a = frame_address (unat a div 4096)"
    by (intro frame_address_div) (auto dest: owned_setD)
  then show "a \<in> owned_frames s" using * by (auto simp: owned_frames_def)
qed

lemma image_minus_frame:
  "f < MAX_PHYSICAL_FRAMES \<Longrightarrow> S \<subseteq> {..<MAX_PHYSICAL_FRAMES} \<Longrightarrow>
     frame_address ` (S - {f}) = frame_address ` S - {frame_address f}"
  using frame_address_inject by fastforce

interpretation fa: frame_allocator frames_allocate frames_free avail_frames owned_frames frames_inv
proof
  fix s s' assume "frames_allocate s = (None, s')"
  then show "s' = s \<and> avail_frames s = {}"
    by (cases rule: allocate_cases [of s]) (auto simp: avail_frames_def)
next
  fix s s' a assume "frames_allocate s = (Some a, s')"
  then show "a \<in> avail_frames s \<and> avail_frames s' = avail_frames s - {a} \<and>
      owned_frames s' = insert a (owned_frames s)"
  proof (cases rule: allocate_cases [of s])
    case (some f t)
    then have "t = s'" and "a = frame_address f"
      using \<open>frames_allocate s = (Some a, s')\<close> by simp_all
    with some show ?thesis
      by (simp add: avail_frames_def owned_frames_def image_minus_frame free_setD free_subset)
  qed (use \<open>frames_allocate s = (Some a, s')\<close> in simp)
next
  fix a s assume "a \<in> owned_frames s"
  then obtain f where "a = frame_address f" and "f \<in> owned_set s"
    by (auto simp: owned_frames_def)
  then show "avail_frames (frames_free a s) = insert a (avail_frames s) \<and>
      owned_frames (frames_free a s) = owned_frames s - {a}"
    using frames_free_owned [of f s]
    by (simp add: avail_frames_def owned_frames_def image_minus_frame owned_setD owned_subset)
next
  fix a s assume "a \<notin> owned_frames s"
  then show "frames_free a s = s"
    by (intro frames_free_ignored) (auto simp: owned_frames_iff)
next
  fix s assume "frames_inv s"
  then show "avail_frames s \<inter> owned_frames s = {}"
    unfolding avail_frames_def owned_frames_def frames_inv_def
    using inj_on_image_Int [OF frame_address_inj free_subset owned_subset, of s s] by simp
next
  fix a s assume "a \<in> avail_frames s \<union> owned_frames s"
  then obtain f where "f < MAX_PHYSICAL_FRAMES" and "a = frame_address f"
    using frame_sets_bounded by blast
  then show "unat a mod 4096 = 0 \<and> unat a < 4294967296"
    by (simp add: unat_frame_address MAX_PHYSICAL_FRAMES_def)
qed (auto intro: frames_inv_allocate frames_inv_free)

end
