(* ===== verification/Pty.thy ===== *)
theory Pty
  imports Prelude
begin

text \<open>
  Pseudo-terminals, \<open>kernel-core/src/pty.rs\<close>: a fixed pool of four pairs of 256-byte
  rings.  The caller's process (\<open>owner_process()\<close>) is an argument of the operations
  that ask for it.  The specification of the pool is a partial map from handles to the
  owner and the two pending byte queues; every operation refines it.
\<close>

section \<open>The byte ring\<close>

definition PTY_COUNT :: nat where "PTY_COUNT = 4"
definition RING_CAPACITY :: nat where "RING_CAPACITY = 256"

record ring =
  ring_buffer :: "u8 list"
  ring_head :: nat
  ring_count :: nat

definition ring_empty :: ring where
  "ring_empty = \<lparr>ring_buffer = replicate RING_CAPACITY 0, ring_head = 0, ring_count = 0\<rparr>"

definition ring_reset :: "ring \<Rightarrow> ring" where
  "ring_reset r = r\<lparr>ring_head := 0, ring_count := 0\<rparr>"

definition ring_push :: "u8 \<Rightarrow> ring \<Rightarrow> bool \<times> ring" where
  "ring_push byte r =
     (if ring_count r = RING_CAPACITY then (False, r)
      else (True, r\<lparr>ring_buffer := (ring_buffer r)[(ring_head r + ring_count r) mod RING_CAPACITY := byte],
                    ring_count := ring_count r + 1\<rparr>))"

definition ring_pop :: "ring \<Rightarrow> u8 option \<times> ring" where
  "ring_pop r =
     (if ring_count r = 0 then (None, r)
      else (Some (ring_buffer r ! ring_head r),
            r\<lparr>ring_head := (ring_head r + 1) mod RING_CAPACITY, ring_count := ring_count r - 1\<rparr>))"

definition ring_contents :: "ring \<Rightarrow> u8 list" where
  "ring_contents r = ring_window RING_CAPACITY (ring_buffer r) (ring_head r) (ring_count r)"

definition ring_wf :: "ring \<Rightarrow> bool" where
  "ring_wf r \<longleftrightarrow> length (ring_buffer r) = RING_CAPACITY \<and> ring_head r < RING_CAPACITY \<and>
     ring_count r \<le> RING_CAPACITY"

interpretation byte_ring: bounded_fifo ring_push ring_pop ring_contents ring_wf RING_CAPACITY
proof
  fix r x assume "ring_wf r" and "length (ring_contents r) < RING_CAPACITY"
  then show "\<exists>r'. ring_push x r = (True, r') \<and> ring_wf r' \<and> ring_contents r' = ring_contents r @ [x]"
    by (auto simp: ring_push_def ring_wf_def ring_contents_def ring_window_push)
next
  fix r x xs assume "ring_wf r" and "ring_contents r = x # xs"
  then show "\<exists>r'. ring_pop r = (Some x, r') \<and> ring_wf r' \<and> ring_contents r' = xs"
    using ring_window_pop [of "ring_count r" "ring_head r" RING_CAPACITY "ring_buffer r"]
    by (cases "ring_count r") (auto simp: ring_pop_def ring_wf_def ring_contents_def)
qed (auto simp: ring_push_def ring_pop_def ring_wf_def ring_contents_def ring_window_def)

lemma ring_reset_contents [simp]: "ring_contents (ring_reset r) = []"
  by (simp add: ring_reset_def ring_contents_def)

lemma ring_reset_wf [simp]: "ring_wf r \<Longrightarrow> ring_wf (ring_reset r)"
  by (auto simp: ring_reset_def ring_wf_def)

section \<open>The pool\<close>

record pty =
  pty_allocated :: bool
  pty_owner :: "nat option"
  to_master :: ring
  to_slave :: ring

definition pty_empty :: pty where
  "pty_empty = \<lparr>pty_allocated = False, pty_owner = None, to_master = ring_empty, to_slave = ring_empty\<rparr>"

definition ptys_initial :: "pty list" where
  "ptys_initial = replicate PTY_COUNT pty_empty"

definition get_pty :: "nat \<Rightarrow> pty list \<Rightarrow> pty option" where
  "get_pty i ptys = (if i < length ptys then Some (ptys ! i) else None)"

definition pty_open :: "nat option \<Rightarrow> pty list \<Rightarrow> nat option \<times> pty list" where
  "pty_open process ptys =
     (case process of
        None \<Rightarrow> (None, ptys)
      | Some owner \<Rightarrow>
          (case find_index (\<lambda>p. \<not> pty_allocated p) ptys of
             None \<Rightarrow> (None, ptys)
           | Some index \<Rightarrow>
               (let p = ptys ! index
                in (Some index,
                    ptys[index := p\<lparr>pty_allocated := True, pty_owner := Some owner,
                                    to_master := ring_reset (to_master p),
                                    to_slave := ring_reset (to_slave p)\<rparr>]))))"

definition pty_exists :: "nat \<Rightarrow> pty list \<Rightarrow> bool" where
  "pty_exists i ptys = (case get_pty i ptys of None \<Rightarrow> False | Some p \<Rightarrow> pty_allocated p)"

definition pty_close :: "nat option \<Rightarrow> nat \<Rightarrow> pty list \<Rightarrow> bool \<times> pty list" where
  "pty_close process i ptys =
     (case process of
        None \<Rightarrow> (False, ptys)
      | Some owner \<Rightarrow>
          (case get_pty i ptys of
             None \<Rightarrow> (False, ptys)
           | Some p \<Rightarrow>
               if \<not> pty_allocated p \<or> pty_owner p \<noteq> Some owner then (False, ptys)
               else (True, ptys[i := p\<lparr>pty_allocated := False, pty_owner := None,
                                        to_master := ring_reset (to_master p),
                                        to_slave := ring_reset (to_slave p)\<rparr>])))"

text \<open>The number of bytes delivered and the caller's buffer with them stored at its start.\<close>

definition pty_read_master ::
  "nat option \<Rightarrow> nat \<Rightarrow> u8 list \<Rightarrow> pty list \<Rightarrow> (nat \<times> u8 list) option \<times> pty list" where
  "pty_read_master process i output ptys =
     (case process of
        None \<Rightarrow> (None, ptys)
      | Some owner \<Rightarrow>
          (case get_pty i ptys of
             None \<Rightarrow> (None, ptys)
           | Some p \<Rightarrow>
               if \<not> pty_allocated p \<or> pty_owner p \<noteq> Some owner then (None, ptys)
               else (case drain ring_pop (length output) (to_master p) of
                       (bytes, r) \<Rightarrow>
                         (Some (length bytes, store_bytes output 0 bytes),
                          ptys[i := p\<lparr>to_master := r\<rparr>]))))"

definition pty_write_master :: "nat option \<Rightarrow> nat \<Rightarrow> u8 list \<Rightarrow> pty list \<Rightarrow> nat option \<times> pty list" where
  "pty_write_master process i input ptys =
     (case process of
        None \<Rightarrow> (None, ptys)
      | Some owner \<Rightarrow>
          (case get_pty i ptys of
             None \<Rightarrow> (None, ptys)
           | Some p \<Rightarrow>
               if \<not> pty_allocated p \<or> pty_owner p \<noteq> Some owner then (None, ptys)
               else (case feed ring_push input (to_slave p) of
                       (count, r) \<Rightarrow> (Some count, ptys[i := p\<lparr>to_slave := r\<rparr>]))))"

definition pty_slave_write :: "nat \<Rightarrow> u8 list \<Rightarrow> pty list \<Rightarrow> pty list" where
  "pty_slave_write i bytes ptys =
     (case get_pty i ptys of
        None \<Rightarrow> ptys
      | Some p \<Rightarrow>
          if \<not> pty_allocated p then ptys
          else ptys[i := p\<lparr>to_master := snd (feed ring_push bytes (to_master p))\<rparr>])"

definition pty_slave_poll_key :: "nat \<Rightarrow> pty list \<Rightarrow> u8 option \<times> pty list" where
  "pty_slave_poll_key i ptys =
     (case get_pty i ptys of
        None \<Rightarrow> (None, ptys)
      | Some p \<Rightarrow>
          if \<not> pty_allocated p then (None, ptys)
          else (case ring_pop (to_slave p) of (b, r) \<Rightarrow> (b, ptys[i := p\<lparr>to_slave := r\<rparr>])))"

section \<open>Specification: open pseudo-terminals as a map\<close>

type_synonym pty_spec = "nat \<Rightarrow> (nat option \<times> u8 list \<times> u8 list) option"

definition ptys_wf :: "pty list \<Rightarrow> bool" where
  "ptys_wf ptys \<longleftrightarrow> length ptys = PTY_COUNT \<and>
     (\<forall>p \<in> set ptys. ring_wf (to_master p) \<and> ring_wf (to_slave p) \<and>
        (pty_allocated p \<longleftrightarrow> pty_owner p \<noteq> None))"

definition abs_ptys :: "pty list \<Rightarrow> pty_spec" where
  "abs_ptys ptys i =
     (if i < length ptys \<and> pty_allocated (ptys ! i)
      then Some (pty_owner (ptys ! i), ring_contents (to_master (ptys ! i)),
                 ring_contents (to_slave (ptys ! i)))
      else None)"

datatype pty_op = PtyOpen | PtyClose nat | PtyRead nat "u8 list" | PtyWrite nat "u8 list"
  | SlaveWrite nat "u8 list" | SlavePoll nat

datatype pty_result = Refused | Done | Handle nat | Count nat | Bytes nat "u8 list" | Key "u8 option"

fun pty_exec :: "nat option \<Rightarrow> pty_op \<Rightarrow> pty list \<Rightarrow> pty_result \<times> pty list" where
  "pty_exec process PtyOpen ptys =
     (case pty_open process ptys of (r, ptys') \<Rightarrow>
        (case r of None \<Rightarrow> Refused | Some i \<Rightarrow> Handle i, ptys'))"
| "pty_exec process (PtyClose i) ptys =
     (case pty_close process i ptys of (r, ptys') \<Rightarrow> (if r then Done else Refused, ptys'))"
| "pty_exec process (PtyRead i output) ptys =
     (case pty_read_master process i output ptys of (r, ptys') \<Rightarrow>
        (case r of None \<Rightarrow> Refused | Some (n, out) \<Rightarrow> Bytes n out, ptys'))"
| "pty_exec process (PtyWrite i input) ptys =
     (case pty_write_master process i input ptys of (r, ptys') \<Rightarrow>
        (case r of None \<Rightarrow> Refused | Some n \<Rightarrow> Count n, ptys'))"
| "pty_exec process (SlaveWrite i bytes) ptys = (Done, pty_slave_write i bytes ptys)"
| "pty_exec process (SlavePoll i) ptys =
     (case pty_slave_poll_key i ptys of (r, ptys') \<Rightarrow> (Key r, ptys'))"

text \<open>
  The specification: bytes travel in order, each direction holds at most 256 pending
  bytes, only the owner reads, writes or closes the master side, a fresh handle starts
  with nothing pending.
\<close>

definition owned_by :: "nat option \<Rightarrow> nat \<Rightarrow> pty_spec \<Rightarrow> bool" where
  "owned_by process i m \<longleftrightarrow> process \<noteq> None \<and> (\<exists>a b. m i = Some (process, a, b))"

fun pty_spec_exec :: "nat option \<Rightarrow> pty_op \<Rightarrow> pty_spec \<Rightarrow> pty_result \<times> pty_spec" where
  "pty_spec_exec process PtyOpen m =
     (if process = None \<or> (\<forall>i < PTY_COUNT. m i \<noteq> None) then (Refused, m)
      else let i = LEAST i. m i = None in (Handle i, m(i \<mapsto> (process, [], []))))"
| "pty_spec_exec process (PtyClose i) m =
     (if owned_by process i m then (Done, m(i := None)) else (Refused, m))"
| "pty_spec_exec process (PtyRead i output) m =
     (if owned_by process i m
      then case m i of Some (o', a, b) \<Rightarrow>
        (let n = min (length output) (length a)
         in (Bytes n (take n a @ drop n output), m(i \<mapsto> (o', drop n a, b))))
      else (Refused, m))"
| "pty_spec_exec process (PtyWrite i input) m =
     (if owned_by process i m
      then case m i of Some (o', a, b) \<Rightarrow>
        (let n = min (length input) (RING_CAPACITY - length b)
         in (Count n, m(i \<mapsto> (o', a, b @ take n input))))
      else (Refused, m))"
| "pty_spec_exec process (SlaveWrite i bytes) m =
     (case m i of
        None \<Rightarrow> (Done, m)
      | Some (o', a, b) \<Rightarrow> (Done, m(i \<mapsto> (o', a @ take (RING_CAPACITY - length a) bytes, b))))"
| "pty_spec_exec process (SlavePoll i) m =
     (case m i of
        None \<Rightarrow> (Key None, m)
      | Some (o', a, []) \<Rightarrow> (Key None, m)
      | Some (o', a, x # b) \<Rightarrow> (Key (Some x), m(i \<mapsto> (o', a, b))))"

section \<open>Refinement\<close>

definition pty_wf :: "pty \<Rightarrow> bool" where
  "pty_wf p \<longleftrightarrow> ring_wf (to_master p) \<and> ring_wf (to_slave p) \<and>
     (pty_allocated p \<longleftrightarrow> pty_owner p \<noteq> None)"

definition abs_pty :: "pty \<Rightarrow> (nat option \<times> u8 list \<times> u8 list) option" where
  "abs_pty p = (if pty_allocated p
     then Some (pty_owner p, ring_contents (to_master p), ring_contents (to_slave p)) else None)"

lemma ptys_wf_iff: "ptys_wf ptys \<longleftrightarrow> length ptys = PTY_COUNT \<and> (\<forall>p \<in> set ptys. pty_wf p)"
  by (auto simp: ptys_wf_def pty_wf_def)

lemma abs_ptys_nth: "abs_ptys ptys i = (if i < length ptys then abs_pty (ptys ! i) else None)"
  by (simp add: abs_ptys_def abs_pty_def)

lemma abs_ptys_update:
  "i < length ptys \<Longrightarrow> abs_ptys (ptys[i := p]) = (abs_ptys ptys)(i := abs_pty p)"
  by (auto simp: abs_ptys_nth)

lemma ptys_wf_update: "ptys_wf ptys \<Longrightarrow> pty_wf p \<Longrightarrow> ptys_wf (ptys[i := p])"
  by (auto simp: ptys_wf_iff dest!: set_update_subset_insert [THEN subsetD])

lemma ptys_wf_nth: "ptys_wf ptys \<Longrightarrow> i < length ptys \<Longrightarrow> pty_wf (ptys ! i)"
  by (simp add: ptys_wf_iff)

lemma ptys_initial_wf: "ptys_wf ptys_initial" "abs_ptys ptys_initial = Map.empty"
  by (auto simp: ptys_wf_def ptys_initial_def pty_empty_def ring_wf_def ring_empty_def
      RING_CAPACITY_def abs_ptys_def fun_eq_iff)

text \<open>What an operation on the pty behind a valid handle must show.\<close>

lemma refine_at:
  assumes "ptys_wf ptys" and "i < length ptys" and "pty_wf p"
    and "m' = (abs_ptys ptys)(i := abs_pty p)"
  shows "ptys_wf (ptys[i := p]) \<and> abs_ptys (ptys[i := p]) = m'"
  using assms by (simp add: ptys_wf_update abs_ptys_update)

lemma open_index:
  assumes "ptys_wf ptys"
  shows "find_index (\<lambda>p. \<not> pty_allocated p) ptys =
    (if \<forall>i < PTY_COUNT. abs_ptys ptys i \<noteq> None then None else Some (LEAST i. abs_ptys ptys i = None))"
proof (cases "find_index (\<lambda>p. \<not> pty_allocated p) ptys")
  case None
  then show ?thesis using assms by (auto simp: loop_simps abs_ptys_nth abs_pty_def ptys_wf_iff)
next
  case (Some k)
  then have k: "k < length ptys" "abs_ptys ptys k = None" "\<forall>j < k. abs_ptys ptys j \<noteq> None"
    by (auto simp: loop_simps abs_ptys_nth abs_pty_def)
  then have "(LEAST i. abs_ptys ptys i = None) = k"
    by (intro Least_equality) (auto intro: leI)
  then show ?thesis using Some k assms by (auto simp: ptys_wf_iff)
qed

lemma refine_open:
  assumes "ptys_wf ptys" and "pty_exec process PtyOpen ptys = (r, ptys')"
  shows "ptys_wf ptys' \<and> (r, abs_ptys ptys') = pty_spec_exec process PtyOpen (abs_ptys ptys)"
proof (cases process)
  case None
  then show ?thesis using assms by (simp add: pty_open_def)
next
  case (Some owner)
  show ?thesis
  proof (cases "find_index (\<lambda>p. \<not> pty_allocated p) ptys")
    case None
    then have full: "\<forall>i < PTY_COUNT. abs_ptys ptys i \<noteq> None"
      using open_index [OF assms(1)] by (simp split: if_splits)
    then have "pty_spec_exec process PtyOpen (abs_ptys ptys) = (Refused, abs_ptys ptys)"
      unfolding pty_spec_exec.simps by (intro if_P disjI2)
    with assms None Some show ?thesis by (auto simp: pty_open_def)
  next
    case (Some k)
    let ?p = "(ptys ! k)\<lparr>pty_allocated := True, pty_owner := process,
      to_master := ring_reset (to_master (ptys ! k)), to_slave := ring_reset (to_slave (ptys ! k))\<rparr>"
    have k: "k < length ptys" using Some by (rule find_index_length)
    have wf: "pty_wf ?p" using ptys_wf_nth [OF assms(1) k] \<open>process = Some owner\<close>
      by (simp add: pty_wf_def)
    have "ptys' = ptys[k := ?p]" and "r = Handle k"
      using assms(2) Some \<open>process = Some owner\<close> by (auto simp: pty_open_def Let_def)
    moreover have "pty_spec_exec process PtyOpen (abs_ptys ptys) =
        (Handle k, (abs_ptys ptys)(k := abs_pty ?p))"
      using Some open_index [OF assms(1)] \<open>process = Some owner\<close>
      by (auto simp: Let_def abs_pty_def split: if_splits)
    ultimately show ?thesis using refine_at [OF assms(1) k wf] by simp
  qed
qed

lemma owned_by_iff:
  "owned_by process i (abs_ptys ptys) \<longleftrightarrow>
     (\<exists>owner. process = Some owner \<and> i < length ptys \<and> pty_allocated (ptys ! i) \<and>
        pty_owner (ptys ! i) = Some owner)"
  by (cases process) (auto simp: owned_by_def abs_ptys_nth abs_pty_def)

lemma refine_close:
  assumes "ptys_wf ptys" and "pty_exec process (PtyClose i) ptys = (r, ptys')"
  shows "ptys_wf ptys' \<and> (r, abs_ptys ptys') = pty_spec_exec process (PtyClose i) (abs_ptys ptys)"
proof (cases "owned_by process i (abs_ptys ptys)")
  case True
  let ?p = "(ptys ! i)\<lparr>pty_allocated := False, pty_owner := None,
    to_master := ring_reset (to_master (ptys ! i)), to_slave := ring_reset (to_slave (ptys ! i))\<rparr>"
  from True have i: "i < length ptys" by (auto simp: owned_by_iff)
  have wf: "pty_wf ?p" using ptys_wf_nth [OF assms(1) i] by (simp add: pty_wf_def)
  have "ptys' = ptys[i := ?p]" and "r = Done"
    using assms(2) True by (auto simp: owned_by_iff pty_close_def get_pty_def)
  with True show ?thesis using refine_at [OF assms(1) i wf] by (simp add: abs_pty_def)
next
  case False
  then have "ptys' = ptys \<and> r = Refused"
    using assms(2) by (auto simp: owned_by_iff pty_close_def get_pty_def split: option.splits if_splits)
  with False assms show ?thesis by simp
qed

lemma refine_read:
  assumes "ptys_wf ptys" and "pty_exec process (PtyRead i output) ptys = (r, ptys')"
  shows "ptys_wf ptys' \<and> (r, abs_ptys ptys') = pty_spec_exec process (PtyRead i output) (abs_ptys ptys)"
proof (cases "owned_by process i (abs_ptys ptys)")
  case True
  let ?q = "to_master (ptys ! i)" and ?n = "length output"
  from True have i: "i < length ptys" and al: "pty_allocated (ptys ! i)" by (auto simp: owned_by_iff)
  have wf: "pty_wf (ptys ! i)" by (rule ptys_wf_nth [OF assms(1) i])
  then obtain q where q: "drain ring_pop ?n ?q = (take ?n (ring_contents ?q), q)" "ring_wf q"
    "ring_contents q = drop ?n (ring_contents ?q)"
    using byte_ring.drain_contents [of ?q ?n] by (auto simp: pty_wf_def)
  let ?p = "(ptys ! i)\<lparr>to_master := q\<rparr>" and ?a = "ring_contents ?q"
  have wfp: "pty_wf ?p" using wf q(2) by (simp add: pty_wf_def)
  let ?k = "min ?n (length ?a)"
  have tk: "take ?n ?a = take ?k ?a" and dk: "drop ?n ?a = drop ?k ?a" by (simp_all add: min_def)
  have out: "store_bytes output 0 (take ?k ?a) = take ?k ?a @ drop ?k output"
    by (rule nth_equalityI) (auto simp: nth_store_bytes nth_append)
  have "ptys' = ptys[i := ?p]" and "r = Bytes ?k (take ?k ?a @ drop ?k output)"
    using assms(2) True q(1) out
    by (auto simp: owned_by_iff pty_read_master_def get_pty_def tk min.commute)
  moreover have "abs_ptys ptys i = Some (process, ?a, ring_contents (to_slave (ptys ! i)))"
    using True by (auto simp: owned_by_iff abs_ptys_nth abs_pty_def)
  ultimately show ?thesis
    using True al refine_at [OF assms(1) i wfp refl] q(3)
    by (auto simp: abs_pty_def Let_def dk owned_by_iff)
next
  case False
  then have "ptys' = ptys \<and> r = Refused"
    using assms(2)
    by (auto simp: owned_by_iff pty_read_master_def get_pty_def split: option.splits if_splits)
  with False assms show ?thesis by simp
qed

lemma refine_write:
  assumes "ptys_wf ptys" and "pty_exec process (PtyWrite i input) ptys = (r, ptys')"
  shows "ptys_wf ptys' \<and> (r, abs_ptys ptys') = pty_spec_exec process (PtyWrite i input) (abs_ptys ptys)"
proof (cases "owned_by process i (abs_ptys ptys)")
  case True
  let ?q = "to_slave (ptys ! i)"
  let ?b = "ring_contents ?q"
  let ?k = "min (length input) (RING_CAPACITY - length ?b)"
  from True have i: "i < length ptys" and al: "pty_allocated (ptys ! i)" by (auto simp: owned_by_iff)
  have wf: "pty_wf (ptys ! i)" by (rule ptys_wf_nth [OF assms(1) i])
  then obtain q where q: "feed ring_push input ?q = (?k, q)" "ring_wf q"
    "ring_contents q = ?b @ take (RING_CAPACITY - length ?b) input"
    using byte_ring.feed_contents [of ?q input] by (auto simp: pty_wf_def)
  let ?p = "(ptys ! i)\<lparr>to_slave := q\<rparr>"
  have wfp: "pty_wf ?p" using wf q(2) by (simp add: pty_wf_def)
  have tk: "take (RING_CAPACITY - length ?b) input = take ?k input" by (simp add: min_def)
  have "ptys' = ptys[i := ?p]" and "r = Count ?k"
    using assms(2) True q(1) by (auto simp: owned_by_iff pty_write_master_def get_pty_def)
  moreover have "abs_ptys ptys i = Some (process, ring_contents (to_master (ptys ! i)), ?b)"
    using True by (auto simp: owned_by_iff abs_ptys_nth abs_pty_def)
  ultimately show ?thesis
    using True al refine_at [OF assms(1) i wfp refl] q(3)
    by (auto simp: abs_pty_def Let_def tk owned_by_iff)
next
  case False
  then have "ptys' = ptys \<and> r = Refused"
    using assms(2)
    by (auto simp: owned_by_iff pty_write_master_def get_pty_def split: option.splits if_splits)
  with False assms show ?thesis by simp
qed

lemma refine_slave_write:
  assumes "ptys_wf ptys"
  shows "ptys_wf (pty_slave_write i bytes ptys) \<and>
    (Done, abs_ptys (pty_slave_write i bytes ptys)) =
      pty_spec_exec process (SlaveWrite i bytes) (abs_ptys ptys)"
proof (cases "i < length ptys \<and> pty_allocated (ptys ! i)")
  case True
  let ?q = "to_master (ptys ! i)"
  have wf: "pty_wf (ptys ! i)" using True by (simp add: ptys_wf_nth [OF assms])
  then obtain n q where q: "feed ring_push bytes ?q = (n, q)" "ring_wf q"
    "ring_contents q = ring_contents ?q @ take (RING_CAPACITY - length (ring_contents ?q)) bytes"
    using byte_ring.feed_contents [of ?q bytes] by (auto simp: pty_wf_def)
  have wfp: "pty_wf ((ptys ! i)\<lparr>to_master := q\<rparr>)" using wf q(2) by (simp add: pty_wf_def)
  show ?thesis
    using True refine_at [OF assms _ wfp refl, of i] q
    by (auto simp: pty_slave_write_def get_pty_def abs_ptys_nth abs_pty_def)
next
  case False
  then show ?thesis using assms
    by (auto simp: pty_slave_write_def get_pty_def abs_ptys_nth abs_pty_def)
qed

lemma refine_poll:
  assumes "ptys_wf ptys" and "pty_exec process (SlavePoll i) ptys = (r, ptys')"
  shows "ptys_wf ptys' \<and> (r, abs_ptys ptys') = pty_spec_exec process (SlavePoll i) (abs_ptys ptys)"
proof (cases "i < length ptys \<and> pty_allocated (ptys ! i)")
  case True
  let ?q = "to_slave (ptys ! i)"
  have wf: "pty_wf (ptys ! i)" using True by (simp add: ptys_wf_nth [OF assms(1)])
  show ?thesis
  proof (cases "ring_contents ?q")
    case Nil
    then have "ring_pop ?q = (None, ?q)"
      using wf byte_ring.pop_empty by (simp add: pty_wf_def)
    then show ?thesis using assms True Nil
      by (auto simp: pty_slave_poll_key_def get_pty_def abs_ptys_nth abs_pty_def)
  next
    case (Cons x b)
    then obtain q where q: "ring_pop ?q = (Some x, q)" "ring_wf q" "ring_contents q = b"
      using wf byte_ring.pop_cons [of ?q x b] by (auto simp: pty_wf_def)
    have wfp: "pty_wf ((ptys ! i)\<lparr>to_slave := q\<rparr>)" using wf q(2) by (simp add: pty_wf_def)
    show ?thesis
      using assms True refine_at [OF assms(1) _ wfp refl, of i] q Cons
      by (auto simp: pty_slave_poll_key_def get_pty_def abs_ptys_nth abs_pty_def)
  qed
next
  case False
  then have "pty_slave_poll_key i ptys = (None, ptys)"
    by (auto simp: pty_slave_poll_key_def get_pty_def)
  then show ?thesis using assms False by (auto simp: abs_ptys_nth abs_pty_def)
qed

lemma pty_exec_refines:
  assumes "ptys_wf ptys"
  shows "(case pty_exec process op ptys of (r, ptys') \<Rightarrow>
     ptys_wf ptys' \<and> (r, abs_ptys ptys') = pty_spec_exec process op (abs_ptys ptys))"
proof -
  obtain r ptys' where e: "pty_exec process op ptys = (r, ptys')" by fastforce
  have "ptys_wf ptys' \<and> (r, abs_ptys ptys') = pty_spec_exec process op (abs_ptys ptys)"
  proof (cases op)
    case (SlaveWrite i bytes)
    then have "r = Done" and "ptys' = pty_slave_write i bytes ptys" using e by simp_all
    then show ?thesis using refine_slave_write [OF assms] SlaveWrite by blast
  next
    case PtyOpen
    from e show ?thesis unfolding PtyOpen by (rule refine_open [OF assms])
  next
    case (PtyClose i)
    from e show ?thesis unfolding PtyClose by (rule refine_close [OF assms])
  next
    case (PtyRead i buf)
    from e show ?thesis unfolding PtyRead by (rule refine_read [OF assms])
  next
    case (PtyWrite i input)
    from e show ?thesis unfolding PtyWrite by (rule refine_write [OF assms])
  next
    case (SlavePoll i)
    from e show ?thesis unfolding SlavePoll by (rule refine_poll [OF assms])
  qed
  then show ?thesis using e by simp
qed

section \<open>Runs\<close>

fun pty_run :: "(nat option \<times> pty_op) list \<Rightarrow> pty list \<Rightarrow> pty_result list \<times> pty list" where
  "pty_run [] ptys = ([], ptys)"
| "pty_run ((process, op) # ops) ptys =
     (case pty_exec process op ptys of (r, ptys') \<Rightarrow>
        (case pty_run ops ptys' of (rs, ptys'') \<Rightarrow> (r # rs, ptys'')))"

fun pty_spec_run :: "(nat option \<times> pty_op) list \<Rightarrow> pty_spec \<Rightarrow> pty_result list \<times> pty_spec" where
  "pty_spec_run [] m = ([], m)"
| "pty_spec_run ((process, op) # ops) m =
     (case pty_spec_exec process op m of (r, m') \<Rightarrow>
        (case pty_spec_run ops m' of (rs, m'') \<Rightarrow> (r # rs, m'')))"

lemma pty_run_refines:
  assumes "ptys_wf ptys"
  shows "(case pty_run ops ptys of (rs, ptys') \<Rightarrow>
     ptys_wf ptys' \<and> (rs, abs_ptys ptys') = pty_spec_run ops (abs_ptys ptys))"
  using assms
proof (induction ops arbitrary: ptys)
  case Nil
  then show ?case by simp
next
  case (Cons op ops)
  obtain process a where op: "op = (process, a)" by fastforce
  obtain r ptys1 where e: "pty_exec process a ptys = (r, ptys1)" by fastforce
  from pty_exec_refines [OF Cons.prems, of process a] e
  have "ptys_wf ptys1" and spec: "pty_spec_exec process a (abs_ptys ptys) = (r, abs_ptys ptys1)"
    by simp_all
  from Cons.IH [OF this(1)] show ?case
    unfolding op pty_run.simps pty_spec_run.simps e spec by (auto split: prod.splits)
qed

text \<open>
  C33: whatever processes do to the pseudo-terminals from boot on, every call (open, close,
  master read and write, slave write and poll, the refused calls included) answers as the
  specification does, in which each direction is a first-in first-out byte queue of at most
  256 bytes, only the opener uses the master side, and a reopened handle starts empty.
\<close>

theorem pty_run_observes_spec:
  "(case pty_run ops ptys_initial of (rs, ptys') \<Rightarrow>
     (rs, abs_ptys ptys') = pty_spec_run ops Map.empty)"
  using pty_run_refines [OF ptys_initial_wf(1), of ops] by (auto simp: ptys_initial_wf)

end
