(* ===== verification/Storage.thy ===== *)
theory Storage
  imports Prelude
begin

text \<open>
  The boot files and the RAM file system, \<open>kernel-core/src/storage.rs\<close>.  Names and
  contents are byte lists (\<open>str::as_bytes\<close>).  The RAM file table keeps its 32 slots, each
  with a 64-byte name array and a 4096-byte data array; its specification is a finite map
  from names to contents, and every operation refines it, the refused ones included.
\<close>

section \<open>Data\<close>

definition MAX_FILES :: nat where "MAX_FILES = 32"
definition MAX_RAM_FILES :: nat where "MAX_RAM_FILES = 32"
definition MAX_FILE_NAME :: nat where "MAX_FILE_NAME = 64"
definition MAX_RAM_FILE_SIZE :: nat where "MAX_RAM_FILE_SIZE = 4096"

record boot_file =
  boot_name :: "u8 list"
  boot_data :: "u8 list"

datatype ramfs_error = AlreadyExists | NotFound | NameTooLong | FileTooLarge | NoSpace

record ram_file =
  file_used :: bool
  file_name :: "u8 list"
  name_length :: nat
  file_data :: "u8 list"
  file_length :: nat

definition ram_file_empty :: ram_file where
  "ram_file_empty = \<lparr>file_used = False, file_name = replicate MAX_FILE_NAME 0, name_length = 0,
     file_data = replicate MAX_RAM_FILE_SIZE 0, file_length = 0\<rparr>"

record storage =
  boot_files :: "boot_file option list"
  boot_count :: nat
  ram_files :: "ram_file list"

definition storage_initial :: storage where
  "storage_initial = \<lparr>boot_files = replicate MAX_FILES None, boot_count = 0,
     ram_files = replicate MAX_RAM_FILES ram_file_empty\<rparr>"

section \<open>Operations\<close>

definition names_equal :: "u8 list \<Rightarrow> u8 list \<Rightarrow> bool" where
  "names_equal left right =
     (if length left \<noteq> length right then False
      else list_all (\<lambda>index. left ! index = right ! index) [0..<length left])"

definition validate_name :: "u8 list \<Rightarrow> ramfs_error + u8 list" where
  "validate_name name =
     (if name = [] \<or> MAX_FILE_NAME \<le> length name then Inl NameTooLong else Inr name)"

definition file_named :: "u8 list \<Rightarrow> ram_file \<Rightarrow> bool" where
  "file_named name file \<longleftrightarrow> file_used file \<and> name_length file = length name \<and>
     names_equal (take (length name) (file_name file)) name"

definition find_ram_file :: "u8 list \<Rightarrow> ram_file list \<Rightarrow> nat option" where
  "find_ram_file name files = find_index (file_named name) files"

definition storage_read :: "u8 list \<Rightarrow> storage \<Rightarrow> u8 list option" where
  "storage_read name s =
     (case find_ram_file name (ram_files s) of
        None \<Rightarrow> None
      | Some slot \<Rightarrow> (let file = ram_files s ! slot in Some (take (file_length file) (file_data file))))"

definition register_boot_file :: "u8 list \<Rightarrow> u8 list \<Rightarrow> storage \<Rightarrow> bool \<times> storage" where
  "register_boot_file name data s =
     (let count = boot_count s
      in if count = MAX_FILES then (False, s)
         else (True, s\<lparr>boot_files := (boot_files s)[count := Some \<lparr>boot_name = name, boot_data = data\<rparr>],
                       boot_count := count + 1\<rparr>))"

text \<open>\<open>FILES[..FILE_COUNT].iter().flatten()\<close>\<close>

definition registered :: "storage \<Rightarrow> boot_file list" where
  "registered s = List.map_filter (\<lambda>f. f) (take (boot_count s) (boot_files s))"

definition storage_open :: "u8 list \<Rightarrow> storage \<Rightarrow> u8 list option" where
  "storage_open name s =
     (case find (\<lambda>file. names_equal (boot_name file) name) (registered s) of
        Some file \<Rightarrow> Some (boot_data file)
      | None \<Rightarrow> storage_read name s)"

definition boot_file_name :: "nat \<Rightarrow> storage \<Rightarrow> u8 list option" where
  "boot_file_name index s =
     (if index < length (registered s) then Some (boot_name (registered s ! index)) else None)"

definition storage_create :: "u8 list \<Rightarrow> storage \<Rightarrow> (ramfs_error + unit) \<times> storage" where
  "storage_create name s =
     (case validate_name name of
        Inl e \<Rightarrow> (Inl e, s)
      | Inr name \<Rightarrow>
          if find_ram_file name (ram_files s) \<noteq> None then (Inl AlreadyExists, s)
          else (case find_index (\<lambda>file. \<not> file_used file) (ram_files s) of
                  None \<Rightarrow> (Inl NoSpace, s)
                | Some slot \<Rightarrow>
                    (let file = ram_files s ! slot
                     in (Inr (), s\<lparr>ram_files := (ram_files s)[slot :=
                           file\<lparr>file_used := True, name_length := length name, file_length := 0,
                                file_name := store_bytes (file_name file) 0 name\<rparr>]\<rparr>))))"

definition storage_write_at ::
  "u8 list \<Rightarrow> nat \<Rightarrow> u8 list \<Rightarrow> storage \<Rightarrow> (ramfs_error + unit) \<times> storage" where
  "storage_write_at name offset data s =
     (case validate_name name of
        Inl e \<Rightarrow> (Inl e, s)
      | Inr name \<Rightarrow>
          if 2 ^ 64 \<le> offset + length data then (Inl FileTooLarge, s)
          else let end' = offset + length data
               in if MAX_RAM_FILE_SIZE < end' then (Inl FileTooLarge, s)
                  else (case find_ram_file name (ram_files s) of
                          None \<Rightarrow> (Inl NotFound, s)
                        | Some slot \<Rightarrow>
                            (let file = ram_files s ! slot
                             in (Inr (), s\<lparr>ram_files := (ram_files s)[slot :=
                                   file\<lparr>file_data := store_bytes (file_data file) offset data,
                                        file_length := max (file_length file) end'\<rparr>]\<rparr>))))"

definition storage_write :: "u8 list \<Rightarrow> u8 list \<Rightarrow> storage \<Rightarrow> (ramfs_error + unit) \<times> storage" where
  "storage_write name data s = storage_write_at name 0 data s"

definition storage_delete :: "u8 list \<Rightarrow> storage \<Rightarrow> (ramfs_error + unit) \<times> storage" where
  "storage_delete name s =
     (case validate_name name of
        Inl e \<Rightarrow> (Inl e, s)
      | Inr name \<Rightarrow>
          (case find_ram_file name (ram_files s) of
             None \<Rightarrow> (Inl NotFound, s)
           | Some slot \<Rightarrow> (Inr (), s\<lparr>ram_files := (ram_files s)[slot := ram_file_empty]\<rparr>)))"

definition ram_file_count :: "storage \<Rightarrow> nat" where
  "ram_file_count s = length (filter file_used (ram_files s))"

definition ram_file_name :: "nat \<Rightarrow> u8 list \<Rightarrow> storage \<Rightarrow> (nat \<times> u8 list) option" where
  "ram_file_name index out s =
     (let used = filter file_used (ram_files s)
      in if length used \<le> index then None
         else let file = used ! index
              in if length out < name_length file then None
                 else Some (name_length file,
                            store_bytes out 0 (take (name_length file) (file_name file))))"

section \<open>Specification: a map from names to contents\<close>

type_synonym ram_spec = "u8 list \<Rightarrow> u8 list option"

text \<open>Bytes between the old end and a later write read as zero.\<close>

definition patch :: "u8 list \<Rightarrow> nat \<Rightarrow> u8 list \<Rightarrow> u8 list" where
  "patch old offset data =
     (let padded = old @ replicate (offset + length data - length old) 0
      in take offset padded @ data @ drop (offset + length data) padded)"

definition valid_name :: "u8 list \<Rightarrow> bool" where
  "valid_name name \<longleftrightarrow> name \<noteq> [] \<and> length name < MAX_FILE_NAME"

datatype ram_op = Create "u8 list" | WriteAt "u8 list" nat "u8 list" | Delete "u8 list"

fun ram_exec :: "ram_op \<Rightarrow> storage \<Rightarrow> (ramfs_error + unit) \<times> storage" where
  "ram_exec (Create name) s = storage_create name s"
| "ram_exec (WriteAt name offset data) s = storage_write_at name offset data s"
| "ram_exec (Delete name) s = storage_delete name s"

fun ram_spec_exec :: "ram_op \<Rightarrow> ram_spec \<Rightarrow> (ramfs_error + unit) \<times> ram_spec" where
  "ram_spec_exec (Create name) m =
     (if \<not> valid_name name then (Inl NameTooLong, m)
      else if m name \<noteq> None then (Inl AlreadyExists, m)
      else if card (dom m) = MAX_RAM_FILES then (Inl NoSpace, m)
      else (Inr (), m(name \<mapsto> [])))"
| "ram_spec_exec (WriteAt name offset data) m =
     (if \<not> valid_name name then (Inl NameTooLong, m)
      else if MAX_RAM_FILE_SIZE < offset + length data then (Inl FileTooLarge, m)
      else case m name of
        None \<Rightarrow> (Inl NotFound, m)
      | Some old \<Rightarrow> (Inr (), m(name \<mapsto> patch old offset data)))"
| "ram_spec_exec (Delete name) m =
     (if \<not> valid_name name then (Inl NameTooLong, m)
      else if m name = None then (Inl NotFound, m)
      else (Inr (), m(name := None)))"

definition abs_ram :: "storage \<Rightarrow> ram_spec" where
  "abs_ram s name = storage_read name s"

definition name_of :: "ram_file \<Rightarrow> u8 list" where
  "name_of file = take (name_length file) (file_name file)"

definition content_of :: "ram_file \<Rightarrow> u8 list" where
  "content_of file = take (file_length file) (file_data file)"

definition ram_file_wf :: "ram_file \<Rightarrow> bool" where
  "ram_file_wf file \<longleftrightarrow> length (file_name file) = MAX_FILE_NAME \<and>
     length (file_data file) = MAX_RAM_FILE_SIZE \<and>
     file_length file \<le> MAX_RAM_FILE_SIZE \<and>
     drop (file_length file) (file_data file) =
       replicate (MAX_RAM_FILE_SIZE - file_length file) 0 \<and>
     (if file_used file then valid_name (name_of file) \<and> name_length file < MAX_FILE_NAME
      else file_length file = 0)"

definition storage_wf :: "storage \<Rightarrow> bool" where
  "storage_wf s \<longleftrightarrow> length (ram_files s) = MAX_RAM_FILES \<and> (\<forall>f \<in> set (ram_files s). ram_file_wf f) \<and>
     (\<forall>i j. i < MAX_RAM_FILES \<longrightarrow> j < MAX_RAM_FILES \<longrightarrow> file_used (ram_files s ! i) \<longrightarrow>
        file_used (ram_files s ! j) \<longrightarrow> name_of (ram_files s ! i) = name_of (ram_files s ! j) \<longrightarrow> i = j) \<and>
     length (boot_files s) = MAX_FILES \<and> boot_count s \<le> MAX_FILES"

section \<open>Lookups\<close>

lemma names_equal_iff [simp]: "names_equal left right \<longleftrightarrow> left = right"
  unfolding names_equal_def list_eq_iff_nth_eq [of left right] by (auto simp: list_all_iff)

lemma validate_name_iff:
  "validate_name name = (if valid_name name then Inr name else Inl NameTooLong)"
  by (auto simp: validate_name_def valid_name_def)

lemma file_named_iff: "file_named name file \<longleftrightarrow> file_used file \<and> name_of file = name \<and> name_length file = length name"
  by (auto simp: file_named_def name_of_def)

lemma name_length_of: "ram_file_wf f \<Longrightarrow> file_used f \<Longrightarrow> length (name_of f) = name_length f"
  by (simp add: ram_file_wf_def name_of_def)

lemma storage_wf_nth:
  "storage_wf s \<Longrightarrow> i < MAX_RAM_FILES \<Longrightarrow> ram_file_wf (ram_files s ! i)"
  by (simp add: storage_wf_def)

lemma storage_wf_unique:
  "storage_wf s \<Longrightarrow> i < MAX_RAM_FILES \<Longrightarrow> j < MAX_RAM_FILES \<Longrightarrow> file_used (ram_files s ! i) \<Longrightarrow>
     file_used (ram_files s ! j) \<Longrightarrow> name_of (ram_files s ! i) = name_of (ram_files s ! j) \<Longrightarrow> i = j"
  by (simp add: storage_wf_def)

lemma find_ram_file_Some:
  assumes "storage_wf s"
  shows "find_ram_file name (ram_files s) = Some i \<longleftrightarrow>
     i < MAX_RAM_FILES \<and> file_used (ram_files s ! i) \<and> name_of (ram_files s ! i) = name"
proof
  assume "find_ram_file name (ram_files s) = Some i"
  then show "i < MAX_RAM_FILES \<and> file_used (ram_files s ! i) \<and> name_of (ram_files s ! i) = name"
    using assms by (simp add: find_ram_file_def loop_simps file_named_iff storage_wf_def)
next
  assume *: "i < MAX_RAM_FILES \<and> file_used (ram_files s ! i) \<and> name_of (ram_files s ! i) = name"
  then have "file_named name (ram_files s ! i)"
    using name_length_of [OF storage_wf_nth [OF assms]] by (auto simp: file_named_iff)
  moreover have "\<not> file_named name (ram_files s ! j)" if "j < i" for j
    using storage_wf_unique [OF assms, of i j] * that by (auto simp: file_named_iff)
  ultimately show "find_ram_file name (ram_files s) = Some i"
    using * assms by (simp add: find_ram_file_def loop_simps storage_wf_def)
qed

lemma find_ram_file_None:
  assumes "storage_wf s"
  shows "find_ram_file name (ram_files s) = None \<longleftrightarrow>
     (\<forall>i < MAX_RAM_FILES. file_used (ram_files s ! i) \<longrightarrow> name_of (ram_files s ! i) \<noteq> name)"
  using find_ram_file_Some [OF assms, of name] by (cases "find_ram_file name (ram_files s)") auto

lemma abs_ram_slot:
  assumes "storage_wf s" and "i < MAX_RAM_FILES" and "file_used (ram_files s ! i)"
  shows "abs_ram s (name_of (ram_files s ! i)) = Some (content_of (ram_files s ! i))"
  using find_ram_file_Some [OF assms(1), of "name_of (ram_files s ! i)" i] assms(2,3)
  by (simp add: abs_ram_def storage_read_def content_of_def Let_def)

lemma abs_ram_None:
  assumes "storage_wf s"
  shows "abs_ram s name = None \<longleftrightarrow> find_ram_file name (ram_files s) = None"
  by (simp add: abs_ram_def storage_read_def Let_def split: option.splits)

lemma ram_file_empty_wf [simp]: "ram_file_wf ram_file_empty"
  by (simp add: ram_file_wf_def ram_file_empty_def)

lemma storage_initial_wf: "storage_wf storage_initial" "abs_ram storage_initial = Map.empty"
proof -
  show "storage_wf storage_initial"
    by (simp add: storage_wf_def storage_initial_def) (simp add: ram_file_empty_def)
  then show "abs_ram storage_initial = Map.empty"
    by (intro ext) (simp add: abs_ram_None find_ram_file_None,
      simp add: storage_initial_def ram_file_empty_def)
qed

section \<open>Refinement\<close>

text \<open>
  A slot of the table changes to a file with the same name or with an unused one: the
  abstract map changes at that name only.
\<close>

lemma update_slot:
  assumes wf: "storage_wf s" and i: "i < MAX_RAM_FILES" and f: "ram_file_wf f" "file_used f"
    and fresh: "\<forall>j < MAX_RAM_FILES. j \<noteq> i \<longrightarrow> file_used (ram_files s ! j) \<longrightarrow>
      name_of (ram_files s ! j) \<noteq> name_of f"
    and old: "file_used (ram_files s ! i) \<longrightarrow> name_of (ram_files s ! i) = name_of f"
  shows "storage_wf (s\<lparr>ram_files := (ram_files s)[i := f]\<rparr>) \<and>
    abs_ram (s\<lparr>ram_files := (ram_files s)[i := f]\<rparr>) = (abs_ram s)(name_of f \<mapsto> content_of f)"
proof -
  let ?s = "s\<lparr>ram_files := (ram_files s)[i := f]\<rparr>"
  have len: "length (ram_files s) = MAX_RAM_FILES" using wf by (simp add: storage_wf_def)
  have wf': "storage_wf ?s"
    unfolding storage_wf_def
  proof (intro conjI allI impI)
    show "\<forall>g \<in> set (ram_files ?s). ram_file_wf g"
      using wf f by (auto simp: storage_wf_def dest!: set_update_subset_insert [THEN subsetD])
    fix j k
    assume "j < MAX_RAM_FILES" "k < MAX_RAM_FILES" "file_used (ram_files ?s ! j)"
      "file_used (ram_files ?s ! k)" "name_of (ram_files ?s ! j) = name_of (ram_files ?s ! k)"
    then show "j = k"
      using storage_wf_unique [OF wf, of j k] fresh i len
      by (cases "j = i"; cases "k = i") (auto simp: nth_list_update dest: sym)
  qed (use wf in \<open>simp_all add: storage_wf_def\<close>)
  have "abs_ram ?s name = ((abs_ram s)(name_of f \<mapsto> content_of f)) name" for name
  proof (cases "name = name_of f")
    case True
    then show ?thesis using abs_ram_slot [OF wf' i] i len f by simp
  next
    case False
    show ?thesis
    proof (cases "find_ram_file name (ram_files s)")
      case None
      then have "find_ram_file name (ram_files ?s) = None"
        unfolding find_ram_file_None [OF wf] find_ram_file_None [OF wf']
        using False i len by (auto simp: nth_list_update)
      then show ?thesis using None False by (simp add: abs_ram_def storage_read_def)
    next
      case (Some k)
      then have "k \<noteq> i" using old False by (auto simp: find_ram_file_Some [OF wf])
      then have "find_ram_file name (ram_files ?s) = Some k"
        using Some unfolding find_ram_file_Some [OF wf] find_ram_file_Some [OF wf'] by simp
      then show ?thesis using Some False \<open>k \<noteq> i\<close>
        by (simp add: abs_ram_def storage_read_def Let_def)
    qed
  qed
  then show ?thesis using wf' by blast
qed

lemma card_dom_abs_ram:
  assumes "storage_wf s"
  shows "card (dom (abs_ram s)) = card {i. i < MAX_RAM_FILES \<and> file_used (ram_files s ! i)}"
proof -
  have "dom (abs_ram s) =
      (\<lambda>i. name_of (ram_files s ! i)) ` {i. i < MAX_RAM_FILES \<and> file_used (ram_files s ! i)}"
  proof (rule set_eqI)
    fix name
    show "name \<in> dom (abs_ram s) \<longleftrightarrow>
        name \<in> (\<lambda>i. name_of (ram_files s ! i)) ` {i. i < MAX_RAM_FILES \<and> file_used (ram_files s ! i)}"
      unfolding domIff abs_ram_None [OF assms] find_ram_file_None [OF assms] image_iff by blast
  qed
  moreover have "inj_on (\<lambda>i. name_of (ram_files s ! i))
      {i. i < MAX_RAM_FILES \<and> file_used (ram_files s ! i)}"
    using storage_wf_unique [OF assms] by (auto simp: inj_on_def)
  ultimately show ?thesis by (simp add: card_image)
qed

lemma table_full:
  assumes "storage_wf s"
  shows "find_index (\<lambda>f. \<not> file_used f) (ram_files s) = None \<longleftrightarrow> card (dom (abs_ram s)) = MAX_RAM_FILES"
proof -
  let ?U = "{i. i < MAX_RAM_FILES \<and> file_used (ram_files s ! i)}"
  have len: "length (ram_files s) = MAX_RAM_FILES" using assms by (simp add: storage_wf_def)
  have "find_index (\<lambda>f. \<not> file_used f) (ram_files s) = None \<longleftrightarrow>
      (\<forall>i < MAX_RAM_FILES. file_used (ram_files s ! i))"
    unfolding find_index_None not_not all_set_conv_all_nth len by (rule refl)
  also have "\<dots> \<longleftrightarrow> {..<MAX_RAM_FILES} \<subseteq> ?U"
    by (simp add: subset_eq Ball_def)
  also have "\<dots> \<longleftrightarrow> ?U = {..<MAX_RAM_FILES}"
  proof
    assume "{..<MAX_RAM_FILES} \<subseteq> ?U"
    moreover have "?U \<subseteq> {..<MAX_RAM_FILES}" by (rule subsetI) simp
    ultimately show "?U = {..<MAX_RAM_FILES}" by (rule subset_antisym [rotated])
  next
    assume "?U = {..<MAX_RAM_FILES}"
    then show "{..<MAX_RAM_FILES} \<subseteq> ?U" by (rule equalityD2)
  qed
  also have "\<dots> \<longleftrightarrow> card ?U = MAX_RAM_FILES"
  proof
    assume "card ?U = MAX_RAM_FILES"
    moreover have "?U \<subseteq> {..<MAX_RAM_FILES}" by (rule subsetI) simp
    ultimately show "?U = {..<MAX_RAM_FILES}" by (intro card_subset_eq) simp_all
  next
    assume eq: "?U = {..<MAX_RAM_FILES}"
    show "card ?U = MAX_RAM_FILES" unfolding eq by simp
  qed
  finally show ?thesis using card_dom_abs_ram [OF assms] by simp
qed

lemma refine_create:
  assumes wf: "storage_wf s" and e: "storage_create name s = (r, s')"
  shows "storage_wf s' \<and> (r, abs_ram s') = ram_spec_exec (Create name) (abs_ram s)"
proof (cases "valid_name name \<and> abs_ram s name = None \<and> card (dom (abs_ram s)) \<noteq> MAX_RAM_FILES")
  case False
  then consider "\<not> valid_name name"
    | "valid_name name" "abs_ram s name \<noteq> None"
    | "valid_name name" "abs_ram s name = None" "card (dom (abs_ram s)) = MAX_RAM_FILES"
    by fastforce
  then show ?thesis
  proof cases
    case 1
    then show ?thesis using e wf by (simp add: storage_create_def validate_name_iff)
  next
    case 2
    moreover have "find_ram_file name (ram_files s) \<noteq> None" using 2(2) abs_ram_None [OF wf] by simp
    ultimately show ?thesis using e wf by (simp add: storage_create_def validate_name_iff)
  next
    case 3
    moreover have "find_ram_file name (ram_files s) = None" using 3(2) abs_ram_None [OF wf] by simp
    moreover have "find_index (\<lambda>f. \<not> file_used f) (ram_files s) = None"
      using 3(3) table_full [OF wf] by simp
    ultimately show ?thesis using e wf by (simp add: storage_create_def validate_name_iff)
  qed
next
  case True
  then obtain i where i: "find_index (\<lambda>f. \<not> file_used f) (ram_files s) = Some i"
    using table_full [OF wf] by auto
  then have lt: "i < MAX_RAM_FILES" and nu: "\<not> file_used (ram_files s ! i)"
    using wf by (auto simp: loop_simps storage_wf_def)
  define g where "g = ram_files s ! i"
  define f where "f = g\<lparr>file_used := True, name_length := length name, file_length := 0,
      file_name := store_bytes (file_name g) 0 name\<rparr>"
  have gwf: "ram_file_wf g" using storage_wf_nth [OF wf lt] by (simp add: g_def)
  have name: "name_of f = name"
    using True gwf by (simp add: f_def name_of_def ram_file_wf_def valid_name_def)
  have fwf: "ram_file_wf f" and "file_used f" and "content_of f = []"
    using gwf True nu name
    by (auto simp: f_def ram_file_wf_def valid_name_def content_of_def g_def [symmetric])
  have s': "s' = s\<lparr>ram_files := (ram_files s)[i := f]\<rparr>" and r: "r = Inr ()"
    using e True i wf
    by (auto simp: storage_create_def validate_name_iff abs_ram_None Let_def f_def g_def)
  have none: "\<forall>j < MAX_RAM_FILES. file_used (ram_files s ! j) \<longrightarrow> name_of (ram_files s ! j) \<noteq> name"
    using True abs_ram_None [OF wf] find_ram_file_None [OF wf] by blast
  have "storage_wf s' \<and> abs_ram s' = (abs_ram s)(name \<mapsto> [])"
    using update_slot [OF wf lt fwf \<open>file_used f\<close>] none nu
    by (simp add: s' name \<open>content_of f = []\<close>)
  then show ?thesis using True r by simp
qed

lemma store_bytes_take:
  assumes "offset + length data \<le> length xs"
  shows "store_bytes xs offset data = take offset xs @ data @ drop (offset + length data) xs"
  using assms by (intro nth_equalityI) (auto simp: nth_store_bytes nth_append)

lemma length_patch [simp]: "length (patch old offset data) = max (length old) (offset + length data)"
  by (simp add: patch_def Let_def)

lemma nth_patch:
  assumes "k < max (length old) (offset + length data)"
  shows "patch old offset data ! k =
     (if offset \<le> k \<and> k < offset + length data then data ! (k - offset)
      else if k < length old then old ! k else 0)"
proof -
  define padded where "padded = old @ replicate (offset + length data - length old) 0"
  have pad: "padded ! j = (if j < length old then old ! j else 0)" if "j < length padded" for j
    using that by (auto simp: padded_def nth_append)
  have len: "length padded = max (length old) (offset + length data)" by (simp add: padded_def)
  consider "k < offset" | "offset \<le> k" "k < offset + length data" | "offset + length data \<le> k" by linarith
  then show ?thesis
  proof cases
    case 1
    then show ?thesis using len pad [of k] assms
      by (simp add: patch_def padded_def [symmetric] nth_append)
  next
    case 2
    then show ?thesis using len by (simp add: patch_def padded_def [symmetric] nth_append) arith
  next
    case 3
    moreover from 3 assms have "k < length old" by simp
    moreover have "take offset padded @ data @ drop (offset + length data) padded =
        (take offset padded @ data) @ drop (offset + length data) padded" by simp
    moreover have "length (take offset padded @ data) = offset + length data" using len by simp
    ultimately have "patch old offset data ! k = padded ! k"
      unfolding patch_def padded_def [symmetric] Let_def
      by (simp only: nth_append) (use 3 len \<open>k < length old\<close> in simp)
    then show ?thesis using 3 pad [of k] len \<open>k < length old\<close> by simp
  qed
qed

text \<open>
  The data array beyond the file's length is zero, so storing at any offset inside the array
  and extending the length patches the content.
\<close>

lemma store_patches:
  assumes g: "ram_file_wf g" and fits: "offset + length data \<le> MAX_RAM_FILE_SIZE"
  defines "f \<equiv> g\<lparr>file_data := store_bytes (file_data g) offset data,
    file_length := max (file_length g) (offset + length data)\<rparr>"
  shows "content_of f = patch (content_of g) offset data" and "file_used g \<Longrightarrow> ram_file_wf f"
proof -
  let ?e = "offset + length data" and ?n = "file_length g" and ?d = "file_data g"
  have len: "length ?d = MAX_RAM_FILE_SIZE" "?n \<le> MAX_RAM_FILE_SIZE"
    and tail: "drop ?n ?d = replicate (MAX_RAM_FILE_SIZE - ?n) 0"
    using g by (simp_all add: ram_file_wf_def)
  have z: "?d ! k = 0" if "?n \<le> k" "k < MAX_RAM_FILE_SIZE" for k
    using that len arg_cong [OF tail, of "\<lambda>xs. xs ! (k - ?n)"] by simp
  have lf: "file_length f = max ?n ?e" "file_data f = store_bytes ?d offset data"
    by (simp_all add: f_def)
  show "content_of f = patch (content_of g) offset data"
  proof (rule nth_equalityI)
    show "length (content_of f) = length (patch (content_of g) offset data)"
      using fits len by (simp add: content_of_def lf)
    fix k assume "k < length (content_of f)"
    then have "k < max ?n ?e" by (simp add: content_of_def lf)
    then show "content_of f ! k = patch (content_of g) offset data ! k"
      using fits len z [of k] by (auto simp: content_of_def lf nth_patch nth_store_bytes)
  qed
  have "drop (max ?n ?e) (store_bytes ?d offset data) = replicate (MAX_RAM_FILE_SIZE - max ?n ?e) 0"
    using fits len z by (intro nth_equalityI) (auto simp: nth_store_bytes)
  then show "file_used g \<Longrightarrow> ram_file_wf f"
    using g fits by (simp add: ram_file_wf_def f_def name_of_def)
qed

lemma refine_write_at:
  assumes wf: "storage_wf s" and e: "storage_write_at name offset data s = (r, s')"
  shows "storage_wf s' \<and> (r, abs_ram s') = ram_spec_exec (WriteAt name offset data) (abs_ram s)"
proof (cases "valid_name name \<and> offset + length data \<le> MAX_RAM_FILE_SIZE \<and> abs_ram s name \<noteq> None")
  case False
  then consider "\<not> valid_name name" | "valid_name name" "MAX_RAM_FILE_SIZE < offset + length data"
    | "valid_name name" "offset + length data \<le> MAX_RAM_FILE_SIZE" "abs_ram s name = None" by fastforce
  then show ?thesis
  proof cases
    case 3
    moreover have "find_ram_file name (ram_files s) = None" using 3(3) abs_ram_None [OF wf] by simp
    ultimately show ?thesis using e wf
      by (simp add: storage_write_at_def validate_name_iff MAX_RAM_FILE_SIZE_def)
  qed (use e wf in \<open>auto simp: storage_write_at_def validate_name_iff Let_def split: if_splits\<close>)
next
  case True
  then obtain i where i: "find_ram_file name (ram_files s) = Some i"
    using abs_ram_None [OF wf] by auto
  then have lt: "i < MAX_RAM_FILES" and u: "file_used (ram_files s ! i)"
    and nm: "name_of (ram_files s ! i) = name" by (simp_all add: find_ram_file_Some [OF wf])
  let ?g = "ram_files s ! i"
  define f where "f = ?g\<lparr>file_data := store_bytes (file_data ?g) offset data,
    file_length := max (file_length ?g) (offset + length data)\<rparr>"
  have fwf: "ram_file_wf f" and c: "content_of f = patch (content_of ?g) offset data"
    using store_patches [OF storage_wf_nth [OF wf lt], of offset data] True u
    unfolding f_def by blast+
  have nf: "name_of f = name" and fu: "file_used f" using nm u by (simp_all add: f_def name_of_def)
  have other: "\<forall>j < MAX_RAM_FILES. j \<noteq> i \<longrightarrow> file_used (ram_files s ! j) \<longrightarrow>
      name_of (ram_files s ! j) \<noteq> name_of f"
    using storage_wf_unique [OF wf lt _ u] nm nf by metis
  have "r = Inr ()" and s': "s' = s\<lparr>ram_files := (ram_files s)[i := f]\<rparr>"
    using e True i
    by (auto simp: storage_write_at_def validate_name_iff Let_def f_def MAX_RAM_FILE_SIZE_def)
  moreover have "abs_ram s name = Some (content_of ?g)"
    using abs_ram_slot [OF wf lt u] nm by simp
  ultimately show ?thesis
    using update_slot [OF wf lt fwf fu other] True nm nf c by simp
qed

lemma refine_delete:
  assumes wf: "storage_wf s" and e: "storage_delete name s = (r, s')"
  shows "storage_wf s' \<and> (r, abs_ram s') = ram_spec_exec (Delete name) (abs_ram s)"
proof (cases "valid_name name \<and> abs_ram s name \<noteq> None")
  case False
  then consider "\<not> valid_name name" | "valid_name name" "find_ram_file name (ram_files s) = None"
    using abs_ram_None [OF wf] by auto
  then show ?thesis
    by cases (use e wf abs_ram_None [OF wf] in
      \<open>auto simp: storage_delete_def validate_name_iff\<close>)
next
  case True
  then obtain i where i: "find_ram_file name (ram_files s) = Some i"
    using abs_ram_None [OF wf] by auto
  then have lt: "i < MAX_RAM_FILES" and u: "file_used (ram_files s ! i)"
    and nm: "name_of (ram_files s ! i) = name" by (simp_all add: find_ram_file_Some [OF wf])
  have r: "r = Inr ()" and s': "s' = s\<lparr>ram_files := (ram_files s)[i := ram_file_empty]\<rparr>"
    using e True i by (auto simp: storage_delete_def validate_name_iff)
  have len: "length (ram_files s) = MAX_RAM_FILES" using wf by (simp add: storage_wf_def)
  have nu: "\<not> file_used ram_file_empty" by (simp add: ram_file_empty_def)
  have wf': "storage_wf s'"
    unfolding storage_wf_def
  proof (intro conjI allI impI)
    show "\<forall>g \<in> set (ram_files s'). ram_file_wf g"
      using wf by (auto simp: s' storage_wf_def dest!: set_update_subset_insert [THEN subsetD])
    fix j k
    assume "j < MAX_RAM_FILES" "k < MAX_RAM_FILES" "file_used (ram_files s' ! j)"
      "file_used (ram_files s' ! k)" "name_of (ram_files s' ! j) = name_of (ram_files s' ! k)"
    then show "j = k"
      using storage_wf_unique [OF wf, of j k] lt len nu
      by (cases "j = i"; cases "k = i") (auto simp: s' nth_list_update)
  qed (use wf in \<open>simp_all add: s' storage_wf_def\<close>)
  have "abs_ram s' n = ((abs_ram s)(name := None)) n" for n
  proof (cases "find_ram_file n (ram_files s')")
    case None
    have "n = name" if "find_ram_file n (ram_files s) = Some k" for k
    proof (rule ccontr)
      assume "n \<noteq> name"
      with that have "k < MAX_RAM_FILES" "file_used (ram_files s' ! k)" "name_of (ram_files s' ! k) = n"
        using nm lt len by (auto simp: find_ram_file_Some [OF wf] s' nth_list_update)
      then show False using None find_ram_file_None [OF wf'] by blast
    qed
    then have "n = name \<or> abs_ram s n = None"
      using abs_ram_None [OF wf, of n] by (cases "find_ram_file n (ram_files s)") auto
    then show ?thesis using None abs_ram_None [OF wf', of n] by auto
  next
    case (Some k)
    then have k: "k < MAX_RAM_FILES" "k \<noteq> i" "file_used (ram_files s ! k)" "name_of (ram_files s ! k) = n"
      using nu lt len Some [unfolded find_ram_file_Some [OF wf']]
      by (auto simp: s' nth_list_update split: if_splits)
    then have "n \<noteq> name" using storage_wf_unique [OF wf k(1) lt k(3) u] nm by auto
    moreover have "find_ram_file n (ram_files s) = Some k" using k by (simp add: find_ram_file_Some [OF wf])
    ultimately show ?thesis using Some k(2) by (simp add: abs_ram_def storage_read_def s' Let_def)
  qed
  then show ?thesis using True wf' r by (simp add: fun_eq_iff)
qed

lemma ram_exec_refines:
  assumes "storage_wf s" and "ram_exec op s = (r, s')"
  shows "storage_wf s' \<and> (r, abs_ram s') = ram_spec_exec op (abs_ram s)"
proof (cases op)
  case (Create name)
  show ?thesis using refine_create assms unfolding Create ram_exec.simps by blast
next
  case (WriteAt name offset data)
  show ?thesis using refine_write_at assms unfolding WriteAt ram_exec.simps by blast
next
  case (Delete name)
  show ?thesis using refine_delete assms unfolding Delete ram_exec.simps by blast
qed

section \<open>Runs\<close>

fun ram_run :: "ram_op list \<Rightarrow> storage \<Rightarrow> (ramfs_error + unit) list \<times> storage" where
  "ram_run [] s = ([], s)"
| "ram_run (op # ops) s =
     (case ram_exec op s of (r, s') \<Rightarrow> (case ram_run ops s' of (rs, s'') \<Rightarrow> (r # rs, s'')))"

fun ram_spec_run :: "ram_op list \<Rightarrow> ram_spec \<Rightarrow> (ramfs_error + unit) list \<times> ram_spec" where
  "ram_spec_run [] m = ([], m)"
| "ram_spec_run (op # ops) m =
     (case ram_spec_exec op m of (r, m') \<Rightarrow> (case ram_spec_run ops m' of (rs, m'') \<Rightarrow> (r # rs, m'')))"

lemma ram_run_refines:
  assumes "storage_wf s" and "ram_run ops s = (rs, s')"
  shows "storage_wf s' \<and> (rs, abs_ram s') = ram_spec_run ops (abs_ram s)"
  using assms
proof (induction ops arbitrary: s rs)
  case Nil
  then show ?case by simp
next
  case (Cons op ops)
  obtain r s1 where e: "ram_exec op s = (r, s1)" by fastforce
  obtain rs1 where run: "ram_run ops s1 = (rs1, s')" "rs = r # rs1"
    using Cons.prems(2) e by (auto split: prod.splits)
  from ram_exec_refines [OF Cons.prems(1) e]
  have "storage_wf s1" and spec: "ram_spec_exec op (abs_ram s) = (r, abs_ram s1)" by simp_all
  from Cons.IH [OF this(1) run(1)] spec run(2) show ?case by (auto split: prod.splits)
qed

lemma ram_file_count_card:
  assumes "storage_wf s"
  shows "ram_file_count s = card (dom (abs_ram s))"
  unfolding ram_file_count_def card_dom_abs_ram [OF assms] length_filter_conv_card
  using assms by (simp add: storage_wf_def)

text \<open>
  C34: from boot on, whatever sequence of creates, writes at offsets and deletes reaches the RAM
  file table, every call answers as the specification map does (NameTooLong, AlreadyExists,
  NotFound, FileTooLarge and NoSpace included), every name then reads as the map says (gaps
  before a write read as zero), and the number of files is the number of names of the map.
\<close>

theorem ram_run_observes_spec:
  "(case ram_run ops storage_initial of (rs, s') \<Rightarrow>
     (rs, \<lambda>name. storage_read name s') = ram_spec_run ops Map.empty \<and>
     ram_file_count s' = card (dom (snd (ram_spec_run ops Map.empty))))"
proof -
  obtain rs s' where run: "ram_run ops storage_initial = (rs, s')" by fastforce
  have wf: "storage_wf s'" and eq: "(rs, abs_ram s') = ram_spec_run ops Map.empty"
    using ram_run_refines [OF storage_initial_wf(1) run] by (simp_all add: storage_initial_wf)
  have "abs_ram s' = (\<lambda>name. storage_read name s')" by (simp add: fun_eq_iff abs_ram_def)
  then show ?thesis using eq run ram_file_count_card [OF wf] by (simp flip: eq)
qed

section \<open>Boot files\<close>

definition register_all :: "(u8 list \<times> u8 list) list \<Rightarrow> storage \<Rightarrow> storage" where
  "register_all files s = fold (\<lambda>(name, data) s. snd (register_boot_file name data s)) files s"

definition boot_wf :: "storage \<Rightarrow> bool" where
  "boot_wf s \<longleftrightarrow> length (boot_files s) = MAX_FILES \<and> boot_count s \<le> MAX_FILES"

lemma registered_push:
  assumes "boot_wf s"
  shows "boot_wf (snd (register_boot_file name data s)) \<and>
    registered (snd (register_boot_file name data s)) =
      (if boot_count s = MAX_FILES then registered s
       else registered s @ [\<lparr>boot_name = name, boot_data = data\<rparr>]) \<and>
    boot_count (snd (register_boot_file name data s)) = min MAX_FILES (Suc (boot_count s)) \<and>
    ram_files (snd (register_boot_file name data s)) = ram_files s"
  using assms
  by (auto simp: register_boot_file_def boot_wf_def registered_def Let_def map_filter_def
      take_Suc_conv_app_nth)

lemma registered_all:
  assumes "boot_wf s"
  shows "registered (register_all files s) = registered s @
      map (\<lambda>(name, data). \<lparr>boot_name = name, boot_data = data\<rparr>) (take (MAX_FILES - boot_count s) files) \<and>
    ram_files (register_all files s) = ram_files s"
  using assms
proof (induction files arbitrary: s)
  case Nil
  then show ?case by (simp add: register_all_def)
next
  case (Cons f files)
  obtain name data where f: "f = (name, data)" by fastforce
  let ?s = "snd (register_boot_file name data s)"
  from registered_push [OF Cons.prems, of name data] have s: "boot_wf ?s"
    "registered ?s = (if boot_count s = MAX_FILES then registered s
       else registered s @ [\<lparr>boot_name = name, boot_data = data\<rparr>])"
    "boot_count ?s = min MAX_FILES (Suc (boot_count s))" "ram_files ?s = ram_files s" by simp_all
  have "register_all (f # files) s = register_all files ?s" by (simp add: register_all_def f)
  moreover have "boot_count s \<le> MAX_FILES" using Cons.prems by (simp add: boot_wf_def)
  ultimately show ?case using Cons.IH [OF s(1)] s f
    by (cases "MAX_FILES - boot_count s") (auto simp: Suc_diff_le diff_Suc split: nat.splits)
qed

lemma boot_wf_all: "boot_wf s \<Longrightarrow> boot_wf (register_all files s)"
proof (induction files arbitrary: s)
  case (Cons f files)
  obtain name data where f: "f = (name, data)" by fastforce
  have "register_all (f # files) s = register_all files (snd (register_boot_file name data s))"
    by (simp add: register_all_def f)
  then show ?case using Cons registered_push by simp
qed (simp add: register_all_def)

lemma find_boot:
  "map_option boot_data (find (\<lambda>file. names_equal (boot_name file) name)
     (map (\<lambda>(name, data). \<lparr>boot_name = name, boot_data = data\<rparr>) files)) = map_of files name"
  by (induction files) auto

text \<open>
  The boot loader's modules are looked up by name in the order they were registered (at most
  32 of them, later ones are dropped), the first of equal names wins, and only a name that is
  no boot file falls back to the RAM files.
\<close>

theorem storage_open_finds_boot_files:
  "storage_open name ((register_all files storage_initial)\<lparr>ram_files := table\<rparr>) =
     (case map_of (take MAX_FILES files) name of
        Some data \<Rightarrow> Some data
      | None \<Rightarrow> storage_read name (storage_initial\<lparr>ram_files := table\<rparr>))"
proof -
  let ?s = "(register_all files storage_initial)\<lparr>ram_files := table\<rparr>"
  have "boot_wf storage_initial" by (simp add: boot_wf_def storage_initial_def)
  moreover have "registered storage_initial = []" "boot_count storage_initial = 0"
    by (simp_all add: registered_def storage_initial_def map_filter_def)
  moreover have "registered ?s = registered (register_all files storage_initial)"
    by (simp add: registered_def)
  ultimately have "registered ?s =
      map (\<lambda>(name, data). \<lparr>boot_name = name, boot_data = data\<rparr>) (take MAX_FILES files)"
    using registered_all [of storage_initial files] by simp
  then have "map_of (take MAX_FILES files) name =
      map_option boot_data (find (\<lambda>file. names_equal (boot_name file) name) (registered ?s))"
    by (simp only: find_boot)
  moreover have "storage_read name ?s = storage_read name (storage_initial\<lparr>ram_files := table\<rparr>)"
    by (simp add: storage_read_def split: option.split)
  ultimately show ?thesis
    unfolding storage_open_def
    by (cases "find (\<lambda>file. names_equal (boot_name file) name) (registered ?s)") (simp_all del: names_equal_iff)
qed

end
