(* ===== verification/Vfs.thy ===== *)
theory Vfs
  imports Storage
begin

text \<open>
  The virtual file system, \<open>kernel-core/src/vfs.rs\<close>: one root mount (the boot files) and the
  RAM files under \<open>/tmp\<close>.  Paths are byte lists.
\<close>

section \<open>Data\<close>

datatype vfs_error = AlreadyMounted | InvalidMountPoint | NotMounted | NotFound | ReadOnly
  | InvalidPath | NameTooLong | NoSpace

text \<open>The implementations of the trait \<open>FileSystem\<close>, and its dispatch.\<close>

datatype file_system = InitRamFs | RamFs

fun fs_open :: "file_system \<Rightarrow> u8 list \<Rightarrow> storage \<Rightarrow> u8 list option" where
  "fs_open InitRamFs name s = storage_open name s"
| "fs_open RamFs name s = storage_read name s"

fun fs_files :: "file_system \<Rightarrow> storage \<Rightarrow> nat" where
  "fs_files InitRamFs s = boot_count s"
| "fs_files RamFs s = ram_file_count s"

record mount =
  mount_point :: "u8 list"
  mounted_system :: file_system

record vfs =
  vfs_storage :: storage
  root_mount :: "mount option"

definition vfs_initial :: vfs where
  "vfs_initial = \<lparr>vfs_storage = storage_initial, root_mount = None\<rparr>"

abbreviation SLASH :: u8 where "SLASH \<equiv> 47"

section \<open>Operations\<close>

definition mount_initramfs :: "vfs \<Rightarrow> (vfs_error + unit) \<times> vfs" where
  "mount_initramfs v =
     (if root_mount v \<noteq> None then (Inl AlreadyMounted, v)
      else (Inr (), v\<lparr>root_mount := Some \<lparr>mount_point = ascii ''/'', mounted_system = InitRamFs\<rparr>\<rparr>))"

definition vfs_open :: "u8 list \<Rightarrow> vfs \<Rightarrow> u8 list option" where
  "vfs_open path v =
     (case strip_prefix (ascii ''/'') path of
        None \<Rightarrow> None
      | Some relative_path \<Rightarrow>
          (case root_mount v of
             None \<Rightarrow> None
           | Some m \<Rightarrow>
               if mount_point m \<noteq> ascii ''/'' then None
               else (case strip_prefix (ascii ''tmp/'') relative_path of
                       Some name \<Rightarrow>
                         if name = [] \<or> SLASH \<in> set name then None
                         else storage_read name (vfs_storage v)
                     | None \<Rightarrow>
                         if relative_path = [] \<or> SLASH \<in> set relative_path then None
                         else fs_open (mounted_system m) relative_path (vfs_storage v))))"

fun ram_error :: "ramfs_error \<Rightarrow> vfs_error" where
  "ram_error ramfs_error.NotFound = NotFound"
| "ram_error ramfs_error.NameTooLong = NameTooLong"
| "ram_error ramfs_error.NoSpace = NoSpace"
| "ram_error ramfs_error.FileTooLarge = NoSpace"
| "ram_error ramfs_error.AlreadyExists = InvalidPath"

text \<open>\<open>result.map_err(ram_error)\<close> on a storage operation, its state put back into the VFS.\<close>

definition on_storage ::
  "(storage \<Rightarrow> (ramfs_error + unit) \<times> storage) \<Rightarrow> vfs \<Rightarrow> (vfs_error + unit) \<times> vfs" where
  "on_storage f v = (case f (vfs_storage v) of (r, s) \<Rightarrow> (map_sum ram_error (\<lambda>u. u) r, v\<lparr>vfs_storage := s\<rparr>))"

definition vfs_open_file :: "u8 list \<Rightarrow> bool \<Rightarrow> bool \<Rightarrow> vfs \<Rightarrow> (vfs_error + unit) \<times> vfs" where
  "vfs_open_file path writable create v =
     (if path = ascii ''/'' \<or> path = ascii ''/tmp'' then (Inl InvalidPath, v)
      else (case strip_prefix (ascii ''/tmp/'') path of
              Some name \<Rightarrow>
                if name = [] \<or> SLASH \<in> set name then (Inl InvalidPath, v)
                else if storage_read name (vfs_storage v) = None
                then (if \<not> create then (Inl NotFound, v) else on_storage (storage_create name) v)
                else (Inr (), v)
            | None \<Rightarrow>
                if writable \<or> create then (Inl ReadOnly, v)
                else (case vfs_open path v of None \<Rightarrow> (Inl NotFound, v) | Some _ \<Rightarrow> (Inr (), v))))"

definition vfs_write_at :: "u8 list \<Rightarrow> nat \<Rightarrow> u8 list \<Rightarrow> vfs \<Rightarrow> (vfs_error + unit) \<times> vfs" where
  "vfs_write_at path offset data v =
     (case strip_prefix (ascii ''/tmp/'') path of
        None \<Rightarrow> (Inl ReadOnly, v)
      | Some name \<Rightarrow> on_storage (storage_write_at name offset data) v)"

definition vfs_write :: "u8 list \<Rightarrow> u8 list \<Rightarrow> vfs \<Rightarrow> (vfs_error + unit) \<times> vfs" where
  "vfs_write path data v = vfs_write_at path 0 data v"

definition copy_name :: "u8 list \<Rightarrow> u8 list \<Rightarrow> (nat \<times> u8 list) option" where
  "copy_name out name =
     (if length out < length name then None else Some (length name, store_bytes out 0 name))"

definition directory_entry :: "u8 list \<Rightarrow> nat \<Rightarrow> u8 list \<Rightarrow> vfs \<Rightarrow> (nat \<times> u8 list) option" where
  "directory_entry path index out v =
     (if path = ascii ''/'' then
        (if index = 0 then copy_name out (ascii ''tmp'')
         else case boot_file_name (index - 1) (vfs_storage v) of
           None \<Rightarrow> None
         | Some name \<Rightarrow> copy_name out name)
      else if path = ascii ''/tmp'' then ram_file_name index out (vfs_storage v)
      else None)"

definition is_directory :: "u8 list \<Rightarrow> bool" where
  "is_directory path \<longleftrightarrow> path = ascii ''/'' \<or> path = ascii ''/tmp''"

definition mounted :: "vfs \<Rightarrow> bool" where
  "mounted v \<longleftrightarrow> root_mount v \<noteq> None"

definition mount_count :: "vfs \<Rightarrow> nat" where
  "mount_count v = (if mounted v then 1 else 0)"

section \<open>Path resolution\<close>

text \<open>
  The reference: a path is split at its slashes; \<open>/name\<close> is looked up on the root mount,
  \<open>/tmp/name\<close> among the RAM files, and nothing else names a file.
\<close>

fun resolve_components :: "u8 list list \<Rightarrow> vfs \<Rightarrow> u8 list option" where
  "resolve_components [[], name] v =
     (if name = [] then None else storage_open name (vfs_storage v))"
| "resolve_components [[], dir, name] v =
     (if dir = ascii ''tmp'' \<and> name \<noteq> [] then storage_read name (vfs_storage v) else None)"
| "resolve_components _ v = None"

definition vfs_boot :: "(u8 list \<times> u8 list) list \<Rightarrow> vfs" where
  "vfs_boot files =
     snd (mount_initramfs (vfs_initial\<lparr>vfs_storage := register_all files storage_initial\<rparr>))"

lemma ascii_paths [simp]:
  "ascii ''/'' = [SLASH]" "ascii ''/tmp'' = SLASH # ascii ''tmp''"
  "ascii ''tmp/'' = ascii ''tmp'' @ [SLASH]" "ascii ''/tmp/'' = SLASH # ascii ''tmp'' @ [SLASH]"
  by (simp_all add: ascii_def)

lemma tmp_plain [simp]: "SLASH \<notin> set (ascii ''tmp'')" "ascii ''tmp'' \<noteq> []"
  by (simp_all add: ascii_def)

definition root_ok :: "vfs \<Rightarrow> bool" where
  "root_ok v \<longleftrightarrow> root_mount v = Some \<lparr>mount_point = ascii ''/'', mounted_system = InitRamFs\<rparr>"

lemma open_relative:
  assumes "root_ok v"
  shows "vfs_open (SLASH # rel) v =
    (case strip_prefix (ascii ''tmp/'') rel of
       Some name \<Rightarrow> if name = [] \<or> SLASH \<in> set name then None else storage_read name (vfs_storage v)
     | None \<Rightarrow> if rel = [] \<or> SLASH \<in> set rel then None else storage_open rel (vfs_storage v))"
  using assms by (simp add: vfs_open_def root_ok_def strip_prefix_def [of "[SLASH]"] cong: option.case_cong)

lemma split_tmp: "split_at SLASH (ascii ''tmp'' @ SLASH # name) = ascii ''tmp'' # split_at SLASH name"
  by (cases "split_at SLASH name") (auto simp: split_at_Cons)

lemma open_resolves:
  assumes "root_ok v"
  shows "vfs_open path v = resolve_components (split_at SLASH path) v"
proof (cases path)
  case Nil
  then show ?thesis by (simp add: vfs_open_def strip_prefix_def)
next
  case path: (Cons c rel)
  show ?thesis
  proof (cases "c = SLASH")
    case False
    then have "strip_prefix [SLASH] path = None" by (simp add: path strip_prefix_def)
    moreover obtain y ys where "split_at SLASH path = (c # y) # ys"
      using False path by (cases "split_at SLASH rel") auto
    ultimately show ?thesis by (simp add: vfs_open_def)
  next
    case True
    then have sp: "strip_prefix [SLASH] path = Some rel" and split: "split_at SLASH path = [] # split_at SLASH rel"
      by (simp_all add: path)
    obtain y ys where y: "split_at SLASH rel = y # ys" by (cases "split_at SLASH rel") auto
    show ?thesis
    proof (cases "strip_prefix (ascii ''tmp/'') rel")
      case (Some name)
      then have rel: "rel = ascii ''tmp'' @ SLASH # name" by simp
      have lhs: "vfs_open path v =
          (if name = [] \<or> SLASH \<in> set name then None else storage_read name (vfs_storage v))"
        using Some by (simp only: path True open_relative [OF assms]) simp
      have s: "split_at SLASH path = [] # ascii ''tmp'' # split_at SLASH name"
        using split by (simp add: rel split_tmp)
      show ?thesis
      proof (cases "SLASH \<in> set name")
        case False
        then show ?thesis unfolding lhs s by simp
      next
        case True
        then obtain n1 n2 ns where "split_at SLASH name = n1 # n2 # ns"
          by (cases "split_at SLASH name"; cases "tl (split_at SLASH name)")
            (auto simp: split_at_single)
        then show ?thesis using True unfolding lhs s by simp
      qed
    next
      case None
      then have no: "rel \<noteq> ascii ''tmp'' @ SLASH # name" for name by (auto simp: strip_prefix_None)
      show ?thesis
      proof (cases ys)
        case Nil
        then have "SLASH \<notin> set rel" "y = rel" using y Nil by (simp_all add: split_at_single)
        then show ?thesis using None split y Nil
          by (simp add: path True open_relative [OF assms] del: ascii_paths)
      next
        case z: (Cons z zs)
        then obtain rest where "rel = y @ SLASH # rest" using y z by (auto simp: split_at_Cons)
        then have "SLASH \<in> set rel" "y \<noteq> ascii ''tmp''" using no by auto
        then show ?thesis using None split y z
          by (cases zs) (simp_all add: path True open_relative [OF assms] del: ascii_paths)
      qed
    qed
  qed
qed

text \<open>The two path shapes that name files.\<close>

lemma open_tmp:
  assumes "root_ok v"
  shows "vfs_open (ascii ''/tmp/'' @ name) v =
    (if name = [] \<or> SLASH \<in> set name then None else storage_read name (vfs_storage v))"
  using assms by (simp add: vfs_open_def root_ok_def strip_prefix_def)

lemma open_root:
  assumes "root_ok v" and "SLASH \<notin> set name"
  shows "vfs_open (SLASH # name) v = (if name = [] then None else storage_open name (vfs_storage v))"
  using assms by (simp add: open_resolves)

section \<open>Runs\<close>

datatype vfs_op = OpenFile "u8 list" bool bool | Write "u8 list" nat "u8 list"

fun vfs_exec :: "vfs_op \<Rightarrow> vfs \<Rightarrow> (vfs_error + unit) \<times> vfs" where
  "vfs_exec (OpenFile path writable create) v = vfs_open_file path writable create v"
| "vfs_exec (Write path offset data) v = vfs_write_at path offset data v"

definition vfs_run :: "vfs_op list \<Rightarrow> vfs \<Rightarrow> vfs" where
  "vfs_run ops v = fold (\<lambda>op v. snd (vfs_exec op v)) ops v"

text \<open>
  Invariant of a mounted file system: the root mount stays, the RAM table is well formed, no
  RAM file has a slash in its name, and the registered boot files are the loader's.
\<close>

definition vfs_inv :: "boot_file list \<Rightarrow> vfs \<Rightarrow> bool" where
  "vfs_inv boot v \<longleftrightarrow> root_ok v \<and> storage_wf (vfs_storage v) \<and> registered (vfs_storage v) = boot \<and>
     (\<forall>name. SLASH \<in> set name \<longrightarrow> storage_read name (vfs_storage v) = None)"

lemma ram_exec_registered:
  "ram_exec op s = (r, s') \<Longrightarrow> registered s' = registered s"
  by (cases op)
    (auto simp: storage_create_def storage_write_at_def storage_delete_def registered_def Let_def
      split: sum.splits option.splits if_splits)

lemma ram_exec_reads:
  assumes "storage_wf s" and "ram_exec op s = (r, s')"
  shows "storage_wf s'" and "(r, abs_ram s') = ram_spec_exec op (abs_ram s)"
  using ram_exec_refines [OF assms] by blast+

lemma vfs_inv_on_storage:
  assumes "vfs_inv boot v" and "\<And>name. SLASH \<in> set name \<Longrightarrow> op = Create name \<Longrightarrow> False"
  shows "vfs_inv boot (snd (on_storage (ram_exec op) v))"
proof -
  obtain r s' where e: "ram_exec op (vfs_storage v) = (r, s')" by fastforce
  have wf: "storage_wf (vfs_storage v)" using assms(1) by (simp add: vfs_inv_def)
  have "abs_ram s' name = None" if "SLASH \<in> set name" for name
  proof -
    have "abs_ram (vfs_storage v) name = None"
      using assms(1) that by (simp add: vfs_inv_def abs_ram_def)
    then show ?thesis
      using ram_exec_reads(2) [OF wf e] assms(2) [OF that] that
      by (cases op) (auto split: if_splits option.splits)
  qed
  then show ?thesis
    using assms(1) e ram_exec_reads(1) [OF wf e] ram_exec_registered [OF e]
    by (simp add: on_storage_def vfs_inv_def root_ok_def abs_ram_def)
qed

lemma vfs_inv_exec:
  assumes "vfs_inv boot v"
  shows "vfs_inv boot (snd (vfs_exec op v))"
proof (cases op)
  case (OpenFile path writable create)
  have "vfs_inv boot (snd (on_storage (storage_create name) v))" if "SLASH \<notin> set name" for name
    using vfs_inv_on_storage [OF assms, of "Create name"] that
    by (auto simp: on_storage_def)
  then show ?thesis using assms OpenFile
    by (auto simp: vfs_open_file_def simp del: ascii_paths split: option.splits)
next
  case (Write path offset data)
  have "vfs_inv boot (snd (on_storage (storage_write_at name offset data) v))" for name
    using vfs_inv_on_storage [OF assms, of "WriteAt name offset data"] by (simp add: on_storage_def)
  then show ?thesis using assms Write
    by (auto simp: vfs_write_at_def simp del: ascii_paths split: option.splits)
qed

lemma vfs_inv_run: "vfs_inv boot v \<Longrightarrow> vfs_inv boot (vfs_run ops v)"
  by (induction ops arbitrary: v) (auto simp: vfs_run_def vfs_inv_exec)

lemma vfs_boot_inv:
  "vfs_inv (map (\<lambda>(name, data). \<lparr>boot_name = name, boot_data = data\<rparr>) (take MAX_FILES files)) (vfs_boot files)"
proof -
  let ?s = "register_all files storage_initial"
  have "boot_wf storage_initial" by (simp add: boot_wf_def storage_initial_def)
  moreover have i: "registered storage_initial = []" "boot_count storage_initial = 0"
    by (simp_all add: registered_def storage_initial_def map_filter_def)
  ultimately have r: "registered ?s =
      map (\<lambda>(name, data). \<lparr>boot_name = name, boot_data = data\<rparr>) (take MAX_FILES files)"
    and ram: "ram_files ?s = ram_files storage_initial" and bw: "boot_wf ?s"
    using registered_all [of storage_initial files] boot_wf_all [of storage_initial files] by simp_all
  have wf: "storage_wf ?s"
    using storage_initial_wf(1) bw ram by (simp add: storage_wf_def boot_wf_def)
  have "storage_read name ?s = None" for name
    using fun_cong [OF storage_initial_wf(2), of name] ram
    by (simp add: abs_ram_def storage_read_def split: option.splits)
  then show ?thesis
    using r wf by (simp add: vfs_boot_def mount_initramfs_def vfs_initial_def vfs_inv_def root_ok_def)
qed

text \<open>What a write does to a file system that satisfies the invariant.\<close>

lemma vfs_write_cases:
  assumes inv: "vfs_inv boot v" and e: "vfs_write_at path offset data v = (r, v')"
  shows "case r of Inl _ \<Rightarrow> v' = v
    | Inr _ \<Rightarrow> (\<exists>name old. path = ascii ''/tmp/'' @ name \<and> vfs_open path v = Some old \<and>
           vfs_open path v' = Some (patch old offset data)) \<and>
        (\<forall>other. vfs_open other v' = vfs_open other v \<or>
           last (split_at SLASH other) = last (split_at SLASH path))"
proof (cases "strip_prefix (ascii ''/tmp/'') path")
  case None
  then show ?thesis using e by (auto simp add: vfs_write_at_def simp del: ascii_paths)
next
  case (Some name)
  then have path: "path = ascii ''/tmp/'' @ name" by simp
  have wf: "storage_wf (vfs_storage v)" and ok: "root_ok v" using inv by (simp_all add: vfs_inv_def)
  obtain rr s where x: "storage_write_at name offset data (vfs_storage v) = (rr, s)" by fastforce
  have r: "r = map_sum ram_error (\<lambda>u. u) rr" and v': "v' = v\<lparr>vfs_storage := s\<rparr>"
    using e x Some by (auto simp: vfs_write_at_def on_storage_def simp del: ascii_paths)
  have x': "ram_exec (WriteAt name offset data) (vfs_storage v) = (rr, s)" using x by simp
  from ram_exec_reads(2) [OF wf x'] have spec:
    "(rr, abs_ram s) = ram_spec_exec (WriteAt name offset data) (abs_ram (vfs_storage v))" .
  show ?thesis
  proof (cases rr)
    case (Inl err)
    then have "s = vfs_storage v"
      using x by (auto simp: storage_write_at_def Let_def split: sum.splits option.splits if_splits)
    then show ?thesis using r v' Inl by simp
  next
    case (Inr u)
    then obtain old where old: "abs_ram (vfs_storage v) name = Some old"
      and new: "abs_ram s = (abs_ram (vfs_storage v))(name \<mapsto> patch old offset data)"
      using spec by (auto split: if_splits option.splits)
    have noslash: "SLASH \<notin> set name" using old inv by (auto simp: vfs_inv_def abs_ram_def)
    have "name \<noteq> []" using spec Inr by (auto simp: valid_name_def split: if_splits)
    have ok': "root_ok v'" and vs: "vfs_storage v' = s" using ok by (simp_all add: v' root_ok_def)
    have last: "last (split_at SLASH path) = name"
      using noslash by (simp add: path split_tmp)
    have "vfs_open other v' = vfs_open other v" if "last (split_at SLASH other) \<noteq> name" for other
    proof -
      have "storage_read n s = storage_read n (vfs_storage v)" if "n \<noteq> name" for n
        using fun_cong [OF new, of n] that by (simp add: abs_ram_def)
      moreover have "storage_open n s = storage_open n (vfs_storage v)" if "n \<noteq> name" for n
        using calculation [OF that] ram_exec_registered [OF x']
        by (simp add: storage_open_def split: option.split)
      ultimately show ?thesis
        using that vs unfolding open_resolves [OF ok] open_resolves [OF ok']
        by (cases "(split_at SLASH other, v)" rule: resolve_components.cases) auto
    qed
    then show ?thesis
      using Inr r last old new noslash \<open>name \<noteq> []\<close> open_tmp [OF ok, of name] open_tmp [OF ok', of name]
      by (auto simp: path vs abs_ram_def fun_eq_iff simp del: ascii_paths)
  qed
qed

text \<open>
  C35: after boot and any sequence of opens (creating or not) and writes, a path resolves as its
  components say: \<open>/name\<close> names the boot file of that name or else the RAM file,
  \<open>/tmp/name\<close> the RAM file, and no other path, relative, empty or deeper, names anything.
\<close>

theorem vfs_open_resolves:
  "vfs_open path (vfs_run ops (vfs_boot files)) =
     resolve_components (split_at SLASH path) (vfs_run ops (vfs_boot files))"
  using vfs_inv_run [OF vfs_boot_inv, of files ops] by (intro open_resolves) (simp add: vfs_inv_def)

text \<open>
  The boot files are immutable: whatever is opened, created and written afterwards, the
  path \<open>/name\<close> of a name without slash has the contents the loader gave to the first boot file of
  that name, and a name of no boot file has those of \<open>/tmp/name\<close>.
\<close>

theorem vfs_boot_files_immutable:
  "name = [] \<or> SLASH \<in> set name \<or>
   vfs_open (SLASH # name) (vfs_run ops (vfs_boot files)) =
     (case map_of (take MAX_FILES files) name of
        Some data \<Rightarrow> Some data
      | None \<Rightarrow> vfs_open (ascii ''/tmp/'' @ name) (vfs_run ops (vfs_boot files)))"
proof -
  let ?v = "vfs_run ops (vfs_boot files)"
  have ok: "root_ok ?v" and reg: "registered (vfs_storage ?v) =
      map (\<lambda>(name, data). \<lparr>boot_name = name, boot_data = data\<rparr>) (take MAX_FILES files)"
    using vfs_inv_run [OF vfs_boot_inv, of files ops] by (simp_all add: vfs_inv_def)
  show ?thesis
  proof (cases "name = [] \<or> SLASH \<in> set name")
    case False
    have "map_of (take MAX_FILES files) name =
        map_option boot_data (find (\<lambda>file. names_equal (boot_name file) name) (registered (vfs_storage ?v)))"
      by (simp only: find_boot reg)
    then show ?thesis
      using False open_root [OF ok, of name] open_tmp [OF ok, of name]
      unfolding storage_open_def
      by (cases "find (\<lambda>file. names_equal (boot_name file) name) (registered (vfs_storage ?v))")
        (auto simp del: names_equal_iff)
  qed blast
qed

text \<open>
  a write either fails and changes nothing, or the path named an existing file
  \<open>/tmp/name\<close> whose contents are patched at the offset, while every path with another file
  name still opens with the same result.
\<close>

theorem vfs_write_is_local:
  "(let v = vfs_run ops (vfs_boot files)
    in case vfs_write_at path offset data v of
      (Inl e, v') \<Rightarrow> v' = v
    | (Inr _, v') \<Rightarrow>
        (\<exists>name old. path = ascii ''/tmp/'' @ name \<and> vfs_open path v = Some old \<and>
           vfs_open path v' = Some (patch old offset data)) \<and>
        (\<forall>other. vfs_open other v' = vfs_open other v \<or>
           last (split_at SLASH other) = last (split_at SLASH path)))"
proof -
  let ?v = "vfs_run ops (vfs_boot files)"
  let ?boot = "map (\<lambda>(name, data). \<lparr>boot_name = name, boot_data = data\<rparr>) (take MAX_FILES files)"
  have inv: "vfs_inv ?boot ?v" by (rule vfs_inv_run [OF vfs_boot_inv])
  obtain r v' where e: "vfs_write_at path offset data ?v = (r, v')" by fastforce
  show ?thesis
    using vfs_write_cases [OF inv e] e by (cases r) (auto simp: Let_def)
qed

end
