(* ===== verification/Paging.thy ===== *)
theory Paging
  imports Frames "HOL-Library.Sublist"
begin

text \<open>
  Four-level page tables, \<open>kernel-core/src/paging.rs\<close>.  Physical memory is byte addressed;
  a page table is the 512 little-endian 64-bit entries of one frame, reached through the
  loader's direct map, so \<open>table_mut(p).0[i]\<close> is the entry at physical address
  \<open>p + 8 * i\<close>.  \<open>cr3\<close> is the active root.  The translation cache is not modelled
  (\<open>invlpg\<close> has no effect here).

  The second half of the theory proves the page-table structure: the user halves of all
  address spaces form disjoint trees of owned frames.  Paths of table indices name their
  nodes; mapping, creating and destroying address spaces preserve the forest.
\<close>

section \<open>Data\<close>

definition ENTRY_ADDRESS_MASK :: u64 where "ENTRY_ADDRESS_MASK = 0x000FFFFFFFFFF000"
definition PRESENT :: u64 where "PRESENT = push_bit 0 1"
definition WRITABLE :: u64 where "WRITABLE = push_bit 1 1"
definition USER :: u64 where "USER = push_bit 2 1"
definition HUGE_PAGE :: u64 where "HUGE_PAGE = push_bit 7 1"
definition NO_EXECUTE :: u64 where "NO_EXECUTE = push_bit 63 1"
definition DEVICE_WINDOW_BASE :: u64 where "DEVICE_WINDOW_BASE = 0xFFFFFF0000000000"
definition KERNEL_STACK_GUARD_PAGE :: u64 where "KERNEL_STACK_GUARD_PAGE = 0xFFFFFF1000000000"
definition KERNEL_STACK_PAGES :: nat where "KERNEL_STACK_PAGES = 4"
definition USER_STACK_PAGES :: nat where "USER_STACK_PAGES = 4"
definition USER_SPACE_END :: u64 where "USER_SPACE_END = 0x0000800000000000"
definition FUTURE_USER_SPACE_BASE :: u64 where "FUTURE_USER_SPACE_BASE = 0x0000000040000000"

record paging_config =
  physical_memory_offset :: u64
  kernel_virtual_base :: u64
  kernel_physical_base :: u64
  kernel_size :: u64

datatype page_flags = KernelReadWrite | Device | UserReadOnly | UserReadWrite | UserReadExecute
  | UserReadWriteExecute

fun flag_bits :: "page_flags \<Rightarrow> u64" where
  "flag_bits KernelReadWrite = PRESENT OR WRITABLE OR NO_EXECUTE"
| "flag_bits Device = PRESENT OR WRITABLE OR NO_EXECUTE"
| "flag_bits UserReadOnly = PRESENT OR USER OR NO_EXECUTE"
| "flag_bits UserReadWrite = PRESENT OR WRITABLE OR USER OR NO_EXECUTE"
| "flag_bits UserReadExecute = PRESENT OR USER"
| "flag_bits UserReadWriteExecute = PRESENT OR WRITABLE OR USER"

datatype paging_error = FrameAllocationFailed | HugePageConflict | AlreadyMapped | InvalidUserAddress

record memory =
  mem_frames :: frame_state
  phys :: "nat \<Rightarrow> u8"
  cr3 :: u64
  phys_offset :: u64

section \<open>Physical memory\<close>

definition read64 :: "(nat \<Rightarrow> u8) \<Rightarrow> nat \<Rightarrow> u64" where
  "read64 p a = foldr (\<lambda>i w. push_bit 8 w OR ucast (p (a + i))) [0..<8] 0"

definition write64 :: "(nat \<Rightarrow> u8) \<Rightarrow> nat \<Rightarrow> u64 \<Rightarrow> (nat \<Rightarrow> u8)" where
  "write64 p a v = (\<lambda>k. if a \<le> k \<and> k < a + 8 then ucast (drop_bit (8 * (k - a)) v) else p k)"

definition table_entry :: "u64 \<Rightarrow> nat \<Rightarrow> memory \<Rightarrow> u64" where
  "table_entry table index m = read64 (phys m) (unat table + 8 * index)"

definition set_entry :: "u64 \<Rightarrow> nat \<Rightarrow> u64 \<Rightarrow> memory \<Rightarrow> memory" where
  "set_entry table index value m = m\<lparr>phys := write64 (phys m) (unat table + 8 * index) value\<rparr>"

definition zero_table :: "u64 \<Rightarrow> memory \<Rightarrow> memory" where
  "zero_table table m = fold (\<lambda>index m. set_entry table index 0 m) [0..<512] m"

text \<open>\<open>write_volatile\<close> of every byte of a slice into a frame, and of 4096 zero bytes.\<close>

definition write_physical_frame :: "u64 \<Rightarrow> u8 list \<Rightarrow> memory \<Rightarrow> memory" where
  "write_physical_frame physical_address source m =
     m\<lparr>phys := (\<lambda>k. if unat physical_address \<le> k \<and> k < unat physical_address + length source
                    then source ! (k - unat physical_address) else phys m k)\<rparr>"

definition zero_physical_frame :: "u64 \<Rightarrow> memory \<Rightarrow> memory" where
  "zero_physical_frame physical_address m =
     write_physical_frame physical_address (replicate (unat PAGE_SIZE) 0) m"

definition physical_to_virtual :: "u64 \<Rightarrow> memory \<Rightarrow> u64" where
  "physical_to_virtual physical_address m = physical_address + phys_offset m"

definition allocate_physical_frame :: "memory \<Rightarrow> u64 option \<times> memory" where
  "allocate_physical_frame m =
     (case frames_allocate (mem_frames m) of (r, fs) \<Rightarrow> (r, m\<lparr>mem_frames := fs\<rparr>))"

definition free_physical_frame :: "u64 \<Rightarrow> memory \<Rightarrow> memory" where
  "free_physical_frame address m = m\<lparr>mem_frames := frames_free address (mem_frames m)\<rparr>"

definition active_address_space :: "memory \<Rightarrow> u64" where
  "active_address_space m = cr3 m AND ENTRY_ADDRESS_MASK"

definition switch_address_space :: "u64 \<Rightarrow> memory \<Rightarrow> memory" where
  "switch_address_space address_space m = m\<lparr>cr3 := address_space\<rparr>"

section \<open>Mapping and unmapping\<close>

definition table_indices :: "u64 \<Rightarrow> nat list" where
  "table_indices virtual_address =
     map (\<lambda>shift. unat (drop_bit shift virtual_address AND 0x1FF)) [39, 30, 21, 12]"

definition table_bits :: "page_flags \<Rightarrow> u64 \<Rightarrow> u64" where
  "table_bits flags frame =
     frame OR PRESENT OR WRITABLE OR (if flag_bits flags AND USER \<noteq> 0 then USER else 0)"

text \<open>The loop over the upper three indices, which creates the missing tables.\<close>

fun walk_create :: "page_flags \<Rightarrow> nat list \<Rightarrow> u64 \<Rightarrow> memory \<Rightarrow> (paging_error + u64) \<times> memory" where
  "walk_create flags [] table m = (Inr table, m)"
| "walk_create flags (index # indices) table m =
     (let entry = table_entry table index m
      in if entry AND PRESENT = 0 then
           (case allocate_physical_frame m of
              (None, m) \<Rightarrow> (Inl FrameAllocationFailed, m)
            | (Some frame, m) \<Rightarrow>
                (let m = set_entry table index (table_bits flags frame) m;
                     m = zero_table frame m
                 in walk_create flags indices (table_entry table index m AND ENTRY_ADDRESS_MASK) m))
         else if entry AND HUGE_PAGE \<noteq> 0 then (Inl HugePageConflict, m)
         else walk_create flags indices (entry AND ENTRY_ADDRESS_MASK) m)"

definition map_page_in ::
  "u64 \<Rightarrow> u64 \<Rightarrow> u64 \<Rightarrow> page_flags \<Rightarrow> memory \<Rightarrow> (paging_error + unit) \<times> memory" where
  "map_page_in address_space virtual_address physical_address flags m =
     (let indices = table_indices virtual_address
      in case walk_create flags (take 3 indices) (address_space AND ENTRY_ADDRESS_MASK) m of
           (Inl e, m) \<Rightarrow> (Inl e, m)
         | (Inr table, m) \<Rightarrow>
             if table_entry table (indices ! 3) m AND PRESENT \<noteq> 0 then (Inl AlreadyMapped, m)
             else (Inr (), set_entry table (indices ! 3)
                     ((physical_address AND ENTRY_ADDRESS_MASK) OR flag_bits flags) m))"

definition map_page :: "u64 \<Rightarrow> u64 \<Rightarrow> page_flags \<Rightarrow> memory \<Rightarrow> (paging_error + unit) \<times> memory" where
  "map_page virtual_address physical_address flags m =
     map_page_in (cr3 m) virtual_address physical_address flags m"

fun walk_present :: "nat list \<Rightarrow> u64 \<Rightarrow> memory \<Rightarrow> u64 option" where
  "walk_present [] table m = Some table"
| "walk_present (index # indices) table m =
     (let entry = table_entry table index m
      in if entry AND PRESENT = 0 \<or> entry AND HUGE_PAGE \<noteq> 0 then None
         else walk_present indices (entry AND ENTRY_ADDRESS_MASK) m)"

definition unmap_page :: "u64 \<Rightarrow> memory \<Rightarrow> u64 option \<times> memory" where
  "unmap_page virtual_address m =
     (let indices = table_indices virtual_address
      in case walk_present (take 3 indices) (cr3 m AND ENTRY_ADDRESS_MASK) m of
           None \<Rightarrow> (None, m)
         | Some table \<Rightarrow>
             (let leaf = table_entry table (indices ! 3) m
              in if leaf AND PRESENT = 0 then (None, m)
                 else (Some (leaf AND ENTRY_ADDRESS_MASK), set_entry table (indices ! 3) 0 m)))"

definition user_range :: "u64 \<Rightarrow> bool" where
  "user_range virtual_address \<longleftrightarrow>
     \<not> (virtual_address < FUTURE_USER_SPACE_BASE \<or> USER_SPACE_END \<le> virtual_address)"

definition map_user_page_with_flags ::
  "u64 \<Rightarrow> u64 \<Rightarrow> page_flags \<Rightarrow> memory \<Rightarrow> (paging_error + unit) \<times> memory" where
  "map_user_page_with_flags virtual_address physical_address flags m =
     (if \<not> user_range virtual_address then (Inl InvalidUserAddress, m)
      else map_page virtual_address physical_address flags m)"

definition map_user_page :: "u64 \<Rightarrow> u64 \<Rightarrow> memory \<Rightarrow> (paging_error + unit) \<times> memory" where
  "map_user_page virtual_address physical_address m =
     (if \<not> user_range virtual_address then (Inl InvalidUserAddress, m)
      else map_page virtual_address physical_address UserReadWrite m)"

definition map_user_code_page :: "u64 \<Rightarrow> u64 \<Rightarrow> memory \<Rightarrow> (paging_error + unit) \<times> memory" where
  "map_user_code_page virtual_address physical_address m =
     (if \<not> user_range virtual_address then (Inl InvalidUserAddress, m)
      else map_page virtual_address physical_address UserReadExecute m)"

definition map_user_page_in ::
  "u64 \<Rightarrow> u64 \<Rightarrow> u64 \<Rightarrow> page_flags \<Rightarrow> memory \<Rightarrow> (paging_error + unit) \<times> memory" where
  "map_user_page_in address_space virtual_address physical_address flags m =
     (if \<not> user_range virtual_address then (Inl InvalidUserAddress, m)
      else map_page_in address_space virtual_address physical_address flags m)"

definition map_device_page :: "u64 \<Rightarrow> u64 \<Rightarrow> memory \<Rightarrow> (paging_error + unit) \<times> memory" where
  "map_device_page virtual_address physical_address m =
     (if virtual_address mod PAGE_SIZE \<noteq> 0 \<or> physical_address mod PAGE_SIZE \<noteq> 0
      then (Inl InvalidUserAddress, m)
      else map_page virtual_address physical_address Device m)"

definition initialize_virtual_memory ::
  "paging_config \<Rightarrow> memory \<Rightarrow> (paging_error + unit) \<times> memory" where
  "initialize_virtual_memory config m =
     map_page DEVICE_WINDOW_BASE 0xB8000 Device (m\<lparr>phys_offset := physical_memory_offset config\<rparr>)"

section \<open>User accesses\<close>

fun walk_user :: "nat list \<Rightarrow> u64 \<Rightarrow> memory \<Rightarrow> u64 option" where
  "walk_user [] table m = Some table"
| "walk_user (index # indices) table m =
     (let entry = table_entry table index m
      in if entry AND (PRESENT OR USER OR HUGE_PAGE) \<noteq> PRESENT OR USER then None
         else walk_user indices (entry AND ENTRY_ADDRESS_MASK) m)"

definition is_user_executable :: "u64 \<Rightarrow> memory \<Rightarrow> bool" where
  "is_user_executable virtual_address m =
     (if \<not> user_range virtual_address then False
      else let indices = table_indices virtual_address
      in case walk_user (take 3 indices) (cr3 m AND ENTRY_ADDRESS_MASK) m of
           None \<Rightarrow> False
         | Some table \<Rightarrow>
             (let leaf = table_entry table (indices ! 3) m
              in leaf AND (PRESENT OR USER) = PRESENT OR USER \<and> leaf AND NO_EXECUTE = 0))"

definition is_user_mapped :: "u64 \<Rightarrow> memory \<Rightarrow> bool" where
  "is_user_mapped virtual_address m =
     (if \<not> user_range virtual_address then False
      else let indices = table_indices virtual_address
      in case walk_user (take 3 indices) (cr3 m AND ENTRY_ADDRESS_MASK) m of
           None \<Rightarrow> False
         | Some table \<Rightarrow>
             table_entry table (indices ! 3) m AND (PRESENT OR USER) = PRESENT OR USER)"

section \<open>Address spaces\<close>

definition create_user_address_space :: "memory \<Rightarrow> (paging_error + u64) \<times> memory" where
  "create_user_address_space m =
     (case allocate_physical_frame m of
        (None, m) \<Rightarrow> (Inl FrameAllocationFailed, m)
      | (Some frame, m) \<Rightarrow>
          (let m = zero_table frame m;
               source = cr3 m AND ENTRY_ADDRESS_MASK
           in (Inr frame,
               fold (\<lambda>index m. set_entry frame index (table_entry source index m) m) [256..<512] m)))"

primrec release_user_table :: "nat \<Rightarrow> u64 \<Rightarrow> memory \<Rightarrow> memory" where
  "release_user_table 0 = (\<lambda>frame m. m)"
| "release_user_table (Suc lower) = (\<lambda>frame m.
     free_physical_frame frame
       (fold (\<lambda>index m.
          let entry = table_entry frame index m
          in if entry AND PRESENT = 0 then m
             else let child = entry AND ENTRY_ADDRESS_MASK;
                      m = (if lower = 0 \<or> entry AND HUGE_PAGE \<noteq> 0 then free_physical_frame child m
                           else release_user_table lower child m)
                  in set_entry frame index 0 m) [0..<512] m))"

definition destroy_user_address_space :: "u64 \<Rightarrow> memory \<Rightarrow> memory" where
  "destroy_user_address_space address_space m =
     (let root = address_space AND ENTRY_ADDRESS_MASK;
          m = fold (\<lambda>index m.
                let entry = table_entry root index m
                in if entry AND PRESENT = 0 then m
                   else set_entry root index 0
                          (release_user_table 3 (entry AND ENTRY_ADDRESS_MASK) m)) [0..<256] m
      in free_physical_frame root m)"

section \<open>Stacks\<close>

text \<open>\<open>for page in pages { map(address(page), allocate()?, flags)?; }\<close>\<close>

fun map_fresh_pages ::
  "(u64 \<Rightarrow> u64 \<Rightarrow> memory \<Rightarrow> (paging_error + unit) \<times> memory) \<Rightarrow> u64 list \<Rightarrow> memory \<Rightarrow>
   (paging_error + unit) \<times> memory" where
  "map_fresh_pages map_one [] m = (Inr (), m)"
| "map_fresh_pages map_one (address # addresses) m =
     (case allocate_physical_frame m of
        (None, m) \<Rightarrow> (Inl FrameAllocationFailed, m)
      | (Some frame, m) \<Rightarrow>
          (case map_one address frame m of
             (Inl e, m) \<Rightarrow> (Inl e, m)
           | (Inr _, m) \<Rightarrow> map_fresh_pages map_one addresses m))"

fun unmap_and_free :: "u64 list \<Rightarrow> memory \<Rightarrow> memory" where
  "unmap_and_free [] m = m"
| "unmap_and_free (address # addresses) m =
     (case unmap_page address m of
        (Some frame, m) \<Rightarrow> unmap_and_free addresses (free_physical_frame frame m)
      | (None, m) \<Rightarrow> unmap_and_free addresses m)"

definition kernel_stack_base :: "nat \<Rightarrow> u64" where
  "kernel_stack_base slot =
     KERNEL_STACK_GUARD_PAGE + of_nat slot * (of_nat KERNEL_STACK_PAGES + 1) * PAGE_SIZE + PAGE_SIZE"

definition user_stack_top :: "nat \<Rightarrow> u64" where
  "user_stack_top slot =
     USER_SPACE_END - PAGE_SIZE - of_nat slot * (of_nat USER_STACK_PAGES + 1) * PAGE_SIZE"

definition kernel_stack_pages :: "nat \<Rightarrow> u64 list" where
  "kernel_stack_pages slot =
     map (\<lambda>page. kernel_stack_base slot + of_nat page * PAGE_SIZE) [0..<KERNEL_STACK_PAGES]"

definition user_stack_pages :: "nat \<Rightarrow> u64 list" where
  "user_stack_pages slot =
     map (\<lambda>page. user_stack_top slot - of_nat page * PAGE_SIZE) [1..<USER_STACK_PAGES + 1]"

definition allocate_kernel_stack :: "nat \<Rightarrow> memory \<Rightarrow> (paging_error + u64) \<times> memory" where
  "allocate_kernel_stack slot m =
     (case map_fresh_pages (\<lambda>address frame m. map_page address frame KernelReadWrite m)
             (kernel_stack_pages slot) m of
        (Inl e, m) \<Rightarrow> (Inl e, m)
      | (Inr _, m) \<Rightarrow> (Inr (kernel_stack_base slot + of_nat KERNEL_STACK_PAGES * PAGE_SIZE), m))"

definition release_kernel_stack :: "nat \<Rightarrow> memory \<Rightarrow> memory" where
  "release_kernel_stack slot m = unmap_and_free (kernel_stack_pages slot) m"

definition allocate_user_stack_in :: "u64 \<Rightarrow> nat \<Rightarrow> memory \<Rightarrow> (paging_error + u64) \<times> memory" where
  "allocate_user_stack_in address_space slot m =
     (case map_fresh_pages
             (\<lambda>address frame m. map_user_page_in address_space address frame UserReadWrite
                (zero_physical_frame frame m))
             (user_stack_pages slot) m of
        (Inl e, m) \<Rightarrow> (Inl e, m)
      | (Inr _, m) \<Rightarrow> (Inr (user_stack_top slot), m))"

definition allocate_user_stack :: "nat \<Rightarrow> memory \<Rightarrow> (paging_error + u64) \<times> memory" where
  "allocate_user_stack slot m = allocate_user_stack_in (active_address_space m) slot m"

definition release_user_stack :: "nat \<Rightarrow> memory \<Rightarrow> memory" where
  "release_user_stack slot m = unmap_and_free (user_stack_pages slot) m"

section \<open>Entries in byte memory\<close>

lemma bit_read64_part:
  "bit (foldr (\<lambda>i w. push_bit 8 w OR ucast (p (a + i))) [j..<k] (0 :: u64)) n \<longleftrightarrow>
     n < 64 \<and> j + n div 8 < k \<and> bit ((p :: nat \<Rightarrow> u8) (a + (j + n div 8))) (n mod 8)"
proof (induction "k - j" arbitrary: j n)
  case 0
  then show ?case by simp
next
  case (Suc d)
  then have "[j..<k] = j # [Suc j..<k]" by (simp add: upt_conv_Cons)
  moreover have "d = k - Suc j" using Suc.hyps(2) by simp
  note IH = Suc.hyps(1) [OF this]
  show ?case
  proof (cases "n < 8")
    case True
    then show ?thesis using \<open>[j..<k] = _\<close> Suc.hyps(2) by (auto simp: bit_simps IH)
  next
    case False
    then obtain l where l: "n = 8 + l" using le_Suc_ex not_less by blast
    have "bit (p (a + j)) (8 + l) = False" by (auto dest: bit_imp_le_length)
    moreover have "(8 + l) div 8 = Suc (l div 8)" by simp
    ultimately show ?thesis using \<open>[j..<k] = _\<close> l by (auto simp: bit_simps IH)
  qed
qed

lemma bit_read64:
  "bit (read64 p a) n \<longleftrightarrow> n < 64 \<and> bit (p (a + n div 8)) (n mod 8)"
  unfolding read64_def bit_read64_part by (auto simp: less_mult_imp_div_less)

lemma read64_cong:
  assumes "\<And>k. a \<le> k \<Longrightarrow> k < a + 8 \<Longrightarrow> p k = q k"
  shows "read64 p a = read64 q a"
  by (rule bit_eqI) (auto simp: bit_read64 assms)

lemma read64_write64: "read64 (write64 p a v) a = v"
  by (rule bit_eqI) (auto simp: bit_read64 write64_def bit_simps dest: bit_imp_le_length)

lemma read64_write64_other:
  "a + 8 \<le> b \<or> b + 8 \<le> a \<Longrightarrow> read64 (write64 p a v) b = read64 p b"
  by (rule read64_cong) (auto simp: write64_def)

lemma read64_zero: "(\<And>k. a \<le> k \<Longrightarrow> k < a + 8 \<Longrightarrow> p k = 0) \<Longrightarrow> read64 p a = 0"
  by (rule bit_eqI) (auto simp: bit_read64)

text \<open>Addresses a page-table entry can hold.\<close>

definition frame_ok :: "u64 \<Rightarrow> bool" where
  "frame_ok f \<longleftrightarrow> unat f mod 4096 = 0 \<and> unat f < 2 ^ 52"

lemma frame_gap:
  assumes "frame_ok t" and "frame_ok u" and "t \<noteq> u"
  shows "unat t + 4096 \<le> unat u \<or> unat u + 4096 \<le> unat t"
proof -
  obtain x y where xy: "unat t = 4096 * x" "unat u = 4096 * y"
    using assms by (auto simp: frame_ok_def elim!: dvdE)
  have "unat t \<noteq> unat u" using assms(3) by (metis unsigned_word_eqI)
  then have "x < y \<or> y < x" using xy by auto
  then show ?thesis using xy by auto
qed

lemma table_entry_set:
  assumes "frame_ok t" and "frame_ok u" and "i < 512" and "j < 512"
  shows "table_entry t i (set_entry u j v m) = (if t = u \<and> i = j then v else table_entry t i m)"
proof (cases "t = u \<and> i = j")
  case True
  then show ?thesis by (simp add: table_entry_def set_entry_def read64_write64)
next
  case False
  then have "(unat u + 8 * j) + 8 \<le> unat t + 8 * i \<or> (unat t + 8 * i) + 8 \<le> unat u + 8 * j"
    using frame_gap [OF assms(1,2)] assms(3,4) by (cases "t = u") auto
  then show ?thesis using False
    by (auto simp: table_entry_def set_entry_def read64_write64_other)
qed

lemma set_entry_fields [simp]:
  "mem_frames (set_entry t i v m) = mem_frames m" "cr3 (set_entry t i v m) = cr3 m"
  by (simp_all add: set_entry_def)

lemma fold_set_entry:
  assumes "frame_ok t" and "frame_ok u" and "i < 512" and "set is \<subseteq> {..<512}"
  shows "table_entry t i (fold (\<lambda>j m. set_entry u j 0 m) is m) =
      (if t = u \<and> i \<in> set is then 0 else table_entry t i m) \<and>
    mem_frames (fold (\<lambda>j m. set_entry u j 0 m) is m) = mem_frames m \<and>
    cr3 (fold (\<lambda>j m. set_entry u j 0 m) is m) = cr3 m"
  using assms(4)
  by (induction "is" arbitrary: m) (auto simp: table_entry_set assms(1-3))

lemma zero_table_entries:
  assumes "frame_ok t" and "frame_ok u" and "i < 512"
  shows "table_entry t i (zero_table u m) = (if t = u then 0 else table_entry t i m)"
  unfolding zero_table_def using fold_set_entry [OF assms, of "[0..<512]" m] assms(3)
  by (simp add: lessThan_atLeast0 del: upt.simps)

lemma zero_table_fields [simp]:
  "mem_frames (zero_table u m) = mem_frames m" "cr3 (zero_table u m) = cr3 m"
proof -
  have "mem_frames (fold (\<lambda>j m. set_entry u j 0 m) is m) = mem_frames m \<and>
    cr3 (fold (\<lambda>j m. set_entry u j 0 m) is m) = cr3 m" for "is"
    by (induction "is" arbitrary: m) auto
  then show "mem_frames (zero_table u m) = mem_frames m" "cr3 (zero_table u m) = cr3 m"
    by (simp_all add: zero_table_def)
qed

lemma table_entry_frames [simp]: "table_entry t i (m\<lparr>mem_frames := fs\<rparr>) = table_entry t i m"
  by (simp add: table_entry_def)

lemma write_frame_entries:
  assumes "frame_ok t" and "frame_ok u" and "t \<noteq> u" and "i < 512" and "length src \<le> 4096"
  shows "table_entry t i (write_physical_frame u src m) = table_entry t i m"
  unfolding table_entry_def write_physical_frame_def
  using frame_gap [OF assms(1-3)] assms(4,5) by (auto intro!: read64_cong)

lemma write_frame_fields [simp]:
  "mem_frames (write_physical_frame u src m) = mem_frames m" "cr3 (write_physical_frame u src m) = cr3 m"
  by (simp_all add: write_physical_frame_def)

section \<open>Entry values\<close>

lemma bit_single: "bit (push_bit k (1 :: u64)) n \<longleftrightarrow> n = k \<and> n < 64"
  unfolding bit_push_bit_iff by (auto simp: bit_1_iff)

lemma flag_set:
  assumes "k < 64"
  shows "(w :: u64) AND push_bit k 1 = 0 \<longleftrightarrow> \<not> bit w k"
proof
  assume "w AND push_bit k 1 = 0"
  then have "\<not> bit (w AND push_bit k 1) k" by (simp only: bit_0_eq) simp
  then show "\<not> bit w k" unfolding bit_and_iff bit_single using assms by simp
next
  assume "\<not> bit w k"
  then show "w AND push_bit k 1 = 0"
    by (intro bit_eqI) (auto simp only: bit_and_iff bit_single bit_0_eq bot_apply bot_bool_def)
qed

lemma bit_flags:
  "bit PRESENT n \<longleftrightarrow> n = 0" "bit WRITABLE n \<longleftrightarrow> n = 1" "bit USER n \<longleftrightarrow> n = 2"
  "bit HUGE_PAGE n \<longleftrightarrow> n = 7" "bit NO_EXECUTE n \<longleftrightarrow> n = 63"
  unfolding PRESENT_def WRITABLE_def USER_def HUGE_PAGE_def NO_EXECUTE_def bit_single by auto

lemma present_iff: "w AND PRESENT = 0 \<longleftrightarrow> \<not> bit w 0"
  unfolding PRESENT_def by (rule flag_set) simp

lemma huge_iff: "w AND HUGE_PAGE = 0 \<longleftrightarrow> \<not> bit w 7"
  unfolding HUGE_PAGE_def by (rule flag_set) simp

lemma bit_address_mask: "bit ENTRY_ADDRESS_MASK n \<longleftrightarrow> 12 \<le> n \<and> n < 52"
proof -
  have eq: "ENTRY_ADDRESS_MASK = push_bit 12 (mask 40)"
    by (simp add: ENTRY_ADDRESS_MASK_def mask_eq_exp_minus_1)
  show ?thesis unfolding eq bit_push_bit_iff bit_mask_iff by auto
qed

lemma bit_flag_bits:
  "bit (flag_bits flags) n \<Longrightarrow> n = 0 \<or> n = 1 \<or> n = 2 \<or> n = 63" "bit (flag_bits flags) 0"
  by (cases flags; auto simp: bit_flags bit_or_iff)+

lemma frame_ok_bits:
  assumes f: "frame_ok f" and n: "bit f n"
  shows "12 \<le> n \<and> n < 52"
proof -
  have "take_bit 12 (unat f) = 0" using f by (simp add: frame_ok_def take_bit_eq_mod)
  then have "\<not> bit (unat f) n" if "n < 12"
    using that bit_take_bit_iff [of 12 "unat f" n] by simp
  moreover have "take_bit 52 (unat f) = unat f" using f by (simp add: frame_ok_def take_bit_eq_mod)
  then have "\<not> bit (unat f) n" if "52 \<le> n"
    using that bit_take_bit_iff [of 52 "unat f" n] by simp
  moreover have "bit (unat f) n" using n by (simp add: bit_unsigned_iff)
  ultimately show ?thesis by (meson not_less)
qed

lemma frame_ok_mask: "frame_ok f \<Longrightarrow> f AND ENTRY_ADDRESS_MASK = f"
  by (rule bit_eqI) (auto simp: bit_and_iff bit_address_mask dest: frame_ok_bits)

lemma leaf_value:
  "((a AND ENTRY_ADDRESS_MASK) OR flag_bits flags) AND ENTRY_ADDRESS_MASK = a AND ENTRY_ADDRESS_MASK"
  "((a AND ENTRY_ADDRESS_MASK) OR flag_bits flags) AND PRESENT \<noteq> 0"
  "((a AND ENTRY_ADDRESS_MASK) OR flag_bits flags) AND HUGE_PAGE = 0"
proof -
  show "((a AND ENTRY_ADDRESS_MASK) OR flag_bits flags) AND ENTRY_ADDRESS_MASK = a AND ENTRY_ADDRESS_MASK"
    by (rule bit_eqI) (auto simp: bit_and_iff bit_or_iff bit_address_mask dest: bit_flag_bits(1))
  show "((a AND ENTRY_ADDRESS_MASK) OR flag_bits flags) AND PRESENT \<noteq> 0"
    using bit_flag_bits(2) by (auto simp: present_iff bit_or_iff)
  show "((a AND ENTRY_ADDRESS_MASK) OR flag_bits flags) AND HUGE_PAGE = 0"
    using bit_flag_bits(1) [of flags 7] by (auto simp: huge_iff bit_or_iff bit_and_iff bit_address_mask)
qed

lemma bit_table_bits:
  "bit (table_bits flags f) n \<Longrightarrow> bit f n \<or> n = 0 \<or> n = 1 \<or> n = 2"
  "bit f n \<or> n = 0 \<Longrightarrow> bit (table_bits flags f) n"
  by (auto simp: table_bits_def bit_flags bit_or_iff split: if_splits)

lemma table_value:
  assumes "frame_ok f"
  shows "table_bits flags f AND ENTRY_ADDRESS_MASK = f" "table_bits flags f AND PRESENT \<noteq> 0"
    "table_bits flags f AND HUGE_PAGE = 0"
proof -
  show "table_bits flags f AND ENTRY_ADDRESS_MASK = f"
    by (rule bit_eqI)
      (auto simp: bit_and_iff bit_address_mask dest: bit_table_bits(1) frame_ok_bits [OF assms]
        intro: bit_table_bits(2))
  show "table_bits flags f AND PRESENT \<noteq> 0" using bit_table_bits(2) [of f 0] by (auto simp: present_iff)
  show "table_bits flags f AND HUGE_PAGE = 0"
    using bit_table_bits(1) [of flags f 7] frame_ok_bits [OF assms, of 7] by (auto simp: huge_iff)
qed

section \<open>The forest of user page tables\<close>

text \<open>The frame a path of table indices leads to, present bits only.\<close>

fun resolve :: "nat list \<Rightarrow> u64 \<Rightarrow> memory \<Rightarrow> u64 option" where
  "resolve [] table m = Some table"
| "resolve (i # p) table m =
     (let entry = table_entry table i m
      in if entry AND PRESENT = 0 then None else resolve p (entry AND ENTRY_ADDRESS_MASK) m)"

lemma resolve_append:
  "resolve (p @ q) t m = (case resolve p t m of None \<Rightarrow> None | Some u \<Rightarrow> resolve q u m)"
  by (induction p arbitrary: t) (auto simp: Let_def)

lemma resolve_snoc:
  "resolve (p @ [i]) t m = (case resolve p t m of None \<Rightarrow> None
     | Some u \<Rightarrow> if table_entry u i m AND PRESENT = 0 then None
        else Some (table_entry u i m AND ENTRY_ADDRESS_MASK))"
  by (simp add: resolve_append Let_def split: option.split)

definition user_path :: "nat list \<Rightarrow> bool" where
  "user_path p \<longleftrightarrow> length p \<le> 4 \<and> (\<forall>i \<in> set p. i < 512) \<and> (p \<noteq> [] \<longrightarrow> hd p < 256)"

lemma user_path_Nil [simp]: "user_path []"
  by (simp add: user_path_def)

lemma user_path_append: "user_path (p @ q) \<Longrightarrow> user_path p"
  by (cases p) (auto simp: user_path_def)

lemma user_path_last: "user_path (p @ [i]) \<Longrightarrow> i < 512"
  by (simp add: user_path_def)

definition forest :: "u64 set \<Rightarrow> memory \<Rightarrow> bool" where
  "forest R m \<longleftrightarrow> frames_inv (mem_frames m) \<and>
     (\<forall>r \<in> R. \<forall>p f. user_path p \<longrightarrow> resolve p r m = Some f \<longrightarrow> f \<in> owned_frames (mem_frames m)) \<and>
     (\<forall>r \<in> R. \<forall>r' \<in> R. \<forall>p p' f. user_path p \<longrightarrow> user_path p' \<longrightarrow> resolve p r m = Some f \<longrightarrow>
        resolve p' r' m = Some f \<longrightarrow> r = r' \<and> p = p') \<and>
     (\<forall>r \<in> R. \<forall>p f i. user_path (p @ [i]) \<longrightarrow> resolve p r m = Some f \<longrightarrow>
        table_entry f i m AND HUGE_PAGE = 0) \<and>
     (\<forall>r \<in> R. \<forall>p f i. user_path (p @ [i]) \<longrightarrow> length p < 3 \<longrightarrow> resolve p r m = Some f \<longrightarrow>
        bit (table_entry f i m) 0 \<longrightarrow> bit (table_entry f i m) 2)"

definition loose :: "u64 set \<Rightarrow> u64 \<Rightarrow> memory \<Rightarrow> bool" where
  "loose R c m \<longleftrightarrow> c \<in> owned_frames (mem_frames m) \<and>
     (\<forall>r \<in> R. \<forall>p. user_path p \<longrightarrow> resolve p r m \<noteq> Some c)"

text \<open>A frame that is no table of the forest: a loose frame or the frame of a mapped page.\<close>

definition inert :: "u64 set \<Rightarrow> u64 \<Rightarrow> memory \<Rightarrow> bool" where
  "inert R c m \<longleftrightarrow> c \<in> owned_frames (mem_frames m) \<and>
     (\<forall>r \<in> R. \<forall>p. user_path p \<longrightarrow> length p < 4 \<longrightarrow> resolve p r m \<noteq> Some c)"

lemma loose_inert: "loose R c m \<Longrightarrow> inert R c m"
  by (simp add: loose_def inert_def)

lemma forestD:
  assumes "forest R m"
  shows "frames_inv (mem_frames m)"
    and "r \<in> R \<Longrightarrow> user_path p \<Longrightarrow> resolve p r m = Some f \<Longrightarrow> f \<in> owned_frames (mem_frames m)"
    and "r \<in> R \<Longrightarrow> r' \<in> R \<Longrightarrow> user_path p \<Longrightarrow> user_path p' \<Longrightarrow> resolve p r m = Some f \<Longrightarrow>
      resolve p' r' m = Some f \<Longrightarrow> r = r' \<and> p = p'"
    and "r \<in> R \<Longrightarrow> user_path (p @ [i]) \<Longrightarrow> resolve p r m = Some f \<Longrightarrow>
      table_entry f i m AND HUGE_PAGE = 0"
    and "r \<in> R \<Longrightarrow> user_path (p @ [i]) \<Longrightarrow> length p < 3 \<Longrightarrow> resolve p r m = Some f \<Longrightarrow>
      bit (table_entry f i m) 0 \<Longrightarrow> bit (table_entry f i m) 2"
  using assms unfolding forest_def by blast+

lemma owned_ok: "f \<in> owned_frames s \<Longrightarrow> frame_ok f"
  using fa.frame_aligned [of f s] by (simp add: frame_ok_def)

text \<open>
  Planting a frame \<open>c\<close>, so far no node of the forest, at an empty entry: a zeroed table in
  the upper levels, any frame at the leaves.
\<close>

lemma resolve_plant_other:
  assumes fo: "forest R m" and r: "r \<in> R" and up: "user_path (p @ [i])" and t: "resolve p r m = Some t"
    and entries: "\<And>u j. u \<in> owned_frames (mem_frames m) \<Longrightarrow> j < 512 \<Longrightarrow> u \<noteq> c \<Longrightarrow>
      table_entry u j m' = (if u = t \<and> j = i then e else table_entry u j m)"
    and c: "loose R c m"
  shows "r' \<in> R \<Longrightarrow> user_path q \<Longrightarrow> \<not> (r' = r \<and> prefix (p @ [i]) q) \<Longrightarrow> resolve q r' m' = resolve q r' m"
proof (induction q rule: rev_induct)
  case Nil
  then show ?case by simp
next
  case (snoc j q)
  have uq: "user_path q" using snoc.prems(2) by (rule user_path_append)
  have IH: "resolve q r' m' = resolve q r' m"
    using snoc.IH [OF snoc.prems(1) uq] snoc.prems(3) by auto
  show ?case
  proof (cases "resolve q r' m")
    case None
    then show ?thesis using IH by (simp add: resolve_snoc)
  next
    case (Some u)
    have ow: "u \<in> owned_frames (mem_frames m)" by (rule forestD(2) [OF fo snoc.prems(1) uq Some])
    have "u \<noteq> c" using c snoc.prems(1) uq Some by (auto simp: loose_def)
    moreover have "\<not> (u = t \<and> j = i)"
    proof
      assume "u = t \<and> j = i"
      then have "r' = r \<and> q = p"
        using forestD(3) [OF fo snoc.prems(1) r uq user_path_append [OF up] Some] t by auto
      then show False using snoc.prems(3) \<open>u = t \<and> j = i\<close> by auto
    qed
    ultimately have "table_entry u j m' = table_entry u j m"
      using entries [OF ow user_path_last [OF snoc.prems(2)]] by auto
    then show ?thesis using IH Some by (simp add: resolve_snoc)
  qed
qed

definition leaf_entry :: "nat list \<Rightarrow> u64 \<Rightarrow> memory \<Rightarrow> u64" where
  "leaf_entry q r m = (case resolve (take 3 q) r m of None \<Rightarrow> 0 | Some t \<Rightarrow> table_entry t (q ! 3) m)"

definition page_path :: "nat list \<Rightarrow> bool" where
  "page_path q \<longleftrightarrow> user_path q \<and> length q = 4"

lemma page_path_split: "page_path q \<Longrightarrow> q = take 3 q @ [q ! 3]"
  using take_Suc_conv_app_nth [of 3 q] by (simp add: page_path_def)

lemma page_path_take: "page_path q \<Longrightarrow> user_path (take 3 q)"
  using page_path_split [of q] user_path_append by (metis page_path_def)

lemma page_path_last: "page_path q \<Longrightarrow> q ! 3 < 512"
  by (simp add: page_path_def user_path_def)

definition planting ::
  "u64 set \<Rightarrow> memory \<Rightarrow> memory \<Rightarrow> u64 \<Rightarrow> nat list \<Rightarrow> nat \<Rightarrow> u64 \<Rightarrow> u64 \<Rightarrow> u64 \<Rightarrow> bool" where
  "planting R m m' r p i t c e \<longleftrightarrow> forest R m \<and> r \<in> R \<and> user_path (p @ [i]) \<and>
     resolve p r m = Some t \<and> table_entry t i m AND PRESENT = 0 \<and> loose R c m \<and>
     mem_frames m' = mem_frames m \<and>
     (\<forall>u j. u \<in> owned_frames (mem_frames m) \<longrightarrow> j < 512 \<longrightarrow> u \<noteq> c \<longrightarrow>
        table_entry u j m' = (if u = t \<and> j = i then e else table_entry u j m)) \<and>
     (length p < 3 \<longrightarrow> (\<forall>j < 512. table_entry c j m' = 0)) \<and>
     e AND ENTRY_ADDRESS_MASK = c \<and> e AND PRESENT \<noteq> 0 \<and> e AND HUGE_PAGE = 0 \<and> bit e 2"

lemma plantingD:
  assumes "planting R m m' r p i t c e"
  shows "forest R m" "r \<in> R" "user_path (p @ [i])" "user_path p" "i < 512"
    "resolve p r m = Some t" "table_entry t i m AND PRESENT = 0" "loose R c m"
    "mem_frames m' = mem_frames m"
    "\<And>u j. u \<in> owned_frames (mem_frames m) \<Longrightarrow> j < 512 \<Longrightarrow> u \<noteq> c \<Longrightarrow>
        table_entry u j m' = (if u = t \<and> j = i then e else table_entry u j m)"
    "\<And>j. length p < 3 \<Longrightarrow> j < 512 \<Longrightarrow> table_entry c j m' = 0"
    "e AND ENTRY_ADDRESS_MASK = c" "e AND PRESENT \<noteq> 0" "e AND HUGE_PAGE = 0" "bit e 2"
  using assms user_path_append [of p "[i]"] user_path_last [of p i] by (simp_all add: planting_def)

lemma plant_others:
  assumes "planting R m m' r p i t c e" and "r' \<in> R" and "user_path q"
    and "\<not> (r' = r \<and> prefix (p @ [i]) q)"
  shows "resolve q r' m' = resolve q r' m"
  using plantingD [OF assms(1)] assms(2-4) by (intro resolve_plant_other) auto

lemma plant_child:
  assumes P: "planting R m m' r p i t c e"
  shows "resolve (p @ [i]) r m' = Some c"
proof -
  note D = plantingD [OF P]
  have "resolve p r m' = Some t"
    using plant_others [OF P D(2) D(4)] D(6) by (auto dest: prefix_length_le)
  moreover have "t \<in> owned_frames (mem_frames m)" by (rule forestD(2) [OF D(1,2,4,6)])
  moreover have "t \<noteq> c" using D by (auto simp: loose_def)
  ultimately show ?thesis using D(10) [of t i] D by (simp add: resolve_snoc)
qed

lemma plant_nodes:
  assumes P: "planting R m m' r p i t c e" and q: "r' \<in> R" "user_path q" "resolve q r' m' = Some f"
  shows "(f = c \<and> r' = r \<and> q = p @ [i]) \<or> (f \<noteq> c \<and> resolve q r' m = Some f)"
proof (cases "r' = r \<and> prefix (p @ [i]) q")
  case True
  then obtain s where s: "q = (p @ [i]) @ s" by (auto elim: prefixE)
  then have res: "resolve s c m' = Some f"
    using q(3) plant_child [OF P] True resolve_append [of "p @ [i]" s r m'] by simp
  have "s = []"
  proof (cases s)
    case (Cons j s')
    then have "length p < 3" "j < 512" using q(2) s by (auto simp: user_path_def)
    then have "resolve s c m' = None" using plantingD(11) [OF P] Cons by simp
    then show ?thesis using res by simp
  qed
  then show ?thesis using s True res by simp
next
  case False
  then have "resolve q r' m = Some f" using plant_others [OF P q(1,2)] q(3) by simp
  then show ?thesis using plantingD(8) [OF P] q(1,2) by (auto simp: loose_def)
qed

lemma plant_entry:
  assumes P: "planting R m m' r p i t c e" and q: "r' \<in> R" "user_path q" "resolve q r' m = Some f"
    and j: "j < 512"
  shows "table_entry f j m' = (if r' = r \<and> q = p \<and> j = i then e else table_entry f j m)"
proof -
  note D = plantingD [OF P]
  have "f \<noteq> c" using D(8) q by (auto simp: loose_def)
  moreover have "f = t \<longleftrightarrow> r' = r \<and> q = p"
    using forestD(3) [OF D(1) q(1) D(2) q(2) D(4) q(3)] D(6) q(3) by auto
  ultimately show ?thesis
    using D(10) [OF forestD(2) [OF D(1) q] j] by auto
qed

lemma plant_forest:
  assumes P: "planting R m m' r p i t c e"
  shows "forest R m'"
  unfolding forest_def
proof (intro conjI ballI allI impI)
  show "frames_inv (mem_frames m')" using plantingD [OF P] forestD(1) by simp
next
  fix r' q f assume "r' \<in> R" "user_path q" "resolve q r' m' = Some f"
  then show "f \<in> owned_frames (mem_frames m')"
    using plant_nodes [OF P] forestD(2) [OF plantingD(1) [OF P]] plantingD(8,9) [OF P]
    unfolding loose_def by metis
next
  fix r1 r2 q1 q2 f
  assume *: "r1 \<in> R" "r2 \<in> R" "user_path q1" "user_path q2"
    "resolve q1 r1 m' = Some f" "resolve q2 r2 m' = Some f"
  then have "(r1 = r2 \<and> q1 = q2) \<or> (resolve q1 r1 m = Some f \<and> resolve q2 r2 m = Some f)"
    using plant_nodes [OF P *(1,3,5)] plant_nodes [OF P *(2,4,6)] by blast
  then show "r1 = r2" "q1 = q2" using forestD(3) [OF plantingD(1) [OF P] *(1-4)] by blast+
next
  fix r' q f j assume *: "r' \<in> R" "user_path (q @ [j])" "resolve q r' m' = Some f"
  note uq = user_path_append [OF *(2)] and j = user_path_last [OF *(2)]
  from plant_nodes [OF P *(1) uq *(3)] show "table_entry f j m' AND HUGE_PAGE = 0"
  proof
    assume f: "f = c \<and> r' = r \<and> q = p @ [i]"
    then have "length p < 3" using *(2) by (auto simp: user_path_def)
    then show ?thesis using plantingD(11) [OF P] j f by simp
  next
    assume "f \<noteq> c \<and> resolve q r' m = Some f"
    then show ?thesis
      using plant_entry [OF P *(1) uq _ j, of f] forestD(4) [OF plantingD(1) [OF P] *(1,2)]
        plantingD(14) [OF P] by auto
  qed
next
  fix r' q f j assume *: "r' \<in> R" "user_path (q @ [j])" "length q < 3" "resolve q r' m' = Some f"
    "bit (table_entry f j m') 0"
  note uq = user_path_append [OF *(2)] and j = user_path_last [OF *(2)]
  from plant_nodes [OF P *(1) uq *(4)] show "bit (table_entry f j m') 2"
  proof
    assume f: "f = c \<and> r' = r \<and> q = p @ [i]"
    then have "length p < 3" using *(2) by (auto simp: user_path_def)
    then show ?thesis using plantingD(11) [OF P] j f *(5) by simp
  next
    assume "f \<noteq> c \<and> resolve q r' m = Some f"
    then show ?thesis
      using plant_entry [OF P *(1) uq _ j, of f] forestD(5) [OF plantingD(1) [OF P] *(1-3)]
        plantingD(15) [OF P] *(5) by auto
  qed
qed

lemma plant_loose:
  assumes P: "planting R m m' r p i t c e"
  shows "loose R d m' \<longleftrightarrow> loose R d m \<and> d \<noteq> c"
proof
  note D = plantingD [OF P]
  assume *: "loose R d m'"
  have "resolve q r' m \<noteq> Some d" if "r' \<in> R" "user_path q" for r' q
  proof
    assume "resolve q r' m = Some d"
    moreover have "\<not> (r' = r \<and> prefix (p @ [i]) q)"
      using calculation D(6,7) by (auto simp: resolve_append elim!: prefixE)
    ultimately have "resolve q r' m' = Some d" using plant_others [OF P that] by simp
    then show False using * that by (auto simp: loose_def)
  qed
  moreover have "d \<noteq> c" using * plant_child [OF P] D(2,3) by (auto simp: loose_def)
  ultimately show "loose R d m \<and> d \<noteq> c" using * D(9) by (auto simp: loose_def)
next
  assume "loose R d m \<and> d \<noteq> c"
  then show "loose R d m'" using plant_nodes [OF P] unfolding loose_def plantingD(9) [OF P] by blast
qed

text \<open>Frames that are no tables keep their contents; the planted frame is a table or a page.\<close>

lemma plant_inert:
  assumes P: "planting R m m' r p i t c e" and u: "inert R u m" and uc: "u \<noteq> c \<or> length p = 3"
  shows "inert R u m'" and "u \<noteq> c \<Longrightarrow> j < 512 \<Longrightarrow> table_entry u j m' = table_entry u j m"
proof -
  note D = plantingD [OF P]
  have "length p < 4" using D(3) by (simp add: user_path_def)
  then have "u \<noteq> t" using u D(2,4,6) by (auto simp: inert_def)
  then show "u \<noteq> c \<Longrightarrow> j < 512 \<Longrightarrow> table_entry u j m' = table_entry u j m"
    using D(10) [of u j] u by (simp add: inert_def)
  show "inert R u m'"
    unfolding inert_def
  proof (intro conjI ballI allI impI notI)
    show "u \<in> owned_frames (mem_frames m')" using u D(9) by (simp add: inert_def)
    fix r' q assume *: "r' \<in> R" "user_path q" "length q < 4" "resolve q r' m' = Some u"
    from plant_nodes [OF P *(1,2,4)] show False
    proof
      assume "u = c \<and> r' = r \<and> q = p @ [i]"
      then show False using uc *(3) by simp
    next
      assume "u \<noteq> c \<and> resolve q r' m = Some u"
      then show False using u * by (auto simp: inert_def)
    qed
  qed
qed

lemma plant_leaf:
  assumes P: "planting R m m' r p i t c e" and r': "r' \<in> R" and q: "page_path q"
  shows "leaf_entry q r' m' = (if r' = r \<and> q = p @ [i] then e else leaf_entry q r' m)"
proof (cases "resolve (take 3 q) r' m")
  case (Some u)
  note uq = page_path_take [OF q] and D = plantingD [OF P]
  have "resolve (take 3 q) r' m' = Some u"
  proof (cases "r' = r \<and> prefix (p @ [i]) (take 3 q)")
    case True
    then obtain s where "take 3 q = p @ i # s" by (auto elim: prefixE)
    then have False using Some D True by (simp add: resolve_append)
    then show ?thesis ..
  qed (use plant_others [OF P r' uq] Some in simp)
  moreover have "take 3 q = p \<and> q ! 3 = i \<longleftrightarrow> q = p @ [i]"
    using page_path_split [OF q] q by (metis append1_eq_conv)
  ultimately show ?thesis
    using Some plant_entry [OF P r' uq Some page_path_last [OF q]] by (auto simp: leaf_entry_def)
next
  case None
  note uq = page_path_take [OF q] and D = plantingD [OF P]
  have ne: "\<not> (r' = r \<and> q = p @ [i])"
  proof
    assume *: "r' = r \<and> q = p @ [i]"
    then have "take 3 q = p" using q by (auto simp: page_path_def)
    then show False using None D * by simp
  qed
  show ?thesis
  proof (cases "resolve (take 3 q) r' m'")
    case (Some u)
    then have u: "u = c" "take 3 q = p @ [i]" using plant_nodes [OF P r' uq] None by auto
    moreover have "length (take 3 q) = 3" using q by (simp add: page_path_def)
    ultimately have "length p < 3" by auto
    then show ?thesis
      using Some None D(11) page_path_last [OF q] u
      unfolding if_not_P [OF ne] by (simp add: leaf_entry_def)
  next
    case N: None
    then show ?thesis unfolding if_not_P [OF ne] using None by (simp add: leaf_entry_def)
  qed
qed

section \<open>Mapping a page into a space of the forest\<close>

lemma forest_mem_frames:
  assumes "forest R m" and "frames_inv fs" and "owned_frames (mem_frames m) \<subseteq> owned_frames fs"
  shows "forest R (m\<lparr>mem_frames := fs\<rparr>)"
    and "loose R d m \<Longrightarrow> loose R d (m\<lparr>mem_frames := fs\<rparr>)"
proof -
  have "resolve p r (m\<lparr>mem_frames := fs\<rparr>) = resolve p r m" for p r
    by (induction p arbitrary: r) (auto simp: Let_def)
  then show "forest R (m\<lparr>mem_frames := fs\<rparr>)" and "loose R d m \<Longrightarrow> loose R d (m\<lparr>mem_frames := fs\<rparr>)"
    using assms unfolding forest_def loose_def by auto
qed

lemma resolve_mem_frames [simp]: "resolve p r (m\<lparr>mem_frames := fs\<rparr>) = resolve p r m"
  by (induction p arbitrary: r) (auto simp: Let_def)

lemma leaf_mem_frames [simp]: "leaf_entry q r (m\<lparr>mem_frames := fs\<rparr>) = leaf_entry q r m"
  by (simp add: leaf_entry_def split: option.split)

text \<open>A fresh frame is loose and distinct from every loose frame.\<close>

lemma allocate_loose:
  assumes fo: "forest R m" and al: "allocate_physical_frame m = (Some f, m')"
  shows "forest R m'" "loose R f m'" "loose R d m' \<longleftrightarrow> loose R d m \<or> d = f" "\<not> loose R f m"
    "\<And>q r. leaf_entry q r m' = leaf_entry q r m" "\<And>q r. resolve q r m' = resolve q r m"
    "\<And>t i. table_entry t i m' = table_entry t i m" "cr3 m' = cr3 m" "frame_ok f"
    "inert R u m' \<longleftrightarrow> inert R u m \<or> u = f" "\<not> inert R f m"
proof -
  obtain fs where fs: "frames_allocate (mem_frames m) = (Some f, fs)" "m' = m\<lparr>mem_frames := fs\<rparr>"
    using al by (auto simp: allocate_physical_frame_def split: prod.splits)
  note inv = forestD(1) [OF fo]
  have own: "owned_frames fs = insert f (owned_frames (mem_frames m))"
    using fa.allocate_Some [OF fs(1)] by blast
  note fresh = fa.fresh [OF inv fs(1)]
  show fo': "forest R m'"
    unfolding fs(2) by (rule forest_mem_frames(1) [OF fo fa.valid_allocate [OF inv fs(1)]]) (use own in auto)
  show f: "loose R f m'"
    using fresh forestD(2) [OF fo] by (auto simp: loose_def fs(2))
  then show "loose R d m' \<longleftrightarrow> loose R d m \<or> d = f"
    using own by (auto simp: loose_def fs(2))
  show "\<not> loose R f m" "\<not> inert R f m" using fresh by (simp_all add: loose_def inert_def)
  show "inert R u m' \<longleftrightarrow> inert R u m \<or> u = f"
    using own f by (auto simp: inert_def loose_def fs(2))
  show "frame_ok f" using fresh by (auto intro: owned_ok)
qed (use al in \<open>auto simp: allocate_physical_frame_def split: prod.splits\<close>)

lemma walk_create_forest:
  assumes "forest R m" and "r \<in> R" and "user_path (p @ is)" and "length (p @ is) \<le> 3"
    and "resolve p r m = Some t" and "walk_create flags is t m = (res, m')"
    and "flag_bits flags AND USER \<noteq> 0"
  shows "forest R m' \<and> (\<forall>d. loose R d m' \<longleftrightarrow> loose R d m) \<and>
    (\<forall>r' \<in> R. \<forall>q. page_path q \<longrightarrow> leaf_entry q r' m' = leaf_entry q r' m) \<and>
    (case res of Inr u \<Rightarrow> resolve (p @ is) r m' = Some u
     | Inl e \<Rightarrow> e = FrameAllocationFailed \<and> avail_frames (mem_frames m') = {}) \<and> cr3 m' = cr3 m \<and>
    (\<forall>u. inert R u m \<longrightarrow> inert R u m' \<and> (\<forall>j < 512. table_entry u j m' = table_entry u j m))"
  using assms
proof (induction "is" arbitrary: p t m)
  case Nil
  then show ?case by auto
next
  case (Cons i "is")
  have up: "user_path (p @ [i])" and up': "user_path ((p @ [i]) @ is)"
    using Cons.prems(3) user_path_append [of "p @ [i]" "is"] by simp_all
  note upp = user_path_append [OF up] and i = user_path_last [OF up]
  have len: "length p < 3" using Cons.prems(4) by simp
  note own = forestD(2) [OF Cons.prems(1,2) upp Cons.prems(5)]
  show ?case
  proof (cases "table_entry t i m AND PRESENT = 0")
    case False
    have huge: "table_entry t i m AND HUGE_PAGE = 0"
      by (rule forestD(4) [OF Cons.prems(1,2) up Cons.prems(5)])
    have step: "resolve (p @ [i]) r m = Some (table_entry t i m AND ENTRY_ADDRESS_MASK)"
      using False Cons.prems(5) by (simp add: resolve_snoc)
    have "walk_create flags is (table_entry t i m AND ENTRY_ADDRESS_MASK) m = (res, m')"
      using Cons.prems(6) False huge by (simp add: Let_def)
    from Cons.IH [OF Cons.prems(1,2) up' _ step this Cons.prems(7)] Cons.prems(4) show ?thesis
      by (simp cong: sum.case_cong)
  next
    case True
    show ?thesis
    proof (cases "allocate_physical_frame m")
      case (Pair fo m1)
      show ?thesis
      proof (cases fo)
        case None
        then have al: "frames_allocate (mem_frames m) = (None, mem_frames m1)" "m1 = m\<lparr>mem_frames := mem_frames m1\<rparr>"
          using Pair by (auto simp: allocate_physical_frame_def split: prod.splits)
        then have "m1 = m" "avail_frames (mem_frames m) = {}" using fa.allocate_None by force+
        moreover have "res = Inl FrameAllocationFailed" "m' = m1"
          using Cons.prems(6) True Pair None by (simp_all add: Let_def)
        ultimately show ?thesis using Cons.prems(1) by simp
      next
        case (Some f)
        note A = allocate_loose [OF Cons.prems(1) Pair [unfolded Some]]
        define m2 where "m2 = set_entry t i (table_bits flags f) m1"
        define m3 where "m3 = zero_table f m2"
        have tok: "frame_ok t" by (rule owned_ok [OF own])
        have tf: "t \<noteq> f" using A(2,6) Cons.prems(2,5) upp by (auto simp: loose_def)
        have eu: "bit (table_bits flags f) 2"
          using Cons.prems(7) by (simp add: table_bits_def bit_or_iff bit_flags)
        have P: "planting R m1 m3 r p i t f (table_bits flags f)"
          unfolding planting_def
        proof (intro conjI allI impI)
          show "resolve p r m1 = Some t" using A(6) Cons.prems(5) by simp
          show "table_entry t i m1 AND PRESENT = 0" using A(7) True by simp
          fix u j assume "u \<in> owned_frames (mem_frames m1)" "(j :: nat) < 512" "u \<noteq> f"
          then show "table_entry u j m3 = (if u = t \<and> j = i then table_bits flags f else table_entry u j m1)"
            by (simp add: m3_def m2_def zero_table_entries owned_ok A(9) table_entry_set tok i)
        next
          fix j :: nat assume "j < 512"
          then show "table_entry f j m3 = 0" by (simp add: m3_def zero_table_entries A(9))
        qed (use A Cons.prems up eu table_value [OF A(9)] in \<open>auto simp: m3_def m2_def\<close>)
        have child: "table_entry t i m3 AND ENTRY_ADDRESS_MASK = f"
          using tf i by (simp add: m3_def m2_def zero_table_entries tok A(9) table_entry_set
              table_value(1) [OF A(9)])
        have rec: "walk_create flags is f m3 = (res, m')"
          using Cons.prems(6) True Pair Some
          by (simp add: Let_def m2_def [symmetric] m3_def [symmetric] child)
        have "cr3 m3 = cr3 m" using A(8) by (simp add: m3_def m2_def)
        moreover have "leaf_entry q r' m3 = leaf_entry q r' m" if "r' \<in> R" "page_path q" for r' q
          using plant_leaf [OF P that] that(2) len A(5) by (auto simp: page_path_def)
        moreover have "loose R d m3 \<longleftrightarrow> loose R d m" for d
          using A(3) [of d] A(4) plant_loose [OF P] by blast
        moreover have "inert R u m3 \<and> (\<forall>j < 512. table_entry u j m3 = table_entry u j m)" if "inert R u m" for u
          using plant_inert [OF P, of u] A(7,10,11) that by metis
        ultimately show ?thesis
          using Cons.IH [OF plant_forest [OF P] Cons.prems(2) up' _ plant_child [OF P] rec Cons.prems(7)]
            Cons.prems(4)
          by (simp cong: sum.case_cong)
      qed
    qed
  qed
qed

lemma table_index_nat: "unat (drop_bit s (va :: u64) AND 0x1FF) = unat va div 2 ^ s mod 512"
proof -
  have "drop_bit s va AND 0x1FF = take_bit 9 (drop_bit s va)"
    by (simp add: take_bit_eq_mask mask_eq_exp_minus_1)
  moreover have "unat (take_bit 9 (drop_bit s va)) = take_bit 9 (unat (drop_bit s va))"
    by (rule unsigned_take_bit_eq)
  moreover have "unat (drop_bit s va) = drop_bit s (unat va)"
    by (rule unat_drop_bit_eq)
  ultimately show ?thesis by (simp only: take_bit_eq_mod drop_bit_eq_div) simp
qed

lemma table_indices_nat:
  "table_indices va = [unat va div 2 ^ 39 mod 512, unat va div 2 ^ 30 mod 512,
     unat va div 2 ^ 21 mod 512, unat va div 2 ^ 12 mod 512]"
  unfolding table_indices_def list.map table_index_nat by (rule refl)

lemma user_range_nat: "user_range va \<longleftrightarrow> 1073741824 \<le> unat va \<and> unat va < 140737488355328"
  by (auto simp: user_range_def FUTURE_USER_SPACE_BASE_def USER_SPACE_END_def word_le_nat_alt
      word_less_nat_alt)

lemma page_path_indices:
  assumes "user_range va"
  shows "page_path (table_indices va)"
proof -
  have "unat va div 549755813888 < 256"
    using assms by (intro less_mult_imp_div_less) (simp add: user_range_nat)
  then have "unat va div 549755813888 mod 512 < 256"
    by (meson le_less_trans mod_less_eq_dividend)
  then show ?thesis
    unfolding table_indices_nat page_path_def user_path_def by simp
qed

lemma table_indices_inject:
  assumes "user_range va" and "user_range vb"
  shows "table_indices va = table_indices vb \<longleftrightarrow> unat va div 4096 = unat vb div 4096"
proof
  assume eq: "unat va div 4096 = unat vb div 4096"
  have "n div 2 ^ 39 = n div 4096 div 2 ^ 27" "n div 2 ^ 30 = n div 4096 div 2 ^ 18"
    "n div 2 ^ 21 = n div 4096 div 2 ^ 9" for n :: nat
    by (simp_all add: div_mult2_eq [symmetric])
  then show "table_indices va = table_indices vb" using eq by (simp add: table_indices_nat)
next
  assume eq: "table_indices va = table_indices vb"
  have split: "n div 4096 = ((n div 2 ^ 39 mod 512 * 512 + n div 2 ^ 30 mod 512) * 512 +
      n div 2 ^ 21 mod 512) * 512 + n div 2 ^ 12 mod 512" if "n < 140737488355328" for n :: nat
  proof -
    have "n div 2 ^ 21 = n div 2 ^ 12 div 512" "n div 2 ^ 30 = n div 2 ^ 21 div 512"
      "n div 2 ^ 39 = n div 2 ^ 30 div 512" by (simp_all add: div_mult2_eq [symmetric])
    moreover have "n div 2 ^ 39 < 512" using that by (intro less_mult_imp_div_less) simp
    ultimately show ?thesis
      using div_mult_mod_eq [of "n div 2 ^ 12" 512] div_mult_mod_eq [of "n div 2 ^ 21" 512]
        div_mult_mod_eq [of "n div 2 ^ 30" 512] by simp
  qed
  have "unat va div 2 ^ 39 mod 512 = unat vb div 2 ^ 39 mod 512 \<and>
      unat va div 2 ^ 30 mod 512 = unat vb div 2 ^ 30 mod 512 \<and>
      unat va div 2 ^ 21 mod 512 = unat vb div 2 ^ 21 mod 512 \<and>
      unat va div 2 ^ 12 mod 512 = unat vb div 2 ^ 12 mod 512"
    using eq unfolding table_indices_nat list.inject by blast
  moreover have "unat va < 140737488355328" "unat vb < 140737488355328"
    using assms by (simp_all add: user_range_nat)
  ultimately show "unat va div 4096 = unat vb div 4096"
    using split [of "unat va"] split [of "unat vb"] by presburger
qed

lemma root_owned: "forest R m \<Longrightarrow> r \<in> R \<Longrightarrow> r \<in> owned_frames (mem_frames m)"
  using forestD(2) [of R m r "[]" r] by simp

lemma root_mask: "forest R m \<Longrightarrow> r \<in> R \<Longrightarrow> r AND ENTRY_ADDRESS_MASK = r"
  by (rule frame_ok_mask) (rule owned_ok, rule root_owned)

lemma map_page_in_forest:
  assumes fo: "forest R m" and r: "r \<in> R" and va: "user_range va" and c: "loose R c m"
    and e: "map_page_in r va c flags m = (res, m')" and user: "flag_bits flags AND USER \<noteq> 0"
  shows "forest R m' \<and> cr3 m' = cr3 m \<and>
    (\<forall>u. inert R u m \<longrightarrow> inert R u m' \<and> (\<forall>j < 512. table_entry u j m' = table_entry u j m)) \<and>
    (case res of
       Inr _ \<Rightarrow> (\<forall>d. loose R d m' \<longleftrightarrow> loose R d m \<and> d \<noteq> c) \<and> leaf_entry (table_indices va) r m AND PRESENT = 0 \<and>
         resolve (table_indices va) r m' = Some c \<and>
         (\<forall>r' \<in> R. \<forall>q. page_path q \<longrightarrow> leaf_entry q r' m' =
            (if r' = r \<and> q = table_indices va then c OR flag_bits flags else leaf_entry q r' m))
     | Inl err \<Rightarrow> (\<forall>d. loose R d m' \<longleftrightarrow> loose R d m) \<and>
         (\<forall>r' \<in> R. \<forall>q. page_path q \<longrightarrow> leaf_entry q r' m' = leaf_entry q r' m) \<and>
         (err = AlreadyMapped \<and> leaf_entry (table_indices va) r m AND PRESENT \<noteq> 0 \<or>
          err = FrameAllocationFailed \<and> avail_frames (mem_frames m') = {}))"
proof -
  let ?q = "table_indices va"
  have q: "page_path ?q" by (rule page_path_indices [OF va])
  note split = page_path_split [OF q]
  have len: "length (take 3 ?q) \<le> 3" by simp
  obtain w m1 where w: "walk_create flags (take 3 ?q) r m = (w, m1)" by fastforce
  have W: "forest R m1" "\<And>d. loose R d m1 \<longleftrightarrow> loose R d m"
    "\<And>r' q. r' \<in> R \<Longrightarrow> page_path q \<Longrightarrow> leaf_entry q r' m1 = leaf_entry q r' m" "cr3 m1 = cr3 m"
    "case w of Inr u \<Rightarrow> resolve (take 3 ?q) r m1 = Some u
     | Inl e \<Rightarrow> e = FrameAllocationFailed \<and> avail_frames (mem_frames m1) = {}"
    and I: "\<And>u. inert R u m \<Longrightarrow> inert R u m1 \<and> (\<forall>j < 512. table_entry u j m1 = table_entry u j m)"
    using walk_create_forest [OF fo r, of "[]" "take 3 ?q" r flags w m1] page_path_take [OF q] w user by (auto split: sum.splits)
  show ?thesis
  proof (cases w)
    case (Inl err)
    then have "res = Inl err" "m' = m1"
      using e w by (simp_all add: map_page_in_def Let_def root_mask [OF fo r])
    then show ?thesis using W I c Inl by simp
  next
    case (Inr u)
    then have u: "resolve (take 3 ?q) r m1 = Some u" using W(5) by simp
    then have leaf: "leaf_entry ?q r m = table_entry u (?q ! 3) m1"
      using W(3) [OF r q] by (simp add: leaf_entry_def)
    have step: "(res, m') = (if table_entry u (?q ! 3) m1 AND PRESENT \<noteq> 0 then (Inl AlreadyMapped, m1)
        else (Inr (), set_entry u (?q ! 3) ((c AND ENTRY_ADDRESS_MASK) OR flag_bits flags) m1))"
      using e w Inr by (simp add: map_page_in_def Let_def root_mask [OF fo r])
    show ?thesis
    proof (cases "table_entry u (?q ! 3) m1 AND PRESENT = 0")
      case False
      then have "res = Inl AlreadyMapped" "m' = m1" using step by simp_all
      then show ?thesis using W I c leaf False by simp
    next
      case True
      have cok: "frame_ok c" using c by (auto simp: loose_def intro: owned_ok)
      have m': "res = Inr ()" "m' = set_entry u (?q ! 3) (c OR flag_bits flags) m1"
        using step True by (simp_all add: frame_ok_mask [OF cok])
      have uown: "u \<in> owned_frames (mem_frames m1)"
        by (rule forestD(2) [OF W(1) r page_path_take [OF q] u])
      have eu: "bit (c OR flag_bits flags) 2"
        using user flag_set [of 2 "flag_bits flags"] by (simp add: bit_or_iff USER_def)
      have P: "planting R m1 m' r (take 3 ?q) (?q ! 3) u c (c OR flag_bits flags)"
        unfolding planting_def
      proof (intro conjI allI impI)
        fix x j assume x: "x \<in> owned_frames (mem_frames m1)" "(j :: nat) < 512"
        then show "table_entry x j m' =
            (if x = u \<and> j = ?q ! 3 then c OR flag_bits flags else table_entry x j m1)"
          using table_entry_set [OF owned_ok [OF x(1)] owned_ok [OF uown] x(2) page_path_last [OF q]]
          by (simp add: m')
      next
        assume "length (take 3 ?q) < 3"
        then show "table_entry c j m' = 0" for j using q by (simp add: page_path_def)
      qed (use W r q u True c split eu leaf_value [of c flags] frame_ok_mask [OF cok] m'
          in \<open>auto simp: page_path_def\<close>)
      have len3: "length (take 3 ?q) = 3" using q by (simp add: page_path_def)
      have "inert R x m' \<and> (\<forall>j < 512. table_entry x j m' = table_entry x j m)" if "inert R x m" for x
      proof -
        have x: "inert R x m1" using I [OF that] by blast
        then have "x \<noteq> u" using r page_path_take [OF q] u len3 unfolding inert_def by force
        moreover have "frame_ok x" using x by (auto simp: inert_def intro: owned_ok)
        ultimately have "table_entry x j m' = table_entry x j m1" if "j < 512" for j
          using table_entry_set [OF _ owned_ok [OF uown] that page_path_last [OF q]] by (simp add: m')
        then show ?thesis using plant_inert(1) [OF P x] I [OF that] len3 by simp
      qed
      then show ?thesis
        using plant_forest [OF P] plant_loose [OF P] plant_leaf [OF P] plant_child [OF P] W
          leaf True m' split by auto
    qed
  qed
qed

lemma masked_ok: "frame_ok (a AND ENTRY_ADDRESS_MASK)"
proof -
  let ?w = "a AND ENTRY_ADDRESS_MASK"
  have bits: "bit (unat ?w) n \<Longrightarrow> 12 \<le> n \<and> n < 52" for n
    by (auto simp: bit_unsigned_iff bit_and_iff bit_address_mask)
  have "take_bit 12 (unat ?w) = 0" by (rule bit_eqI) (use bits in \<open>force simp: bit_take_bit_iff\<close>)
  moreover have "take_bit 52 (unat ?w) = unat ?w"
    by (rule bit_eqI) (use bits in \<open>auto simp: bit_take_bit_iff\<close>)
  then have "unat ?w < 2 ^ 52" using take_bit_nat_less_exp [of 52 "unat ?w"] by simp
  ultimately show ?thesis by (simp add: frame_ok_def take_bit_eq_mod)
qed

section \<open>Releasing a subtree\<close>

definition reach :: "nat \<Rightarrow> u64 \<Rightarrow> memory \<Rightarrow> u64 set" where
  "reach l t m = {f. \<exists>q. length q \<le> l \<and> (\<forall>i \<in> set q. i < 512) \<and> resolve q t m = Some f}"

definition tree_ok :: "nat \<Rightarrow> u64 \<Rightarrow> memory \<Rightarrow> bool" where
  "tree_ok l t m \<longleftrightarrow> frames_inv (mem_frames m) \<and> reach l t m \<subseteq> owned_frames (mem_frames m) \<and>
     (\<forall>q q' f. length q \<le> l \<longrightarrow> length q' \<le> l \<longrightarrow> (\<forall>i \<in> set q. i < 512) \<longrightarrow> (\<forall>i \<in> set q'. i < 512) \<longrightarrow>
        resolve q t m = Some f \<longrightarrow> resolve q' t m = Some f \<longrightarrow> q = q') \<and>
     (\<forall>q f i. length q < l \<longrightarrow> (\<forall>i \<in> set q. i < 512) \<longrightarrow> i < 512 \<longrightarrow> resolve q t m = Some f \<longrightarrow>
        table_entry f i m AND HUGE_PAGE = 0)"

definition child_reach :: "nat \<Rightarrow> u64 \<Rightarrow> memory \<Rightarrow> nat \<Rightarrow> u64 set" where
  "child_reach l t m i = (if table_entry t i m AND PRESENT = 0 then {}
     else reach l (table_entry t i m AND ENTRY_ADDRESS_MASK) m)"

lemma reach_0 [simp]: "reach 0 t m = {t}"
  by (auto simp: reach_def)

lemma reach_root: "t \<in> reach l t m"
  unfolding reach_def by (intro CollectI exI [of _ "[]"]) simp

lemma reach_Suc: "reach (Suc l) t m = insert t (\<Union>i < 512. child_reach l t m i)"
proof (rule set_eqI)
  fix f
  have "f \<in> reach (Suc l) t m \<longleftrightarrow> f = t \<or> (\<exists>i q. length q \<le> l \<and> i < 512 \<and> (\<forall>j \<in> set q. j < 512) \<and>
      resolve (i # q) t m = Some f)" (is "_ \<longleftrightarrow> _ \<or> ?ex")
  proof
    assume "f \<in> reach (Suc l) t m"
    then obtain q where q: "length q \<le> Suc l" "\<forall>i \<in> set q. i < 512" "resolve q t m = Some f"
      by (auto simp: reach_def)
    then show "f = t \<or> ?ex" by (cases q) auto
  next
    assume "f = t \<or> ?ex"
    then show "f \<in> reach (Suc l) t m"
    proof
      assume ?ex
      then obtain i q where "length q \<le> l" "i < 512" "\<forall>j \<in> set q. j < 512" "resolve (i # q) t m = Some f"
        by blast
      then show ?thesis unfolding reach_def by (intro CollectI exI [of _ "i # q"]) simp
    qed (simp add: reach_root)
  qed
  then show "f \<in> reach (Suc l) t m \<longleftrightarrow> f \<in> insert t (\<Union>i < 512. child_reach l t m i)"
    by (auto simp: child_reach_def reach_def Let_def split: if_splits)
qed

lemma resolve_cong:
  assumes "\<And>u j. u \<in> reach l t m \<Longrightarrow> j < 512 \<Longrightarrow> table_entry u j m' = table_entry u j m"
    and "length q \<le> l" and "\<forall>i \<in> set q. i < 512"
  shows "resolve q t m' = resolve q t m"
  using assms(2,3)
proof (induction q rule: rev_induct)
  case (snoc i q)
  then have IH: "resolve q t m' = resolve q t m" by simp
  show ?case
  proof (cases "resolve q t m")
    case (Some u)
    then have "u \<in> reach l t m"
      unfolding reach_def using snoc.prems by (intro CollectI exI [of _ q]) simp
    then have "table_entry u i m' = table_entry u i m" using assms(1) snoc.prems by simp
    then show ?thesis using IH Some by (simp add: resolve_snoc)
  qed (use IH in \<open>simp add: resolve_snoc\<close>)
qed simp

lemma reach_cong:
  assumes "\<And>u j. u \<in> reach l t m \<Longrightarrow> j < 512 \<Longrightarrow> table_entry u j m' = table_entry u j m"
  shows "reach l t m' = reach l t m"
  using resolve_cong [OF assms] unfolding reach_def by (metis (no_types, lifting))

lemma tree_ok_cong:
  assumes ok: "tree_ok l t m" and inv: "frames_inv (mem_frames m')"
    and own: "reach l t m \<subseteq> owned_frames (mem_frames m')"
    and eq: "\<And>u j. u \<in> reach l t m \<Longrightarrow> j < 512 \<Longrightarrow> table_entry u j m' = table_entry u j m"
  shows "tree_ok l t m'"
proof -
  have R: "reach l t m' = reach l t m" by (rule reach_cong) (rule eq)
  have P: "resolve q t m' = resolve q t m" if "length q \<le> l" "\<forall>i \<in> set q. i < 512" for q
    using eq that by (rule resolve_cong)
  show ?thesis
    unfolding tree_ok_def R
  proof (intro conjI allI impI)
    fix q q' f
    assume "length q \<le> l" "length q' \<le> l" "\<forall>i \<in> set q. i < 512" "\<forall>i \<in> set q'. i < 512"
      "resolve q t m' = Some f" "resolve q' t m' = Some f"
    then show "q = q'" using ok P unfolding tree_ok_def by metis
  next
    fix q f and i :: nat
    assume q: "length q < l" "\<forall>i \<in> set q. i < 512" "i < 512" "resolve q t m' = Some f"
    then have r: "resolve q t m = Some f" using P [where q = q] by simp
    then have "f \<in> reach l t m"
      unfolding reach_def using q by (intro CollectI exI [of _ q]) simp
    then show "table_entry f i m' AND HUGE_PAGE = 0"
      using ok q r eq unfolding tree_ok_def by simp
  qed (use inv own in auto)
qed

text \<open>What releasing the frames \<open>S\<close> does, and how releases compose.\<close>

definition releases :: "u64 set \<Rightarrow> u64 set \<Rightarrow> memory \<Rightarrow> memory \<Rightarrow> bool" where
  "releases S T m m' \<longleftrightarrow> frames_inv (mem_frames m') \<and>
     owned_frames (mem_frames m') = owned_frames (mem_frames m) - S \<and>
     avail_frames (mem_frames m') = avail_frames (mem_frames m) \<union> S \<and> cr3 m' = cr3 m \<and>
     (\<forall>u j. frame_ok u \<longrightarrow> u \<notin> T \<longrightarrow> j < 512 \<longrightarrow> table_entry u j m' = table_entry u j m)"

lemma releases_refl: "frames_inv (mem_frames m) \<Longrightarrow> releases {} T m m"
  by (simp add: releases_def)

lemma releases_trans:
  "releases S T m m1 \<Longrightarrow> releases S' T' m1 m2 \<Longrightarrow> releases (S \<union> S') (T \<union> T') m m2"
  unfolding releases_def by auto

lemma releases_free:
  assumes "frames_inv (mem_frames m)" and "f \<in> owned_frames (mem_frames m)"
  shows "releases {f} T m (free_physical_frame f m)"
  using fa.release_owned [OF assms(2)] fa.valid_release [OF assms(1)]
  by (simp add: releases_def free_physical_frame_def)

lemma releases_set_entry:
  assumes "frames_inv (mem_frames m)" and "frame_ok t" and "i < 512"
  shows "releases {} {t} m (set_entry t i v m)"
  using assms by (auto simp: releases_def table_entry_set)

text \<open>The loop over the entries of a table, each child released by \<open>rel\<close>.\<close>

definition release_child :: "nat \<Rightarrow> u64 \<Rightarrow> memory \<Rightarrow> memory" where
  "release_child l c m = (if l = 0 then free_physical_frame c m else release_user_table l c m)"

definition release_entry :: "nat \<Rightarrow> u64 \<Rightarrow> nat \<Rightarrow> memory \<Rightarrow> memory" where
  "release_entry l t i m = (let entry = table_entry t i m
     in if entry AND PRESENT = 0 then m
        else let child = entry AND ENTRY_ADDRESS_MASK;
                 m = (if l = 0 \<or> entry AND HUGE_PAGE \<noteq> 0 then free_physical_frame child m
                      else release_user_table l child m)
             in set_entry t i 0 m)"

definition loop_ok :: "nat \<Rightarrow> u64 \<Rightarrow> nat list \<Rightarrow> memory \<Rightarrow> bool" where
  "loop_ok l t is m \<longleftrightarrow> frames_inv (mem_frames m) \<and> frame_ok t \<and> distinct is \<and> set is \<subseteq> {..<512} \<and>
     (\<forall>i \<in> set is. table_entry t i m AND PRESENT \<noteq> 0 \<longrightarrow>
        tree_ok l (table_entry t i m AND ENTRY_ADDRESS_MASK) m \<and>
        table_entry t i m AND HUGE_PAGE = 0 \<and> t \<notin> child_reach l t m i) \<and>
     (\<forall>i \<in> set is. \<forall>j \<in> set is. i \<noteq> j \<longrightarrow> child_reach l t m i \<inter> child_reach l t m j = {})"

lemma release_loop:
  assumes child: "\<And>c m. tree_ok l c m \<Longrightarrow> releases (reach l c m) (reach l c m) m (release_child l c m)"
    and body: "\<And>i m. (table_entry t i m AND PRESENT \<noteq> 0 \<Longrightarrow> table_entry t i m AND HUGE_PAGE = 0) \<Longrightarrow>
      b i m = release_entry l t i m"
    and "loop_ok l t is m"
  shows "releases (\<Union>i \<in> set is. child_reach l t m i) (insert t (\<Union>i \<in> set is. child_reach l t m i)) m
      (fold b is m)"
  using assms(3)
proof (induction "is" arbitrary: m)
  case Nil
  then show ?case by (simp add: loop_ok_def releases_def)
next
  case (Cons i "is")
  let ?m1 = "release_entry l t i m"
  let ?C = "child_reach l t m"
  from Cons.prems have inv: "frames_inv (mem_frames m)" and tok: "frame_ok t" and i: "i < 512"
    and ni: "i \<notin> set is" by (simp_all add: loop_ok_def)
  have one: "releases (?C i) (insert t (?C i)) m ?m1"
  proof (cases "table_entry t i m AND PRESENT = 0")
    case True
    then show ?thesis using inv by (simp add: release_entry_def child_reach_def releases_def)
  next
    case False
    let ?c = "table_entry t i m AND ENTRY_ADDRESS_MASK"
    have ok: "tree_ok l ?c m" and huge: "table_entry t i m AND HUGE_PAGE = 0"
      using Cons.prems False by (simp_all add: loop_ok_def)
    have eq: "?m1 = set_entry t i 0 (release_child l ?c m)"
      using False huge by (simp add: release_entry_def release_child_def)
    have C: "?C i = reach l ?c m" using False by (simp add: child_reach_def)
    have rel: "releases (?C i) (?C i) m (release_child l ?c m)" using child [OF ok] C by simp
    then have "frames_inv (mem_frames (release_child l ?c m))" by (simp add: releases_def)
    from releases_trans [OF rel releases_set_entry [OF this tok i]] show ?thesis by (simp add: eq)
  qed
  have te: "table_entry t j ?m1 = table_entry t j m" if "j \<in> set is" for j
  proof (cases "table_entry t i m AND PRESENT = 0")
    case False
    let ?c = "table_entry t i m AND ENTRY_ADDRESS_MASK"
    have ok: "tree_ok l ?c m" and huge: "table_entry t i m AND HUGE_PAGE = 0" and nt: "t \<notin> ?C i"
      using Cons.prems False by (simp_all add: loop_ok_def)
    have j: "j < 512" "j \<noteq> i" using Cons.prems that by (auto simp: loop_ok_def)
    have "releases (reach l ?c m) (reach l ?c m) m (release_child l ?c m)" by (rule child [OF ok])
    moreover have "t \<notin> reach l ?c m" using nt False by (simp add: child_reach_def)
    ultimately have "table_entry t j (release_child l ?c m) = table_entry t j m"
      using tok j by (simp add: releases_def)
    then show ?thesis
      using False huge table_entry_set [OF tok tok j(1) i] j
      by (simp add: release_entry_def release_child_def Let_def)
  qed (simp add: release_entry_def)
  have keep: "table_entry u k ?m1 = table_entry u k m"
    if "j \<in> set is" "u \<in> ?C j" "k < 512" for j u k
  proof -
    have p: "table_entry t j m AND PRESENT \<noteq> 0" using that(2) by (auto simp: child_reach_def)
    then have "tree_ok l (table_entry t j m AND ENTRY_ADDRESS_MASK) m" "t \<notin> ?C j"
      using Cons.prems that(1) by (simp_all add: loop_ok_def)
    moreover have "?C j = reach l (table_entry t j m AND ENTRY_ADDRESS_MASK) m"
      using p by (simp add: child_reach_def)
    ultimately have "frame_ok u" "u \<noteq> t" using that(2) by (auto simp: tree_ok_def intro: owned_ok)
    moreover have "u \<notin> ?C i" using Cons.prems that(1,2) ni by (fastforce simp: loop_ok_def)
    ultimately show ?thesis using one that(3) by (simp add: releases_def)
  qed
  have C1: "child_reach l t ?m1 j = ?C j" if "j \<in> set is" for j
  proof (cases "table_entry t j m AND PRESENT = 0")
    case False
    let ?c = "table_entry t j m AND ENTRY_ADDRESS_MASK"
    have "?C j = reach l ?c m" using False by (simp add: child_reach_def)
    then have "reach l ?c ?m1 = reach l ?c m" using keep [OF that] by (intro reach_cong) simp
    then show ?thesis using False te [OF that] by (simp add: child_reach_def)
  qed (simp add: child_reach_def te [OF that])
  have "loop_ok l t is ?m1"
    unfolding loop_ok_def
  proof (intro conjI ballI impI)
    show "frames_inv (mem_frames ?m1)" using one by (simp add: releases_def)
    show "frame_ok t" by (rule tok)
    show "distinct is" "set is \<subseteq> {..<512}" using Cons.prems by (simp_all add: loop_ok_def)
  next
    fix j assume j: "j \<in> set is" "table_entry t j ?m1 AND PRESENT \<noteq> 0"
    let ?c = "table_entry t j m AND ENTRY_ADDRESS_MASK"
    have p: "table_entry t j m AND PRESENT \<noteq> 0" using j te by simp
    then have C: "?C j = reach l ?c m" by (simp add: child_reach_def)
    have ok: "tree_ok l ?c m" using Cons.prems j(1) p by (simp add: loop_ok_def)
    have "?C j \<inter> ?C i = {}" using Cons.prems j(1) ni by (fastforce simp: loop_ok_def)
    then have "reach l ?c m \<subseteq> owned_frames (mem_frames ?m1)"
      using ok one C by (auto simp: tree_ok_def releases_def)
    then have "tree_ok l ?c ?m1"
      using tree_ok_cong [OF ok _ _ keep [OF j(1)]] one C by (simp add: releases_def)
    then show "tree_ok l (table_entry t j ?m1 AND ENTRY_ADDRESS_MASK) ?m1" using te [OF j(1)] by simp
    show "table_entry t j ?m1 AND HUGE_PAGE = 0" "t \<notin> child_reach l t ?m1 j"
      using Cons.prems j(1) p te C1 by (simp_all add: loop_ok_def)
  next
    fix j k assume "j \<in> set is" "k \<in> set is" "j \<noteq> k"
    then show "child_reach l t ?m1 j \<inter> child_reach l t ?m1 k = {}"
      using Cons.prems by (simp add: C1 loop_ok_def)
  qed
  from Cons.IH [OF this]
  have "releases (\<Union>j \<in> set is. ?C j) (insert t (\<Union>j \<in> set is. ?C j)) ?m1 (fold b is ?m1)"
    by (simp add: C1)
  moreover have "b i m = ?m1" using Cons.prems by (intro body) (simp add: loop_ok_def)
  ultimately show ?case using releases_trans [OF one] by (fastforce simp: insert_commute)
qed

lemma child_tree_ok:
  assumes ok: "tree_ok (Suc l) t m" and i: "i < 512" and p: "table_entry t i m AND PRESENT \<noteq> 0"
  shows "tree_ok l (table_entry t i m AND ENTRY_ADDRESS_MASK) m"
proof -
  let ?c = "table_entry t i m AND ENTRY_ADDRESS_MASK"
  have step: "resolve q ?c m = resolve (i # q) t m" for q using p by (simp add: Let_def)
  have sub: "reach l ?c m \<subseteq> reach (Suc l) t m"
    using i p by (auto simp: reach_Suc child_reach_def)
  show ?thesis
    unfolding tree_ok_def
  proof (intro conjI allI impI)
    fix q q' f
    assume "length q \<le> l" "length q' \<le> l" "\<forall>i \<in> set q. i < 512" "\<forall>i \<in> set q'. i < 512"
      "resolve q ?c m = Some f" "resolve q' ?c m = Some f"
    then have "i # q = i # q'"
      using ok i unfolding step tree_ok_def by (metis Suc_le_mono length_Cons set_ConsD)
    then show "q = q'" by simp
  next
    fix q f and k :: nat
    assume "length q < l" "\<forall>i \<in> set q. i < 512" "k < 512" "resolve q ?c m = Some f"
    then show "table_entry f k m AND HUGE_PAGE = 0"
      using ok i unfolding step tree_ok_def by (metis Suc_less_eq length_Cons set_ConsD)
  qed (use ok sub in \<open>auto simp: tree_ok_def\<close>)
qed

lemma tree_loop_ok:
  assumes ok: "tree_ok (Suc l) t m" and "set is \<subseteq> {..<512}" and "distinct is"
  shows "loop_ok l t is m"
proof -
  have nodes: "\<exists>q. length q \<le> l \<and> (\<forall>j \<in> set q. j < 512) \<and> resolve (i # q) t m = Some f"
    if "f \<in> child_reach l t m i" for f i
    using that by (auto simp: child_reach_def reach_def Let_def split: if_splits)
  have inj: "q = q'" if "length q \<le> Suc l" "length q' \<le> Suc l" "\<forall>i \<in> set q. i < 512"
    "\<forall>i \<in> set q'. i < 512" "resolve q t m = Some f" "resolve q' t m = Some f" for q q' f
    using ok that unfolding tree_ok_def by blast
  show ?thesis
    unfolding loop_ok_def
  proof (intro conjI ballI impI)
    have "t \<in> owned_frames (mem_frames m)" using ok reach_root [of t "Suc l" m] by (auto simp: tree_ok_def)
    then show "frame_ok t" by (rule owned_ok)
  next
    fix i assume i: "i \<in> set is" "table_entry t i m AND PRESENT \<noteq> 0"
    then have lt: "i < 512" using assms(2) by auto
    show "tree_ok l (table_entry t i m AND ENTRY_ADDRESS_MASK) m" by (rule child_tree_ok [OF ok lt i(2)])
    have "\<forall>q f. length q < Suc l \<longrightarrow> (\<forall>i \<in> set q. i < 512) \<longrightarrow> resolve q t m = Some f \<longrightarrow>
        table_entry f i m AND HUGE_PAGE = 0"
      using ok lt unfolding tree_ok_def by blast
    from this [rule_format, of "[]" t] show "table_entry t i m AND HUGE_PAGE = 0" by simp
    show "t \<notin> child_reach l t m i"
    proof
      assume "t \<in> child_reach l t m i"
      then obtain q where "length q \<le> l" "\<forall>j \<in> set q. j < 512" "resolve (i # q) t m = Some t"
        using nodes by blast
      then show False using inj [of "[]" "i # q" t] lt by simp
    qed
  next
    fix i j assume ij: "i \<in> set is" "j \<in> set is" "i \<noteq> j"
    show "child_reach l t m i \<inter> child_reach l t m j = {}"
    proof (rule equals0I)
      fix f assume f: "f \<in> child_reach l t m i \<inter> child_reach l t m j"
      obtain q q' where "length q \<le> l" "\<forall>j \<in> set q. j < 512" "resolve (i # q) t m = Some f"
        "length q' \<le> l" "\<forall>j \<in> set q'. j < 512" "resolve (j # q') t m = Some f"
        using nodes [of f i] nodes [of f j] f by blast
      then show False using inj [of "i # q" "j # q'" f] ij assms(2) by auto
    qed
  qed (use ok assms in \<open>auto simp: tree_ok_def\<close>)
qed

lemma release_table_eq:
  "release_user_table (Suc l) t m = free_physical_frame t (fold (release_entry l t) [0..<512] m)"
  by (simp add: release_entry_def [abs_def] del: upt.simps)

lemma release_child_releases:
  "tree_ok l c m \<Longrightarrow> releases (reach l c m) (reach l c m) m (release_child l c m)"
proof (induction l arbitrary: c m)
  case 0
  then have "frames_inv (mem_frames m)" "c \<in> owned_frames (mem_frames m)" by (auto simp: tree_ok_def)
  then show ?case by (simp add: release_child_def releases_free)
next
  case (Suc l)
  let ?U = "\<Union>i < 512. child_reach l c m i" and ?m = "fold (release_entry l c) [0..<512] m"
  have lok: "loop_ok l c [0..<512] m" by (rule tree_loop_ok [OF Suc.prems]) auto
  have loop: "releases ?U (insert c ?U) m ?m"
    using release_loop [OF Suc.IH _ lok, of "release_entry l c"]
    by (simp add: lessThan_atLeast0 del: upt.simps)
  have "c \<notin> ?U"
    using lok by (auto simp: loop_ok_def child_reach_def split: if_splits)
  then have "c \<in> owned_frames (mem_frames ?m)" and "frames_inv (mem_frames ?m)"
    using loop Suc.prems reach_root [of c "Suc l" m] by (auto simp: releases_def tree_ok_def)
  from releases_trans [OF loop releases_free [OF this(2,1)], of "insert c ?U"]
  have "releases (?U \<union> {c}) (insert c ?U) m (free_physical_frame c ?m)" by simp
  then show ?case
    unfolding release_child_def reach_Suc by (simp add: release_table_eq del: release_user_table.simps)
qed

section \<open>Creating and destroying address spaces\<close>

definition space_frames :: "u64 \<Rightarrow> memory \<Rightarrow> u64 set" where
  "space_frames r m = {f. \<exists>p. user_path p \<and> resolve p r m = Some f}"

lemma user_path_Cons: "user_path (i # p) \<longleftrightarrow> i < 256 \<and> length p \<le> 3 \<and> (\<forall>j \<in> set p. j < 512)"
  by (auto simp: user_path_def)

lemma space_frames_children:
  "space_frames r m = insert r (\<Union>i < 256. child_reach 3 r m i)"
proof (rule set_eqI)
  fix f
  have "f \<in> space_frames r m \<longleftrightarrow> f = r \<or> (\<exists>i p. user_path (i # p) \<and> resolve (i # p) r m = Some f)"
    unfolding space_frames_def mem_Collect_eq
    by (metis list.exhaust resolve.simps(1) user_path_Nil option.inject)
  then show "f \<in> space_frames r m \<longleftrightarrow> f \<in> insert r (\<Union>i < 256. child_reach 3 r m i)"
    by (auto simp: user_path_Cons child_reach_def reach_def Let_def split: if_splits)
qed

lemma root_loop_ok:
  assumes fo: "forest R m" and r: "r \<in> R"
  shows "loop_ok 3 r [0..<256] m"
  unfolding loop_ok_def
proof (intro conjI ballI impI)
  show "frames_inv (mem_frames m)" by (rule forestD(1) [OF fo])
  show "frame_ok r" by (rule owned_ok [OF root_owned [OF fo r]])
  fix i assume i: "i \<in> set [0..<256]" "table_entry r i m AND PRESENT \<noteq> 0"
  let ?c = "table_entry r i m AND ENTRY_ADDRESS_MASK"
  have step: "resolve q ?c m = resolve (i # q) r m" for q using i(2) by (simp add: Let_def)
  have up: "user_path (i # q)" if "length q \<le> 3" "\<forall>j \<in> set q. j < 512" for q
    using that i by (simp add: user_path_Cons)
  show "tree_ok 3 ?c m"
    unfolding tree_ok_def
  proof (intro conjI allI impI)
    show "frames_inv (mem_frames m)" by (rule forestD(1) [OF fo])
    show "reach 3 ?c m \<subseteq> owned_frames (mem_frames m)"
      using forestD(2) [OF fo r up] unfolding reach_def step by blast
  next
    fix q q' f
    assume "length q \<le> 3" "length q' \<le> 3" "\<forall>i \<in> set q. i < 512" "\<forall>i \<in> set q'. i < 512"
      "resolve q ?c m = Some f" "resolve q' ?c m = Some f"
    then show "q = q'" using forestD(3) [OF fo r r up up] unfolding step by blast
  next
    fix q f and k :: nat
    assume "length q < 3" "\<forall>i \<in> set q. i < 512" "k < 512" "resolve q ?c m = Some f"
    then show "table_entry f k m AND HUGE_PAGE = 0"
      using forestD(4) [OF fo r, of "i # q" k f] up [of "q @ [k]"] unfolding step by simp
  qed
  show "table_entry r i m AND HUGE_PAGE = 0"
    using forestD(4) [OF fo r, of "[]" i r] i by (simp add: user_path_Cons)
  show "r \<notin> child_reach 3 r m i"
  proof
    assume "r \<in> child_reach 3 r m i"
    then have "r \<in> reach 3 ?c m" using i(2) by (simp add: child_reach_def)
    then obtain q where "length q \<le> 3" "\<forall>j \<in> set q. j < 512" "resolve (i # q) r m = Some r"
      unfolding reach_def step by blast
    then show False using forestD(3) [OF fo r r, of "[]" "i # q" r] up by simp
  qed
next
  fix i j assume ij: "i \<in> set [0..<256]" "j \<in> set [0..<256]" "i \<noteq> j"
  have nodes: "\<exists>q. user_path (i # q) \<and> resolve (i # q) r m = Some f"
    if "f \<in> child_reach 3 r m i" "i \<in> set [0..<256]" for f i
    using that by (auto simp: child_reach_def reach_def Let_def user_path_Cons split: if_splits)
  show "child_reach 3 r m i \<inter> child_reach 3 r m j = {}"
  proof (rule equals0I)
    fix f assume "f \<in> child_reach 3 r m i \<inter> child_reach 3 r m j"
    then obtain q q' where "user_path (i # q)" "resolve (i # q) r m = Some f"
      "user_path (j # q')" "resolve (j # q') r m = Some f"
      using nodes [OF _ ij(1)] nodes [OF _ ij(2)] by blast
    then show False using forestD(3) [OF fo r r, of "i # q" "j # q'" f] ij by simp
  qed
qed auto

text \<open>Steps that leave the tables of some spaces alone.\<close>

lemma forest_frame:
  assumes fo: "forest R m" and sub: "R' \<subseteq> R" and inv: "frames_inv (mem_frames m')"
    and keep: "\<And>r p u j. r \<in> R' \<Longrightarrow> user_path p \<Longrightarrow> resolve p r m = Some u \<Longrightarrow>
      u \<in> owned_frames (mem_frames m') \<and>
      (j < 512 \<longrightarrow> length p < 4 \<longrightarrow> table_entry u j m' = table_entry u j m)"
  shows "r \<in> R' \<Longrightarrow> user_path q \<Longrightarrow> resolve q r m' = resolve q r m"
    and "forest R' m'"
    and "r \<in> R' \<Longrightarrow> page_path q' \<Longrightarrow> leaf_entry q' r m' = leaf_entry q' r m"
proof -
  have res: "resolve q r m' = resolve q r m" if "r \<in> R'" "user_path q" for q r
    using that(2)
  proof (induction q rule: rev_induct)
    case (snoc i q)
    have uq: "user_path q" and i: "i < 512"
      using snoc.prems by (auto intro: user_path_append user_path_last)
    show ?case
    proof (cases "resolve q r m")
      case (Some u)
      moreover have "length q < 4" using snoc.prems by (simp add: user_path_def)
      ultimately show ?thesis using snoc.IH [OF uq] keep [OF that(1) uq Some, of i] i by (simp add: resolve_snoc)
    qed (use snoc.IH [OF uq] in \<open>simp add: resolve_snoc\<close>)
  qed simp
  then show "r \<in> R' \<Longrightarrow> user_path q \<Longrightarrow> resolve q r m' = resolve q r m" .
  show "forest R' m'"
    unfolding forest_def
  proof (intro conjI ballI allI impI)
    fix r p f assume "r \<in> R'" "user_path p" "resolve p r m' = Some f"
    then show "f \<in> owned_frames (mem_frames m')" using keep res by metis
  next
    fix r1 r2 p1 p2 f
    assume "r1 \<in> R'" "r2 \<in> R'" "user_path p1" "user_path p2" "resolve p1 r1 m' = Some f"
      "resolve p2 r2 m' = Some f"
    then show "r1 = r2" "p1 = p2" using res forestD(3) [OF fo] sub by (metis subsetD)+
  next
    fix r p f i assume *: "r \<in> R'" "user_path (p @ [i])" "resolve p r m' = Some f"
    then have "resolve p r m = Some f" "length p < 4"
      using res user_path_append by (metis, simp add: user_path_def)
    then show "table_entry f i m' AND HUGE_PAGE = 0"
      using forestD(4) [OF fo, of r p i f] keep [of r p f i] * sub
        user_path_append [OF *(2)] user_path_last [OF *(2)] by auto
  next
    fix r p f i assume *: "r \<in> R'" "user_path (p @ [i])" "length p < 3" "resolve p r m' = Some f"
      "bit (table_entry f i m') 0"
    then have "resolve p r m = Some f" using res user_path_append by metis
    then show "bit (table_entry f i m') 2"
      using forestD(5) [OF fo, of r p i f] keep [of r p f i] * sub
        user_path_append [OF *(2)] user_path_last [OF *(2)] by auto
  qed (rule inv)
  show "leaf_entry q' r m' = leaf_entry q' r m" if "r \<in> R'" "page_path q'"
    using res [OF that(1) page_path_take [OF that(2)]] keep [OF that(1) page_path_take [OF that(2)]]
      page_path_last [OF that(2)]
    by (auto simp: leaf_entry_def split: option.split)
qed

text \<open>
  Writing bytes into a frame that is not a table of the forest, such as the frame of a mapped
  page, changes no table.
\<close>

lemma write_inert:
  assumes fo: "forest R m" and c: "inert R c m" and frames: "mem_frames m' = mem_frames m"
    and outside: "\<And>k. k < unat c \<or> unat c + 4096 \<le> k \<Longrightarrow> phys m' k = phys m k"
  shows "forest R m'" and "r \<in> R \<Longrightarrow> page_path q \<Longrightarrow> leaf_entry q r m' = leaf_entry q r m"
    and "r \<in> R \<Longrightarrow> user_path q \<Longrightarrow> resolve q r m' = resolve q r m"
    and "inert R u m' \<longleftrightarrow> inert R u m" and "loose R u m' \<longleftrightarrow> loose R u m"
    and "inert R u m \<Longrightarrow> u \<noteq> c \<Longrightarrow> j < 512 \<Longrightarrow> table_entry u j m' = table_entry u j m"
proof -
  have entry: "table_entry u j m' = table_entry u j m"
    if "u \<in> owned_frames (mem_frames m)" "u \<noteq> c" "j < 512" for u j
  proof -
    have "frame_ok c" using c by (auto simp: inert_def intro: owned_ok)
    from frame_gap [OF owned_ok [OF that(1)] this that(2)] show ?thesis
      unfolding table_entry_def using outside that(3) by (intro read64_cong) auto
  qed
  have keep: "u \<in> owned_frames (mem_frames m') \<and>
      (j < 512 \<longrightarrow> length p < 4 \<longrightarrow> table_entry u j m' = table_entry u j m)"
    if "r \<in> R" "user_path p" "resolve p r m = Some u" for r p u j
  proof -
    have u: "u \<in> owned_frames (mem_frames m)" using forestD(2) [OF fo that] .
    moreover have "u \<noteq> c" if "length p < 4" using c that \<open>r \<in> R\<close> \<open>user_path p\<close> \<open>resolve p r m = Some u\<close> by (auto simp: inert_def)
    ultimately show ?thesis using entry by (simp add: frames)
  qed
  have inv: "frames_inv (mem_frames m')" using forestD(1) [OF fo] by (simp add: frames)
  show "forest R m'" using fo subset_refl inv keep by (rule forest_frame(2))
  show res: "r \<in> R \<Longrightarrow> user_path q \<Longrightarrow> resolve q r m' = resolve q r m" for r q
    using fo subset_refl inv keep by (rule forest_frame(1))
  show "r \<in> R \<Longrightarrow> page_path q \<Longrightarrow> leaf_entry q r m' = leaf_entry q r m"
    using fo subset_refl inv keep by (rule forest_frame(3))
  show "inert R u m' \<longleftrightarrow> inert R u m" "loose R u m' \<longleftrightarrow> loose R u m"
    using res by (simp_all add: inert_def loose_def frames)
  show "inert R u m \<Longrightarrow> u \<noteq> c \<Longrightarrow> j < 512 \<Longrightarrow> table_entry u j m' = table_entry u j m"
    using entry by (simp add: inert_def)
qed

lemma destroy_forest:
  assumes fo: "forest R m" and r: "r \<in> R" and m': "m' = destroy_user_address_space r m"
  shows "forest (R - {r}) m'" and "releases (space_frames r m) (space_frames r m) m m'"
    and "\<And>r' q. r' \<in> R - {r} \<Longrightarrow> page_path q \<Longrightarrow> leaf_entry q r' m' = leaf_entry q r' m"
    and "\<And>r' q. r' \<in> R - {r} \<Longrightarrow> user_path q \<Longrightarrow> resolve q r' m' = resolve q r' m"
    and "loose (R - {r}) d m' \<longleftrightarrow> loose R d m" and "cr3 m' = cr3 m"
proof -
  let ?U = "\<Union>i < 256. child_reach 3 r m i"
  define b where "b = (\<lambda>index m. let entry = table_entry r index m
      in if entry AND PRESENT = 0 then m
         else set_entry r index 0 (release_user_table 3 (entry AND ENTRY_ADDRESS_MASK) m))"
  let ?m = "fold b [0..<256] m"
  have lok: "loop_ok 3 r [0..<256] m" by (rule root_loop_ok [OF fo r])
  have loop: "releases ?U (insert r ?U) m ?m"
    using release_loop [OF release_child_releases _ lok, of b]
    by (simp add: b_def release_entry_def Let_def lessThan_atLeast0 del: upt.simps release_user_table.simps)
  have "r \<notin> ?U" using lok by (auto simp: loop_ok_def child_reach_def split: if_splits)
  then have "r \<in> owned_frames (mem_frames ?m)" and inv: "frames_inv (mem_frames ?m)"
    using loop root_owned [OF fo r] by (auto simp: releases_def)
  from releases_trans [OF loop releases_free [OF this(2,1)], of "insert r ?U"]
  have "releases (?U \<union> {r}) (insert r ?U) m (free_physical_frame r ?m)" by simp
  moreover have "m' = free_physical_frame r ?m"
    unfolding m' destroy_user_address_space_def root_mask [OF fo r] b_def Let_def by (rule refl)
  ultimately show rel: "releases (space_frames r m) (space_frames r m) m m'"
    unfolding space_frames_children by simp
  have keep: "u \<in> owned_frames (mem_frames m') \<and>
      (j < 512 \<longrightarrow> length p < 4 \<longrightarrow> table_entry u j m' = table_entry u j m)"
    if "r' \<in> R - {r}" "user_path p" "resolve p r' m = Some u" for r' p u j
  proof -
    have "u \<notin> space_frames r m"
      using forestD(3) [OF fo _ r that(2)] that by (fastforce simp: space_frames_def)
    moreover have "u \<in> owned_frames (mem_frames m)" using forestD(2) [OF fo] that by blast
    ultimately show ?thesis using rel owned_ok [of u "mem_frames m"] by (simp add: releases_def)
  qed
  have inv': "frames_inv (mem_frames m')" using rel by (simp add: releases_def)
  show "forest (R - {r}) m'" using fo Diff_subset inv' keep by (rule forest_frame(2))
  show "leaf_entry q r' m' = leaf_entry q r' m" if "r' \<in> R - {r}" "page_path q" for r' q
    using fo Diff_subset inv' keep that by (rule forest_frame(3))
  show res: "resolve q r' m' = resolve q r' m" if "r' \<in> R - {r}" "user_path q" for r' q
    using fo Diff_subset inv' keep that by (rule forest_frame(1))
  have "d \<in> owned_frames (mem_frames m') \<longleftrightarrow> d \<in> owned_frames (mem_frames m) \<and>
      (\<forall>q. user_path q \<longrightarrow> resolve q r m \<noteq> Some d)"
    using rel by (auto simp: releases_def space_frames_def)
  then show "loose (R - {r}) d m' \<longleftrightarrow> loose R d m"
    using res r unfolding loose_def by (metis Diff_iff insertE insert_iff insert_Diff)
  show "cr3 m' = cr3 m" using rel by (simp add: releases_def)
qed

lemma write_forest:
  assumes fo: "forest R m" and c: "loose R c m" and len: "length src \<le> 4096"
    and m': "m' = write_physical_frame c src m"
  shows "forest R m'" and "\<And>d. loose R d m' \<longleftrightarrow> loose R d m"
    and "\<And>r q. r \<in> R \<Longrightarrow> page_path q \<Longrightarrow> leaf_entry q r m' = leaf_entry q r m"
    and "\<And>r q. r \<in> R \<Longrightarrow> user_path q \<Longrightarrow> resolve q r m' = resolve q r m"
proof -
  have keep: "u \<in> owned_frames (mem_frames m') \<and>
      (j < 512 \<longrightarrow> length p < 4 \<longrightarrow> table_entry u j m' = table_entry u j m)"
    if "r \<in> R" "user_path p" "resolve p r m = Some u" for r p u j
  proof -
    have u: "u \<in> owned_frames (mem_frames m)" using forestD(2) [OF fo that] .
    moreover have "u \<noteq> c" using c that by (auto simp: loose_def)
    moreover have "frame_ok c" using c by (auto simp: loose_def intro: owned_ok)
    ultimately show ?thesis using write_frame_entries [OF owned_ok [OF u] _ _ _ len] by (simp add: m')
  qed
  have inv: "frames_inv (mem_frames m')" using forestD(1) [OF fo] by (simp add: m')
  show "forest R m'" using fo subset_refl inv keep by (rule forest_frame(2))
  show res: "resolve q r m' = resolve q r m" if "r \<in> R" "user_path q" for r q
    using fo subset_refl inv keep that by (rule forest_frame(1))
  show "leaf_entry q r m' = leaf_entry q r m" if "r \<in> R" "page_path q" for r q
    using fo subset_refl inv keep that by (rule forest_frame(3))
  show "loose R d m' \<longleftrightarrow> loose R d m" for d using res by (simp add: loose_def m')
qed

lemma copy_entries:
  assumes "frame_ok s" and "frame_ok f" and "set is \<subseteq> {..<512}" and "frame_ok u" and "j < 512"
  shows "table_entry u j (fold (\<lambda>index m. set_entry f index (table_entry s index m) m) is m) =
      (if u = f \<and> j \<in> set is then table_entry s j m else table_entry u j m) \<and>
    mem_frames (fold (\<lambda>index m. set_entry f index (table_entry s index m) m) is m) = mem_frames m \<and>
    cr3 (fold (\<lambda>index m. set_entry f index (table_entry s index m) m) is m) = cr3 m"
  using assms(3)
proof (induction "is" arbitrary: m)
  case (Cons i "is")
  have i: "i < 512" "set is \<subseteq> {..<512}" using Cons.prems by simp_all
  show ?case
    using Cons.IH [OF i(2), of "set_entry f i (table_entry s i m) m"]
      table_entry_set [OF assms(4,2,5) i(1)] table_entry_set [OF assms(1,2,5) i(1)]
    by auto
qed simp

lemma create_forest:
  assumes fo: "forest R m" and e: "create_user_address_space m = (res, m')"
  shows "case res of
      Inl err \<Rightarrow> err = FrameAllocationFailed \<and> m' = m \<and> avail_frames (mem_frames m) = {}
    | Inr f \<Rightarrow> f \<notin> R \<and> forest (insert f R) m' \<and> cr3 m' = cr3 m \<and>
        (\<forall>d. loose (insert f R) d m' \<longleftrightarrow> loose R d m) \<and>
        (\<forall>q. page_path q \<longrightarrow> leaf_entry q f m' = 0) \<and>
        (\<forall>r \<in> R. \<forall>q. page_path q \<longrightarrow> leaf_entry q r m' = leaf_entry q r m) \<and>
        f \<in> avail_frames (mem_frames m) \<and>
        (\<forall>u. inert R u m \<longrightarrow> inert (insert f R) u m' \<and> (\<forall>j < 512. table_entry u j m' = table_entry u j m)) \<and>
        (cr3 m AND ENTRY_ADDRESS_MASK \<noteq> f \<longrightarrow> (\<forall>i. 256 \<le> i \<and> i < 512 \<longrightarrow>
           table_entry f i m' = table_entry (cr3 m AND ENTRY_ADDRESS_MASK) i m))"
proof (cases "allocate_physical_frame m")
  case (Pair fr m1)
  show ?thesis
  proof (cases fr)
    case None
    then have al: "frames_allocate (mem_frames m) = (None, mem_frames m1)" "m1 = m\<lparr>mem_frames := mem_frames m1\<rparr>"
      using Pair by (auto simp: allocate_physical_frame_def split: prod.splits)
    then have "m1 = m" "avail_frames (mem_frames m) = {}" using fa.allocate_None by force+
    then show ?thesis using e Pair None by (auto simp: create_user_address_space_def)
  next
    case (Some f)
    note A = allocate_loose [OF fo Pair [unfolded Some]]
    let ?s = "cr3 m AND ENTRY_ADDRESS_MASK"
    let ?m2 = "zero_table f m1"
    define half where "half = [256..<512 :: nat]"
    have half: "set half \<subseteq> {..<512}" "set half = {256..<512}" unfolding half_def set_upt by auto
    have res: "res = Inr f"
      and m': "m' = fold (\<lambda>index m. set_entry f index (table_entry ?s index m) m) half ?m2"
      using e A(8)
      unfolding create_user_address_space_def half_def [symmetric] Pair Some Let_def prod.case option.case
        zero_table_fields Pair_inject
      by auto
    note copy = copy_entries [OF masked_ok A(9) half(1), of _ _ "cr3 m" ?m2, folded m', unfolded half(2)]
    have f0: "table_entry f j m' = 0" if "j < 256" for j
      using copy [OF A(9), of j] that by (simp add: zero_table_entries A(9))
    have other: "table_entry u j m' = table_entry u j m" if "u \<noteq> f" "frame_ok u" "j < 512" for u j
      using copy [OF that(2,3)] that by (simp add: zero_table_entries A(9) A(7))
    have frames: "mem_frames m' = mem_frames m1" "cr3 m' = cr3 m"
      using copy [OF A(9), of 0] A(8) by simp_all
    have keep: "u \<in> owned_frames (mem_frames m') \<and>
        (j < 512 \<longrightarrow> length p < 4 \<longrightarrow> table_entry u j m' = table_entry u j m1)"
      if "r \<in> R" "user_path p" "resolve p r m1 = Some u" for r p u j
    proof -
      have u: "u \<in> owned_frames (mem_frames m1)" by (rule forestD(2) [OF A(1) that])
      moreover have "u \<noteq> f" using A(2) that by (auto simp: loose_def)
      ultimately show ?thesis using other [OF _ owned_ok [OF u]] A(7) frames by simp
    qed
    have inv: "frames_inv (mem_frames m')" using forestD(1) [OF A(1)] frames by simp
    have fR: "f \<notin> R"
    proof
      assume "f \<in> R"
      then have "resolve [] f m1 \<noteq> Some f" using A(2) user_path_Nil unfolding loose_def by blast
      then show False by simp
    qed
    have nodes: "resolve q f m' = Some d \<longleftrightarrow> q = [] \<and> d = f" if "user_path q" for q d
      using that f0 by (cases q) (auto simp: user_path_Cons)
    have resR: "resolve q r m' = resolve q r m1" if "r \<in> R" "user_path q" for r q
      using A(1) subset_refl inv keep that by (rule forest_frame(1))
    have foR: "forest R m'" using A(1) subset_refl inv keep by (rule forest_frame(2))
    have notf: "resolve q r m' \<noteq> Some f" if "r \<in> R" "user_path q" for r q
      using A(2) resR [OF that] that by (simp add: loose_def)
    have "forest (insert f R) m'"
      unfolding forest_def
    proof (intro conjI ballI allI impI)
      fix r p d assume "r \<in> insert f R" "user_path p" "resolve p r m' = Some d"
      then show "d \<in> owned_frames (mem_frames m')"
        using nodes forestD(2) [OF foR] A(2) frames by (auto simp: loose_def)
    next
      fix r1 r2 p1 p2 d
      assume "r1 \<in> insert f R" "r2 \<in> insert f R" "user_path p1" "user_path p2"
        "resolve p1 r1 m' = Some d" "resolve p2 r2 m' = Some d"
      then have "r1 = r2 \<and> p1 = p2" using nodes notf forestD(3) [OF foR] by (metis insertE)
      then show "r1 = r2" "p1 = p2" by simp_all
    next
      fix r p d i assume "r \<in> insert f R" "user_path (p @ [i])" "resolve p r m' = Some d"
      then show "table_entry d i m' AND HUGE_PAGE = 0"
        using nodes [OF user_path_append, of p "[i]" d] f0 [of i] forestD(4) [OF foR, of r p i d]
        by (auto simp: user_path_Cons)
    next
      fix r p d i assume "r \<in> insert f R" "user_path (p @ [i])" "length p < 3"
        "resolve p r m' = Some d" "bit (table_entry d i m') 0"
      then show "bit (table_entry d i m') 2"
        using nodes [OF user_path_append, of p "[i]" d] f0 [of i] forestD(5) [OF foR, of r p i d]
        by (auto simp: user_path_Cons)
    qed (rule inv)
    moreover have "loose (insert f R) d m' \<longleftrightarrow> loose R d m" for d
    proof -
      have "loose (insert f R) d m' \<longleftrightarrow> loose R d m1 \<and> d \<noteq> f"
      proof
        assume l: "loose (insert f R) d m'"
        then have "resolve [] f m' \<noteq> Some d" using user_path_Nil unfolding loose_def by blast
        then have "d \<noteq> f" by simp
        moreover have "loose R d m1" using l resR frames by (auto simp: loose_def)
        ultimately show "loose R d m1 \<and> d \<noteq> f" by simp
      next
        assume l: "loose R d m1 \<and> d \<noteq> f"
        then show "loose (insert f R) d m'"
          using nodes resR frames by (auto simp: loose_def)
      qed
      then show ?thesis using A(3,4) by metis
    qed
    moreover have "leaf_entry q f m' = 0" if "page_path q" for q
    proof -
      have "take 3 q \<noteq> []" using that by (auto simp: page_path_def)
      then have "resolve (take 3 q) f m' = None"
        using nodes [OF page_path_take [OF that]] by (cases "resolve (take 3 q) f m'") auto
      then show ?thesis by (simp add: leaf_entry_def)
    qed
    moreover have "leaf_entry q r m' = leaf_entry q r m" if "r \<in> R" "page_path q" for q r
      using forest_frame(3) [OF A(1) subset_refl inv keep that] A(5) by simp
    moreover have "table_entry f i m' = table_entry ?s i m" if "256 \<le> i" "i < 512" "?s \<noteq> f" for i
      using copy [OF A(9) that(2)] that by (simp add: zero_table_entries masked_ok A(9) A(7))
    moreover have "inert (insert f R) u m' \<and> (\<forall>j < 512. table_entry u j m' = table_entry u j m)" if "inert R u m" for u
    proof -
      have u: "inert R u m1" "u \<noteq> f" using that A(10,11) by auto
      then have "frame_ok u" by (auto simp: inert_def intro: owned_ok)
      moreover have "inert (insert f R) u m'"
        using u nodes resR frames by (auto simp: inert_def)
      ultimately show ?thesis using other u(2) by blast
    qed
    moreover have "f \<in> avail_frames (mem_frames m)"
      using Pair Some fa.allocate_Some by (auto simp: allocate_physical_frame_def split: prod.splits)
    ultimately show ?thesis using res fR frames by simp
  qed
qed

section \<open>Runs of address-space operations\<close>

text \<open>
  The way every caller adds a user page: take a frame, clear it, fill it and map it
  (\<open>allocate_user_stack_in\<close> above; the loader's and \<open>brk\<close>'s loops).  A frame whose
  mapping fails stays handed out.
\<close>

definition map_fresh_user_page ::
  "u64 \<Rightarrow> u64 \<Rightarrow> page_flags \<Rightarrow> u8 list \<Rightarrow> memory \<Rightarrow> (paging_error + unit) \<times> u64 option \<times> memory" where
  "map_fresh_user_page address_space virtual_address flags bytes m =
     (case allocate_physical_frame m of
        (None, m) \<Rightarrow> (Inl FrameAllocationFailed, None, m)
      | (Some frame, m) \<Rightarrow>
          (case map_user_page_in address_space virtual_address frame flags
              (write_physical_frame frame (take 4096 bytes) (zero_physical_frame frame m)) of
             (r, m) \<Rightarrow> (r, Some frame, m)))"

datatype space_op = CreateSpace | MapFresh u64 u64 page_flags "u8 list" | DestroySpace u64

text \<open>
  The abstract view: for every live space the frame and flags of each page number, and the
  frames whose mapping failed.
\<close>

record spaces =
  live :: "u64 \<Rightarrow> (nat \<Rightarrow> (u64 \<times> page_flags) option) option"
  lost :: "u64 set"

definition user_flags :: "page_flags \<Rightarrow> bool" where
  "user_flags flags \<longleftrightarrow> flag_bits flags AND USER \<noteq> 0"

definition page_of :: "u64 \<Rightarrow> nat" where
  "page_of va = unat va div 4096"

text \<open>Operations on dead spaces, and mappings with kernel flags, are never requested.\<close>

fun space_step :: "space_op \<Rightarrow> spaces \<times> memory \<Rightarrow> spaces \<times> memory" where
  "space_step CreateSpace (S, m) =
     (case create_user_address_space m of
        (Inl _, m') \<Rightarrow> (S, m')
      | (Inr r, m') \<Rightarrow> (S\<lparr>live := (live S)(r \<mapsto> Map.empty)\<rparr>, m'))"
| "space_step (MapFresh r va flags bytes) (S, m) =
     (case live S r of
        None \<Rightarrow> (S, m)
      | Some pages \<Rightarrow>
          if \<not> user_flags flags then (S, m)
          else case map_fresh_user_page r va flags bytes m of
            (_, None, m') \<Rightarrow> (S, m')
          | (Inl _, Some f, m') \<Rightarrow> (S\<lparr>lost := insert f (lost S)\<rparr>, m')
          | (Inr _, Some f, m') \<Rightarrow>
              (S\<lparr>live := (live S)(r \<mapsto> pages(page_of va \<mapsto> (f, flags)))\<rparr>, m'))"
| "space_step (DestroySpace r) (S, m) =
     (case live S r of
        None \<Rightarrow> (S, m)
      | Some _ \<Rightarrow> (S\<lparr>live := (live S)(r := None)\<rparr>, destroy_user_address_space r m))"

definition space_run :: "space_op list \<Rightarrow> memory \<Rightarrow> spaces \<times> memory" where
  "space_run ops m = fold space_step ops (\<lparr>live = Map.empty, lost = {}\<rparr>, m)"

definition spaces_inv :: "u64 set \<Rightarrow> spaces \<times> memory \<Rightarrow> bool" where
  "spaces_inv base = (\<lambda>(S, m). forest (dom (live S)) m \<and>
     (\<forall>d. loose (dom (live S)) d m \<longleftrightarrow> d \<in> base \<union> lost S) \<and>
     (\<forall>r pages n. live S r = Some pages \<longrightarrow> pages n \<noteq> None \<longrightarrow> (\<exists>va. user_range va \<and> page_of va = n)) \<and>
     (\<forall>r pages. live S r = Some pages \<longrightarrow> (\<forall>va. user_range va \<longrightarrow>
        leaf_entry (table_indices va) r m =
          (case pages (page_of va) of None \<Rightarrow> 0 | Some (f, flags) \<Rightarrow> f OR flag_bits flags) \<and>
        (case pages (page_of va) of None \<Rightarrow> True
         | Some (f, flags) \<Rightarrow> resolve (table_indices va) r m = Some f \<and> user_flags flags))))"

lemma spaces_invD:
  assumes "spaces_inv base (S, m)"
  shows "forest (dom (live S)) m" and "loose (dom (live S)) d m \<longleftrightarrow> d \<in> base \<union> lost S"
    and "live S r = Some pages \<Longrightarrow> user_range va \<Longrightarrow> leaf_entry (table_indices va) r m =
          (case pages (page_of va) of None \<Rightarrow> 0 | Some (f, flags) \<Rightarrow> f OR flag_bits flags)"
    and "live S r = Some pages \<Longrightarrow> user_range va \<Longrightarrow> pages (page_of va) = Some (f, flags) \<Longrightarrow>
      resolve (table_indices va) r m = Some f \<and> user_flags flags"
    and "live S r = Some pages \<Longrightarrow> pages n \<noteq> None \<Longrightarrow> \<exists>va. user_range va \<and> page_of va = n"
  using assms unfolding spaces_inv_def by (auto split: option.splits)

lemma resolve_leaf:
  assumes "page_path q"
  shows "resolve q r m = (if leaf_entry q r m AND PRESENT = 0 then None
     else Some (leaf_entry q r m AND ENTRY_ADDRESS_MASK))"
proof -
  have "resolve (take 3 q @ [q ! 3]) r m = (if leaf_entry q r m AND PRESENT = 0 then None
     else Some (leaf_entry q r m AND ENTRY_ADDRESS_MASK))"
    unfolding resolve_snoc leaf_entry_def by (simp split: option.split)
  then show ?thesis using page_path_split [OF assms] by simp
qed

text \<open>Steps that keep every leaf of the surviving spaces.\<close>

lemma spaces_inv_keep:
  assumes inv: "spaces_inv base (S, m)" and fo: "forest (dom (live S')) m'"
    and loose: "\<And>d. loose (dom (live S')) d m' \<longleftrightarrow> d \<in> base \<union> lost S'"
    and sub: "\<And>r pages. live S' r = Some pages \<Longrightarrow> live S r = Some pages"
    and leaf: "\<And>r q. r \<in> dom (live S') \<Longrightarrow> page_path q \<Longrightarrow> leaf_entry q r m' = leaf_entry q r m"
  shows "spaces_inv base (S', m')"
  unfolding spaces_inv_def split_conv
proof (intro conjI allI impI)
  show "\<exists>va. user_range va \<and> page_of va = n" if "live S' r = Some pages" "pages n \<noteq> None" for r pages n
    using spaces_invD(5) [OF inv sub] that by blast
next
  fix r pages va assume *: "live S' r = Some pages" "user_range va"
  have q: "page_path (table_indices va)" by (rule page_path_indices [OF *(2)])
  have eq: "leaf_entry (table_indices va) r m' = leaf_entry (table_indices va) r m"
    using leaf [OF _ q] *(1) by blast
  then show "leaf_entry (table_indices va) r m' =
      (case pages (page_of va) of None \<Rightarrow> 0 | Some (f, flags) \<Rightarrow> f OR flag_bits flags)"
    using spaces_invD(3) [OF inv sub [OF *(1)] *(2)] by simp
  have "resolve (table_indices va) r m' = resolve (table_indices va) r m"
    unfolding resolve_leaf [OF q] eq by (rule refl)
  then show "case pages (page_of va) of None \<Rightarrow> True
     | Some (f, flags) \<Rightarrow> resolve (table_indices va) r m' = Some f \<and> user_flags flags"
    using spaces_invD(4) [OF inv sub [OF *(1)] *(2)] by (auto split: option.split)
qed (use fo loose in auto)

lemma map_fresh_forest:
  assumes fo: "forest R m" and r: "r \<in> R" and user: "user_flags flags"
    and e: "map_fresh_user_page r va flags bytes m = (res, fr, m')"
  shows "forest R m' \<and> (case fr of
      None \<Rightarrow> res = Inl FrameAllocationFailed \<and> m' = m \<and> avail_frames (mem_frames m) = {}
    | Some f \<Rightarrow> f \<in> avail_frames (mem_frames m) \<and> (case res of
        Inl err \<Rightarrow> (\<forall>d. loose R d m' \<longleftrightarrow> loose R d m \<or> d = f) \<and>
          (\<forall>r' \<in> R. \<forall>q. page_path q \<longrightarrow> leaf_entry q r' m' = leaf_entry q r' m) \<and>
          (err = InvalidUserAddress \<and> \<not> user_range va \<or>
           err = AlreadyMapped \<and> user_range va \<and> leaf_entry (table_indices va) r m AND PRESENT \<noteq> 0 \<or>
           err = FrameAllocationFailed \<and> user_range va \<and> avail_frames (mem_frames m') = {})
      | Inr _ \<Rightarrow> user_range va \<and> leaf_entry (table_indices va) r m AND PRESENT = 0 \<and>
          (\<forall>d. loose R d m' \<longleftrightarrow> loose R d m) \<and> resolve (table_indices va) r m' = Some f \<and>
          (\<forall>r' \<in> R. \<forall>q. page_path q \<longrightarrow> leaf_entry q r' m' =
            (if r' = r \<and> q = table_indices va then f OR flag_bits flags else leaf_entry q r' m))))"
proof (cases "allocate_physical_frame m")
  case (Pair x m1)
  show ?thesis
  proof (cases x)
    case None
    then have al: "frames_allocate (mem_frames m) = (None, mem_frames m1)" "m1 = m\<lparr>mem_frames := mem_frames m1\<rparr>"
      using Pair by (auto simp: allocate_physical_frame_def split: prod.splits)
    then have "m1 = m" "avail_frames (mem_frames m) = {}" using fa.allocate_None by force+
    then show ?thesis using e Pair None fo by (auto simp: map_fresh_user_page_def)
  next
    case (Some f)
    note A = allocate_loose [OF fo Pair [unfolded Some]]
    define m2 where "m2 = zero_physical_frame f m1"
    define m3 where "m3 = write_physical_frame f (take 4096 bytes) m2"
    note B = write_forest [OF A(1,2) _ m2_def [unfolded zero_physical_frame_def]]
    have len: "length (replicate (unat PAGE_SIZE) (0 :: u8)) \<le> 4096" by (simp add: PAGE_SIZE_def)
    note B = B [OF len]
    have "loose R f m2" using B(2) A(2) by simp
    note C = write_forest [OF B(1) this _ m3_def, simplified]
    have lf: "loose R d m3 \<longleftrightarrow> loose R d m \<or> d = f" for d using A(3) B(2) C(2) by simp
    have leaf: "leaf_entry q r' m3 = leaf_entry q r' m" if "r' \<in> R" "page_path q" for r' q
      using A(5) B(3) C(3) that by simp
    have fin: "f \<in> avail_frames (mem_frames m)"
      using Pair Some fa.allocate_Some by (auto simp: allocate_physical_frame_def split: prod.splits)
    have fr: "fr = Some f" and step: "map_user_page_in r va f flags m3 = (res, m')"
      using e Pair Some by (auto simp: map_fresh_user_page_def m2_def [symmetric] m3_def [symmetric]
          split: prod.splits)
    show ?thesis
    proof (cases "user_range va")
      case False
      then have "res = Inl InvalidUserAddress" "m' = m3" using step by (simp_all add: map_user_page_in_def)
      then show ?thesis using C(1) lf leaf fin fr False by simp
    next
      case True
      then have step': "map_page_in r va f flags m3 = (res, m')" using step by (simp add: map_user_page_in_def)
      have lo: "loose R f m3" using lf by simp
      note M = map_page_in_forest [OF C(1) r True lo step' user [unfolded user_flags_def]]
      have q: "page_path (table_indices va)" by (rule page_path_indices [OF True])
      show ?thesis
      proof (cases res)
        case (Inl err)
        then show ?thesis using M lf leaf fin fr True leaf [OF r q] by simp
      next
        case (Inr u)
        have "loose R d m' \<longleftrightarrow> loose R d m" for d using M lf A(4) Inr by auto
        then show ?thesis using M leaf fin fr True leaf [OF r q] Inr by simp
      qed
    qed
  qed
qed

lemma page_of_inject:
  "user_range va \<Longrightarrow> user_range vb \<Longrightarrow> page_of va = page_of vb \<longleftrightarrow> table_indices va = table_indices vb"
  by (simp add: table_indices_inject page_of_def)

lemma flag_present: "(f OR flag_bits flags) AND PRESENT \<noteq> 0"
  using bit_flag_bits(2) by (simp add: present_iff bit_or_iff)

lemma mapped_present:
  assumes "spaces_inv base (S, m)" and "live S r = Some pages" and "user_range va"
  shows "leaf_entry (table_indices va) r m AND PRESENT = 0 \<longleftrightarrow> pages (page_of va) = None"
  using spaces_invD(3) [OF assms] flag_present by (auto split: option.splits)

lemma spaces_inv_map:
  assumes inv: "spaces_inv base (S, m)" and S: "live S r = Some pages" and user: "user_flags flags"
    and e: "map_fresh_user_page r va flags bytes m = (Inr u, Some f, m')"
  shows "spaces_inv base (S\<lparr>live := (live S)(r \<mapsto> pages(page_of va \<mapsto> (f, flags)))\<rparr>, m')"
proof -
  let ?S = "S\<lparr>live := (live S)(r \<mapsto> pages(page_of va \<mapsto> (f, flags)))\<rparr>"
  have r: "r \<in> dom (live S)" using S by auto
  note fo = spaces_invD(1) [OF inv]
  note M = map_fresh_forest [OF fo r user e]
  have va: "user_range va" using M by simp
  have dom: "dom (live ?S) = dom (live S)" using r by auto
  show ?thesis
    unfolding spaces_inv_def split_conv dom
  proof (intro conjI allI impI)
    show "forest (dom (live S)) m'" using M by simp
    show "loose (dom (live S)) d m' \<longleftrightarrow> d \<in> base \<union> lost ?S" for d
      using M spaces_invD(2) [OF inv] by simp
    show "\<exists>vb. user_range vb \<and> page_of vb = n" if "live ?S r' = Some pages'" "pages' n \<noteq> None" for r' pages' n
      using that va S spaces_invD(5) [OF inv, of r'] by (auto split: if_splits)
    fix r' pages' vb assume r': "live ?S r' = Some pages'" and vb: "user_range vb"
    have q: "page_path (table_indices vb)" by (rule page_path_indices [OF vb])
    have d: "r' \<in> dom (live S)" using r' r by (auto split: if_splits)
    have leaf: "leaf_entry (table_indices vb) r' m' = (if r' = r \<and> table_indices vb = table_indices va
        then f OR flag_bits flags else leaf_entry (table_indices vb) r' m)"
      using M d q by simp
    show L: "leaf_entry (table_indices vb) r' m' =
        (case pages' (page_of vb) of None \<Rightarrow> 0 | Some (f, flags) \<Rightarrow> f OR flag_bits flags)"
      using leaf r' S spaces_invD(3) [OF inv _ vb, of r'] page_of_inject [OF vb va]
      by (auto split: if_splits)
    show "case pages' (page_of vb) of None \<Rightarrow> True
       | Some (f, flags) \<Rightarrow> resolve (table_indices vb) r' m' = Some f \<and> user_flags flags"
    proof (cases "r' = r \<and> page_of vb = page_of va")
      case True
      then have "table_indices vb = table_indices va" using page_of_inject [OF vb va] by simp
      moreover have "pages' (page_of vb) = Some (f, flags)" using True r' by auto
      ultimately show ?thesis using True M user by simp
    next
      case False
      then have "leaf_entry (table_indices vb) r' m' = leaf_entry (table_indices vb) r' m"
        using leaf page_of_inject [OF vb va] by auto
      then have "resolve (table_indices vb) r' m' = resolve (table_indices vb) r' m"
        unfolding resolve_leaf [OF q] by simp
      then show ?thesis using False r' S spaces_invD(4) [OF inv _ vb, of r']
        by (auto split: if_splits option.split)
    qed
  qed
qed

lemma spaces_inv_step:
  assumes inv: "spaces_inv base (S, m)"
  shows "spaces_inv base (space_step op (S, m))"
proof (cases op)
  case CreateSpace
  obtain res m' where e: "create_user_address_space m = (res, m')" by fastforce
  note C = create_forest [OF spaces_invD(1) [OF inv] e]
  show ?thesis
  proof (cases res)
    case (Inl err)
    then show ?thesis using C e inv CreateSpace by simp
  next
    case (Inr f)
    let ?S = "S\<lparr>live := (live S)(f \<mapsto> Map.empty)\<rparr>"
    have new: "leaf_entry q f m' = 0" if "page_path q" for q using C Inr that by simp
    have old: "leaf_entry q r m' = leaf_entry q r m" if "r \<in> dom (live S)" "page_path q" for r q
      using C Inr that by simp
    have "spaces_inv base (?S, m')"
      unfolding spaces_inv_def split_conv
    proof (intro conjI allI impI)
      show "forest (dom (live ?S)) m'" using C Inr by simp
      show "loose (dom (live ?S)) d m' \<longleftrightarrow> d \<in> base \<union> lost ?S" for d
        using C Inr spaces_invD(2) [OF inv] by simp
      show "\<exists>va. user_range va \<and> page_of va = n" if "live ?S r = Some pages" "pages n \<noteq> None" for r pages n
        using that spaces_invD(5) [OF inv, of r] by (auto split: if_splits)
      fix r pages va assume r: "live ?S r = Some pages" and va: "user_range va"
      have q: "page_path (table_indices va)" by (rule page_path_indices [OF va])
      show L: "leaf_entry (table_indices va) r m' =
          (case pages (page_of va) of None \<Rightarrow> 0 | Some (f, flags) \<Rightarrow> f OR flag_bits flags)"
      proof (cases "r = f")
        case False
        then have S: "live S r = Some pages" using r by simp
        then have "leaf_entry (table_indices va) r m' = leaf_entry (table_indices va) r m"
          by (intro old [OF _ q]) auto
        then show ?thesis using spaces_invD(3) [OF inv S va] by simp
      qed (use r new [OF q] in auto)
      show "case pages (page_of va) of None \<Rightarrow> True
         | Some (f, flags) \<Rightarrow> resolve (table_indices va) r m' = Some f \<and> user_flags flags"
      proof (cases "r = f")
        case False
        then have S: "live S r = Some pages" using r by simp
        then have "leaf_entry (table_indices va) r m' = leaf_entry (table_indices va) r m"
          by (intro old [OF _ q]) auto
        then have "resolve (table_indices va) r m' = resolve (table_indices va) r m"
          unfolding resolve_leaf [OF q] by simp
        then show ?thesis using spaces_invD(4) [OF inv S va] by (auto split: option.split)
      qed (use r in auto)
    qed
    then show ?thesis using CreateSpace e Inr by simp
  qed
next
  case (MapFresh r va flags bytes)
  obtain res fr m' where e: "map_fresh_user_page r va flags bytes m = (res, fr, m')"
    by (metis prod_cases3)
  show ?thesis
  proof (cases "live S r = None \<or> \<not> user_flags flags")
    case True
    then show ?thesis using inv MapFresh by (auto split: option.split)
  next
    case False
    then obtain pages where S: "live S r = Some pages" and user: "user_flags flags" by auto
    have r: "r \<in> dom (live S)" using S by auto
    note M = map_fresh_forest [OF spaces_invD(1) [OF inv] r user e]
    consider "fr = None" | f u where "fr = Some f" "res = Inr u" | f err where "fr = Some f" "res = Inl err"
      by (cases fr; cases res) auto
    then show ?thesis
    proof cases
      case 1
      then show ?thesis using MapFresh S user e inv M by (cases res) simp_all
    next
      case 2
      then show ?thesis using MapFresh S user e spaces_inv_map [OF inv S user] by simp
    next
      case 3
      have "spaces_inv base (S\<lparr>lost := insert f (lost S)\<rparr>, m')"
        using inv
      proof (rule spaces_inv_keep)
        show "forest (dom (live (S\<lparr>lost := insert f (lost S)\<rparr>))) m'" using M by simp
        show "loose (dom (live (S\<lparr>lost := insert f (lost S)\<rparr>))) d m' \<longleftrightarrow>
            d \<in> base \<union> lost (S\<lparr>lost := insert f (lost S)\<rparr>)" for d
          using M 3 spaces_invD(2) [OF inv, of d] by auto
      qed (use M 3 in auto)
      then show ?thesis using MapFresh S user e 3 by simp
    qed
  qed
next
  case (DestroySpace r)
  show ?thesis
  proof (cases "live S r")
    case (Some pages)
    let ?S = "S\<lparr>live := (live S)(r := None)\<rparr>"
    have r: "r \<in> dom (live S)" using Some by auto
    note D = destroy_forest [OF spaces_invD(1) [OF inv] r refl]
    have dom: "dom (live ?S) = dom (live S) - {r}" by auto
    have "spaces_inv base (?S, destroy_user_address_space r m)"
      using inv
    proof (rule spaces_inv_keep)
      show "forest (dom (live ?S)) (destroy_user_address_space r m)" unfolding dom by (rule D(1))
      show "loose (dom (live ?S)) d (destroy_user_address_space r m) \<longleftrightarrow> d \<in> base \<union> lost ?S" for d
        unfolding dom using D(5) spaces_invD(2) [OF inv] by simp
    qed (use D(3) in \<open>auto split: if_splits\<close>)
    then show ?thesis using DestroySpace Some by simp
  qed (use inv DestroySpace in simp)
qed

lemma spaces_inv_run:
  assumes "frames_inv (mem_frames m)"
  shows "spaces_inv (owned_frames (mem_frames m)) (space_run ops m)"
proof -
  let ?b = "owned_frames (mem_frames m)"
  have "spaces_inv ?b (\<lparr>live = Map.empty, lost = {}\<rparr>, m)"
    using assms by (simp add: spaces_inv_def forest_def loose_def)
  moreover have step: "spaces_inv ?b st \<Longrightarrow> spaces_inv ?b (space_step op st)" for st op
    by (cases st) (simp only: spaces_inv_step)
  then have "spaces_inv ?b st \<Longrightarrow> spaces_inv ?b (fold space_step ops st)" for st
    by (induction ops arbitrary: st) simp_all
  ultimately show ?thesis by (simp add: space_run_def)
qed

section \<open>What user code can reach\<close>

lemma user_entry_iff:
  "w AND (PRESENT OR USER OR HUGE_PAGE) = PRESENT OR USER \<longleftrightarrow> bit w 0 \<and> bit w 2 \<and> \<not> bit w 7"
  "w AND (PRESENT OR USER) = PRESENT OR USER \<longleftrightarrow> bit w 0 \<and> bit w 2"
proof -
  note bits = bit_and_iff bit_or_iff bit_flags
  show "w AND (PRESENT OR USER OR HUGE_PAGE) = PRESENT OR USER \<longleftrightarrow> bit w 0 \<and> bit w 2 \<and> \<not> bit w 7"
  proof
    assume "w AND (PRESENT OR USER OR HUGE_PAGE) = PRESENT OR USER"
    then have "bit (w AND (PRESENT OR USER OR HUGE_PAGE)) n = bit (PRESENT OR USER) n" for n by simp
    from this [of 0] this [of 2] this [of 7] show "bit w 0 \<and> bit w 2 \<and> \<not> bit w 7"
      by (simp add: bits)
  qed (auto simp: bits intro!: bit_eqI)
  show "w AND (PRESENT OR USER) = PRESENT OR USER \<longleftrightarrow> bit w 0 \<and> bit w 2"
  proof
    assume "w AND (PRESENT OR USER) = PRESENT OR USER"
    then have "bit (w AND (PRESENT OR USER)) n = bit (PRESENT OR USER) n" for n by simp
    from this [of 0] this [of 2] show "bit w 0 \<and> bit w 2" by (simp add: bits)
  qed (auto simp: bits intro!: bit_eqI)
qed

lemma executable_iff: "w AND NO_EXECUTE = 0 \<longleftrightarrow> \<not> bit w 63"
  unfolding NO_EXECUTE_def by (rule flag_set) simp

lemma walk_user_forest:
  assumes fo: "forest R m" and r: "r \<in> R"
  shows "user_path (p @ is) \<Longrightarrow> length (p @ is) \<le> 3 \<Longrightarrow> resolve p r m = Some t \<Longrightarrow>
    walk_user is t m = resolve is t m"
proof (induction "is" arbitrary: p t)
  case (Cons i "is")
  have up: "user_path (p @ [i])" using Cons.prems(1) user_path_append [of "p @ [i]" "is"] by simp
  have huge: "\<not> bit (table_entry t i m) 7"
    using forestD(4) [OF fo r up Cons.prems(3)] by (simp add: huge_iff)
  have user: "bit (table_entry t i m) 0 \<Longrightarrow> bit (table_entry t i m) 2"
    using forestD(5) [OF fo r up _ Cons.prems(3)] Cons.prems(2) by simp
  show ?case
  proof (cases "bit (table_entry t i m) 0")
    case True
    then have "resolve (p @ [i]) r m = Some (table_entry t i m AND ENTRY_ADDRESS_MASK)"
      using Cons.prems(3) by (simp add: resolve_snoc present_iff)
    from Cons.IH [OF _ _ this] Cons.prems True user huge show ?thesis
      by (simp add: Let_def user_entry_iff present_iff)
  qed (simp add: Let_def user_entry_iff present_iff)
qed simp

lemma cr3_irrelevant [simp]:
  "table_entry t i (switch_address_space r m) = table_entry t i m"
  "walk_user p t (switch_address_space r m) = walk_user p t m"
  "cr3 (switch_address_space r m) = r"
proof -
  show e: "table_entry t i (switch_address_space r m) = table_entry t i m" for t i
    by (simp add: table_entry_def switch_address_space_def)
  show "walk_user p t (switch_address_space r m) = walk_user p t m"
    by (induction p arbitrary: t) (simp_all add: e Let_def)
qed (simp add: switch_address_space_def)

lemma user_access_leaf:
  assumes fo: "forest R m" and r: "r \<in> R" and va: "user_range va"
  shows "is_user_mapped va (switch_address_space r m) \<longleftrightarrow>
      bit (leaf_entry (table_indices va) r m) 0 \<and> bit (leaf_entry (table_indices va) r m) 2"
    and "is_user_executable va (switch_address_space r m) \<longleftrightarrow>
      bit (leaf_entry (table_indices va) r m) 0 \<and> bit (leaf_entry (table_indices va) r m) 2 \<and>
      \<not> bit (leaf_entry (table_indices va) r m) 63"
proof -
  let ?q = "table_indices va"
  have q: "page_path ?q" by (rule page_path_indices [OF va])
  have walk: "walk_user (take 3 ?q) r m = resolve (take 3 ?q) r m"
    using walk_user_forest [OF fo r, of "[]" "take 3 ?q" r] page_path_take [OF q] by simp
  show "is_user_mapped va (switch_address_space r m) \<longleftrightarrow> bit (leaf_entry ?q r m) 0 \<and> bit (leaf_entry ?q r m) 2"
    using va by (simp add: is_user_mapped_def Let_def root_mask [OF fo r] walk leaf_entry_def user_entry_iff
        split: option.split)
  show "is_user_executable va (switch_address_space r m) \<longleftrightarrow>
      bit (leaf_entry ?q r m) 0 \<and> bit (leaf_entry ?q r m) 2 \<and> \<not> bit (leaf_entry ?q r m) 63"
    using va by (simp add: is_user_executable_def Let_def root_mask [OF fo r] walk leaf_entry_def
        user_entry_iff executable_iff split: option.split)
qed

lemma user_flags_bits:
  "user_flags flags \<longleftrightarrow> bit (flag_bits flags) 2"
  "bit (flag_bits flags) 63 \<longleftrightarrow> flags \<noteq> UserReadExecute \<and> flags \<noteq> UserReadWriteExecute"
proof -
  show "user_flags flags \<longleftrightarrow> bit (flag_bits flags) 2"
    unfolding user_flags_def USER_def by (subst flag_set) simp_all
  show "bit (flag_bits flags) 63 \<longleftrightarrow> flags \<noteq> UserReadExecute \<and> flags \<noteq> UserReadWriteExecute"
    by (cases flags) (simp_all add: bit_or_iff bit_flags)
qed

definition boot_memory :: "memory_region list \<Rightarrow> memory_range list \<Rightarrow> memory \<Rightarrow> memory" where
  "boot_memory regions ranges m =
     m\<lparr>mem_frames := snd (frames_initialize regions ranges (mem_frames m))\<rparr>"

lemma boot_memory_inv:
  "frames_inv (mem_frames (boot_memory regions ranges m))"
  "owned_frames (mem_frames (boot_memory regions ranges m)) = {}"
  using frames_initialized_inv [of regions ranges "mem_frames m"]
  by (simp_all add: boot_memory_def owned_frames_def)

lemma boot_run_inv:
  "space_run ops (boot_memory regions ranges m) = (S, m') \<Longrightarrow> spaces_inv {} (S, m')"
  using spaces_inv_run [OF boot_memory_inv(1), of regions ranges m ops] by (simp add: boot_memory_inv)

lemma live_mapped:
  assumes inv: "spaces_inv base (S, m)" and S: "live S r = Some pages"
  shows "is_user_mapped va (switch_address_space r m) \<longleftrightarrow> user_range va \<and> pages (page_of va) \<noteq> None"
    and "is_user_executable va (switch_address_space r m) \<longleftrightarrow> user_range va \<and>
      (case pages (page_of va) of None \<Rightarrow> False
       | Some (f, flags) \<Rightarrow> flags = UserReadExecute \<or> flags = UserReadWriteExecute)"
proof -
  have r: "r \<in> dom (live S)" using S by auto
  note fo = spaces_invD(1) [OF inv]
  have frame: "bit f n \<Longrightarrow> 12 \<le> n \<and> n < 52"
    if "pages (page_of va) = Some (f, flags)" "user_range va" for f flags n
    using frame_ok_bits [OF owned_ok] forestD(2) [OF fo r] spaces_invD(4) [OF inv S that(2,1)]
      page_path_indices [OF that(2)] unfolding page_path_def by blast
  have "(is_user_mapped va (switch_address_space r m) \<longleftrightarrow> pages (page_of va) \<noteq> None) \<and>
      (is_user_executable va (switch_address_space r m) \<longleftrightarrow> (case pages (page_of va) of None \<Rightarrow> False
       | Some (f, flags) \<Rightarrow> flags = UserReadExecute \<or> flags = UserReadWriteExecute))" if va: "user_range va"
  proof (cases "pages (page_of va)")
    case None
    then show ?thesis using spaces_invD(3) [OF inv S va] by (simp add: user_access_leaf [OF fo r va])
  next
    case (Some x)
    obtain f flags where x: "x = (f, flags)" by fastforce
    have "user_flags flags" using spaces_invD(4) [OF inv S va] Some x by simp
    then show ?thesis
      using spaces_invD(3) [OF inv S va] Some x frame [of f flags 63] va
      by (auto simp add: user_access_leaf [OF fo r va] bit_or_iff bit_flag_bits(2) user_flags_bits)
  qed
  then show "is_user_mapped va (switch_address_space r m) \<longleftrightarrow> user_range va \<and> pages (page_of va) \<noteq> None"
    and "is_user_executable va (switch_address_space r m) \<longleftrightarrow> user_range va \<and>
      (case pages (page_of va) of None \<Rightarrow> False
       | Some (f, flags) \<Rightarrow> flags = UserReadExecute \<or> flags = UserReadWriteExecute)"
    by (auto simp: is_user_mapped_def is_user_executable_def)
qed

text \<open>
  C9: whatever spaces are created, filled and destroyed after boot, user code running in a live
  space can access exactly the addresses whose page was mapped there and not those of any other
  space, and can execute exactly those mapped with an executable flag.
\<close>

theorem user_access_exact:
  "(case space_run ops (boot_memory regions ranges m) of (S, m') \<Rightarrow>
     (case live S r of None \<Rightarrow> True
      | Some pages \<Rightarrow>
          (is_user_mapped va (switch_address_space r m') \<longleftrightarrow> user_range va \<and> pages (page_of va) \<noteq> None) \<and>
          (is_user_executable va (switch_address_space r m') \<longleftrightarrow> user_range va \<and>
             (case pages (page_of va) of None \<Rightarrow> False
              | Some (f, flags) \<Rightarrow> flags = UserReadExecute \<or> flags = UserReadWriteExecute))))"
proof -
  obtain S m' where run: "space_run ops (boot_memory regions ranges m) = (S, m')" by fastforce
  show ?thesis
    using live_mapped [OF boot_run_inv [OF run]] run by (auto split: option.split)
qed

section \<open>Isolation and conservation\<close>

definition mapped_pages :: "spaces \<Rightarrow> (u64 \<times> nat) set" where
  "mapped_pages S = {(r, n). \<exists>pages. live S r = Some pages \<and> pages n \<noteq> None}"

definition page_frame :: "spaces \<Rightarrow> u64 \<times> nat \<Rightarrow> u64" where
  "page_frame S = (\<lambda>(r, n). fst (the (the (live S r) n)))"

lemma mapped_page_node:
  assumes inv: "spaces_inv base (S, m)" and x: "(r, n) \<in> mapped_pages S"
  obtains va where "user_range va" "page_of va = n" "r \<in> dom (live S)"
    "resolve (table_indices va) r m = Some (page_frame S (r, n))"
proof -
  obtain pages f flags where S: "live S r = Some pages" and n: "pages n = Some (f, flags)"
    using x by (auto simp: mapped_pages_def)
  obtain va where va: "user_range va" "page_of va = n" using spaces_invD(5) [OF inv S] n by blast
  then show ?thesis
    using that [OF va] spaces_invD(4) [OF inv S va(1)] S n by (auto simp: page_frame_def)
qed

text \<open>
  C10: no two mapped pages of the live spaces share a frame, no such frame is the root of a
  space, and every one of them is handed out by the frame allocator, hence not free.
\<close>

theorem user_frames_isolated:
  "(case space_run ops (boot_memory regions ranges m) of (S, m') \<Rightarrow>
     inj_on (page_frame S) (mapped_pages S) \<and>
     page_frame S ` mapped_pages S \<inter> dom (live S) = {} \<and>
     page_frame S ` mapped_pages S \<union> dom (live S) \<subseteq> owned_frames (mem_frames m') \<and>
     owned_frames (mem_frames m') \<inter> avail_frames (mem_frames m') = {})"
proof -
  obtain S m' where run: "space_run ops (boot_memory regions ranges m) = (S, m')" by fastforce
  note inv = boot_run_inv [OF run]
  note fo = spaces_invD(1) [OF inv]
  have node: "\<exists>va. user_range va \<and> page_of va = n \<and> r \<in> dom (live S) \<and>
      resolve (table_indices va) r m' = Some (page_frame S (r, n))" if "(r, n) \<in> mapped_pages S" for r n
    using mapped_page_node [OF inv that] by metis
  have up: "user_path (table_indices va)" "table_indices va \<noteq> []" if "user_range va" for va
    using page_path_indices [OF that] by (auto simp: page_path_def)
  have "inj_on (page_frame S) (mapped_pages S)"
  proof (rule inj_onI, safe)
    fix r n r' n'
    assume *: "(r, n) \<in> mapped_pages S" "(r', n') \<in> mapped_pages S" "page_frame S (r, n) = page_frame S (r', n')"
    from node [OF *(1)] node [OF *(2)] obtain va vb where
      "user_range va" "page_of va = n" "r \<in> dom (live S)" "resolve (table_indices va) r m' = Some (page_frame S (r, n))"
      "user_range vb" "page_of vb = n'" "r' \<in> dom (live S)" "resolve (table_indices vb) r' m' = Some (page_frame S (r, n))"
      using *(3) by auto
    then have "r = r' \<and> table_indices va = table_indices vb" "page_of va = n" "page_of vb = n'"
      "user_range va" "user_range vb"
      using forestD(3) [OF fo] up by blast+
    then show "r = r'" "n = n'" using page_of_inject by auto
  qed
  moreover have "page_frame S (r, n) \<notin> dom (live S) \<and> page_frame S (r, n) \<in> owned_frames (mem_frames m')"
    if x: "(r, n) \<in> mapped_pages S" for r n
  proof -
    obtain va where va: "user_range va" "r \<in> dom (live S)"
      "resolve (table_indices va) r m' = Some (page_frame S (r, n))" using node [OF x] by blast
    have "page_frame S (r, n) \<in> dom (live S) \<Longrightarrow> table_indices va = []"
      using forestD(3) [OF fo va(2) _ up(1) user_path_Nil va(3)] va(1) by simp
    then show ?thesis using forestD(2) [OF fo va(2) up(1) va(3)] up(2) va(1) by blast
  qed
  then have "page_frame S ` mapped_pages S \<inter> dom (live S) = {} \<and>
      page_frame S ` mapped_pages S \<subseteq> owned_frames (mem_frames m')" by auto
  moreover have "dom (live S) \<subseteq> owned_frames (mem_frames m')" using root_owned [OF fo] by blast
  moreover have "owned_frames (mem_frames m') \<inter> avail_frames (mem_frames m') = {}"
    using fa.disjoint [OF forestD(1) [OF fo]] by blast
  ultimately show ?thesis using run by simp
qed

text \<open>The frames the allocator manages, free or handed out, are conserved by every operation.\<close>

definition pool :: "memory \<Rightarrow> u64 set" where
  "pool m = avail_frames (mem_frames m) \<union> owned_frames (mem_frames m)"

lemma pool_basic [simp]:
  "pool (set_entry t i v m) = pool m" "pool (zero_table t m) = pool m"
  "pool (write_physical_frame t src m) = pool m" "pool (zero_physical_frame t m) = pool m"
  "pool (free_physical_frame f m) = pool m"
  by (simp_all add: pool_def zero_physical_frame_def free_physical_frame_def fa.conserved_release)

lemma pool_allocate: "allocate_physical_frame m = (r, m') \<Longrightarrow> pool m' = pool m"
proof -
  assume e: "allocate_physical_frame m = (r, m')"
  obtain x fs where fs: "frames_allocate (mem_frames m) = (x, fs)" by fastforce
  have "m' = m\<lparr>mem_frames := fs\<rparr>"
    using e unfolding allocate_physical_frame_def fs by simp
  then have "mem_frames m' = fs" by simp
  then show "pool m' = pool m" using fa.conserved [OF fs] unfolding pool_def by (simp only:)
qed

lemma pool_walk: "walk_create flags is t m = (res, m') \<Longrightarrow> pool m' = pool m"
proof (induction "is" arbitrary: t m)
  case (Cons i "is")
  consider "table_entry t i m AND PRESENT = 0" | "table_entry t i m AND PRESENT \<noteq> 0" by blast
  then show ?case
  proof cases
    case 1
    obtain x m1 where al: "allocate_physical_frame m = (x, m1)" by fastforce
    note p = pool_allocate [OF al]
    show ?thesis
    proof (cases x)
      case None
      then show ?thesis using Cons.prems 1 al p by (simp add: Let_def)
    next
      case (Some f)
      then show ?thesis using Cons.prems 1 al p Cons.IH by (simp add: Let_def)
    qed
  next
    case 2
    then show ?thesis using Cons.prems Cons.IH by (simp add: Let_def split: if_splits)
  qed
qed simp

lemma pool_map:
  assumes "map_page_in r va f flags m = (res, m')"
  shows "pool m' = pool m"
proof -
  obtain w m1 where w: "walk_create flags (take 3 (table_indices va)) (r AND ENTRY_ADDRESS_MASK) m = (w, m1)"
    by fastforce
  show ?thesis
  proof (cases w)
    case (Inl err)
    then show ?thesis using assms pool_walk [OF w] unfolding map_page_in_def Let_def w by simp
  next
    case (Inr t)
    have "(res, m') = (if table_entry t (table_indices va ! 3) m1 AND PRESENT \<noteq> 0
        then (Inl AlreadyMapped, m1)
        else (Inr (), set_entry t (table_indices va ! 3) ((f AND ENTRY_ADDRESS_MASK) OR flag_bits flags) m1))"
      using assms unfolding map_page_in_def Let_def w Inr by simp
    then show ?thesis using pool_walk [OF w] by (simp split: if_splits)
  qed
qed

lemma pool_map_fresh:
  assumes "map_fresh_user_page r va flags bytes m = (res, fr, m')"
  shows "pool m' = pool m"
proof -
  obtain x m1 where al: "allocate_physical_frame m = (x, m1)" by fastforce
  show ?thesis
  proof (cases x)
    case (Some f)
    let ?m = "write_physical_frame f (take 4096 bytes) (zero_physical_frame f m1)"
    obtain y m2 where mp: "map_page_in r va f flags ?m = (y, m2)" by fastforce
    show ?thesis
      using assms pool_allocate [OF al] pool_map [OF mp]
      by (auto simp: map_fresh_user_page_def map_user_page_in_def al Some mp split: if_splits)
  qed (use assms pool_allocate [OF al] in \<open>simp add: map_fresh_user_page_def al\<close>)
qed

lemma pool_fold: "(\<And>i m. pool (g i m) = pool m) \<Longrightarrow> pool (fold g is m) = pool m"
  by (induction "is" arbitrary: m) simp_all

lemma pool_create:
  assumes "create_user_address_space m = (res, m')"
  shows "pool m' = pool m"
proof -
  obtain x m1 where al: "allocate_physical_frame m = (x, m1)" by fastforce
  have fold: "pool (fold (\<lambda>index m. set_entry f index (table_entry s index m) m) is m) = pool m" for f s "is" m
    by (simp add: pool_fold)
  note p = pool_allocate [OF al]
  show ?thesis
  proof (cases x)
    case None
    then show ?thesis using assms p unfolding create_user_address_space_def al by simp
  next
    case (Some f)
    have "m' = fold (\<lambda>index m. set_entry f index (table_entry (cr3 (zero_table f m1) AND ENTRY_ADDRESS_MASK) index m) m)
        [256..<512] (zero_table f m1)"
      using assms unfolding create_user_address_space_def al Some Let_def prod.case option.case prod.inject
      by (rule conjunct2 [THEN sym])
    then show ?thesis using p fold by (simp only: pool_basic)
  qed
qed

lemma pool_release: "pool (release_user_table l t m) = pool m"
proof (induction l arbitrary: t m)
  case (Suc l)
  have "pool (release_entry l t i m) = pool m" for i m
    by (simp add: release_entry_def Let_def Suc.IH)
  then show ?case unfolding release_table_eq by (simp add: pool_fold)
qed simp

lemma pool_destroy: "pool (destroy_user_address_space r m) = pool m"
  unfolding destroy_user_address_space_def Let_def by (simp add: pool_fold pool_release del: upt.simps)

lemma pool_step: "pool (snd (space_step op st)) = pool (snd st)"
proof (cases st)
  case (Pair S m)
  show ?thesis
  proof (cases op)
    case CreateSpace
    then show ?thesis using Pair pool_create by (auto split: prod.splits sum.splits)
  next
    case (MapFresh r va flags bytes)
    then show ?thesis using Pair pool_map_fresh
      by (auto split: prod.splits sum.splits option.splits)
  next
    case (DestroySpace r)
    then show ?thesis using Pair by (auto simp: pool_destroy split: option.splits)
  qed
qed

lemma pool_run: "pool (snd (space_run ops m)) = pool m"
proof -
  have "pool (snd (fold space_step ops st)) = pool (snd st)" for st
    by (induction ops arbitrary: st) (simp_all add: pool_step)
  then show ?thesis by (simp add: space_run_def)
qed

lemma owned_nodes:
  assumes "spaces_inv {} (S, m)"
  shows "owned_frames (mem_frames m) = lost S \<union> (\<Union>r \<in> dom (live S). space_frames r m)"
proof (rule set_eqI)
  fix d
  note fo = spaces_invD(1) [OF assms]
  have "d \<in> lost S \<Longrightarrow> d \<in> owned_frames (mem_frames m)"
    using spaces_invD(2) [OF assms, of d] by (simp add: loose_def)
  moreover have "d \<in> space_frames r m \<Longrightarrow> r \<in> dom (live S) \<Longrightarrow> d \<in> owned_frames (mem_frames m)" for r
    using forestD(2) [OF fo] by (auto simp: space_frames_def)
  moreover have "d \<in> owned_frames (mem_frames m) \<Longrightarrow> d \<in> lost S \<or> (\<exists>r \<in> dom (live S). d \<in> space_frames r m)"
    using spaces_invD(2) [OF assms, of d] unfolding loose_def space_frames_def by blast
  ultimately show "d \<in> owned_frames (mem_frames m) \<longleftrightarrow>
      d \<in> lost S \<union> (\<Union>r \<in> dom (live S). space_frames r m)" by blast
qed

text \<open>
  C11: nothing leaks but the frames whose mapping failed: after any run the handed-out frames
  are those plus the table and data frames of the live spaces, every frame the boot map
  offered is either free or handed out, and destroying a live space makes exactly its frames
  free again.
\<close>

theorem space_frames_accounted:
  "(case space_run ops (boot_memory regions ranges m) of (S, m') \<Rightarrow>
     owned_frames (mem_frames m') = lost S \<union> (\<Union>r \<in> dom (live S). space_frames r m') \<and>
     avail_frames (mem_frames m') \<union> owned_frames (mem_frames m') =
       avail_frames (mem_frames (boot_memory regions ranges m)) \<and>
     (case live S r of None \<Rightarrow> True
      | Some _ \<Rightarrow> avail_frames (mem_frames (destroy_user_address_space r m')) =
          avail_frames (mem_frames m') \<union> space_frames r m'))"
proof -
  obtain S m' where run: "space_run ops (boot_memory regions ranges m) = (S, m')" by fastforce
  note inv = boot_run_inv [OF run]
  have "pool m' = avail_frames (mem_frames (boot_memory regions ranges m))"
    using pool_run [of ops "boot_memory regions ranges m"] run boot_memory_inv(2) [of regions ranges m]
    by (simp add: pool_def)
  moreover have "avail_frames (mem_frames (destroy_user_address_space r m')) =
      avail_frames (mem_frames m') \<union> space_frames r m'" if "live S r \<noteq> None"
    using destroy_forest(2) [OF spaces_invD(1) [OF inv] _ refl, of r] that by (auto simp: releases_def)
  ultimately show ?thesis using run owned_nodes [OF inv] by (auto simp: pool_def split: option.split)
qed

text \<open>
  Mapping a page into a live space answers exactly: a bad address, a page that is already
  mapped, or memory exhausted are the only failures, each reported as such, and a mapped page is
  never remapped.
\<close>

theorem map_fresh_answers:
  "(case space_run ops (boot_memory regions ranges m) of (S, m') \<Rightarrow>
     (case live S r of None \<Rightarrow> True
      | Some pages \<Rightarrow>
          (if \<not> user_flags flags then True
           else case map_fresh_user_page r va flags bytes m' of
             (Inr _, f, m'') \<Rightarrow> f \<noteq> None \<and> user_range va \<and> pages (page_of va) = None
           | (Inl InvalidUserAddress, f, m'') \<Rightarrow> f \<noteq> None \<and> \<not> user_range va
           | (Inl AlreadyMapped, f, m'') \<Rightarrow> f \<noteq> None \<and> user_range va \<and> pages (page_of va) \<noteq> None
           | (Inl FrameAllocationFailed, f, m'') \<Rightarrow> avail_frames (mem_frames m'') = {}
           | (Inl HugePageConflict, f, m'') \<Rightarrow> False)))"
proof -
  obtain S m' where run: "space_run ops (boot_memory regions ranges m) = (S, m')" by fastforce
  note inv = boot_run_inv [OF run]
  show ?thesis
  proof (cases "live S r = None \<or> \<not> user_flags flags")
    case False
    then obtain pages where S: "live S r = Some pages" and user: "user_flags flags" by auto
    obtain res f m'' where e: "map_fresh_user_page r va flags bytes m' = (res, f, m'')"
      by (metis prod_cases3)
    have r: "r \<in> dom (live S)" using S by auto
    show ?thesis
      using map_fresh_forest [OF spaces_invD(1) [OF inv] r user e] mapped_present [OF inv S] run S user e
      by (cases f; cases res) auto
  qed (use run in \<open>auto split: option.split\<close>)
qed

text \<open>
  A new address space starts with no user page, and its kernel half is, entry by entry, that
  of the active one (unless the active root is the very frame the allocator handed out).
\<close>

theorem new_space_kernel_half:
  "(case space_run ops (boot_memory regions ranges m) of (S, m') \<Rightarrow>
     (case create_user_address_space m' of
        (Inl e, m'') \<Rightarrow> e = FrameAllocationFailed \<and> m'' = m' \<and> avail_frames (mem_frames m') = {}
      | (Inr r, m'') \<Rightarrow> live S r = None \<and> cr3 m'' = cr3 m' \<and>
          \<not> is_user_mapped va (switch_address_space r m'') \<and>
          (active_address_space m' = r \<or>
           map (\<lambda>i. table_entry r i m'') [256..<512] =
           map (\<lambda>i. table_entry (active_address_space m') i m') [256..<512])))"
proof -
  obtain S m' where run: "space_run ops (boot_memory regions ranges m) = (S, m')" by fastforce
  note inv = boot_run_inv [OF run]
  obtain res m'' where e: "create_user_address_space m' = (res, m'')" by fastforce
  note C = create_forest [OF spaces_invD(1) [OF inv] e]
  show ?thesis
  proof (cases res)
    case (Inr f)
    have "spaces_inv {} (space_step CreateSpace (S, m'))" by (rule spaces_inv_step [OF inv])
    then have inv': "spaces_inv {} (S\<lparr>live := (live S)(f \<mapsto> Map.empty)\<rparr>, m'')" using e Inr by simp
    have "\<not> is_user_mapped va (switch_address_space f m'')"
      using live_mapped(1) [OF inv', of f Map.empty va] by simp
    moreover have "map (\<lambda>i. table_entry f i m'') [256..<512] =
        map (\<lambda>i. table_entry (active_address_space m') i m') [256..<512]"
      if "active_address_space m' \<noteq> f"
      using C Inr that unfolding map_eq_conv set_upt active_address_space_def by simp
    moreover have "live S f = None" "cr3 m'' = cr3 m'" using C Inr by (auto simp: domIff)
    ultimately show ?thesis unfolding run e Inr prod.case sum.case by blast
  qed (use run e C in simp)
qed

end
