(* ===== verification/Threads.thy ===== *)
theory Threads
  imports Paging
begin

text \<open>
  Threads, processes and the round-robin scheduler, \<open>kernel-core/src/threads.rs\<close>
  (\<open>lib.rs\<close> compiles it as the module \<open>scheduler\<close>; the file \<open>scheduler.rs\<close> is not part
  of the build).  The static tables are one record.  A context switch saves the callee-saved
  registers of the running thread, loads those of the next one and returns to the address on
  top of its kernel stack.  The blocking operations \<open>join\<close> and \<open>wait_process\<close> are split at the
  switch: the part before it, and the part the thread runs when it is scheduled again.
  Kernel stacks are 64-bit words at virtual addresses; the addresses of the trampolines are
  fixed by the linker and kept in the state.
\<close>

section \<open>Data\<close>

definition MAX_THREADS :: nat where "MAX_THREADS = 8"
definition MAX_PROCESSES :: nat where "MAX_PROCESSES = MAX_THREADS"
definition NO_THREAD :: nat where "NO_THREAD = 18446744073709551615"
definition IDLE_THREAD :: nat where "IDLE_THREAD = 0"
definition USER_PROCESS_ID :: nat where "USER_PROCESS_ID = 1"
definition TERMINATED_STATUS :: u64 where "TERMINATED_STATUS = 0x8000000000000000"

datatype run_state = Ready | Running | Blocked | Exited

record user_context =
  uc_rip :: u64
  uc_rsp :: u64
  uc_rflags :: u64
  uc_rax :: u64
  uc_rbx :: u64
  uc_rcx :: u64
  uc_rdx :: u64
  uc_rsi :: u64
  uc_rdi :: u64
  uc_rbp :: u64
  uc_r8 :: u64
  uc_r9 :: u64
  uc_r10 :: u64
  uc_r11 :: u64
  uc_r12 :: u64
  uc_r13 :: u64
  uc_r14 :: u64
  uc_r15 :: u64
  uc_fs_base :: u64

definition user_context_empty :: user_context where
  "user_context_empty = \<lparr>uc_rip = 0, uc_rsp = 0, uc_rflags = 0x202, uc_rax = 0, uc_rbx = 0,
     uc_rcx = 0, uc_rdx = 0, uc_rsi = 0, uc_rdi = 0, uc_rbp = 0, uc_r8 = 0, uc_r9 = 0, uc_r10 = 0,
     uc_r11 = 0, uc_r12 = 0, uc_r13 = 0, uc_r14 = 0, uc_r15 = 0, uc_fs_base = 0\<rparr>"

record process =
  proc_id :: nat
  proc_address_space :: u64
  proc_parent :: "nat option"
  proc_main_thread :: "nat option"

definition process_empty :: process where
  "process_empty = \<lparr>proc_id = NO_THREAD, proc_address_space = 0, proc_parent = None,
     proc_main_thread = None\<rparr>"

record cpu_context =
  stack_pointer :: u64
  reg_rbx :: u64
  reg_rbp :: u64
  reg_r12 :: u64
  reg_r13 :: u64
  reg_r14 :: u64
  reg_r15 :: u64

definition context_empty :: cpu_context where
  "context_empty = \<lparr>stack_pointer = 0, reg_rbx = 0, reg_rbp = 0, reg_r12 = 0, reg_r13 = 0,
     reg_r14 = 0, reg_r15 = 0\<rparr>"

record syscall_state =
  ss_stack_pointer :: u64
  ss_instruction_pointer :: u64
  ss_flags :: u64

definition syscall_state_empty :: syscall_state where
  "syscall_state_empty = \<lparr>ss_stack_pointer = 0, ss_instruction_pointer = 0, ss_flags = 0\<rparr>"

record thread =
  thread_context :: cpu_context
  thread_entry :: "u64 option"
  thread_process :: "nat option"
  thread_user_context :: user_context
  is_user :: bool
  thread_state :: run_state
  thread_syscall_state :: syscall_state
  stack_top :: u64
  syscall_stack_top :: u64
  stack_allocated :: bool
  owns_user_stack :: bool
  reapable :: bool
  exit_status :: u64
  join_waiters :: "nat list"
  join_waiter_count :: nat

definition thread_empty :: thread where
  "thread_empty = \<lparr>thread_context = context_empty, thread_entry = None, thread_process = None,
     thread_user_context = user_context_empty, is_user = False, thread_state = Exited,
     thread_syscall_state = syscall_state_empty, stack_top = 0, syscall_stack_top = 0,
     stack_allocated = False, owns_user_stack = False, reapable = True, exit_status = 0,
     join_waiters = replicate MAX_THREADS NO_THREAD, join_waiter_count = 0\<rparr>"

record run_queue =
  queue_slots :: "nat list"
  run_head :: nat
  run_tail :: nat
  run_count :: nat

record code_addresses =
  thread_trampoline :: u64
  user_thread_trampoline :: u64
  idle_thread :: u64

record kernel =
  threads :: "thread list"
  queue :: run_queue
  scheduler_context :: cpu_context
  current_thread :: nat
  preempt_requested :: bool
  idle_created :: bool
  processes :: "process list"
  cpu :: cpu_context
  cpu_rip :: u64
  kernel_words :: "u64 \<Rightarrow> u64"
  kmem :: memory
  code :: code_addresses

definition run_queue_empty :: run_queue where
  "run_queue_empty = \<lparr>queue_slots = replicate MAX_THREADS NO_THREAD, run_head = 0, run_tail = 0, run_count = 0\<rparr>"

definition kernel_initial :: "code_addresses \<Rightarrow> memory \<Rightarrow> kernel" where
  "kernel_initial c m = \<lparr>threads = replicate MAX_THREADS thread_empty, queue = run_queue_empty,
     scheduler_context = context_empty, current_thread = NO_THREAD, preempt_requested = False,
     idle_created = False, processes = replicate MAX_PROCESSES process_empty, cpu = context_empty,
     cpu_rip = 0, kernel_words = (\<lambda>_. 0), kmem = m, code = c\<rparr>"

section \<open>Accessors\<close>

definition thread_at :: "nat \<Rightarrow> kernel \<Rightarrow> thread" where
  "thread_at i s = threads s ! i"

definition update_thread :: "nat \<Rightarrow> (thread \<Rightarrow> thread) \<Rightarrow> kernel \<Rightarrow> kernel" where
  "update_thread i f s = s\<lparr>threads := (threads s)[i := f (threads s ! i)]\<rparr>"

definition set_state :: "nat \<Rightarrow> run_state \<Rightarrow> kernel \<Rightarrow> kernel" where
  "set_state i st s = update_thread i (\<lambda>t. t\<lparr>thread_state := st\<rparr>) s"

definition on_memory :: "(memory \<Rightarrow> 'a \<times> memory) \<Rightarrow> kernel \<Rightarrow> 'a \<times> kernel" where
  "on_memory f s = (case f (kmem s) of (r, m) \<Rightarrow> (r, s\<lparr>kmem := m\<rparr>))"

section \<open>The run queue\<close>

definition queue_push :: "nat \<Rightarrow> run_queue \<Rightarrow> bool \<times> run_queue" where
  "queue_push thread q =
     (if run_count q = MAX_THREADS then (False, q)
      else (True, q\<lparr>queue_slots := (queue_slots q)[run_tail q := thread],
                    run_tail := (run_tail q + 1) mod MAX_THREADS, run_count := run_count q + 1\<rparr>))"

definition queue_pop :: "run_queue \<Rightarrow> nat option \<times> run_queue" where
  "queue_pop q =
     (if run_count q = 0 then (None, q)
      else (Some (queue_slots q ! run_head q),
            q\<lparr>run_head := (run_head q + 1) mod MAX_THREADS, run_count := run_count q - 1\<rparr>))"

definition enqueue :: "nat \<Rightarrow> kernel \<Rightarrow> kernel" where
  "enqueue thread s = s\<lparr>queue := snd (queue_push thread (queue s))\<rparr>"

definition dequeue :: "kernel \<Rightarrow> nat option \<times> kernel" where
  "dequeue s = (case queue_pop (queue s) of (r, q) \<Rightarrow> (r, s\<lparr>queue := q\<rparr>))"

function next_ready :: "kernel \<Rightarrow> nat option \<times> kernel" where
  "next_ready s =
     (case dequeue s of
        (None, s') \<Rightarrow> (None, s')
      | (Some candidate, s') \<Rightarrow>
          if thread_state (thread_at candidate s') \<noteq> Exited then (Some candidate, s')
          else next_ready s')"
  by pat_completeness auto
termination
  by (relation "measure (\<lambda>s. run_count (queue s))")
    (auto simp: dequeue_def queue_pop_def split: if_splits)

declare next_ready.simps [simp del]

section \<open>Context switches\<close>

definition process_address_space :: "nat \<Rightarrow> kernel \<Rightarrow> u64 option" where
  "process_address_space process s =
     map_option (\<lambda>i. proc_address_space (processes s ! i))
       (find_index (\<lambda>record. proc_id record = process) (processes s))"

text \<open>The assembly routine: load the registers, pop the stack pointer's return address.\<close>

definition load_context :: "cpu_context \<Rightarrow> kernel \<Rightarrow> kernel" where
  "load_context to s =
     s\<lparr>cpu := to\<lparr>stack_pointer := stack_pointer to + 8\<rparr>, cpu_rip := kernel_words s (stack_pointer to)\<rparr>"

definition switch_threads :: "nat \<Rightarrow> nat \<Rightarrow> kernel \<Rightarrow> kernel" where
  "switch_threads from to s =
     (let s = update_thread from (\<lambda>t. t\<lparr>thread_context := cpu s\<rparr>) s
      in load_context (thread_context (thread_at to s)) s)"

definition schedule_from_scheduler :: "kernel \<Rightarrow> kernel" where
  "schedule_from_scheduler s =
     (case next_ready s of (r, s) \<Rightarrow>
        let next = (case r of Some t \<Rightarrow> t | None \<Rightarrow> IDLE_THREAD);
            s = s\<lparr>current_thread := next\<rparr>;
            s = set_state next Running s;
            s = s\<lparr>scheduler_context := cpu s\<rparr>
        in load_context (thread_context (thread_at next s)) s)"

definition schedule_from_current :: "nat \<Rightarrow> kernel \<Rightarrow> kernel" where
  "schedule_from_current current s =
     (case next_ready s of (r, s) \<Rightarrow>
        let next = (case r of Some t \<Rightarrow> t | None \<Rightarrow> IDLE_THREAD)
        in if next = current then set_state current Running s
           else let s = s\<lparr>current_thread := next\<rparr>;
                    s = set_state next Running s;
                    thread = thread_at next s;
                    s = (if is_user thread then
                           (case thread_process thread of
                              None \<Rightarrow> s
                            | Some process \<Rightarrow>
                                (case process_address_space process s of
                                   None \<Rightarrow> s
                                 | Some address_space \<Rightarrow>
                                     s\<lparr>kmem := switch_address_space address_space (kmem s)\<rparr>))
                         else s)
                in switch_threads current next s)"

definition current_id :: "kernel \<Rightarrow> nat option" where
  "current_id s = (if current_thread s = NO_THREAD then None else Some (current_thread s))"

definition process_id :: "nat \<Rightarrow> kernel \<Rightarrow> nat option" where
  "process_id thread s = (if MAX_THREADS \<le> thread then None else thread_process (thread_at thread s))"

definition current_process :: "kernel \<Rightarrow> nat option" where
  "current_process s = Option.bind (current_id s) (\<lambda>t. process_id t s)"

section \<open>Creating threads\<close>

definition release_resources :: "nat \<Rightarrow> kernel \<Rightarrow> kernel" where
  "release_resources slot s =
     (if \<not> stack_allocated (thread_at slot s) then s
      else let s = s\<lparr>kmem := release_kernel_stack slot (kmem s)\<rparr>;
               s = s\<lparr>kmem := release_kernel_stack (slot + MAX_THREADS) (kmem s)\<rparr>;
               s = (if owns_user_stack (thread_at slot s)
                    then s\<lparr>kmem := release_user_stack slot (kmem s)\<rparr> else s)
           in update_thread slot (\<lambda>t. t\<lparr>stack_top := 0, syscall_stack_top := 0,
                stack_allocated := False, owns_user_stack := False\<rparr>) s)"

definition free_slot :: "kernel \<Rightarrow> nat option" where
  "free_slot s = find (\<lambda>slot. \<not> (thread_state (thread_at slot s) \<noteq> Exited \<or> \<not> reapable (thread_at slot s)))
     [1..<MAX_THREADS]"

text \<open>The two kernel stacks of a slot; an allocation failure aborts with what was done so far.\<close>

definition allocate_stacks :: "nat \<Rightarrow> kernel \<Rightarrow> unit option \<times> kernel" where
  "allocate_stacks slot s =
     (if stack_allocated (thread_at slot s) then (Some (), s)
      else (case on_memory (allocate_kernel_stack slot) s of
              (Inl _, s) \<Rightarrow> (None, s)
            | (Inr stack, s) \<Rightarrow>
                (let s = update_thread slot (\<lambda>t. t\<lparr>stack_top := stack\<rparr>) s
                 in case on_memory (allocate_kernel_stack (slot + MAX_THREADS)) s of
                      (Inl _, s) \<Rightarrow> (None, s)
                    | (Inr syscall_stack, s) \<Rightarrow>
                        (Some (), update_thread slot (\<lambda>t. t\<lparr>syscall_stack_top := syscall_stack,
                           stack_allocated := True\<rparr>) s))))"

definition spawn :: "u64 \<Rightarrow> kernel \<Rightarrow> nat option \<times> kernel" where
  "spawn entry s =
     (case free_slot s of
        None \<Rightarrow> (None, s)
      | Some slot \<Rightarrow>
          (case allocate_stacks slot (release_resources slot s) of
             (None, s) \<Rightarrow> (None, s)
           | (Some _, s) \<Rightarrow>
               (let initial_stack = stack_top (thread_at slot s) - 16;
                    s = s\<lparr>kernel_words := (kernel_words s)(initial_stack := thread_trampoline (code s))\<rparr>;
                    s = update_thread slot (\<lambda>t. thread_empty\<lparr>
                          thread_context := context_empty\<lparr>stack_pointer := initial_stack\<rparr>,
                          thread_entry := Some entry, thread_state := Ready,
                          stack_top := stack_top t, syscall_stack_top := syscall_stack_top t,
                          stack_allocated := True, reapable := False\<rparr>) s
                in (Some slot, enqueue slot s))))"

definition initialize_user_process :: "u64 \<Rightarrow> kernel \<Rightarrow> kernel" where
  "initialize_user_process address_space s =
     s\<lparr>processes := (processes s)[0 := \<lparr>proc_id = USER_PROCESS_ID, proc_address_space = address_space,
        proc_parent = None, proc_main_thread = None\<rparr>]\<rparr>"

definition create_process :: "u64 \<Rightarrow> kernel \<Rightarrow> nat option \<times> kernel" where
  "create_process address_space s =
     (case find (\<lambda>slot. proc_id (processes s ! slot) = NO_THREAD) [1..<MAX_PROCESSES] of
        None \<Rightarrow> (None, s)
      | Some slot \<Rightarrow>
          (let pid = slot + 1; parent = current_process s
           in (Some pid, s\<lparr>processes := (processes s)[slot := \<lparr>proc_id = pid,
                 proc_address_space = address_space, proc_parent = parent, proc_main_thread = None\<rparr>]\<rparr>)))"

text \<open>\<open>PROCESSES.iter_mut().find(|record| record.id == process)\<close> and an update of it.\<close>

definition update_process :: "nat \<Rightarrow> (process \<Rightarrow> process) \<Rightarrow> kernel \<Rightarrow> kernel" where
  "update_process process f s =
     (case find_index (\<lambda>record. proc_id record = process) (processes s) of
        None \<Rightarrow> s
      | Some i \<Rightarrow> s\<lparr>processes := (processes s)[i := f (processes s ! i)]\<rparr>)"

definition set_process_main_thread :: "nat \<Rightarrow> nat \<Rightarrow> kernel \<Rightarrow> kernel" where
  "set_process_main_thread process thread s =
     update_process process (\<lambda>record. record\<lparr>proc_main_thread := Some thread\<rparr>) s"

definition spawn_user_for_process ::
  "nat \<Rightarrow> u64 \<Rightarrow> u64 \<Rightarrow> u64 \<Rightarrow> u64 option \<Rightarrow> kernel \<Rightarrow> nat option \<times> kernel" where
  "spawn_user_for_process process entry argument tls_base initial_stack s =
     (if process_address_space process s = None then (None, s)
      else case free_slot s of
        None \<Rightarrow> (None, s)
      | Some slot \<Rightarrow>
          (case allocate_stacks slot (release_resources slot s) of
             (None, s) \<Rightarrow> (None, s)
           | (Some _, s) \<Rightarrow>
               (case (case initial_stack of
                        Some stack \<Rightarrow> (Some (stack, False), s)
                      | None \<Rightarrow>
                          (case on_memory (allocate_user_stack slot) s of
                             (Inl _, s) \<Rightarrow> (None, s)
                           | (Inr stack, s) \<Rightarrow> (map_option (\<lambda>stack. (stack, True)) (checked_sub stack 8), s))) of
                  (None, s) \<Rightarrow> (None, s)
                | (Some (user_stack, owns), s) \<Rightarrow>
                    (let initial_kernel_stack = stack_top (thread_at slot s) - 16;
                         s = s\<lparr>kernel_words := (kernel_words s)(initial_kernel_stack :=
                               user_thread_trampoline (code s))\<rparr>;
                         s = update_thread slot (\<lambda>t. thread_empty\<lparr>
                               thread_context := context_empty\<lparr>stack_pointer := initial_kernel_stack\<rparr>,
                               thread_process := Some process,
                               thread_user_context := user_context_empty\<lparr>uc_rip := entry,
                                 uc_rsp := user_stack, uc_rdi := argument, uc_fs_base := tls_base\<rparr>,
                               is_user := True, thread_state := Ready,
                               stack_top := stack_top t, syscall_stack_top := syscall_stack_top t,
                               stack_allocated := True, owns_user_stack := owns, reapable := False\<rparr>) s
                     in (Some slot, enqueue slot s)))))"

definition spawn_user :: "u64 \<Rightarrow> u64 \<Rightarrow> u64 \<Rightarrow> u64 option \<Rightarrow> kernel \<Rightarrow> nat option \<times> kernel" where
  "spawn_user entry argument tls_base initial_stack s =
     (if \<not> is_user_executable entry (kmem s) \<or> (tls_base \<noteq> 0 \<and> \<not> is_user_mapped tls_base (kmem s))
      then (None, s)
      else spawn_user_for_process USER_PROCESS_ID entry argument tls_base initial_stack s)"

section \<open>Scheduling operations\<close>

text \<open>\<open>halt\<close> on an allocation failure is the value None.\<close>

definition ensure_idle :: "kernel \<Rightarrow> kernel option" where
  "ensure_idle s =
     (if idle_created s then Some s
      else case on_memory (allocate_kernel_stack IDLE_THREAD) s of
        (Inl _, s) \<Rightarrow> None
      | (Inr stack, s) \<Rightarrow>
          (case on_memory (allocate_kernel_stack (IDLE_THREAD + MAX_THREADS))
                  (update_thread IDLE_THREAD (\<lambda>t. t\<lparr>stack_top := stack\<rparr>) s) of
             (Inl _, s) \<Rightarrow> None
           | (Inr syscall_stack, s) \<Rightarrow>
               (let initial_stack = stack_top (thread_at IDLE_THREAD s) - 16;
                    s = update_thread IDLE_THREAD (\<lambda>t. t\<lparr>syscall_stack_top := syscall_stack,
                          stack_allocated := True\<rparr>) s;
                    s = s\<lparr>kernel_words := (kernel_words s)(initial_stack := idle_thread (code s))\<rparr>;
                    s = update_thread IDLE_THREAD (\<lambda>t. t\<lparr>
                          thread_context := (thread_context t)\<lparr>stack_pointer := initial_stack\<rparr>,
                          thread_entry := Some (idle_thread (code s)), thread_state := Ready\<rparr>) s
                in Some ((enqueue IDLE_THREAD s)\<lparr>idle_created := True\<rparr>))))"

definition start :: "kernel \<Rightarrow> kernel option" where
  "start s = map_option schedule_from_scheduler (ensure_idle s)"

definition yield_now :: "kernel \<Rightarrow> kernel" where
  "yield_now s =
     (let current = current_thread s
      in if current = NO_THREAD then s
         else let s = (if current \<noteq> IDLE_THREAD then enqueue current (set_state current Ready s) else s)
              in schedule_from_current current s)"

definition block_current :: "kernel \<Rightarrow> kernel" where
  "block_current s =
     (let current = current_thread s
      in if current = NO_THREAD \<or> current = IDLE_THREAD then s
         else schedule_from_current current (set_state current Blocked s))"

definition wake :: "nat \<Rightarrow> kernel \<Rightarrow> bool \<times> kernel" where
  "wake thread s =
     (if MAX_THREADS \<le> thread then (False, s)
      else if thread_state (thread_at thread s) \<noteq> Blocked then (False, s)
      else (True, enqueue thread (set_state thread Ready s)))"

text \<open>The loop over the join waiters, shared by \<open>exit_current_with_status\<close> and \<open>terminate_process\<close>.\<close>

definition wake_waiter :: "nat \<Rightarrow> kernel \<Rightarrow> kernel" where
  "wake_waiter waiter s =
     (if thread_state (thread_at waiter s) = Blocked then enqueue waiter (set_state waiter Ready s) else s)"

definition wake_waiters :: "nat \<Rightarrow> kernel \<Rightarrow> kernel" where
  "wake_waiters thread s =
     fold wake_waiter (take (join_waiter_count (thread_at thread s)) (join_waiters (thread_at thread s))) s"

definition reparent_children_of_exited_process :: "nat \<Rightarrow> kernel \<Rightarrow> kernel" where
  "reparent_children_of_exited_process thread s =
     (case find_index (\<lambda>record. proc_main_thread record = Some thread) (processes s) of
        None \<Rightarrow> s
      | Some i \<Rightarrow>
          (let exited_process = proc_id (processes s ! i)
           in s\<lparr>processes := map (\<lambda>record. if proc_parent record = Some exited_process
                 then record\<lparr>proc_parent := Some USER_PROCESS_ID\<rparr> else record) (processes s)\<rparr>))"

definition exit_current_with_status :: "u64 \<Rightarrow> kernel \<Rightarrow> kernel" where
  "exit_current_with_status status s =
     (let current = current_thread s
      in if current \<noteq> NO_THREAD \<and> current \<noteq> IDLE_THREAD then
           let s = update_thread current (\<lambda>t. t\<lparr>thread_state := Exited, thread_entry := None,
                     exit_status := status, reapable := \<not> is_user t\<rparr>) s;
               s = wake_waiters current s;
               s = reparent_children_of_exited_process current s
           in schedule_from_current current s
         else s)"

definition exit_current :: "kernel \<Rightarrow> kernel" where
  "exit_current s = exit_current_with_status 0 s"

section \<open>Joining\<close>

text \<open>
  \<open>join\<close> up to the switch: a result, or None when the caller is suspended; and the rest of
  the call, which runs when the caller is scheduled again.
\<close>

definition join_enter :: "nat \<Rightarrow> kernel \<Rightarrow> u64 option option \<times> kernel" where
  "join_enter thread s =
     (let current = current_thread s
      in if current = NO_THREAD \<or> current = thread \<or> MAX_THREADS \<le> thread then (Some None, s)
         else let target = thread_at thread s
              in if thread_state target = Exited then
                   (Some (Some (exit_status target)),
                    if join_waiter_count target = 0
                    then update_thread thread (\<lambda>t. t\<lparr>reapable := True\<rparr>) s else s)
                 else if join_waiter_count target = MAX_THREADS then (Some None, s)
                 else (None, block_current (update_thread thread (\<lambda>t. t\<lparr>
                         join_waiters := (join_waiters t)[join_waiter_count t := current],
                         join_waiter_count := join_waiter_count t + 1\<rparr>) s)))"

definition join_resume :: "nat \<Rightarrow> kernel \<Rightarrow> u64 option \<times> kernel" where
  "join_resume thread s =
     (if thread_state (thread_at thread s) \<noteq> Exited then (None, s)
      else let s = update_thread thread (\<lambda>t. if join_waiter_count t \<noteq> 0
                     then t\<lparr>join_waiter_count := join_waiter_count t - 1\<rparr> else t) s;
               s = update_thread thread (\<lambda>t. if join_waiter_count t = 0
                     then t\<lparr>reapable := True\<rparr> else t) s
           in (Some (exit_status (thread_at thread s)), s))"

definition try_join :: "nat \<Rightarrow> kernel \<Rightarrow> u64 option \<times> kernel" where
  "try_join thread s =
     (let current = current_thread s
      in if current = NO_THREAD \<or> current = thread \<or> MAX_THREADS \<le> thread then (None, s)
         else let target = thread_at thread s
              in if thread_state target \<noteq> Exited then (None, s)
                 else (Some (exit_status target),
                       if join_waiter_count target = 0
                       then update_thread thread (\<lambda>t. t\<lparr>reapable := True\<rparr>) s else s))"

section \<open>Processes\<close>

definition child_main_thread :: "nat \<Rightarrow> nat \<Rightarrow> kernel \<Rightarrow> nat option" where
  "child_main_thread process parent s =
     (case find_index (\<lambda>record. proc_id record = process \<and> proc_parent record = Some parent)
             (processes s) of
        None \<Rightarrow> None
      | Some i \<Rightarrow> proc_main_thread (processes s ! i))"

text \<open>The end of \<open>wait_process\<close>, \<open>try_wait_process\<close> and \<open>reap_any_child\<close>.\<close>

definition discard_process :: "nat \<Rightarrow> kernel \<Rightarrow> kernel" where
  "discard_process process s =
     (case find_index (\<lambda>record. proc_id record = process) (processes s) of
        None \<Rightarrow> s
      | Some i \<Rightarrow>
          s\<lparr>kmem := destroy_user_address_space (proc_address_space (processes s ! i)) (kmem s),
            processes := (processes s)[i := process_empty]\<rparr>)"

definition wait_process_enter :: "nat \<Rightarrow> kernel \<Rightarrow> u64 option option \<times> kernel" where
  "wait_process_enter process s =
     (case current_process s of
        None \<Rightarrow> (Some None, s)
      | Some parent \<Rightarrow>
          (case child_main_thread process parent s of
             None \<Rightarrow> (Some None, s)
           | Some main_thread \<Rightarrow>
               (case join_enter main_thread s of
                  (None, s) \<Rightarrow> (None, s)
                | (Some None, s) \<Rightarrow> (Some None, s)
                | (Some (Some status), s) \<Rightarrow> (Some (Some status), discard_process process s))))"

definition wait_process_resume :: "nat \<Rightarrow> nat \<Rightarrow> kernel \<Rightarrow> u64 option \<times> kernel" where
  "wait_process_resume process main_thread s =
     (case join_resume main_thread s of
        (None, s) \<Rightarrow> (None, s)
      | (Some status, s) \<Rightarrow> (Some status, discard_process process s))"

definition try_wait_process :: "nat \<Rightarrow> kernel \<Rightarrow> u64 option \<times> kernel" where
  "try_wait_process process s =
     (case current_process s of
        None \<Rightarrow> (None, s)
      | Some parent \<Rightarrow>
          (case child_main_thread process parent s of
             None \<Rightarrow> (None, s)
           | Some main_thread \<Rightarrow>
               (case try_join main_thread s of
                  (None, s) \<Rightarrow> (None, s)
                | (Some status, s) \<Rightarrow> (Some status, discard_process process s))))"

definition reap_any_child :: "kernel \<Rightarrow> (nat \<times> u64) option \<times> kernel" where
  "reap_any_child s =
     (case current_process s of
        None \<Rightarrow> (None, s)
      | Some parent \<Rightarrow>
          (case find_index (\<lambda>record. case proc_main_thread record of
                  None \<Rightarrow> False
                | Some main_thread \<Rightarrow> proc_parent record = Some parent \<and>
                    thread_state (thread_at main_thread s) = Exited) (processes s) of
             None \<Rightarrow> (None, s)
           | Some i \<Rightarrow>
               (let process = proc_id (processes s ! i);
                    main_thread = the (proc_main_thread (processes s ! i))
                in case try_join main_thread s of
                     (None, s) \<Rightarrow> (None, s)
                   | (Some status, s) \<Rightarrow> (Some (process, status), discard_process process s))))"

definition terminate_process :: "nat \<Rightarrow> kernel \<Rightarrow> bool \<times> kernel" where
  "terminate_process process s =
     (case current_process s of
        None \<Rightarrow> (False, s)
      | Some parent \<Rightarrow>
          (case child_main_thread process parent s of
             None \<Rightarrow> (False, s)
           | Some main_thread \<Rightarrow>
               if thread_state (thread_at main_thread s) = Exited then (True, s)
               else let s = update_thread main_thread (\<lambda>t. t\<lparr>thread_state := Exited,
                              thread_entry := None, exit_status := TERMINATED_STATUS\<rparr>) s
                    in (True, wake_waiters main_thread s)))"

section \<open>Per-thread system call state\<close>

definition thread_state_of :: "nat \<Rightarrow> kernel \<Rightarrow> run_state option" where
  "thread_state_of thread s =
     (if MAX_THREADS \<le> thread then None else Some (thread_state (thread_at thread s)))"

definition current_syscall_stack_top :: "kernel \<Rightarrow> u64" where
  "current_syscall_stack_top s = (let thread = current_thread s
     in if thread = NO_THREAD then 0 else syscall_stack_top (thread_at thread s))"

definition current_kernel_stack_top :: "kernel \<Rightarrow> u64" where
  "current_kernel_stack_top s = (let thread = current_thread s
     in if thread = NO_THREAD then 0 else stack_top (thread_at thread s))"

definition save_syscall_state :: "syscall_state \<Rightarrow> kernel \<Rightarrow> kernel" where
  "save_syscall_state st s = (let thread = current_thread s
     in if thread \<noteq> NO_THREAD then
          update_thread thread (\<lambda>t. t\<lparr>thread_syscall_state := st,
            thread_user_context := (thread_user_context t)\<lparr>uc_rsp := ss_stack_pointer st,
              uc_rip := ss_instruction_pointer st, uc_rflags := ss_flags st\<rparr>\<rparr>) s
        else s)"

definition save_user_context :: "user_context \<Rightarrow> kernel \<Rightarrow> kernel" where
  "save_user_context ctx s = (let thread = current_thread s
     in if thread \<noteq> NO_THREAD \<and> is_user (thread_at thread s)
        then update_thread thread (\<lambda>t. t\<lparr>thread_user_context := ctx\<rparr>) s else s)"

text \<open>A null pointer is None.\<close>

definition current_user_context :: "kernel \<Rightarrow> user_context option" where
  "current_user_context s = (let thread = current_thread s
     in if thread = NO_THREAD \<or> \<not> is_user (thread_at thread s) then None
        else Some (thread_user_context (thread_at thread s)))"

definition current_syscall_state :: "kernel \<Rightarrow> syscall_state option" where
  "current_syscall_state s = (let thread = current_thread s
     in if thread = NO_THREAD then None else Some (thread_syscall_state (thread_at thread s)))"

definition current_user_fs_base :: "kernel \<Rightarrow> u64" where
  "current_user_fs_base s = (let thread = current_thread s
     in if thread = NO_THREAD \<or> \<not> is_user (thread_at thread s) then 0
        else uc_fs_base (thread_user_context (thread_at thread s)))"

definition set_current_user_fs_base :: "u64 \<Rightarrow> kernel \<Rightarrow> bool \<times> kernel" where
  "set_current_user_fs_base base s = (let thread = current_thread s
     in if thread = NO_THREAD \<or> \<not> is_user (thread_at thread s) then (False, s)
        else if base \<noteq> 0 \<and> \<not> is_user_mapped base (kmem s) then (False, s)
        else (True, update_thread thread (\<lambda>t. t\<lparr>thread_user_context :=
                (thread_user_context t)\<lparr>uc_fs_base := base\<rparr>\<rparr>) s))"

definition request_preemption :: "kernel \<Rightarrow> kernel" where
  "request_preemption s = s\<lparr>preempt_requested := True\<rparr>"

text \<open>What \<open>user_thread_trampoline\<close> does before it enters user mode: its address space and registers.\<close>

definition user_thread_enter :: "kernel \<Rightarrow> user_context option \<times> kernel" where
  "user_thread_enter s =
     (let thread = thread_at (current_thread s) s;
          s = (case thread_process thread of
                 None \<Rightarrow> s
               | Some process \<Rightarrow>
                   (case process_address_space process s of
                      None \<Rightarrow> s
                    | Some address_space \<Rightarrow> s\<lparr>kmem := switch_address_space address_space (kmem s)\<rparr>))
      in (current_user_context s, s))"

section \<open>The run queue is a bounded FIFO\<close>

definition queue_contents :: "run_queue \<Rightarrow> nat list" where
  "queue_contents q = ring_window MAX_THREADS (queue_slots q) (run_head q) (run_count q)"

definition queue_wf :: "run_queue \<Rightarrow> bool" where
  "queue_wf q \<longleftrightarrow> length (queue_slots q) = MAX_THREADS \<and> run_head q < MAX_THREADS \<and>
     run_count q \<le> MAX_THREADS \<and> run_tail q = (run_head q + run_count q) mod MAX_THREADS"

interpretation rq: bounded_fifo queue_push queue_pop queue_contents queue_wf MAX_THREADS
proof
  fix q x assume "queue_wf q" and "length (queue_contents q) < MAX_THREADS"
  then show "\<exists>q'. queue_push x q = (True, q') \<and> queue_wf q' \<and> queue_contents q' = queue_contents q @ [x]"
    by (auto simp: queue_push_def queue_wf_def queue_contents_def ring_window_push mod_Suc_eq)
next
  fix q x xs assume "queue_wf q" and "queue_contents q = x # xs"
  then show "\<exists>q'. queue_pop q = (Some x, q') \<and> queue_wf q' \<and> queue_contents q' = xs"
    using ring_window_pop [of "run_count q" "run_head q" MAX_THREADS "queue_slots q"]
    by (cases "run_count q") (auto simp: queue_pop_def queue_wf_def queue_contents_def mod_add_left_eq)
qed (auto simp: queue_push_def queue_pop_def queue_wf_def queue_contents_def)

lemma queue_empty_wf: "queue_wf run_queue_empty" "queue_contents run_queue_empty = []"
  by (simp_all add: queue_wf_def run_queue_empty_def queue_contents_def MAX_THREADS_def)

section \<open>The scheduler invariant\<close>

abbreviation st :: "nat \<Rightarrow> kernel \<Rightarrow> run_state" where
  "st t s \<equiv> thread_state (threads s ! t)"

definition ready_list :: "kernel \<Rightarrow> nat list" where
  "ready_list s = queue_contents (queue s)"

text \<open>
  The queue holds exactly the ready threads, each once; the idle thread never blocks; the
  recorded join waiters are thread slots.
\<close>

definition table_inv :: "kernel \<Rightarrow> bool" where
  "table_inv s \<longleftrightarrow> length (threads s) = MAX_THREADS \<and> queue_wf (queue s) \<and> distinct (ready_list s) \<and>
     set (ready_list s) = {t. t < MAX_THREADS \<and> st t s = Ready} \<and> st IDLE_THREAD s \<noteq> Blocked \<and>
     (\<forall>t < MAX_THREADS. length (join_waiters (threads s ! t)) = MAX_THREADS \<and>
        join_waiter_count (threads s ! t) \<le> MAX_THREADS \<and>
        (\<forall>w \<in> set (take (join_waiter_count (threads s ! t)) (join_waiters (threads s ! t))). w < MAX_THREADS))"

definition sched_inv :: "kernel \<Rightarrow> bool" where
  "sched_inv s \<longleftrightarrow> table_inv s \<and>
     (current_thread s = NO_THREAD \<or> current_thread s < MAX_THREADS) \<and>
     (\<forall>t. t \<noteq> IDLE_THREAD \<longrightarrow> t < MAX_THREADS \<longrightarrow> (st t s = Running \<longleftrightarrow> t = current_thread s)) \<and>
     (st IDLE_THREAD s = Ready \<longrightarrow> idle_created s)"

text \<open>Between giving up the processor and choosing the next thread.\<close>

definition switching :: "kernel \<Rightarrow> bool" where
  "switching s \<longleftrightarrow> table_inv s \<and> current_thread s < MAX_THREADS \<and>
     (\<forall>t. t \<noteq> IDLE_THREAD \<longrightarrow> t < MAX_THREADS \<longrightarrow> st t s \<noteq> Running) \<and>
     (st IDLE_THREAD s = Ready \<longrightarrow> idle_created s)"

lemma no_thread_big [simp]: "\<not> NO_THREAD < MAX_THREADS" "IDLE_THREAD < MAX_THREADS"
  "IDLE_THREAD \<noteq> NO_THREAD"
  by (simp_all add: NO_THREAD_def MAX_THREADS_def IDLE_THREAD_def)

lemma enqueue_fields [simp]:
  "threads (enqueue t s) = threads s" "current_thread (enqueue t s) = current_thread s"
  "processes (enqueue t s) = processes s" "kmem (enqueue t s) = kmem s" "cpu (enqueue t s) = cpu s"
  "kernel_words (enqueue t s) = kernel_words s" "cpu_rip (enqueue t s) = cpu_rip s"
  "idle_created (enqueue t s) = idle_created s" "code (enqueue t s) = code s"
  by (simp_all add: enqueue_def)

lemma update_thread_fields [simp]:
  "queue (update_thread i f s) = queue s" "current_thread (update_thread i f s) = current_thread s"
  "processes (update_thread i f s) = processes s" "kmem (update_thread i f s) = kmem s"
  "cpu (update_thread i f s) = cpu s" "kernel_words (update_thread i f s) = kernel_words s"
  "ready_list (update_thread i f s) = ready_list s" "length (threads (update_thread i f s)) = length (threads s)"
  "cpu_rip (update_thread i f s) = cpu_rip s" "idle_created (update_thread i f s) = idle_created s"
  "code (update_thread i f s) = code s"
  by (simp_all add: update_thread_def ready_list_def)

lemma update_thread_nth:
  "i < length (threads s) \<Longrightarrow> threads (update_thread i f s) ! j = (if j = i then f (threads s ! i) else threads s ! j)"
  by (auto simp: update_thread_def nth_list_update)

lemma table_invD:
  assumes "table_inv s"
  shows "length (threads s) = MAX_THREADS" "queue_wf (queue s)" "distinct (ready_list s)"
    "set (ready_list s) = {t. t < MAX_THREADS \<and> st t s = Ready}" "st IDLE_THREAD s \<noteq> Blocked"
    "\<And>t. t < MAX_THREADS \<Longrightarrow> length (join_waiters (threads s ! t)) = MAX_THREADS"
    "\<And>t. t < MAX_THREADS \<Longrightarrow> join_waiter_count (threads s ! t) \<le> MAX_THREADS"
    "\<And>t w. t < MAX_THREADS \<Longrightarrow> w \<in> set (take (join_waiter_count (threads s ! t)) (join_waiters (threads s ! t))) \<Longrightarrow>
      w < MAX_THREADS"
  using assms unfolding table_inv_def by blast+

text \<open>A thread that is not ready always finds room in the queue.\<close>

lemma room_in_queue:
  assumes "table_inv s" and "t < MAX_THREADS" and "st t s \<noteq> Ready"
  shows "length (ready_list s) < MAX_THREADS"
proof -
  have "set (ready_list s) \<subseteq> {..<MAX_THREADS} - {t}" using assms table_invD(4) [OF assms(1)] by auto
  then have "card (set (ready_list s)) \<le> card ({..<MAX_THREADS} - {t})" by (intro card_mono) auto
  also have "\<dots> = MAX_THREADS - 1" using assms(2) by simp
  also have "\<dots> < MAX_THREADS" by (simp add: MAX_THREADS_def)
  finally show ?thesis using distinct_card [OF table_invD(3) [OF assms(1)]] by simp
qed

text \<open>Making a thread ready and queueing it, the step of every wake-up.\<close>

lemma make_ready:
  assumes inv: "table_inv s" and t: "t < MAX_THREADS" and nr: "st t s \<noteq> Ready"
    and f: "thread_state (f (threads s ! t)) = Ready"
      "length (join_waiters (f (threads s ! t))) = MAX_THREADS" "join_waiter_count (f (threads s ! t)) \<le> MAX_THREADS"
      "\<forall>w \<in> set (take (join_waiter_count (f (threads s ! t))) (join_waiters (f (threads s ! t)))). w < MAX_THREADS"
  shows "table_inv (enqueue t (update_thread t f s))"
    and "ready_list (enqueue t (update_thread t f s)) = ready_list s @ [t]"
proof -
  note D = table_invD [OF inv]
  have len: "length (queue_contents (queue s)) < MAX_THREADS"
    using room_in_queue [OF inv t nr] by (simp add: ready_list_def)
  obtain q where q: "queue_push t (queue s) = (True, q)" "queue_wf q"
    "queue_contents q = queue_contents (queue s) @ [t]"
    using rq.push_room [OF D(2) len, of t] by blast
  show rl: "ready_list (enqueue t (update_thread t f s)) = ready_list s @ [t]"
    using q by (simp add: ready_list_def enqueue_def)
  have nth: "threads (update_thread t f s) ! j = (if j = t then f (threads s ! t) else threads s ! j)" for j
    using update_thread_nth [of t s f j] t D(1) by simp
  have "queue (enqueue t (update_thread t f s)) = q" using q by (simp add: enqueue_def)
  moreover have "t \<notin> set (ready_list s)" using D(4) nr by simp
  moreover have "st IDLE_THREAD (enqueue t (update_thread t f s)) \<noteq> Blocked"
    using D(5) f(1) by (auto simp add: nth)
  ultimately show "table_inv (enqueue t (update_thread t f s))"
    unfolding table_inv_def rl using D q t f by (auto simp: nth)
qed

text \<open>Changes of a thread that is not ready and stays so.\<close>

lemma change_thread:
  assumes inv: "table_inv s" and t: "t < MAX_THREADS" and nr: "st t s \<noteq> Ready"
    and f: "thread_state (f (threads s ! t)) \<noteq> Ready" "t = IDLE_THREAD \<Longrightarrow> thread_state (f (threads s ! t)) \<noteq> Blocked"
      "length (join_waiters (f (threads s ! t))) = MAX_THREADS" "join_waiter_count (f (threads s ! t)) \<le> MAX_THREADS"
      "\<forall>w \<in> set (take (join_waiter_count (f (threads s ! t))) (join_waiters (f (threads s ! t)))). w < MAX_THREADS"
  shows "table_inv (update_thread t f s)"
proof -
  note D = table_invD [OF inv]
  have nth: "threads (update_thread t f s) ! j = (if j = t then f (threads s ! t) else threads s ! j)" for j
    using update_thread_nth [of t s f j] t D(1) by simp
  show ?thesis
    unfolding table_inv_def update_thread_fields using D t f nr by (auto simp: nth)
qed

lemma update_keep_state:
  assumes inv: "table_inv s" and t: "t < MAX_THREADS"
    and f: "thread_state (f (threads s ! t)) = st t s"
      "length (join_waiters (f (threads s ! t))) = MAX_THREADS" "join_waiter_count (f (threads s ! t)) \<le> MAX_THREADS"
      "\<forall>w \<in> set (take (join_waiter_count (f (threads s ! t))) (join_waiters (f (threads s ! t)))). w < MAX_THREADS"
  shows "table_inv (update_thread t f s)"
proof -
  note D = table_invD [OF inv]
  have nth: "threads (update_thread t f s) ! j = (if j = t then f (threads s ! t) else threads s ! j)" for j
    using update_thread_nth [of t s f j] t D(1) by simp
  show ?thesis
    unfolding table_inv_def update_thread_fields using D t f by (auto simp: nth)
qed

lemma table_inv_cong: "threads s' = threads s \<Longrightarrow> queue s' = queue s \<Longrightarrow> table_inv s' = table_inv s"
  by (simp add: table_inv_def ready_list_def)

lemma table_inv_updates [simp]:
  "table_inv (s\<lparr>kmem := m\<rparr>) = table_inv s" "table_inv (s\<lparr>current_thread := c\<rparr>) = table_inv s"
  "table_inv (s\<lparr>kernel_words := w\<rparr>) = table_inv s" "table_inv (s\<lparr>processes := ps\<rparr>) = table_inv s"
  "table_inv (s\<lparr>scheduler_context := ctx\<rparr>) = table_inv s" "table_inv (s\<lparr>idle_created := b\<rparr>) = table_inv s"
  "table_inv (s\<lparr>preempt_requested := b\<rparr>) = table_inv s" "table_inv (load_context ctx s) = table_inv s"
  by (rule table_inv_cong; simp add: load_context_def)+

lemma ready_list_updates [simp]:
  "ready_list (s\<lparr>kmem := m\<rparr>) = ready_list s" "ready_list (s\<lparr>current_thread := c\<rparr>) = ready_list s"
  "ready_list (s\<lparr>kernel_words := w\<rparr>) = ready_list s" "ready_list (s\<lparr>processes := ps\<rparr>) = ready_list s"
  "ready_list (s\<lparr>scheduler_context := ctx\<rparr>) = ready_list s" "ready_list (s\<lparr>idle_created := b\<rparr>) = ready_list s"
  "ready_list (s\<lparr>preempt_requested := b\<rparr>) = ready_list s" "ready_list (load_context ctx s) = ready_list s"
  "ready_list (set_state i x s) = ready_list s"
  by (simp_all add: ready_list_def load_context_def set_state_def update_thread_def)

lemma load_context_fields [simp]:
  "threads (load_context ctx s) = threads s" "queue (load_context ctx s) = queue s"
  "current_thread (load_context ctx s) = current_thread s" "processes (load_context ctx s) = processes s"
  "kmem (load_context ctx s) = kmem s" "kernel_words (load_context ctx s) = kernel_words s"
  "idle_created (load_context ctx s) = idle_created s"
  "cpu (load_context ctx s) = ctx\<lparr>stack_pointer := stack_pointer ctx + 8\<rparr>"
  "cpu_rip (load_context ctx s) = kernel_words s (stack_pointer ctx)"
  by (simp_all add: load_context_def)

lemma set_state_fields [simp]:
  "queue (set_state i x s) = queue s" "current_thread (set_state i x s) = current_thread s"
  "processes (set_state i x s) = processes s" "kmem (set_state i x s) = kmem s"
  "cpu (set_state i x s) = cpu s" "kernel_words (set_state i x s) = kernel_words s"
  "length (threads (set_state i x s)) = length (threads s)" "cpu_rip (set_state i x s) = cpu_rip s"
  "idle_created (set_state i x s) = idle_created s"
  by (simp_all add: set_state_def update_thread_def)

lemma set_state_nth:
  "i < length (threads s) \<Longrightarrow> threads (set_state i x s) ! j =
     (if j = i then (threads s ! i)\<lparr>thread_state := x\<rparr> else threads s ! j)"
  by (simp add: set_state_def update_thread_nth)

lemma next_ready_head:
  assumes inv: "table_inv s"
  shows "ready_list s = [] \<Longrightarrow> next_ready s = (None, s)"
    and "ready_list s = x # xs \<Longrightarrow>
      \<exists>q. next_ready s = (Some x, s\<lparr>queue := q\<rparr>) \<and> queue_wf q \<and> queue_contents q = xs"
proof -
  note D = table_invD [OF inv]
  assume "ready_list s = []"
  then have "queue_pop (queue s) = (None, queue s)" using rq.pop_empty [OF D(2)] by (simp add: ready_list_def)
  then show "next_ready s = (None, s)" by (subst next_ready.simps) (simp add: dequeue_def)
next
  note D = table_invD [OF inv]
  assume rl: "ready_list s = x # xs"
  then obtain q where q: "queue_pop (queue s) = (Some x, q)" "queue_wf q" "queue_contents q = xs"
    using rq.pop_cons [OF D(2), of x xs] by (auto simp: ready_list_def)
  have "st x s = Ready" using D(4) rl by (metis (mono_tags, lifting) list.set_intros(1) mem_Collect_eq)
  then have "next_ready s = (Some x, s\<lparr>queue := q\<rparr>)"
    by (subst next_ready.simps) (simp add: dequeue_def q(1) thread_at_def)
  then show "\<exists>q. next_ready s = (Some x, s\<lparr>queue := q\<rparr>) \<and> queue_wf q \<and> queue_contents q = xs"
    using q by blast
qed

definition head_or_idle :: "nat list \<Rightarrow> nat" where
  "head_or_idle xs = (case xs of [] \<Rightarrow> IDLE_THREAD | x # _ \<Rightarrow> x)"

text \<open>Taking the next thread out of the queue and marking it running.\<close>

lemma pick_next:
  assumes inv: "table_inv s"
  obtains r s1 where "next_ready s = (r, s1)" "(case r of Some t \<Rightarrow> t | None \<Rightarrow> IDLE_THREAD) = head_or_idle (ready_list s)"
    "head_or_idle (ready_list s) < MAX_THREADS" "threads s1 = threads s" "s1 = s\<lparr>queue := queue s1\<rparr>"
    "table_inv (set_state (head_or_idle (ready_list s)) Running s1)" "ready_list s1 = tl (ready_list s)"
proof (cases "ready_list s")
  case Nil
  then have "IDLE_THREAD \<notin> set (ready_list s)" by simp
  then have "st IDLE_THREAD s \<noteq> Ready" using table_invD(4) [OF inv] by auto
  moreover note D = table_invD [OF inv]
  ultimately have "table_inv (set_state IDLE_THREAD Running s)"
    unfolding set_state_def using D(6-8) [of IDLE_THREAD] by (intro change_thread [OF inv]) auto
  then show ?thesis using that [of None s] next_ready_head(1) [OF inv Nil] Nil by (simp add: head_or_idle_def)
next
  case (Cons x xs)
  note D = table_invD [OF inv]
  obtain q where q: "next_ready s = (Some x, s\<lparr>queue := q\<rparr>)" "queue_wf q" "queue_contents q = xs"
    using next_ready_head(2) [OF inv Cons] by blast
  have x: "x < MAX_THREADS" "st x s = Ready" using D(4) Cons by (metis (mono_tags, lifting) list.set_intros(1) mem_Collect_eq)+
  let ?s1 = "s\<lparr>queue := q\<rparr>"
  have nth: "threads (set_state x Running ?s1) ! j =
      (if j = x then (threads s ! x)\<lparr>thread_state := Running\<rparr> else threads s ! j)" for j
    using set_state_nth [of x ?s1] x D(1) by simp
  have rl: "ready_list (set_state x Running ?s1) = xs" by (simp add: ready_list_def q)
  have "distinct xs" "set xs = set (ready_list s) - {x}" using D(3) Cons by auto
  then have set: "set xs = {t. t < MAX_THREADS \<and> st t (set_state x Running ?s1) = Ready}"
    unfolding D(4) by (auto simp: nth)
  have "table_inv (set_state x Running ?s1)"
    unfolding table_inv_def rl
  proof (intro conjI allI impI)
    show "distinct xs" by fact
    show "set xs = {t. t < MAX_THREADS \<and> st t (set_state x Running ?s1) = Ready}" by (rule set)
    show "length (threads (set_state x Running ?s1)) = MAX_THREADS" using D(1) by simp
    show "queue_wf (queue (set_state x Running ?s1))" using q by simp
    show "st IDLE_THREAD (set_state x Running ?s1) \<noteq> Blocked" using D(5) by (simp add: nth)
    fix t assume t: "t < MAX_THREADS"
    show "length (join_waiters (threads (set_state x Running ?s1) ! t)) = MAX_THREADS"
      "join_waiter_count (threads (set_state x Running ?s1) ! t) \<le> MAX_THREADS"
      using D(6,7) [OF t] D(6,7) [OF x(1)] by (simp_all add: nth)
    show "\<forall>w \<in> set (take (join_waiter_count (threads (set_state x Running ?s1) ! t))
        (join_waiters (threads (set_state x Running ?s1) ! t))). w < MAX_THREADS"
      using D(8) [OF t] D(8) [OF x(1)] by (simp add: nth)
  qed
  moreover have hd: "head_or_idle (ready_list s) = x" by (simp add: head_or_idle_def Cons)
  ultimately show ?thesis
    using that [of "Some x" ?s1, unfolded hd] q(1) x(1) rl Cons by simp
qed

text \<open>The effect of \<open>schedule_from_current\<close>.\<close>

lemma schedule_effect:
  assumes sw: "switching s" and s': "s' = schedule_from_current (current_thread s) s"
  defines "c \<equiv> current_thread s" and "n \<equiv> head_or_idle (ready_list s)"
  shows "sched_inv s'" "current_thread s' = n" "ready_list s' = tl (ready_list s)"
    "\<And>t. t < MAX_THREADS \<Longrightarrow> threads s' ! t =
       (if t = n then (threads s ! t)\<lparr>thread_state := Running\<rparr>
        else if t = c then (threads s ! t)\<lparr>thread_context := cpu s\<rparr> else threads s ! t)"
    "processes s' = processes s" "kernel_words s' = kernel_words s"
    "n \<noteq> c \<Longrightarrow> cpu s' = (thread_context (threads s ! n))\<lparr>stack_pointer := stack_pointer (thread_context (threads s ! n)) + 8\<rparr>"
    "n \<noteq> c \<Longrightarrow> cpu_rip s' = kernel_words s (stack_pointer (thread_context (threads s ! n)))"
    "kmem s' = (if n \<noteq> c \<and> is_user (threads s ! n)
       then (case Option.bind (thread_process (threads s ! n)) (\<lambda>p. process_address_space p s) of
               None \<Rightarrow> kmem s | Some a \<Rightarrow> switch_address_space a (kmem s)) else kmem s)"
    "n = c \<Longrightarrow> cpu s' = cpu s \<and> cpu_rip s' = cpu_rip s"
proof -
  have inv: "table_inv s" and c: "c < MAX_THREADS"
    and nr: "\<And>t. t \<noteq> IDLE_THREAD \<Longrightarrow> t < MAX_THREADS \<Longrightarrow> st t s \<noteq> Running"
    and idle: "st IDLE_THREAD s = Ready \<Longrightarrow> idle_created s"
    using sw by (auto simp: switching_def c_def)
  note D = table_invD [OF inv]
  obtain r s1 where p: "next_ready s = (r, s1)" "(case r of Some t \<Rightarrow> t | None \<Rightarrow> IDLE_THREAD) = n"
    "n < MAX_THREADS" "threads s1 = threads s" "s1 = s\<lparr>queue := queue s1\<rparr>"
    "table_inv (set_state n Running s1)" "ready_list s1 = tl (ready_list s)"
    using pick_next [OF inv] unfolding n_def by metis
  have f: "current_thread s1 = c" "processes s1 = processes s" "kernel_words s1 = kernel_words s" "kmem s1 = kmem s"
    "cpu s1 = cpu s" "cpu_rip s1 = cpu_rip s" "idle_created s1 = idle_created s"
    by (subst p(5), simp add: c_def)+
  let ?s2 = "set_state n Running (s1\<lparr>current_thread := n\<rparr>)"
  have nth2: "threads ?s2 ! t = (if t = n then (threads s ! n)\<lparr>thread_state := Running\<rparr> else threads s ! t)" for t
    using p D(1) by (simp add: set_state_nth)
  have inv2: "table_inv ?s2"
    using p(6) by (subst table_inv_cong [of _ "set_state n Running s1"]) (simp_all add: set_state_def update_thread_def)
  have cur: "t < MAX_THREADS \<Longrightarrow> t \<noteq> IDLE_THREAD \<Longrightarrow> st t ?s2 = Running \<longleftrightarrow> t = n" for t
    using nr by (simp add: nth2)
  let ?a = "Option.bind (thread_process (threads s ! n)) (\<lambda>p. process_address_space p s)"
  define m where "m = (if is_user (threads s ! n) then (case ?a of None \<Rightarrow> kmem s
      | Some a \<Rightarrow> switch_address_space a (kmem s)) else kmem s)"
  have s'_eq: "s' = (if n = c then set_state c Running s1 else switch_threads c n (?s2\<lparr>kmem := m\<rparr>))"
  proof (cases "n = c")
    case True
    then show ?thesis using s' p(1,2) by (simp add: schedule_from_current_def c_def)
  next
    case False
    have ps: "process_address_space pr ?s2 = process_address_space pr s" for pr
      by (simp add: process_address_space_def f)
    have th: "thread_at n ?s2 = (threads s ! n)\<lparr>thread_state := Running\<rparr>" by (simp add: thread_at_def nth2)
    have km: "?s2\<lparr>kmem := kmem s\<rparr> = ?s2"
      by (rule kernel.equality) (simp_all add: f)
    show ?thesis
      using s' p(1,2) False
      by (simp add: schedule_from_current_def c_def [symmetric] Let_def th ps m_def km f split: option.split)
  qed
  have ALL: "sched_inv s' \<and> current_thread s' = n \<and> ready_list s' = tl (ready_list s) \<and>
      (\<forall>t. t < MAX_THREADS \<longrightarrow> threads s' ! t =
         (if t = n then (threads s ! t)\<lparr>thread_state := Running\<rparr>
          else if t = c then (threads s ! t)\<lparr>thread_context := cpu s\<rparr> else threads s ! t)) \<and>
      processes s' = processes s \<and> kernel_words s' = kernel_words s \<and>
      (n \<noteq> c \<longrightarrow> cpu s' = (thread_context (threads s ! n))\<lparr>stack_pointer := stack_pointer (thread_context (threads s ! n)) + 8\<rparr>) \<and>
      (n \<noteq> c \<longrightarrow> cpu_rip s' = kernel_words s (stack_pointer (thread_context (threads s ! n)))) \<and>
      kmem s' = (if n \<noteq> c \<and> is_user (threads s ! n)
         then (case ?a of None \<Rightarrow> kmem s | Some a \<Rightarrow> switch_address_space a (kmem s)) else kmem s) \<and>
      (n = c \<longrightarrow> cpu s' = cpu s \<and> cpu_rip s' = cpu_rip s)"
  proof (cases "n = c")
    case True
    have "sched_inv s'"
      using p(3,6) f nr idle True s'_eq D(1) unfolding sched_inv_def
      by (auto simp: set_state_nth p(4))
    then show ?thesis
      using True s'_eq p f D(1) by (auto simp: set_state_nth)
  next
    case False
    let ?s3 = "?s2\<lparr>kmem := m\<rparr>"
    let ?s4 = "update_thread c (\<lambda>t. t\<lparr>thread_context := cpu s\<rparr>) ?s3"
    have len: "length (threads ?s3) = MAX_THREADS" using D(1) p(4) by simp
    have s4: "s' = load_context (thread_context (threads s ! n)) ?s4"
      using s'_eq False c len
      by (simp add: switch_threads_def Let_def thread_at_def update_thread_nth nth2 f)
    have nth4: "threads ?s4 ! t = (if t = n then (threads s ! t)\<lparr>thread_state := Running\<rparr>
        else if t = c then (threads s ! t)\<lparr>thread_context := cpu s\<rparr> else threads s ! t)" for t
      using update_thread_nth [of c ?s3 "\<lambda>t. t\<lparr>thread_context := cpu s\<rparr>" t] c len False nth2 by auto
    have inv3: "table_inv ?s3" using inv2 by simp
    have "table_inv ?s4"
      using c False D(6-8) [OF c] by (intro update_keep_state [OF inv3]) (simp_all add: nth2)
    then have "sched_inv s'"
      using p(3) nr idle f unfolding s4 sched_inv_def by (auto simp: nth4)
    then show ?thesis
      using False p f unfolding s4 by (simp add: nth4) (simp add: m_def)
  qed
  from ALL show "sched_inv s'" "current_thread s' = n" "ready_list s' = tl (ready_list s)"
    "\<And>t. t < MAX_THREADS \<Longrightarrow> threads s' ! t =
       (if t = n then (threads s ! t)\<lparr>thread_state := Running\<rparr>
        else if t = c then (threads s ! t)\<lparr>thread_context := cpu s\<rparr> else threads s ! t)"
    "processes s' = processes s" "kernel_words s' = kernel_words s"
    "n \<noteq> c \<Longrightarrow> cpu s' = (thread_context (threads s ! n))\<lparr>stack_pointer := stack_pointer (thread_context (threads s ! n)) + 8\<rparr>"
    "n \<noteq> c \<Longrightarrow> cpu_rip s' = kernel_words s (stack_pointer (thread_context (threads s ! n)))"
    "kmem s' = (if n \<noteq> c \<and> is_user (threads s ! n)
       then (case ?a of None \<Rightarrow> kmem s | Some a \<Rightarrow> switch_address_space a (kmem s)) else kmem s)"
    "n = c \<Longrightarrow> cpu s' = cpu s \<and> cpu_rip s' = cpu_rip s"
    by blast+
qed

section \<open>Every operation keeps the invariant\<close>

text \<open>Steps that touch neither the queue nor the scheduling fields of the threads.\<close>

definition quiet :: "kernel \<Rightarrow> kernel \<Rightarrow> bool" where
  "quiet s s' \<longleftrightarrow> queue s' = queue s \<and> current_thread s' = current_thread s \<and> idle_created s' = idle_created s \<and>
     length (threads s') = length (threads s) \<and>
     (\<forall>t < length (threads s). st t s' = st t s \<and> join_waiters (threads s' ! t) = join_waiters (threads s ! t) \<and>
        join_waiter_count (threads s' ! t) = join_waiter_count (threads s ! t) \<and>
        exit_status (threads s' ! t) = exit_status (threads s ! t) \<and> reapable (threads s' ! t) = reapable (threads s ! t) \<and>
        thread_context (threads s' ! t) = thread_context (threads s ! t) \<and>
        is_user (threads s' ! t) = is_user (threads s ! t) \<and> thread_process (threads s' ! t) = thread_process (threads s ! t))"

lemma quiet_refl [simp]: "quiet s s"
  by (simp add: quiet_def)

lemma quiet_trans: "quiet s s1 \<Longrightarrow> quiet s1 s2 \<Longrightarrow> quiet s s2"
  by (auto simp: quiet_def)

lemma quiet_updates [simp]:
  "quiet s (s\<lparr>kmem := m\<rparr>)" "quiet s (s\<lparr>kernel_words := w\<rparr>)" "quiet s (s\<lparr>processes := ps\<rparr>)"
  "quiet s (s\<lparr>preempt_requested := b\<rparr>)"
  by (simp_all add: quiet_def)

lemma quiet_update_thread:
  assumes "\<And>t. thread_state (f t) = thread_state t \<and> join_waiters (f t) = join_waiters t \<and>
     join_waiter_count (f t) = join_waiter_count t \<and> exit_status (f t) = exit_status t \<and> reapable (f t) = reapable t \<and>
     thread_context (f t) = thread_context t \<and> is_user (f t) = is_user t \<and> thread_process (f t) = thread_process t"
  shows "quiet s (update_thread i f s)"
  unfolding quiet_def update_thread_fields
proof (intro conjI refl allI impI)
  fix t assume t: "t < length (threads s)"
  have nth: "threads (update_thread i f s) ! t = (if i = t then f (threads s ! t) else threads s ! t)"
    using t by (simp add: update_thread_def nth_list_update)
  show "st t (update_thread i f s) = st t s"
    "join_waiters (threads (update_thread i f s) ! t) = join_waiters (threads s ! t)"
    "join_waiter_count (threads (update_thread i f s) ! t) = join_waiter_count (threads s ! t)"
    "exit_status (threads (update_thread i f s) ! t) = exit_status (threads s ! t)"
    "reapable (threads (update_thread i f s) ! t) = reapable (threads s ! t)"
    "thread_context (threads (update_thread i f s) ! t) = thread_context (threads s ! t)"
    "is_user (threads (update_thread i f s) ! t) = is_user (threads s ! t)"
    "thread_process (threads (update_thread i f s) ! t) = thread_process (threads s ! t)"
    unfolding nth using assms [of "threads s ! t"] by simp_all
qed

lemma quiet_table:
  assumes "quiet s s'" and "table_inv s"
  shows "table_inv s'"
proof -
  note D = table_invD [OF assms(2)]
  have q: "queue s' = queue s" "length (threads s') = MAX_THREADS"
    and t: "\<And>t. t < MAX_THREADS \<Longrightarrow> st t s' = st t s" "\<And>t. t < MAX_THREADS \<Longrightarrow> join_waiters (threads s' ! t) = join_waiters (threads s ! t)"
      "\<And>t. t < MAX_THREADS \<Longrightarrow> join_waiter_count (threads s' ! t) = join_waiter_count (threads s ! t)"
    using assms(1) D(1) by (simp_all add: quiet_def)
  have rl: "ready_list s' = ready_list s" by (simp add: ready_list_def q)
  show ?thesis
    unfolding table_inv_def rl q(1)
  proof (intro conjI allI impI)
    show "set (ready_list s) = {t. t < MAX_THREADS \<and> st t s' = Ready}" using D(4) t(1) by auto
    fix u assume u: "u < MAX_THREADS"
    show "\<forall>w \<in> set (take (join_waiter_count (threads s' ! u)) (join_waiters (threads s' ! u))). w < MAX_THREADS"
      using D(8) [OF u] t u by simp
  qed (use D t q in simp_all)
qed

lemma quiet_inv: "quiet s s' \<Longrightarrow> sched_inv s \<Longrightarrow> sched_inv s'"
  using quiet_table [of s s'] by (auto simp: sched_inv_def quiet_def table_inv_def)

lemma quiet_on_memory: "on_memory f s = (r, s') \<Longrightarrow> quiet s s'"
  by (auto simp: on_memory_def split: prod.splits)

lemma quiet_release: "quiet s (release_resources slot s)"
proof -
  let ?f = "\<lambda>t :: thread. t\<lparr>stack_top := 0, syscall_stack_top := 0, stack_allocated := False, owns_user_stack := False\<rparr>"
  have "quiet s (update_thread slot ?f (s\<lparr>kmem := m\<rparr>))" for m
    by (rule quiet_trans [OF quiet_updates(1) quiet_update_thread]) simp
  moreover have "release_resources slot s = s \<or> (\<exists>m. release_resources slot s = update_thread slot ?f (s\<lparr>kmem := m\<rparr>))"
    unfolding release_resources_def Let_def by auto
  ultimately show ?thesis using quiet_refl by metis
qed

lemma quiet_allocate:
  assumes "allocate_stacks slot s = (r, s')"
  shows "quiet s s'"
proof (cases "stack_allocated (thread_at slot s)")
  case False
  obtain r1 s1 where a: "on_memory (allocate_kernel_stack slot) s = (r1, s1)" by fastforce
  note q1 = quiet_on_memory [OF a]
  show ?thesis
  proof (cases r1)
    case (Inr stack)
    let ?s2 = "update_thread slot (\<lambda>t. t\<lparr>stack_top := stack\<rparr>) s1"
    have q2: "quiet s ?s2" by (rule quiet_trans [OF q1 quiet_update_thread]) simp
    obtain r3 s3 where b: "on_memory (allocate_kernel_stack (slot + MAX_THREADS)) ?s2 = (r3, s3)" by fastforce
    note q3 = quiet_trans [OF q2 quiet_on_memory [OF b]]
    have q4: "quiet s (update_thread slot (\<lambda>t. t\<lparr>syscall_stack_top := x, stack_allocated := True\<rparr>) s3)" for x
      by (rule quiet_trans [OF q3 quiet_update_thread]) simp
    show ?thesis using assms False a Inr b q3 q4 by (cases r3) (auto simp: allocate_stacks_def Let_def)
  qed (use assms False a q1 in \<open>auto simp: allocate_stacks_def\<close>)
qed (use assms in \<open>simp add: allocate_stacks_def\<close>)

lemma free_slot_props:
  assumes "free_slot s = Some slot"
  shows "0 < slot" "slot < MAX_THREADS" "st slot s = Exited" "reapable (threads s ! slot)"
  using assms by (auto simp: free_slot_def thread_at_def find_Some_iff)

lemma quiet_free_slot:
  assumes "sched_inv s" and slot: "free_slot s = Some slot" and q: "quiet s s2"
  shows "st slot s2 = Exited"
proof -
  have "length (threads s) = MAX_THREADS" using assms(1) by (simp add: sched_inv_def table_inv_def)
  then show ?thesis using q free_slot_props [OF slot] by (simp add: quiet_def)
qed

text \<open>A new thread in a free slot.\<close>

lemma not_current:
  "sched_inv s \<Longrightarrow> t < MAX_THREADS \<Longrightarrow> t \<noteq> IDLE_THREAD \<Longrightarrow> st t s \<noteq> Running \<Longrightarrow> t \<noteq> current_thread s"
  by (auto simp: sched_inv_def)

lemma new_thread_inv:
  assumes inv: "sched_inv s" and slot: "0 < slot" "slot < MAX_THREADS" "st slot s = Exited"
    and f: "thread_state (f (threads s ! slot)) = Ready" "join_waiters (f (threads s ! slot)) = replicate MAX_THREADS NO_THREAD"
      "join_waiter_count (f (threads s ! slot)) = 0"
  shows "sched_inv (enqueue slot (update_thread slot f s))"
proof -
  have tab: "table_inv s" using inv by (simp add: sched_inv_def)
  have "table_inv (enqueue slot (update_thread slot f s))"
    by (rule make_ready(1) [OF tab slot(2)]) (use slot f in auto)
  moreover have "threads (enqueue slot (update_thread slot f s)) ! j = (if j = slot then f (threads s ! slot) else threads s ! j)" for j
    using update_thread_nth [of slot s f j] slot table_invD(1) [OF tab] by simp
  moreover have "slot \<noteq> current_thread s"
    using not_current [OF inv slot(2)] slot by (simp add: IDLE_THREAD_def)
  ultimately show ?thesis
    using inv slot f(1) unfolding sched_inv_def by (auto simp: IDLE_THREAD_def)
qed

text \<open>A failing \<open>spawn\<close> is quiet; a successful one fills the free slot and queues it.\<close>

lemma spawn_effect:
  assumes e: "spawn entry s = (r, s')"
  obtains "r = None" "quiet s s'"
    | slot s2 f where "r = Some slot" "free_slot s = Some slot" "quiet s s2"
        "s' = enqueue slot (update_thread slot f s2)"
        "\<And>x. thread_state (f x) = Ready \<and> join_waiters (f x) = replicate MAX_THREADS NO_THREAD \<and>
           join_waiter_count (f x) = 0 \<and> thread_entry (f x) = Some entry \<and> \<not> is_user (f x) \<and> \<not> reapable (f x) \<and>
           kernel_words s2 (stack_pointer (thread_context (f x))) = thread_trampoline (code s2)"
proof (cases "free_slot s")
  case None
  then show ?thesis using that(1) e by (simp add: spawn_def)
next
  case (Some slot)
  obtain a s1 where a: "allocate_stacks slot (release_resources slot s) = (a, s1)" by fastforce
  have q: "quiet s s1" using quiet_trans [OF quiet_release quiet_allocate [OF a]] .
  show ?thesis
  proof (cases a)
    case None
    then show ?thesis using that(1) e Some a q by (simp add: spawn_def)
  next
    case A: (Some u)
    define i where "i = stack_top (thread_at slot s1) - 16"
    define f where "f = (\<lambda>t :: thread. thread_empty\<lparr>thread_context := context_empty\<lparr>stack_pointer := i\<rparr>,
        thread_entry := Some entry, thread_state := Ready, stack_top := stack_top t,
        syscall_stack_top := syscall_stack_top t, stack_allocated := True, reapable := False\<rparr>)"
    let ?s2 = "s1\<lparr>kernel_words := (kernel_words s1)(i := thread_trampoline (code s1))\<rparr>"
    have "quiet s ?s2" using quiet_trans [OF q quiet_updates(2)] .
    moreover have "r = Some slot" "s' = enqueue slot (update_thread slot f ?s2)"
      using e Some a A by (simp_all add: spawn_def Let_def f_def i_def)
    ultimately show ?thesis
      by (intro that(2) [OF _ Some, of ?s2 f]) (simp_all add: f_def thread_empty_def)
  qed
qed

lemma spawn_inv:
  assumes inv: "sched_inv s" and e: "spawn entry s = (r, s')"
  shows "sched_inv s'"
proof (rule spawn_effect [OF e])
  fix slot s2 f
  assume slot: "free_slot s = Some slot" and q: "quiet s s2" and s': "s' = enqueue slot (update_thread slot f s2)"
    and f: "\<And>x. thread_state (f x) = Ready \<and> join_waiters (f x) = replicate MAX_THREADS NO_THREAD \<and>
           join_waiter_count (f x) = 0 \<and> thread_entry (f x) = Some entry \<and> \<not> is_user (f x) \<and> \<not> reapable (f x) \<and>
           kernel_words s2 (stack_pointer (thread_context (f x))) = thread_trampoline (code s2)"
  have "st slot s2 = Exited" using quiet_free_slot [OF inv slot q] .
  from new_thread_inv [OF quiet_inv [OF q inv] free_slot_props(1,2) [OF slot] this]
  show ?thesis using f unfolding s' by blast
qed (rule quiet_inv [OF _ inv])

lemma spawn_user_effect:
  assumes e: "spawn_user_for_process p entry arg tls stack s = (r, s')"
  obtains "r = None" "quiet s s'"
    | slot s2 f where "r = Some slot" "free_slot s = Some slot" "quiet s s2"
        "s' = enqueue slot (update_thread slot f s2)"
        "\<And>x. thread_state (f x) = Ready \<and> join_waiters (f x) = replicate MAX_THREADS NO_THREAD \<and>
           join_waiter_count (f x) = 0 \<and> thread_process (f x) = Some p \<and> is_user (f x) \<and> \<not> reapable (f x) \<and>
           uc_rip (thread_user_context (f x)) = entry \<and> uc_rdi (thread_user_context (f x)) = arg \<and>
           uc_fs_base (thread_user_context (f x)) = tls \<and>
           kernel_words s2 (stack_pointer (thread_context (f x))) = user_thread_trampoline (code s2)"
proof (cases "process_address_space p s = None \<or> free_slot s = None")
  case True
  then show ?thesis using that(1) e by (auto simp: spawn_user_for_process_def split: if_splits)
next
  case False
  then obtain slot where slot: "free_slot s = Some slot" by auto
  obtain a s1 where a: "allocate_stacks slot (release_resources slot s) = (a, s1)" by fastforce
  have q: "quiet s s1" using quiet_trans [OF quiet_release quiet_allocate [OF a]] .
  obtain b s2 where b: "(case stack of Some stack \<Rightarrow> (Some (stack, False), s1)
      | None \<Rightarrow> (case on_memory (allocate_user_stack slot) s1 of
          (Inl _, s) \<Rightarrow> (None, s)
        | (Inr stack, s) \<Rightarrow> (map_option (\<lambda>stack. (stack, True)) (checked_sub stack 8), s))) = (b, s2)"
    by fastforce
  obtain c s3 where c: "on_memory (allocate_user_stack slot) s1 = (c, s3)" by fastforce
  have "s2 = s1 \<or> s2 = s3" using b c by (cases c) (auto split: option.splits)
  then have q2: "quiet s s2" using q quiet_trans [OF q quiet_on_memory [OF c]] by auto
  show ?thesis
  proof (cases "a = None \<or> b = None")
    case True
    then show ?thesis using that(1) e False slot a b q q2 by (cases a) (auto simp: spawn_user_for_process_def)
  next
    case AB: False
    then obtain ustack owns where ub: "b = Some (ustack, owns)" by auto
    define i where "i = stack_top (thread_at slot s2) - 16"
    define f where "f = (\<lambda>t :: thread. thread_empty\<lparr>thread_context := context_empty\<lparr>stack_pointer := i\<rparr>,
        thread_process := Some p,
        thread_user_context := user_context_empty\<lparr>uc_rip := entry, uc_rsp := ustack, uc_rdi := arg, uc_fs_base := tls\<rparr>,
        is_user := True, thread_state := Ready, stack_top := stack_top t,
        syscall_stack_top := syscall_stack_top t, stack_allocated := True, owns_user_stack := owns, reapable := False\<rparr>)"
    let ?s2 = "s2\<lparr>kernel_words := (kernel_words s2)(i := user_thread_trampoline (code s2))\<rparr>"
    have "quiet s ?s2" using quiet_trans [OF q2 quiet_updates(2)] .
    moreover have "r = Some slot" "s' = enqueue slot (update_thread slot f ?s2)"
      using e False slot a AB b ub by (auto simp: spawn_user_for_process_def Let_def f_def i_def)
    ultimately show ?thesis
      by (intro that(2) [OF _ slot, of ?s2 f]) (simp_all add: f_def thread_empty_def)
  qed
qed

lemma spawn_user_inv:
  assumes inv: "sched_inv s" and e: "spawn_user_for_process p entry arg tls stack s = (r, s')"
  shows "sched_inv s'"
proof (rule spawn_user_effect [OF e])
  fix slot s2 f
  assume slot: "free_slot s = Some slot" and q: "quiet s s2" and s': "s' = enqueue slot (update_thread slot f s2)"
    and f: "\<And>x. thread_state (f x) = Ready \<and> join_waiters (f x) = replicate MAX_THREADS NO_THREAD \<and>
           join_waiter_count (f x) = 0 \<and> thread_process (f x) = Some p \<and> is_user (f x) \<and> \<not> reapable (f x) \<and>
           uc_rip (thread_user_context (f x)) = entry \<and> uc_rdi (thread_user_context (f x)) = arg \<and>
           uc_fs_base (thread_user_context (f x)) = tls \<and>
           kernel_words s2 (stack_pointer (thread_context (f x))) = user_thread_trampoline (code s2)"
  have "st slot s2 = Exited" using quiet_free_slot [OF inv slot q] .
  from new_thread_inv [OF quiet_inv [OF q inv] free_slot_props(1,2) [OF slot] this]
  show ?thesis using f unfolding s' by blast
qed (rule quiet_inv [OF _ inv])

text \<open>Giving up the processor.\<close>

lemma running_current:
  assumes "sched_inv s" and "current_thread s \<noteq> NO_THREAD" and "current_thread s \<noteq> IDLE_THREAD"
  shows "current_thread s < MAX_THREADS" "st (current_thread s) s = Running" "table_inv s"
  using assms by (auto simp: sched_inv_def)

lemma switching_idle:
  assumes "sched_inv s" and "current_thread s = IDLE_THREAD"
  shows "switching s"
  using assms by (auto simp: switching_def sched_inv_def)

lemma switching_requeued:
  assumes inv: "sched_inv s" and c: "current_thread s \<noteq> NO_THREAD" "current_thread s \<noteq> IDLE_THREAD"
  defines "s1 \<equiv> enqueue (current_thread s) (set_state (current_thread s) Ready s)"
  shows "switching s1" "ready_list s1 = ready_list s @ [current_thread s]" "current_thread s1 = current_thread s"
    "\<And>t. threads s1 ! t = (if t = current_thread s then (threads s ! t)\<lparr>thread_state := Ready\<rparr> else threads s ! t)"
proof -
  note C = running_current [OF inv c]
  note D = table_invD [OF C(3)]
  note M = make_ready [OF C(3,1), of "\<lambda>t. t\<lparr>thread_state := Ready\<rparr>", folded set_state_def, folded s1_def]
  show cur: "current_thread s1 = current_thread s" by (simp add: s1_def)
  show "ready_list s1 = ready_list s @ [current_thread s]" using M(2) C(2) D(6-8) [OF C(1)] by simp
  show nth: "threads s1 ! t = (if t = current_thread s then (threads s ! t)\<lparr>thread_state := Ready\<rparr> else threads s ! t)" for t
    using C(1) D(1) by (simp add: s1_def set_state_nth)
  have "table_inv s1" using M(1) C(2) D(6-8) [OF C(1)] by simp
  moreover have "idle_created s1 = idle_created s" by (simp add: s1_def)
  ultimately show "switching s1"
    using inv C c unfolding switching_def sched_inv_def cur by (auto simp: nth)
qed

lemma switching_stopped:
  assumes inv: "sched_inv s" and c: "current_thread s \<noteq> NO_THREAD" "current_thread s \<noteq> IDLE_THREAD"
    and f: "\<And>t. thread_state (f t) = x" "x = Blocked \<or> x = Exited"
      "\<And>t. join_waiters (f t) = join_waiters t" "\<And>t. join_waiter_count (f t) = join_waiter_count t"
  shows "switching (update_thread (current_thread s) f s)"
proof -
  note C = running_current [OF inv c]
  note D = table_invD [OF C(3)]
  have "table_inv (update_thread (current_thread s) f s)"
    using C c f D(6-8) [OF C(1)] by (intro change_thread) auto
  moreover have "threads (update_thread (current_thread s) f s) ! t =
      (if t = current_thread s then f (threads s ! t) else threads s ! t)" for t
    using update_thread_nth [of "current_thread s" s f t] C(1) D(1) by simp
  ultimately show ?thesis
    using inv C(1) c f(1,2) unfolding switching_def sched_inv_def by auto
qed

lemma yield_inv: "sched_inv s \<Longrightarrow> sched_inv (yield_now s)"
proof -
  assume inv: "sched_inv s"
  consider "current_thread s = NO_THREAD" | "current_thread s = IDLE_THREAD"
    | "current_thread s \<noteq> NO_THREAD" "current_thread s \<noteq> IDLE_THREAD" by blast
  then show ?thesis
  proof cases
    case 2
    then show ?thesis
      using schedule_effect(1) [OF switching_idle [OF inv 2] refl] by (simp add: yield_now_def)
  next
    case 3
    note S = switching_requeued [OF inv 3]
    show ?thesis using schedule_effect(1) [OF S(1) refl] S(3) 3 by (simp add: yield_now_def Let_def)
  qed (use inv in \<open>simp add: yield_now_def\<close>)
qed

lemma block_inv: "sched_inv s \<Longrightarrow> sched_inv (block_current s)"
proof -
  assume inv: "sched_inv s"
  show ?thesis
  proof (cases "current_thread s = NO_THREAD \<or> current_thread s = IDLE_THREAD")
    case False
    then have c: "current_thread s \<noteq> NO_THREAD" "current_thread s \<noteq> IDLE_THREAD" by auto
    have "switching (set_state (current_thread s) Blocked s)"
      unfolding set_state_def by (rule switching_stopped [OF inv c]) auto
    from schedule_effect(1) [OF this refl] show ?thesis using c by (simp add: block_current_def Let_def)
  qed (use inv in \<open>auto simp: block_current_def\<close>)
qed

lemma wake_inv:
  assumes inv: "sched_inv s" and e: "wake t s = (r, s')"
  shows "sched_inv s'"
proof (cases "t < MAX_THREADS \<and> st t s = Blocked")
  case True
  have tab: "table_inv s" using inv by (simp add: sched_inv_def)
  note D = table_invD [OF tab]
  have s': "s' = enqueue t (set_state t Ready s)" using e True by (auto simp: wake_def thread_at_def)
  have "table_inv s'"
    unfolding s' set_state_def using True D(6-8) [of t] by (intro make_ready(1) [OF tab]) auto
  moreover have "threads s' ! j = (if j = t then (threads s ! t)\<lparr>thread_state := Ready\<rparr> else threads s ! j)" for j
    using True D(1) by (simp add: s' set_state_nth)
  moreover have "t \<noteq> IDLE_THREAD" using True D(5) by auto
  moreover have "t \<noteq> current_thread s" using not_current [OF inv] True calculation(3) by simp
  ultimately show ?thesis
    using inv unfolding sched_inv_def by (auto simp: s')
qed (use inv e in \<open>auto simp: wake_def thread_at_def split: if_splits\<close>)

text \<open>Waking the join waiters of an exited thread.\<close>

lemma wake_waiter_switching:
  assumes sw: "switching s" and w: "w < MAX_THREADS"
  shows "switching (wake_waiter w s)" "current_thread (wake_waiter w s) = current_thread s"
    "processes (wake_waiter w s) = processes s"
    "\<And>t. threads (wake_waiter w s) ! t =
       (if t = w \<and> st w s = Blocked then (threads s ! t)\<lparr>thread_state := Ready\<rparr> else threads s ! t)"
proof -
  have tab: "table_inv s" using sw by (simp add: switching_def)
  note D = table_invD [OF tab]
  let ?s' = "wake_waiter w s"
  show nth: "threads ?s' ! t =
       (if t = w \<and> st w s = Blocked then (threads s ! t)\<lparr>thread_state := Ready\<rparr> else threads s ! t)" for t
    using w D(1) by (simp add: wake_waiter_def thread_at_def set_state_nth)
  show f: "current_thread ?s' = current_thread s" "processes ?s' = processes s"
    by (simp_all add: wake_waiter_def)
  have "idle_created ?s' = idle_created s" by (simp add: wake_waiter_def)
  moreover have "table_inv ?s'"
  proof (cases "st w s = Blocked")
    case True
    then have "?s' = enqueue w (update_thread w (\<lambda>t. t\<lparr>thread_state := Ready\<rparr>) s)"
      by (simp add: wake_waiter_def thread_at_def set_state_def)
    then show ?thesis using True D(6-8) [OF w] by (simp add: make_ready(1) [OF tab w])
  qed (use tab in \<open>simp add: wake_waiter_def thread_at_def\<close>)
  ultimately show "switching ?s'"
    using sw D(5) unfolding switching_def f by (auto simp: nth)
qed

lemma wake_list_switching:
  assumes "switching s" and "\<forall>w \<in> set ws. w < MAX_THREADS"
  shows "switching (fold wake_waiter ws s) \<and> current_thread (fold wake_waiter ws s) = current_thread s \<and>
    processes (fold wake_waiter ws s) = processes s \<and>
    (\<forall>t. threads (fold wake_waiter ws s) ! t =
       (if t \<in> set ws \<and> st t s = Blocked then (threads s ! t)\<lparr>thread_state := Ready\<rparr> else threads s ! t))"
  using assms
proof (induction ws arbitrary: s)
  case (Cons w ws)
  have w: "w < MAX_THREADS" "\<forall>w \<in> set ws. w < MAX_THREADS" using Cons.prems(2) by simp_all
  note W = wake_waiter_switching [OF Cons.prems(1) w(1)]
  show ?case using Cons.IH [OF W(1) w(2)] W by auto
qed simp

text \<open>
  The state in which an exiting thread hands over: it is marked, its waiters are awake, the
  children of its process have a new parent.
\<close>

definition exit_marked :: "u64 \<Rightarrow> kernel \<Rightarrow> kernel" where
  "exit_marked status s = update_thread (current_thread s) (\<lambda>t. t\<lparr>thread_state := Exited, thread_entry := None,
     exit_status := status, reapable := \<not> is_user t\<rparr>) s"

definition exit_handed_over :: "u64 \<Rightarrow> kernel \<Rightarrow> kernel" where
  "exit_handed_over status s =
     reparent_children_of_exited_process (current_thread s) (wake_waiters (current_thread s) (exit_marked status s))"

lemma reparent_fields [simp]:
  "threads (reparent_children_of_exited_process t s) = threads s"
  "queue (reparent_children_of_exited_process t s) = queue s"
  "current_thread (reparent_children_of_exited_process t s) = current_thread s"
  "idle_created (reparent_children_of_exited_process t s) = idle_created s"
  by (simp_all add: reparent_children_of_exited_process_def Let_def split: option.split)

lemma switching_cong:
  "threads s' = threads s \<Longrightarrow> queue s' = queue s \<Longrightarrow> current_thread s' = current_thread s \<Longrightarrow>
     idle_created s' = idle_created s \<Longrightarrow> switching s' = switching s"
  using table_inv_cong [of s' s] by (simp add: switching_def)

lemma exit_switching:
  assumes inv: "sched_inv s" and c: "current_thread s \<noteq> NO_THREAD" "current_thread s \<noteq> IDLE_THREAD"
  defines "ws \<equiv> take (join_waiter_count (threads s ! current_thread s)) (join_waiters (threads s ! current_thread s))"
  shows "switching (exit_handed_over status s)" "current_thread (exit_handed_over status s) = current_thread s"
    "\<And>t. threads (exit_handed_over status s) ! t =
       (if t = current_thread s then (threads s ! t)\<lparr>thread_state := Exited, thread_entry := None,
          exit_status := status, reapable := \<not> is_user (threads s ! t)\<rparr>
        else if t \<in> set ws \<and> st t s = Blocked then (threads s ! t)\<lparr>thread_state := Ready\<rparr> else threads s ! t)"
    "exit_current_with_status status s = schedule_from_current (current_thread s) (exit_handed_over status s)"
proof -
  note C = running_current [OF inv c]
  note D = table_invD [OF C(3)]
  let ?m = "exit_marked status s"
  have sw: "switching ?m" unfolding exit_marked_def by (rule switching_stopped [OF inv c]) auto
  have nth: "threads ?m ! t = (if t = current_thread s then (threads s ! t)\<lparr>thread_state := Exited, thread_entry := None,
          exit_status := status, reapable := \<not> is_user (threads s ! t)\<rparr> else threads s ! t)" for t
    using C(1) D(1) by (simp add: exit_marked_def update_thread_nth)
  have wk: "wake_waiters (current_thread s) ?m = fold wake_waiter ws ?m"
    by (simp add: wake_waiters_def thread_at_def nth ws_def)
  have ws: "\<forall>w \<in> set ws. w < MAX_THREADS" using D(8) [OF C(1)] by (simp add: ws_def)
  note W = wake_list_switching [OF sw ws, folded wk]
  show "switching (exit_handed_over status s)"
    using W unfolding exit_handed_over_def by (subst switching_cong) auto
  have cm: "current_thread ?m = current_thread s" by (simp add: exit_marked_def)
  show "current_thread (exit_handed_over status s) = current_thread s"
    using W cm by (simp add: exit_handed_over_def)
  show "threads (exit_handed_over status s) ! t =
       (if t = current_thread s then (threads s ! t)\<lparr>thread_state := Exited, thread_entry := None,
          exit_status := status, reapable := \<not> is_user (threads s ! t)\<rparr>
        else if t \<in> set ws \<and> st t s = Blocked then (threads s ! t)\<lparr>thread_state := Ready\<rparr> else threads s ! t)" for t
    using W by (simp add: exit_handed_over_def nth)
  show "exit_current_with_status status s = schedule_from_current (current_thread s) (exit_handed_over status s)"
    using c by (simp add: exit_current_with_status_def exit_handed_over_def exit_marked_def Let_def)
qed

lemma exit_inv: "sched_inv s \<Longrightarrow> sched_inv (exit_current_with_status status s)"
proof -
  assume inv: "sched_inv s"
  show ?thesis
  proof (cases "current_thread s = NO_THREAD \<or> current_thread s = IDLE_THREAD")
    case False
    then have c: "current_thread s \<noteq> NO_THREAD" "current_thread s \<noteq> IDLE_THREAD" by auto
    note E = exit_switching [OF inv c, of status]
    show ?thesis using schedule_effect(1) [OF E(1) refl] E(2,4) by simp
  qed (use inv in \<open>auto simp: exit_current_with_status_def\<close>)
qed

lemma update_sched:
  assumes inv: "sched_inv s" and t: "t < MAX_THREADS"
    and f: "thread_state (f (threads s ! t)) = st t s"
      "length (join_waiters (f (threads s ! t))) = MAX_THREADS" "join_waiter_count (f (threads s ! t)) \<le> MAX_THREADS"
      "\<forall>w \<in> set (take (join_waiter_count (f (threads s ! t))) (join_waiters (f (threads s ! t)))). w < MAX_THREADS"
  shows "sched_inv (update_thread t f s)"
proof -
  have tab: "table_inv s" using inv by (simp add: sched_inv_def)
  have "st j (update_thread t f s) = st j s" for j
    using update_thread_nth [of t s f j] t table_invD(1) [OF tab] f(1) by simp
  then show ?thesis
    using update_keep_state [of s t f, OF tab t f] inv unfolding sched_inv_def by simp
qed

lemma set_reapable_inv:
  assumes inv: "sched_inv s" and t: "t < MAX_THREADS"
  shows "sched_inv (update_thread t (\<lambda>t. t\<lparr>reapable := b\<rparr>) s)"
proof -
  have tab: "table_inv s" using inv by (simp add: sched_inv_def)
  show ?thesis using table_invD(6-8) [OF tab t] by (intro update_sched [OF inv t]) auto
qed

lemma add_waiter:
  assumes "length xs = MAX_THREADS" and "n < MAX_THREADS" and "\<forall>w \<in> set (take n xs). w < MAX_THREADS"
    and "c < MAX_THREADS"
  shows "\<forall>w \<in> set (take (n + 1) (xs[n := c])). w < MAX_THREADS"
  using assms by (simp add: take_Suc_conv_app_nth)

lemma record_waiter_inv:
  assumes inv: "sched_inv s" and t: "t < MAX_THREADS" and c: "c < MAX_THREADS"
    and n: "join_waiter_count (threads s ! t) \<noteq> MAX_THREADS"
  shows "sched_inv (update_thread t (\<lambda>x. x\<lparr>join_waiters := (join_waiters x)[join_waiter_count x := c],
      join_waiter_count := join_waiter_count x + 1\<rparr>) s)"
proof -
  have tab: "table_inv s" using inv by (simp add: sched_inv_def)
  note D = table_invD [OF tab]
  have n': "join_waiter_count (threads s ! t) < MAX_THREADS" using n D(7) [OF t] by simp
  have "\<forall>w \<in> set (take (join_waiter_count (threads s ! t) + 1)
      ((join_waiters (threads s ! t))[join_waiter_count (threads s ! t) := c])). w < MAX_THREADS"
    by (rule add_waiter [OF D(6) [OF t] n' _ c]) (use D(8) [OF t] in blast)
  then show ?thesis
    using D(6) [OF t] n' by (intro update_sched [OF inv t]) simp_all
qed

lemma join_enter_inv:
  assumes inv: "sched_inv s" and e: "join_enter t s = (r, s')"
  shows "sched_inv s'"
proof (cases "current_thread s = NO_THREAD \<or> current_thread s = t \<or> MAX_THREADS \<le> t")
  case False
  then have t: "t < MAX_THREADS" and c: "current_thread s < MAX_THREADS"
    using inv by (auto simp: sched_inv_def)
  show ?thesis
    using e False inv set_reapable_inv [OF inv t] block_inv [OF record_waiter_inv [OF inv t c]]
    by (auto simp: join_enter_def Let_def thread_at_def split: if_splits)
qed (use inv e in \<open>auto simp: join_enter_def\<close>)

lemma try_join_inv:
  assumes inv: "sched_inv s" and e: "try_join t s = (r, s')"
  shows "sched_inv s'"
proof (cases "current_thread s = NO_THREAD \<or> current_thread s = t \<or> MAX_THREADS \<le> t")
  case False
  then show ?thesis
    using e inv set_reapable_inv [OF inv, of t] by (auto simp: try_join_def Let_def split: if_splits)
qed (use inv e in \<open>auto simp: try_join_def\<close>)

lemma join_resume_inv:
  assumes inv: "sched_inv s" and t: "t < MAX_THREADS" and e: "join_resume t s = (r, s')"
  shows "sched_inv s'"
proof -
  define f where "f = (\<lambda>x :: thread. if join_waiter_count x \<noteq> 0 then x\<lparr>join_waiter_count := join_waiter_count x - 1\<rparr> else x)"
  define g where "g = (\<lambda>x :: thread. if join_waiter_count x = 0 then x\<lparr>reapable := True\<rparr> else x)"
  have f: "thread_state (f x) = thread_state x" "join_waiters (f x) = join_waiters x"
    "join_waiter_count (f x) = join_waiter_count x - 1" for x by (simp_all add: f_def)
  have g: "thread_state (g x) = thread_state x" "join_waiters (g x) = join_waiters x"
    "join_waiter_count (g x) = join_waiter_count x" for x by (simp_all add: g_def)
  have tab: "table_inv s" using inv by (simp add: sched_inv_def)
  note D = table_invD [OF tab]
  have sub: "set (take (n - 1) xs) \<subseteq> set (take n xs)" for n and xs :: "nat list"
    by (metis diff_le_self min.absorb1 set_take_subset take_take)
  have "\<forall>w \<in> set (take (join_waiter_count (threads s ! t) - 1) (join_waiters (threads s ! t))). w < MAX_THREADS"
    using D(8) [OF t] sub [of "join_waiter_count (threads s ! t)" "join_waiters (threads s ! t)"] by blast
  then have i1: "sched_inv (update_thread t f s)"
    using D(6,7) [OF t] by (intro update_sched [OF inv t]) (simp_all add: f)
  then have tab': "table_inv (update_thread t f s)" by (simp add: sched_inv_def)
  note D' = table_invD [OF tab']
  have "\<forall>w \<in> set (take (join_waiter_count (threads (update_thread t f s) ! t))
      (join_waiters (threads (update_thread t f s) ! t))). w < MAX_THREADS"
    using D'(8) [OF t] by blast
  then have "sched_inv (update_thread t g (update_thread t f s))"
    using D'(6,7) [OF t] by (intro update_sched [OF i1 t]) (simp_all add: g)
  then show ?thesis
    using e inv unfolding join_resume_def Let_def f_def [symmetric] g_def [symmetric]
    by (simp split: if_splits)
qed

lemma quiet_discard: "quiet s (discard_process p s)"
  by (auto simp: discard_process_def quiet_def split: option.split)

lemma quiet_process_table:
  "quiet s (update_process p f s)" "quiet s (initialize_user_process a s)" "quiet s (snd (create_process a s))"
  by (auto simp: update_process_def initialize_user_process_def create_process_def quiet_def Let_def split: option.split)

lemma quiet_saves:
  "quiet s (save_syscall_state x s)" "quiet s (save_user_context u s)" "quiet s (snd (set_current_user_fs_base b s))"
  by (auto simp: save_syscall_state_def save_user_context_def set_current_user_fs_base_def Let_def
      intro!: quiet_update_thread)

lemma wait_enter_inv:
  assumes "sched_inv s" and "wait_process_enter p s = (r, s')"
  shows "sched_inv s'"
  using assms
  by (auto simp: wait_process_enter_def split: option.splits prod.splits
      dest: join_enter_inv intro: quiet_inv [OF quiet_discard])

lemma try_wait_inv:
  assumes "sched_inv s" and "try_wait_process p s = (r, s')"
  shows "sched_inv s'"
  using assms
  by (auto simp: try_wait_process_def split: option.splits prod.splits
      dest: try_join_inv intro: quiet_inv [OF quiet_discard])

lemma wait_resume_inv:
  assumes "sched_inv s" and "t < MAX_THREADS" and "wait_process_resume p t s = (r, s')"
  shows "sched_inv s'"
  using assms
  by (auto simp: wait_process_resume_def split: option.splits prod.splits
      dest: join_resume_inv intro: quiet_inv [OF quiet_discard])

lemma reap_inv:
  assumes "sched_inv s" and "reap_any_child s = (r, s')"
  shows "sched_inv s'"
  using assms
  by (auto simp: reap_any_child_def Let_def split: option.splits prod.splits
      dest: try_join_inv intro: quiet_inv [OF quiet_discard])

text \<open>Starting the scheduler from the boot thread.\<close>

lemma ensure_idle_effect:
  assumes e: "ensure_idle s = Some s'"
  obtains "s' = s"
    | s5 f where "\<not> idle_created s" "quiet s s5"
        "s' = (enqueue IDLE_THREAD (update_thread IDLE_THREAD f s5))\<lparr>idle_created := True\<rparr>"
        "\<And>x. thread_state (f x) = Ready \<and> join_waiters (f x) = join_waiters x \<and>
           join_waiter_count (f x) = join_waiter_count x"
proof (cases "idle_created s")
  case False
  obtain r1 s1 where a: "on_memory (allocate_kernel_stack IDLE_THREAD) s = (r1, s1)" by fastforce
  obtain k where r1: "r1 = Inr k" using e False a by (cases r1) (auto simp: ensure_idle_def)
  let ?s2 = "update_thread IDLE_THREAD (\<lambda>t. t\<lparr>stack_top := k\<rparr>) s1"
  obtain r3 s3 where b: "on_memory (allocate_kernel_stack (IDLE_THREAD + MAX_THREADS)) ?s2 = (r3, s3)" by fastforce
  obtain k3 where r3: "r3 = Inr k3" using e False a r1 b by (cases r3) (auto simp: ensure_idle_def)
  let ?s4 = "update_thread IDLE_THREAD (\<lambda>t. t\<lparr>syscall_stack_top := k3, stack_allocated := True\<rparr>) s3"
  have q3: "quiet s s3"
    by (rule quiet_trans [OF quiet_trans [OF quiet_on_memory [OF a] quiet_update_thread] quiet_on_memory [OF b]]) simp
  have q4: "quiet s (?s4\<lparr>kernel_words := w\<rparr>)" for w
    by (rule quiet_trans [OF quiet_trans [OF q3 quiet_update_thread] quiet_updates(2)]) simp
  define i where "i = stack_top (thread_at IDLE_THREAD s3) - 16"
  define f where "f = (\<lambda>t :: thread. t\<lparr>thread_context := (thread_context t)\<lparr>stack_pointer := i\<rparr>,
      thread_entry := Some (idle_thread (code ?s4)), thread_state := Ready\<rparr>)"
  let ?s5 = "?s4\<lparr>kernel_words := (kernel_words ?s4)(i := idle_thread (code ?s4))\<rparr>"
  have "s' = (enqueue IDLE_THREAD (update_thread IDLE_THREAD f ?s5))\<lparr>idle_created := True\<rparr>"
    using e False a r1 b r3 by (simp add: ensure_idle_def Let_def i_def f_def)
  then show ?thesis by (rule that(2) [OF False q4]) (simp add: f_def)
qed (use that e in \<open>simp add: ensure_idle_def\<close>)

lemma ensure_idle_inv:
  assumes inv: "sched_inv s" and nc: "current_thread s = NO_THREAD" and e: "ensure_idle s = Some s'"
  shows "sched_inv s' \<and> current_thread s' = NO_THREAD"
proof (rule ensure_idle_effect [OF e])
  fix s5 f
  assume nid: "\<not> idle_created s" and q: "quiet s s5"
    and s': "s' = (enqueue IDLE_THREAD (update_thread IDLE_THREAD f s5))\<lparr>idle_created := True\<rparr>"
    and f: "\<And>x. thread_state (f x) = Ready \<and> join_waiters (f x) = join_waiters x \<and>
           join_waiter_count (f x) = join_waiter_count x"
  have i5: "sched_inv s5" by (rule quiet_inv [OF q inv])
  have tab5: "table_inv s5" using i5 by (simp add: sched_inv_def)
  note D = table_invD [OF tab5]
  have c5: "current_thread s5 = NO_THREAD" and "\<not> idle_created s5" using q nc nid by (simp_all add: quiet_def)
  then have nr: "st IDLE_THREAD s5 \<noteq> Ready" using i5 by (auto simp: sched_inv_def)
  have "table_inv (enqueue IDLE_THREAD (update_thread IDLE_THREAD f s5))"
    using D(6-8) [of IDLE_THREAD] f by (intro make_ready(1) [OF tab5 _ nr]) auto
  moreover have "threads (update_thread IDLE_THREAD f s5) ! t =
      (if t = IDLE_THREAD then f (threads s5 ! IDLE_THREAD) else threads s5 ! t)" for t
    using D(1) by (simp add: update_thread_nth)
  ultimately show ?thesis
    using i5 c5 unfolding sched_inv_def s' by auto
qed (use assms in auto)

lemma schedule_from_scheduler_effect:
  assumes inv: "sched_inv s" and nc: "current_thread s = NO_THREAD"
  defines "n \<equiv> head_or_idle (ready_list s)" and "s' \<equiv> schedule_from_scheduler s"
  shows "sched_inv s'" "current_thread s' = n" "n < MAX_THREADS"
    "\<And>t. threads s' ! t = (if t = n then (threads s ! t)\<lparr>thread_state := Running\<rparr> else threads s ! t)"
    "cpu s' = (thread_context (threads s ! n))\<lparr>stack_pointer := stack_pointer (thread_context (threads s ! n)) + 8\<rparr>"
    "cpu_rip s' = kernel_words s' (stack_pointer (thread_context (threads s ! n)))"
proof -
  have tab: "table_inv s" using inv by (simp add: sched_inv_def)
  note D = table_invD [OF tab]
  obtain r s1 where p: "next_ready s = (r, s1)" "(case r of Some t \<Rightarrow> t | None \<Rightarrow> IDLE_THREAD) = n"
    "n < MAX_THREADS" "threads s1 = threads s" "s1 = s\<lparr>queue := queue s1\<rparr>"
    "table_inv (set_state n Running s1)"
    unfolding n_def by (rule pick_next [OF tab])
  show "n < MAX_THREADS" by (rule p)
  have f: "idle_created s1 = idle_created s" by (subst p(5)) simp
  let ?s2 = "set_state n Running (s1\<lparr>current_thread := n\<rparr>)"
  have inv2: "table_inv ?s2"
    using p(6) by (subst table_inv_cong [of _ "set_state n Running s1"]) (simp_all add: set_state_def update_thread_def)
  have nth2: "threads ?s2 ! t = (if t = n then (threads s ! n)\<lparr>thread_state := Running\<rparr> else threads s ! t)" for t
    using p D(1) by (simp add: set_state_nth)
  have s': "s' = load_context (thread_context (threads s ! n)) (?s2\<lparr>scheduler_context := cpu ?s2\<rparr>)"
    using p(1,2) by (simp add: s'_def schedule_from_scheduler_def Let_def thread_at_def nth2)
  have "\<forall>t. t \<noteq> IDLE_THREAD \<longrightarrow> t < MAX_THREADS \<longrightarrow> (st t ?s2 = Running \<longleftrightarrow> t = n)"
    using inv nc unfolding sched_inv_def nth2 by auto
  moreover have "st IDLE_THREAD ?s2 = Ready \<longrightarrow> idle_created s"
    using inv unfolding sched_inv_def nth2 by auto
  ultimately show "sched_inv s'"
    using inv2 p(3) f unfolding sched_inv_def s' by simp
  show "threads s' ! t = (if t = n then (threads s ! t)\<lparr>thread_state := Running\<rparr> else threads s ! t)" for t
    by (simp add: s' nth2)
  show "current_thread s' = n"
    "cpu s' = (thread_context (threads s ! n))\<lparr>stack_pointer := stack_pointer (thread_context (threads s ! n)) + 8\<rparr>"
    "cpu_rip s' = kernel_words s' (stack_pointer (thread_context (threads s ! n)))"
    by (simp_all add: s')
qed

end
