(* ===== verification/Scheduling.thy ===== *)
theory Scheduling
  imports Threads
begin

text \<open>
  Runs of the scheduler: every entry point of \<open>threads.rs\<close> as a step of one transition system,
  started in the state the static tables have at boot.  The properties of the scheduler are
  stated over these runs.
\<close>

section \<open>Steps and runs\<close>

datatype sched_op =
    Start
  | Spawn u64
  | SpawnUser nat u64 u64 u64 "u64 option"
  | Yield
  | Block
  | Wake nat
  | Exit u64
  | JoinEnter nat
  | JoinResume nat
  | TryJoin nat
  | WaitEnter nat
  | WaitResume nat nat
  | TryWait nat
  | ReapAnyChild
  | InitializeUserProcess u64
  | CreateProcess u64
  | SetMainThread nat nat
  | SaveSyscallState syscall_state
  | SaveUserContext user_context
  | SetFsBase u64
  | RequestPreemption
  | UserThreadEnter
  | Compute cpu_context "u64 \<Rightarrow> u64" memory

text \<open>
  \<open>Compute\<close> is what the running code does between two calls: it may change its registers, its
  stack and memory, not the scheduler's tables.  \<open>start\<close> is called once, by the boot code,
  when no thread runs; the remaining part of a \<open>join\<close> runs with the identifier \<open>join\<close> checked.
\<close>

definition sched_step :: "sched_op \<Rightarrow> kernel \<Rightarrow> kernel" where
  "sched_step op s =
     (case op of
        Start \<Rightarrow> (if current_thread s = NO_THREAD then (case start s of None \<Rightarrow> s | Some s' \<Rightarrow> s') else s)
      | Spawn entry \<Rightarrow> snd (spawn entry s)
      | SpawnUser process entry argument tls_base initial_stack \<Rightarrow>
          snd (spawn_user_for_process process entry argument tls_base initial_stack s)
      | Yield \<Rightarrow> yield_now s
      | Block \<Rightarrow> block_current s
      | Wake thread \<Rightarrow> snd (wake thread s)
      | Exit status \<Rightarrow> exit_current_with_status status s
      | JoinEnter thread \<Rightarrow> snd (join_enter thread s)
      | JoinResume thread \<Rightarrow> (if thread < MAX_THREADS then snd (join_resume thread s) else s)
      | TryJoin thread \<Rightarrow> snd (try_join thread s)
      | WaitEnter process \<Rightarrow> snd (wait_process_enter process s)
      | WaitResume process thread \<Rightarrow>
          (if thread < MAX_THREADS then snd (wait_process_resume process thread s) else s)
      | TryWait process \<Rightarrow> snd (try_wait_process process s)
      | ReapAnyChild \<Rightarrow> snd (reap_any_child s)
      | InitializeUserProcess address_space \<Rightarrow> initialize_user_process address_space s
      | CreateProcess address_space \<Rightarrow> snd (create_process address_space s)
      | SetMainThread process thread \<Rightarrow> set_process_main_thread process thread s
      | SaveSyscallState x \<Rightarrow> save_syscall_state x s
      | SaveUserContext ctx \<Rightarrow> save_user_context ctx s
      | SetFsBase base \<Rightarrow> snd (set_current_user_fs_base base s)
      | RequestPreemption \<Rightarrow> request_preemption s
      | UserThreadEnter \<Rightarrow> snd (user_thread_enter s)
      | Compute ctx ws m \<Rightarrow> s\<lparr>cpu := ctx, kernel_words := ws, kmem := m\<rparr>)"

definition sched_run :: "sched_op list \<Rightarrow> kernel \<Rightarrow> kernel" where
  "sched_run ops s = fold sched_step ops s"

lemma initial_inv: "sched_inv (kernel_initial c m)"
proof -
  have "threads (kernel_initial c m) ! t = thread_empty" if "t < MAX_THREADS" for t
    using that by (simp add: kernel_initial_def)
  moreover have "{t. t < MAX_THREADS \<and> st t (kernel_initial c m) = Ready} = {}"
    using calculation by (auto simp: thread_empty_def)
  ultimately show ?thesis
    unfolding sched_inv_def table_inv_def ready_list_def
    using queue_empty_wf by (simp add: kernel_initial_def thread_empty_def MAX_THREADS_def IDLE_THREAD_def NO_THREAD_def)
qed

lemma result_inv:
  assumes "sched_inv s"
  shows "sched_inv (snd (spawn entry s))"
    "sched_inv (snd (spawn_user_for_process process entry argument tls_base initial_stack s))"
    "sched_inv (snd (wake t s))" "sched_inv (snd (join_enter t s))" "sched_inv (snd (try_join t s))"
    "t < MAX_THREADS \<Longrightarrow> sched_inv (snd (join_resume t s))"
    "t < MAX_THREADS \<Longrightarrow> sched_inv (snd (wait_process_resume p t s))"
    "sched_inv (snd (wait_process_enter p s))" "sched_inv (snd (try_wait_process p s))"
    "sched_inv (snd (reap_any_child s))"
  using spawn_inv [OF assms prod.collapse [symmetric]] spawn_user_inv [OF assms prod.collapse [symmetric]]
    wake_inv [OF assms prod.collapse [symmetric]] join_enter_inv [OF assms prod.collapse [symmetric]]
    try_join_inv [OF assms prod.collapse [symmetric]] join_resume_inv [OF assms _ prod.collapse [symmetric]]
    wait_resume_inv [OF assms _ prod.collapse [symmetric]] wait_enter_inv [OF assms prod.collapse [symmetric]]
    try_wait_inv [OF assms prod.collapse [symmetric]] reap_inv [OF assms prod.collapse [symmetric]]
  by blast+

lemma start_inv:
  assumes inv: "sched_inv s"
  shows "sched_inv (sched_step Start s)"
proof (cases "current_thread s = NO_THREAD \<and> ensure_idle s \<noteq> None")
  case True
  then obtain s1 where e: "ensure_idle s = Some s1" by blast
  have "sched_inv (schedule_from_scheduler s1)"
    using ensure_idle_inv [OF inv _ e] True by (intro schedule_from_scheduler_effect(1)) blast+
  then show ?thesis using True e by (simp add: sched_step_def start_def)
qed (use inv in \<open>auto simp: sched_step_def start_def\<close>)

lemma quiet_step:
  "quiet s (snd (user_thread_enter s))" "quiet s (s\<lparr>cpu := ctx, kernel_words := ws, kmem := m\<rparr>)"
  "quiet s (request_preemption s)" "quiet s (set_process_main_thread p t s)"
proof -
  show "quiet s (snd (user_thread_enter s))"
    by (auto simp: user_thread_enter_def Let_def split: option.split)
  show "quiet s (set_process_main_thread p t s)"
    by (simp add: set_process_main_thread_def quiet_process_table)
qed (simp_all add: quiet_def request_preemption_def)

lemmas quiet_steps = quiet_step quiet_process_table quiet_saves

lemma step_inv:
  assumes inv: "sched_inv s"
  shows "sched_inv (sched_step op s)"
  using result_inv [OF inv] start_inv [OF inv] inv quiet_inv [OF quiet_step(1) inv] quiet_inv [OF quiet_step(2) inv]
    quiet_inv [OF quiet_step(3) inv] quiet_inv [OF quiet_step(4) inv] quiet_inv [OF quiet_process_table(2) inv]
    quiet_inv [OF quiet_process_table(3) inv] quiet_inv [OF quiet_saves(1) inv] quiet_inv [OF quiet_saves(2) inv]
    quiet_inv [OF quiet_saves(3) inv] yield_inv [OF inv] block_inv [OF inv] exit_inv [OF inv]
  by (cases op) (simp_all add: sched_step_def)

lemma run_inv: "sched_inv s \<Longrightarrow> sched_inv (sched_run ops s)"
  by (induction ops arbitrary: s) (simp_all add: sched_run_def step_inv)

lemma sched_boot_inv: "sched_inv (sched_run ops (kernel_initial c m))"
  by (rule run_inv [OF initial_inv])

section \<open>What a step does to the other threads\<close>

text \<open>
  A thread that is neither free nor running keeps its saved registers and its status; it can
  only be woken.  With \<open>b\<close> it is also not released for reuse.
\<close>

definition keep :: "bool \<Rightarrow> nat \<Rightarrow> kernel \<Rightarrow> kernel \<Rightarrow> bool" where
  "keep b t s s' \<longleftrightarrow> (st t s \<noteq> Exited \<or> \<not> reapable (threads s ! t) \<longrightarrow>
     thread_context (threads s' ! t) = thread_context (threads s ! t) \<and>
     exit_status (threads s' ! t) = exit_status (threads s ! t) \<and>
     (st t s' = st t s \<or> (st t s = Blocked \<and> st t s' = Ready)) \<and>
     (b \<longrightarrow> reapable (threads s' ! t) = reapable (threads s ! t)))"

definition gentle :: "bool \<Rightarrow> kernel \<Rightarrow> kernel \<Rightarrow> bool" where
  "gentle b s s' \<longleftrightarrow> current_thread s' = current_thread s \<and>
     (\<forall>t. t < MAX_THREADS \<longrightarrow> t \<noteq> IDLE_THREAD \<longrightarrow> keep b t s s')"

definition handover :: "bool \<Rightarrow> kernel \<Rightarrow> kernel \<Rightarrow> bool" where
  "handover b s s1 \<longleftrightarrow> switching s1 \<and> current_thread s1 = current_thread s \<and> cpu s1 = cpu s \<and>
     (\<forall>t. t < MAX_THREADS \<longrightarrow> t \<noteq> IDLE_THREAD \<longrightarrow> t \<noteq> current_thread s \<longrightarrow> keep b t s s1)"




lemma sched_length: "sched_inv s \<Longrightarrow> length (threads s) = MAX_THREADS"
  by (simp add: sched_inv_def table_inv_def)

lemma keep_refl [simp]: "keep b t s s"
  by (simp add: keep_def)










lemma gentle_trans:
  assumes "gentle False s s1" and "gentle False s1 s2" and "\<And>t. t < MAX_THREADS \<Longrightarrow> st t s1 = st t s"
    and "\<And>t. t < MAX_THREADS \<Longrightarrow> reapable (threads s1 ! t) = reapable (threads s ! t)"
  shows "gentle False s s2"
  using assms by (auto simp: gentle_def keep_def)





lemma handover_block:
  assumes inv: "sched_inv s" and c: "current_thread s \<noteq> NO_THREAD" "current_thread s \<noteq> IDLE_THREAD"
  shows "handover b s (set_state (current_thread s) Blocked s)"
proof -
  have "switching (set_state (current_thread s) Blocked s)"
    unfolding set_state_def by (rule switching_stopped [OF inv c]) auto
  then show ?thesis
    using running_current [OF inv c] table_invD(1)
    by (auto simp: handover_def keep_def set_state_nth)
qed

lemma wake_list_cpu [simp]: "cpu (fold wake_waiter ws s) = cpu s"
  by (induction ws arbitrary: s) (simp_all add: wake_waiter_def)



lemma head_ready:
  assumes "table_inv s" and "head_or_idle (ready_list s) \<noteq> IDLE_THREAD"
  shows "st (head_or_idle (ready_list s)) s = Ready"
  using table_invD(4) [OF assms(1)] assms(2)
  by (cases "ready_list s") (auto simp: head_or_idle_def set_eq_iff split: list.splits)





lemma block_effect:
  assumes inv: "sched_inv s" and c: "current_thread s \<noteq> NO_THREAD" "current_thread s \<noteq> IDLE_THREAD"
  shows "current_thread (block_current s) \<noteq> current_thread s" "st (current_thread s) (block_current s) = Blocked"
    "\<And>t. t < MAX_THREADS \<Longrightarrow> join_waiters (threads (block_current s) ! t) = join_waiters (threads s ! t) \<and>
       join_waiter_count (threads (block_current s) ! t) = join_waiter_count (threads s ! t)"
proof -
  let ?c = "current_thread s"
  let ?s1 = "set_state ?c Blocked s"
  have h: "handover True s ?s1" by (rule handover_block [OF inv c])
  have sw: "switching ?s1" using h by (simp add: handover_def)
  have b: "block_current s = schedule_from_current (current_thread ?s1) ?s1"
    using c by (simp add: block_current_def Let_def)
  note E = schedule_effect [OF sw b]
  note C = running_current [OF inv c]
  have nth1: "threads ?s1 ! t = (if t = ?c then (threads s ! t)\<lparr>thread_state := Blocked\<rparr> else threads s ! t)" for t
    using C(1) table_invD(1) [OF C(3)] by (simp add: set_state_nth)
  have tab: "table_inv ?s1" using sw by (simp add: switching_def)
  have n: "head_or_idle (ready_list ?s1) \<noteq> ?c"
    using head_ready [OF tab] c(2) nth1 [of ?c] by fastforce
  then show "current_thread (block_current s) \<noteq> ?c" using E(2) by simp
  show "st ?c (block_current s) = Blocked" using E(4) [OF C(1)] n nth1 [of ?c] by simp
  show "join_waiters (threads (block_current s) ! t) = join_waiters (threads s ! t) \<and>
       join_waiter_count (threads (block_current s) ! t) = join_waiter_count (threads s ! t)" if "t < MAX_THREADS" for t
    unfolding E(4) [OF that] nth1 by simp
qed










section \<open>Properties\<close>


text \<open>Yielding rotates the queue.\<close>

definition turn_order :: "kernel \<Rightarrow> nat list" where
  "turn_order s = ready_list s @ (if current_thread s = IDLE_THREAD then [] else [current_thread s])"

lemma yield_rotates:
  assumes inv: "sched_inv s" and c: "current_thread s \<noteq> NO_THREAD"
  shows "current_thread (yield_now s) = head_or_idle (turn_order s)"
    "ready_list (yield_now s) = tl (turn_order s)"
    "current_thread (yield_now s) \<noteq> NO_THREAD"
proof -
  have "current_thread (yield_now s) = head_or_idle (turn_order s) \<and> ready_list (yield_now s) = tl (turn_order s)"
  proof (cases "current_thread s = IDLE_THREAD")
    case True
    then have y: "yield_now s = schedule_from_current (current_thread s) s" by (simp add: yield_now_def)
    show ?thesis
      using schedule_effect(2,3) [OF switching_idle [OF inv True] y] True by (simp add: turn_order_def)
  next
    case False
    let ?s1 = "enqueue (current_thread s) (set_state (current_thread s) Ready s)"
    note S = switching_requeued [OF inv c False]
    have y: "yield_now s = schedule_from_current (current_thread ?s1) ?s1"
      using False c S(3) by (simp add: yield_now_def Let_def)
    show ?thesis
      using schedule_effect(2,3) [OF S(1) y] False S(2) by (simp add: turn_order_def)
  qed
  then show "current_thread (yield_now s) = head_or_idle (turn_order s)"
    and rl: "ready_list (yield_now s) = tl (turn_order s)" by blast+
  have "switching s1 \<Longrightarrow> head_or_idle (ready_list s1) \<noteq> NO_THREAD" for s1
    by (metis pick_next switching_def no_thread_big(1))
  then show "current_thread (yield_now s) \<noteq> NO_THREAD"
    using switching_idle [OF inv] switching_requeued(1,2) [OF inv c]
      \<open>_ \<and> _\<close> unfolding turn_order_def by (metis append_Nil2)
qed

lemma yield_turns:
  assumes "sched_inv s" and "current_thread s \<noteq> NO_THREAD" and "k < length (turn_order s)"
  shows "sched_inv ((yield_now ^^ Suc k) s) \<and> current_thread ((yield_now ^^ Suc k) s) = turn_order s ! k \<and>
    current_thread ((yield_now ^^ Suc k) s) \<noteq> NO_THREAD \<and>
    ready_list ((yield_now ^^ Suc k) s) = drop (Suc k) (turn_order s) @ filter (\<lambda>t. t \<noteq> IDLE_THREAD) (take k (turn_order s))"
  using assms(3)
proof (induction k)
  case 0
  obtain x xs where xs: "turn_order s = x # xs" using 0 by (cases "turn_order s") auto
  show ?case
    using yield_rotates [OF assms(1,2)] yield_inv [OF assms(1)] by (simp add: xs head_or_idle_def)
next
  case (Suc k)
  define L where "L = turn_order s"
  let ?s = "(yield_now ^^ Suc k) s"
  have k: "k < length L" "Suc k < length L" using Suc.prems by (simp_all add: L_def)
  have I: "sched_inv ?s" "current_thread ?s = L ! k" "current_thread ?s \<noteq> NO_THREAD"
    "ready_list ?s = drop (Suc k) L @ filter (\<lambda>t. t \<noteq> IDLE_THREAD) (take k L)"
    using Suc.IH k(1) unfolding L_def by blast+
  have d: "drop (Suc k) L = L ! Suc k # drop (Suc (Suc k)) L" using k(2) by (simp add: Cons_nth_drop_Suc)
  have "turn_order ?s = drop (Suc k) L @ filter (\<lambda>t. t \<noteq> IDLE_THREAD) (take k L) @
      (if L ! k = IDLE_THREAD then [] else [L ! k])"
    unfolding turn_order_def [of ?s] I(2,4) by simp
  also have "\<dots> = L ! Suc k # drop (Suc (Suc k)) L @ filter (\<lambda>t. t \<noteq> IDLE_THREAD) (take (Suc k) L)"
    unfolding d using k(1) by (simp add: take_Suc_conv_app_nth)
  finally have to: "turn_order ?s = \<dots>" .
  have step: "(yield_now ^^ Suc (Suc k)) s = yield_now ?s" by simp
  show ?case
    unfolding step L_def [symmetric] using yield_rotates [OF I(1,3)] yield_inv [OF I(1)]
    unfolding to by (simp add: head_or_idle_def del: funpow.simps)
qed

text \<open>
  C14: the scheduler is fair.  In every reachable state with a running thread, as long as the
  threads only yield, the ready threads run one after the other in queue order, and then the
  thread that gave up the processor runs again (the idle thread is not queued).
\<close>

theorem round_robin:
  "let s = sched_run ops (kernel_initial c m);
       turns = ready_list s @ (if current_thread s = IDLE_THREAD then [] else [current_thread s])
   in if current_thread s = NO_THREAD then True
      else map (\<lambda>k. current_thread ((yield_now ^^ Suc k) s)) [0..<length turns] = turns"
proof -
  define s where "s = sched_run ops (kernel_initial c m)"
  have inv: "sched_inv s" unfolding s_def by (rule sched_boot_inv)
  have "map (\<lambda>k. current_thread ((yield_now ^^ Suc k) s)) [0..<length (turn_order s)] = turn_order s"
    if "current_thread s \<noteq> NO_THREAD"
    by (rule nth_equalityI) (use yield_turns [OF inv that] in \<open>simp_all del: funpow.simps\<close>)
  then show ?thesis
    unfolding s_def [symmetric] Let_def turn_order_def [symmetric] by (simp del: funpow.simps)
qed



text \<open>
  C15: when the running thread exits, its slot keeps the status, kernel threads are released at
  once, every thread blocked in a join on it becomes ready (or running), and no other thread
  changes its state except the one that gets the processor next, the head of the queue.
\<close>

theorem exit_wakes_joiners:
  "let s = sched_run ops (kernel_initial c m); me = current_thread s; s' = exit_current_with_status status s;
       joiners = {w. w \<in> set (take (join_waiter_count (thread_at me s)) (join_waiters (thread_at me s))) \<and>
                     thread_state_of w s = Some Blocked}
   in if me = NO_THREAD \<or> me = IDLE_THREAD then s' = s
      else thread_state_of me s' = Some Exited \<and> exit_status (thread_at me s') = status \<and>
           reapable (thread_at me s') = (\<not> is_user (thread_at me s)) \<and> current_thread s' \<noteq> me \<and>
           thread_state_of (current_thread s') s' = Some Running \<and>
           {w. w \<in> joiners \<and> thread_state_of w s' \<in> {Some Ready, Some Running}} = joiners \<and>
           {t. t < MAX_THREADS \<and> t \<noteq> me \<and> t \<noteq> current_thread s' \<and> thread_state_of t s' \<noteq> thread_state_of t s} =
             joiners - {current_thread s'}"
proof -
  define s where "s = sched_run ops (kernel_initial c m)"
  have inv: "sched_inv s" unfolding s_def by (rule sched_boot_inv)
  let ?me = "current_thread s" and ?s' = "exit_current_with_status status s"
  define ws where "ws = take (join_waiter_count (threads s ! ?me)) (join_waiters (threads s ! ?me))"
  define J where "J = {w. w \<in> set ws \<and> thread_state_of w s = Some Blocked}"
  have "thread_state_of ?me ?s' = Some Exited \<and> exit_status (thread_at ?me ?s') = status \<and>
      reapable (thread_at ?me ?s') = (\<not> is_user (thread_at ?me s)) \<and> current_thread ?s' \<noteq> ?me \<and>
      thread_state_of (current_thread ?s') ?s' = Some Running \<and>
      {w. w \<in> J \<and> thread_state_of w ?s' \<in> {Some Ready, Some Running}} = J \<and>
      {t. t < MAX_THREADS \<and> t \<noteq> ?me \<and> t \<noteq> current_thread ?s' \<and> thread_state_of t ?s' \<noteq> thread_state_of t s} =
        J - {current_thread ?s'}"
    if c: "?me \<noteq> NO_THREAD" "?me \<noteq> IDLE_THREAD"
  proof -
    note C = running_current [OF inv c]
    note D = table_invD [OF C(3)]
    let ?h = "exit_handed_over status s"
    note H = exit_switching [OF inv c, of status, folded ws_def]
    have h: "?s' = schedule_from_current (current_thread ?h) ?h" using H(2,4) by simp
    note E = schedule_effect [OF H(1) h, unfolded H(2)]
    define n where "n = head_or_idle (ready_list ?h)"
    have tab: "table_inv ?h" using H(1) by (simp add: switching_def)
    have nm: "n < MAX_THREADS" using pick_next [OF tab] unfolding n_def by metis
    have hme: "st ?me ?h = Exited" by (simp add: H(3))
    have ne: "n \<noteq> ?me"
    proof
      assume "n = ?me"
      then have "st ?me ?h = Ready" using head_ready [OF tab] c(2) by (simp add: n_def)
      then show False using hme by simp
    qed
    have of: "u < MAX_THREADS \<Longrightarrow> thread_state_of u r = Some (st u r)" for u r
      by (simp add: thread_state_of_def thread_at_def)
    have ws: "w < MAX_THREADS" if "w \<in> set ws" for w using D(8) [OF C(1)] that by (simp add: ws_def)
    have cur: "current_thread ?s' = n" using E(2) by (simp add: n_def)
    have nth: "threads ?s' ! u = (if u = n then (threads ?h ! u)\<lparr>thread_state := Running\<rparr>
        else if u = ?me then (threads ?h ! u)\<lparr>thread_context := cpu ?h\<rparr> else threads ?h ! u)" if "u < MAX_THREADS" for u
      using E(4) [OF that] by (simp add: n_def)
    have stu: "st u ?s' = (if u = n then Running else if u = ?me then Exited
        else if u \<in> set ws \<and> st u s = Blocked then Ready else st u s)" if "u < MAX_THREADS" for u
      unfolding nth [OF that] using hme by (simp add: H(3))
    have mJ: "?me \<notin> J" using C by (simp add: J_def of)
    have "{t. t < MAX_THREADS \<and> t \<noteq> ?me \<and> t \<noteq> n \<and> thread_state_of t ?s' \<noteq> thread_state_of t s} = J - {n}"
      using ws mJ by (auto simp: J_def of stu split: if_splits)
    moreover have "{w. w \<in> J \<and> thread_state_of w ?s' \<in> {Some Ready, Some Running}} = J"
      using ws mJ by (auto simp: J_def of stu)
    moreover have "thread_state_of ?me ?s' = Some Exited" "thread_state_of n ?s' = Some Running"
      using C(1) nm ne by (simp_all add: of stu)
    moreover have "exit_status (thread_at ?me ?s') = status" "reapable (thread_at ?me ?s') = (\<not> is_user (thread_at ?me s))"
      using ne C(1) by (simp_all add: thread_at_def nth H(3))
    ultimately show ?thesis using ne unfolding cur by simp
  qed
  moreover have "?s' = s" if "?me = NO_THREAD \<or> ?me = IDLE_THREAD"
    using that by (auto simp: exit_current_with_status_def)
  ultimately show ?thesis
    unfolding s_def [symmetric] Let_def J_def ws_def thread_at_def by simp
qed

text \<open>
  \<open>spawn\<close> takes the first slot whose thread has exited and is released, and nothing else: a
  failure leaves the queue and every thread's state, registers and status as they were; a
  success appends the slot to the queue, ready to start at the trampoline with the requested
  entry point, and changes no other thread and not the running one.
\<close>

theorem spawn_takes_free_slot:
  "let s = sched_run ops (kernel_initial c m);
       others = (\<lambda>r u. (thread_state_of u r, thread_context (thread_at u r), exit_status (thread_at u r),
                       join_waiters (thread_at u r), is_user (thread_at u r), thread_process (thread_at u r)))
   in case spawn entry s of
        (None, s') \<Rightarrow> ready_list s' = ready_list s \<and> current_thread s' = current_thread s \<and>
          map (others s') [0..<MAX_THREADS] = map (others s) [0..<MAX_THREADS]
      | (Some t, s') \<Rightarrow>
          free_slot s = Some t \<and> 0 < t \<and> t < MAX_THREADS \<and>
          thread_state_of t s = Some Exited \<and> reapable (thread_at t s) \<and>
          ready_list s' = ready_list s @ [t] \<and> current_thread s' = current_thread s \<and>
          thread_state_of t s' = Some Ready \<and> thread_entry (thread_at t s') = Some entry \<and>
          kernel_words s' (stack_pointer (thread_context (thread_at t s'))) = thread_trampoline (code s') \<and>
          \<not> is_user (thread_at t s') \<and> \<not> reapable (thread_at t s') \<and> join_waiter_count (thread_at t s') = 0 \<and>
          map (others s') (filter (\<lambda>u. u \<noteq> t) [0..<MAX_THREADS]) = map (others s) (filter (\<lambda>u. u \<noteq> t) [0..<MAX_THREADS])"
proof -
  define s where "s = sched_run ops (kernel_initial c m)"
  define others where "others = (\<lambda>r u. (thread_state_of u r, thread_context (thread_at u r), exit_status (thread_at u r),
                       join_waiters (thread_at u r), is_user (thread_at u r), thread_process (thread_at u r)))"
  have inv: "sched_inv s" unfolding s_def by (rule sched_boot_inv)
  obtain r s' where e: "spawn entry s = (r, s')" by fastforce
  have len: "length (threads s) = MAX_THREADS" using sched_length [OF inv] .
  have q: "queue s2 = queue s" "current_thread s2 = current_thread s"
    "u < MAX_THREADS \<Longrightarrow> others s2 u = others s u" if "quiet s s2" for s2 u
    using that len by (simp_all add: quiet_def others_def thread_state_of_def thread_at_def)
  show ?thesis
    unfolding s_def [symmetric] Let_def others_def [symmetric] e
  proof (rule spawn_effect [OF e])
    assume "r = None" and Q: "quiet s s'"
    moreover have "map (others s') [0..<MAX_THREADS] = map (others s) [0..<MAX_THREADS]"
      by (rule map_cong [OF refl]) (simp add: q(3) [OF Q])
    ultimately show "case (r, s') of
        (None, s') \<Rightarrow> ready_list s' = ready_list s \<and> current_thread s' = current_thread s \<and>
          map (others s') [0..<MAX_THREADS] = map (others s) [0..<MAX_THREADS]
      | (Some t, s') \<Rightarrow>
          free_slot s = Some t \<and> 0 < t \<and> t < MAX_THREADS \<and>
          thread_state_of t s = Some Exited \<and> reapable (thread_at t s) \<and>
          ready_list s' = ready_list s @ [t] \<and> current_thread s' = current_thread s \<and>
          thread_state_of t s' = Some Ready \<and> thread_entry (thread_at t s') = Some entry \<and>
          kernel_words s' (stack_pointer (thread_context (thread_at t s'))) = thread_trampoline (code s') \<and>
          \<not> is_user (thread_at t s') \<and> \<not> reapable (thread_at t s') \<and> join_waiter_count (thread_at t s') = 0 \<and>
          map (others s') (filter (\<lambda>u. u \<noteq> t) [0..<MAX_THREADS]) = map (others s) (filter (\<lambda>u. u \<noteq> t) [0..<MAX_THREADS])"
      using q [OF Q] by (simp add: ready_list_def)
  next
    fix slot s2 f
    assume r: "r = Some slot" and slot: "free_slot s = Some slot" and Q: "quiet s s2"
      and s': "s' = enqueue slot (update_thread slot f s2)"
      and f: "\<And>x. thread_state (f x) = Ready \<and> join_waiters (f x) = replicate MAX_THREADS NO_THREAD \<and>
           join_waiter_count (f x) = 0 \<and> thread_entry (f x) = Some entry \<and> \<not> is_user (f x) \<and> \<not> reapable (f x) \<and>
           kernel_words s2 (stack_pointer (thread_context (f x))) = thread_trampoline (code s2)"
    note F = free_slot_props [OF slot]
    have i2: "sched_inv s2" by (rule quiet_inv [OF Q inv])
    have tab: "table_inv s2" using i2 by (simp add: sched_inv_def)
    have nr: "st slot s2 \<noteq> Ready" using quiet_free_slot [OF inv slot Q] by simp
    have rl: "ready_list s' = ready_list s2 @ [slot]"
      unfolding s' by (rule make_ready(2) [OF tab F(2) nr]) (use f in auto)
    have nth: "threads s' ! u = (if u = slot then f (threads s2 ! u) else threads s2 ! u)" for u
      using F(2) table_invD(1) [OF tab] by (simp add: s' update_thread_nth)
    have "others s' u = others s2 u" if "u \<noteq> slot" for u
      using that by (simp add: others_def thread_state_of_def thread_at_def nth)
    then have "map (others s') (filter (\<lambda>u. u \<noteq> slot) [0..<MAX_THREADS]) =
        map (others s) (filter (\<lambda>u. u \<noteq> slot) [0..<MAX_THREADS])"
      using q(3) [OF Q] by (intro map_cong [OF refl]) auto
    moreover have "kernel_words s' = kernel_words s2" "code s' = code s2" by (simp_all add: s')
    moreover have "ready_list s2 = ready_list s" using q(1) [OF Q] by (simp add: ready_list_def)
    moreover have "current_thread s' = current_thread s" using q(2) [OF Q] by (simp add: s')
    ultimately show "case (r, s') of
        (None, s') \<Rightarrow> ready_list s' = ready_list s \<and> current_thread s' = current_thread s \<and>
          map (others s') [0..<MAX_THREADS] = map (others s) [0..<MAX_THREADS]
      | (Some t, s') \<Rightarrow>
          free_slot s = Some t \<and> 0 < t \<and> t < MAX_THREADS \<and>
          thread_state_of t s = Some Exited \<and> reapable (thread_at t s) \<and>
          ready_list s' = ready_list s @ [t] \<and> current_thread s' = current_thread s \<and>
          thread_state_of t s' = Some Ready \<and> thread_entry (thread_at t s') = Some entry \<and>
          kernel_words s' (stack_pointer (thread_context (thread_at t s'))) = thread_trampoline (code s') \<and>
          \<not> is_user (thread_at t s') \<and> \<not> reapable (thread_at t s') \<and> join_waiter_count (thread_at t s') = 0 \<and>
          map (others s') (filter (\<lambda>u. u \<noteq> t) [0..<MAX_THREADS]) = map (others s) (filter (\<lambda>u. u \<noteq> t) [0..<MAX_THREADS])"
      using r slot F f rl by (simp add: thread_state_of_def thread_at_def nth)
  qed
qed

end
