(* ===== verification/Processes.thy ===== *)
theory Processes
  imports Scheduling
begin

text \<open>
  The process table of \<open>threads.rs\<close>: identifiers, parents and the operations that wait for,
  terminate and discard child processes.
\<close>

section \<open>The process table under the operations\<close>

text \<open>
  Slot \<open>i\<close> is free or holds process \<open>i + 1\<close>, so identifiers are unique; a free slot has no parent.
\<close>

definition table_ok :: "process list \<Rightarrow> bool" where
  "table_ok ps \<longleftrightarrow> length ps = MAX_PROCESSES \<and>
     (\<forall>i < MAX_PROCESSES. (proc_id (ps ! i) = NO_THREAD \<and> proc_parent (ps ! i) = None) \<or> proc_id (ps ! i) = i + 1)"

lemma processes_release [simp]: "processes (release_resources slot s) = processes s"
  by (simp add: release_resources_def Let_def)

lemma processes_on_memory: "on_memory f s = (r, s') \<Longrightarrow> processes s' = processes s"
  by (auto simp: on_memory_def split: prod.splits)

lemma processes_allocate: "allocate_stacks slot s = (r, s') \<Longrightarrow> processes s' = processes s"
  by (auto simp: allocate_stacks_def Let_def split: if_splits prod.splits sum.splits dest!: processes_on_memory)

lemma processes_spawn: "spawn entry s = (r, s') \<Longrightarrow> processes s' = processes s"
  by (auto simp: spawn_def Let_def split: option.splits prod.splits dest!: processes_allocate)

lemma processes_spawn_user:
  assumes e: "spawn_user_for_process p entry arg tls stack s = (r, s')"
  shows "processes s' = processes s"
proof (cases "process_address_space p s = None \<or> free_slot s = None")
  case False
  then obtain slot where slot: "free_slot s = Some slot" by auto
  obtain a s1 where a: "allocate_stacks slot (release_resources slot s) = (a, s1)" by fastforce
  have p1: "processes s1 = processes s" using processes_allocate [OF a] by simp
  obtain c s3 where c: "on_memory (allocate_user_stack slot) s1 = (c, s3)" by fastforce
  have p3: "processes s3 = processes s" using processes_on_memory [OF c] p1 by simp
  show ?thesis
    using e False slot a c p1 p3
    by (cases a; cases stack; cases c)
      (auto simp: spawn_user_for_process_def Let_def split: option.splits)
qed (use e in \<open>auto simp: spawn_user_for_process_def split: if_splits\<close>)

lemma processes_ensure_idle: "ensure_idle s = Some s' \<Longrightarrow> processes s' = processes s"
  by (auto simp: ensure_idle_def Let_def split: if_splits prod.splits sum.splits dest!: processes_on_memory)

lemma processes_next_ready: "processes (snd (next_ready s)) = processes s"
proof (induction s rule: next_ready.induct)
  case (1 s)
  have d: "processes (snd (dequeue s)) = processes s" by (simp add: dequeue_def split: prod.split)
  show ?case
    using 1 d by (subst next_ready.simps) (auto split: prod.splits option.splits)
qed

lemma processes_schedule [simp]:
  "processes (schedule_from_current c s) = processes s" "processes (schedule_from_scheduler s) = processes s"
  using processes_next_ready [of s]
  by (auto simp: schedule_from_current_def schedule_from_scheduler_def switch_threads_def Let_def
      split: prod.splits option.splits)

lemma processes_switching [simp]:
  "processes (yield_now s) = processes s" "processes (block_current s) = processes s"
  by (simp_all add: yield_now_def block_current_def Let_def)

lemma processes_wake: "wake t s = (r, s') \<Longrightarrow> processes s' = processes s"
  by (auto simp: wake_def split: if_splits)

lemma processes_wake_waiters [simp]:
  "processes (wake_waiters t s) = processes s" "current_thread (wake_waiters t s) = current_thread s"
proof -
  have "processes (fold wake_waiter ws r) = processes r \<and> current_thread (fold wake_waiter ws r) = current_thread r" for ws r
    by (induction ws arbitrary: r) (simp_all add: wake_waiter_def)
  then show "processes (wake_waiters t s) = processes s" "current_thread (wake_waiters t s) = current_thread s"
    by (simp_all add: wake_waiters_def)
qed

lemma processes_joins:
  "join_enter t s = (a, s') \<Longrightarrow> processes s' = processes s" "join_resume t s = (b, s') \<Longrightarrow> processes s' = processes s"
  "try_join t s = (b, s') \<Longrightarrow> processes s' = processes s"
  by (auto simp: join_enter_def join_resume_def try_join_def Let_def split: if_splits)

lemma processes_saves [simp]:
  "processes (save_syscall_state x s) = processes s" "processes (save_user_context u s) = processes s"
  "processes (snd (set_current_user_fs_base b s)) = processes s" "processes (request_preemption s) = processes s"
  "processes (snd (user_thread_enter s)) = processes s"
  by (auto simp: save_syscall_state_def save_user_context_def set_current_user_fs_base_def Let_def
      request_preemption_def user_thread_enter_def split: option.split)

section \<open>Identifiers stay unique\<close>

lemma table_ok_initial: "table_ok (processes (kernel_initial c m))"
  by (simp add: table_ok_def kernel_initial_def process_empty_def)

lemma table_ok_update:
  assumes "table_ok ps" and "i < MAX_PROCESSES"
    and "(proc_id r = NO_THREAD \<and> proc_parent r = None) \<or> proc_id r = i + 1"
  shows "table_ok (ps[i := r])"
  using assms by (auto simp: table_ok_def nth_list_update)

lemma find_process:
  assumes "find_index P ps = Some i"
  shows "i < length ps" "P (ps ! i)"
  using assms by (simp_all add: find_index_Some)

lemma table_ok_update_process:
  assumes ok: "table_ok (processes s)" and f: "\<And>r. proc_id (f r) = proc_id r \<and> proc_parent (f r) = proc_parent r"
  shows "table_ok (processes (update_process p f s))"
proof (cases "find_index (\<lambda>record. proc_id record = p) (processes s)")
  case (Some i)
  have "i < MAX_PROCESSES" using find_process(1) [OF Some] ok by (simp add: table_ok_def)
  then have "table_ok ((processes s)[i := f (processes s ! i)])"
    using ok f by (intro table_ok_update [OF ok]) (auto simp: table_ok_def)
  then show ?thesis using Some by (simp add: update_process_def)
qed (use ok in \<open>simp add: update_process_def\<close>)

lemma table_ok_discard:
  assumes ok: "table_ok (processes s)"
  shows "table_ok (processes (discard_process p s))"
proof (cases "find_index (\<lambda>record. proc_id record = p) (processes s)")
  case (Some i)
  have "i < MAX_PROCESSES" using find_process(1) [OF Some] ok by (simp add: table_ok_def)
  then have "table_ok ((processes s)[i := process_empty])"
    by (intro table_ok_update [OF ok]) (auto simp: process_empty_def)
  then show ?thesis using Some by (simp add: discard_process_def)
qed (use ok in \<open>simp add: discard_process_def\<close>)

lemma table_ok_create:
  assumes ok: "table_ok (processes s)" and e: "create_process a s = (r, s')"
  shows "table_ok (processes s')"
proof (cases "find (\<lambda>slot. proc_id (processes s ! slot) = NO_THREAD) [1..<MAX_PROCESSES]")
  case (Some i)
  then have "i < MAX_PROCESSES" by (auto simp: find_Some_iff)
  then show ?thesis
    using e Some by (auto simp: create_process_def Let_def intro!: table_ok_update [OF ok])
qed (use e ok in \<open>simp add: create_process_def\<close>)

lemma table_ok_reparent:
  assumes ok: "table_ok (processes s)"
  shows "table_ok (processes (reparent_children_of_exited_process t s))"
proof -
  have "table_ok (map (\<lambda>record. if proc_parent record = Some x then record\<lparr>proc_parent := Some y\<rparr> else record) ps)"
    if "table_ok ps" for ps x y
    using that by (auto simp: table_ok_def)
  then show ?thesis
    using ok by (auto simp: reparent_children_of_exited_process_def Let_def split: option.split)
qed

lemma table_ok_exit:
  assumes ok: "table_ok (processes s)"
  shows "table_ok (processes (exit_current_with_status x s))"
proof -
  have "processes (wake_waiters t (update_thread u f s)) = processes s" for t u f by simp
  then show ?thesis
    using ok table_ok_reparent by (auto simp: exit_current_with_status_def Let_def)
qed

lemma table_ok_waits:
  assumes ok: "table_ok (processes s)"
  shows "wait_process_enter p s = (a, s') \<Longrightarrow> table_ok (processes s')"
    "wait_process_resume p t s = (b, s') \<Longrightarrow> table_ok (processes s')"
    "try_wait_process p s = (b, s') \<Longrightarrow> table_ok (processes s')"
    "reap_any_child s = (c, s') \<Longrightarrow> table_ok (processes s')"
proof -
  have d: "table_ok (processes (discard_process q r))" if "processes r = processes s" for q r
    using table_ok_discard [of r q] ok that by simp
  show "wait_process_enter p s = (a, s') \<Longrightarrow> table_ok (processes s')"
    using ok by (auto simp: wait_process_enter_def split: option.splits prod.splits
        dest: processes_joins intro!: d)
  show "wait_process_resume p t s = (b, s') \<Longrightarrow> table_ok (processes s')"
    using ok by (auto simp: wait_process_resume_def split: option.splits prod.splits
        dest: processes_joins intro!: d)
  show "try_wait_process p s = (b, s') \<Longrightarrow> table_ok (processes s')"
    using ok by (auto simp: try_wait_process_def split: option.splits prod.splits
        dest: processes_joins intro!: d)
  show "reap_any_child s = (c, s') \<Longrightarrow> table_ok (processes s')"
    using ok by (auto simp: reap_any_child_def Let_def split: option.splits prod.splits
        dest: processes_joins intro!: d)
qed

lemma table_ok_step:
  assumes ok: "table_ok (processes s)"
  shows "table_ok (processes (sched_step op s))"
proof (cases op)
  case Start
  then show ?thesis
    using ok by (auto simp: sched_step_def start_def dest: processes_ensure_idle split: option.split)
next
  case (SetMainThread p t)
  then show ?thesis
    using table_ok_update_process [OF ok] by (simp add: sched_step_def set_process_main_thread_def)
next
  case (InitializeUserProcess a)
  have "table_ok ((processes s)[0 := \<lparr>proc_id = USER_PROCESS_ID, proc_address_space = a,
      proc_parent = None, proc_main_thread = None\<rparr>])"
    by (rule table_ok_update [OF ok]) (simp_all add: USER_PROCESS_ID_def MAX_PROCESSES_def MAX_THREADS_def)
  then show ?thesis using InitializeUserProcess by (simp add: sched_step_def initialize_user_process_def)
qed (use ok table_ok_exit table_ok_waits [OF ok prod.collapse [symmetric]]
      table_ok_create [OF ok prod.collapse [symmetric]] processes_joins [OF prod.collapse [symmetric]]
      processes_wake [OF prod.collapse [symmetric]] processes_spawn [OF prod.collapse [symmetric]]
      processes_spawn_user [OF prod.collapse [symmetric]] in \<open>simp_all add: sched_step_def\<close>)

lemma run_table_ok: "table_ok (processes (sched_run ops (kernel_initial c m)))"
proof -
  have "table_ok (processes s) \<Longrightarrow> table_ok (processes (sched_run ops s))" for s
    by (induction ops arbitrary: s) (simp_all add: sched_run_def table_ok_step)
  then show ?thesis using table_ok_initial .
qed

lemma distinct_filter_nth:
  assumes "\<And>i j. i < length xs \<Longrightarrow> j < length xs \<Longrightarrow> P (xs ! i) \<Longrightarrow> xs ! i = xs ! j \<Longrightarrow> i = j"
  shows "distinct (filter P xs)"
  using assms
proof (induction xs)
  case (Cons x xs)
  have "distinct (filter P xs)"
    by (rule Cons.IH) (use Cons.prems [of "Suc _" "Suc _"] in auto)
  moreover have "x \<notin> set (filter P xs)" if "P x"
    using Cons.prems [of 0] that by (fastforce simp: in_set_conv_nth)
  ultimately show ?case by simp
qed simp

lemma find_unique:
  assumes ok: "table_ok ps" and i: "i < MAX_PROCESSES" and id: "proc_id (ps ! i) = p" "p \<noteq> NO_THREAD"
  shows "find_index (\<lambda>record. proc_id record = p) ps = Some i"
    and "p \<notin> proc_id ` set (ps[i := process_empty])"
proof -
  have other: "proc_id (ps ! j) \<noteq> p" if "j < MAX_PROCESSES" "j \<noteq> i" for j
  proof -
    have "proc_id (ps ! i) = i + 1" using ok i id by (auto simp: table_ok_def)
    moreover have "proc_id (ps ! j) = NO_THREAD \<or> proc_id (ps ! j) = j + 1"
      using ok that(1) by (auto simp: table_ok_def)
    ultimately show ?thesis using id that(2) by auto
  qed
  have len: "length ps = MAX_PROCESSES" using ok by (simp add: table_ok_def)
  show "find_index (\<lambda>record. proc_id record = p) ps = Some i"
    using i id other len by (auto simp: find_index_Some)
  show "p \<notin> proc_id ` set (ps[i := process_empty])"
  proof
    assume "p \<in> proc_id ` set (ps[i := process_empty])"
    then obtain j where "j < MAX_PROCESSES" "proc_id (ps[i := process_empty] ! j) = p"
      using len by (auto simp: in_set_conv_nth)
    then show False using id(2) other [of j] len by (cases "j = i") (simp_all add: process_empty_def)
  qed
qed

section \<open>Properties\<close>

text \<open>
  In every reachable state slot i of the process table is free or holds the process with
  identifier i + 1, so the identifiers of the live processes are pairwise different.
\<close>

theorem process_ids_unique:
  "let ids = map proc_id (processes (sched_run ops (kernel_initial c m))) in
     length ids = MAX_PROCESSES \<and>
     map (\<lambda>i. if ids ! i = NO_THREAD then i + 1 else ids ! i) [0..<MAX_PROCESSES] = [1..<MAX_PROCESSES + 1] \<and>
     distinct (filter (\<lambda>p. p \<noteq> NO_THREAD) ids)"
proof -
  define ps where "ps = processes (sched_run ops (kernel_initial c m))"
  have ok: "table_ok ps" unfolding ps_def by (rule run_table_ok)
  then have len: "length ps = MAX_PROCESSES" by (simp add: table_ok_def)
  have val: "(if map proc_id ps ! i = NO_THREAD then i + 1 else map proc_id ps ! i) = i + 1" if "i < MAX_PROCESSES" for i
    using ok that len by (auto simp: table_ok_def)
  have "map (\<lambda>i. if map proc_id ps ! i = NO_THREAD then i + 1 else map proc_id ps ! i) [0..<MAX_PROCESSES] =
      map (\<lambda>i. i + 1) [0..<MAX_PROCESSES]"
    by (rule map_cong [OF refl]) (use val in simp)
  also have "\<dots> = [1..<MAX_PROCESSES + 1]" using map_Suc_upt [of 0 MAX_PROCESSES] by simp
  finally have m: "map (\<lambda>i. if map proc_id ps ! i = NO_THREAD then i + 1 else map proc_id ps ! i) [0..<MAX_PROCESSES] =
      [1..<MAX_PROCESSES + 1]" .
  have "distinct (filter (\<lambda>p. p \<noteq> NO_THREAD) (map proc_id ps))"
  proof (rule distinct_filter_nth)
    fix i j
    assume "i < length (map proc_id ps)" "j < length (map proc_id ps)" "map proc_id ps ! i \<noteq> NO_THREAD"
      "map proc_id ps ! i = map proc_id ps ! j"
    then show "i = j" using val [of i] val [of j] len by simp
  qed
  then show ?thesis using m len unfolding ps_def [symmetric] Let_def by simp
qed

text \<open>
  C17: \<open>try_wait_process\<close> gives a status only to the parent of the process, only when the
  child's main thread has exited, and the status is that thread's; the record is then gone, no
  other record carries the identifier, and the child's address space is destroyed.  Without a
  result nothing changes.
\<close>

theorem try_wait_reaps_own_child:
  "let s = sched_run ops (kernel_initial c m)
   in case try_wait_process p s of
        (None, s') \<Rightarrow> s' = s
      | (Some status, s') \<Rightarrow>
          (\<exists>i t. i < MAX_PROCESSES \<and> proc_id (processes s ! i) = p \<and>
             current_process s \<noteq> None \<and> proc_parent (processes s ! i) = current_process s \<and>
             proc_main_thread (processes s ! i) = Some t \<and>
             thread_state_of t s = Some Exited \<and> exit_status (thread_at t s) = status \<and>
             processes s' = (processes s)[i := process_empty] \<and> p \<notin> proc_id ` set (processes s') \<and>
             kmem s' = destroy_user_address_space (proc_address_space (processes s ! i)) (kmem s))"
proof -
  define s where "s = sched_run ops (kernel_initial c m)"
  have ok: "table_ok (processes s)" unfolding s_def by (rule run_table_ok)
  obtain r s' where e: "try_wait_process p s = (r, s')" by fastforce
  show ?thesis
  proof (cases r)
    case None
    then have "s' = s"
      using e by (auto simp: try_wait_process_def try_join_def Let_def split: option.splits if_splits)
    then show ?thesis using None e unfolding s_def [symmetric] by simp
  next
    case (Some status)
    obtain parent t s1 where cp: "current_process s = Some parent" and ct: "child_main_thread p parent s = Some t"
      and j: "try_join t s = (Some status, s1)" and s': "s' = discard_process p s1"
      using e Some by (auto simp: try_wait_process_def split: option.splits prod.splits)
    obtain i where i: "find_index (\<lambda>record. proc_id record = p \<and> proc_parent record = Some parent) (processes s) = Some i"
      and t: "proc_main_thread (processes s ! i) = Some t"
      using ct by (auto simp: child_main_thread_def split: option.splits)
    have I: "i < MAX_PROCESSES" "proc_id (processes s ! i) = p" "proc_parent (processes s ! i) = Some parent"
      using find_process [OF i] ok by (simp_all add: table_ok_def)
    have np: "p \<noteq> NO_THREAD"
    proof
      assume "p = NO_THREAD"
      then have "i + 1 = NO_THREAD" using ok I by (auto simp: table_ok_def)
      then show False using I(1) by (simp add: NO_THREAD_def MAX_PROCESSES_def MAX_THREADS_def)
    qed
    note U = find_unique [OF ok I(1,2) np]
    have J: "t < MAX_THREADS" "st t s = Exited" "status = exit_status (threads s ! t)" "processes s1 = processes s" "kmem s1 = kmem s"
      using j by (auto simp: try_join_def Let_def thread_at_def split: if_splits)
    have "processes s' = (processes s)[i := process_empty]"
      "kmem s' = destroy_user_address_space (proc_address_space (processes s ! i)) (kmem s)"
      using U(1) J by (simp_all add: s' discard_process_def)
    then have "i < MAX_PROCESSES \<and> proc_id (processes s ! i) = p \<and>
             current_process s \<noteq> None \<and> proc_parent (processes s ! i) = current_process s \<and>
             proc_main_thread (processes s ! i) = Some t \<and>
             thread_state_of t s = Some Exited \<and> exit_status (thread_at t s) = status \<and>
             processes s' = (processes s)[i := process_empty] \<and> p \<notin> proc_id ` set (processes s') \<and>
             kmem s' = destroy_user_address_space (proc_address_space (processes s ! i)) (kmem s)"
      using I t J U(2) cp by (simp add: thread_state_of_def thread_at_def)
    then show ?thesis
      unfolding s_def [symmetric] Let_def e Some prod.case option.case by blast
  qed
qed

text \<open>
  \<open>join\<close> up to the switch.  It answers at once when nobody runs, the thread joins itself,
  the identifier is out of range or no room for a waiter is left; it returns the status when
  the thread has exited; otherwise the caller is recorded as a waiter of a live thread and,
  unless it is the idle thread, is blocked and loses the processor.
\<close>

theorem join_blocks_until_exit:
  "let s = sched_run ops (kernel_initial c m); me = current_thread s
   in case join_enter t s of
        (Some None, s') \<Rightarrow> s' = s \<and>
          (me = NO_THREAD \<or> me = t \<or> MAX_THREADS \<le> t \<or> join_waiter_count (thread_at t s) = MAX_THREADS)
      | (Some (Some status), s') \<Rightarrow>
          thread_state_of t s = Some Exited \<and> status = exit_status (thread_at t s) \<and> current_thread s' = me
      | (None, s') \<Rightarrow>
          thread_state_of t s \<noteq> Some Exited \<and> t < MAX_THREADS \<and> me \<noteq> t \<and>
          (if me = IDLE_THREAD then True
           else thread_state_of me s' = Some Blocked \<and> current_thread s' \<noteq> me) \<and>
          take (join_waiter_count (thread_at t s')) (join_waiters (thread_at t s')) =
            take (join_waiter_count (thread_at t s)) (join_waiters (thread_at t s)) @ [me]"
proof -
  define s where "s = sched_run ops (kernel_initial c m)"
  have inv: "sched_inv s" unfolding s_def by (rule sched_boot_inv)
  let ?me = "current_thread s"
  obtain r s' where e: "join_enter t s = (r, s')" by fastforce
  show ?thesis
  proof (cases r)
    case (Some x)
    have "case x of
        None \<Rightarrow> s' = s \<and>
          (?me = NO_THREAD \<or> ?me = t \<or> MAX_THREADS \<le> t \<or> join_waiter_count (thread_at t s) = MAX_THREADS)
      | Some status \<Rightarrow>
          thread_state_of t s = Some Exited \<and> status = exit_status (thread_at t s) \<and> current_thread s' = ?me"
      using e Some
      by (auto simp: join_enter_def Let_def thread_state_of_def thread_at_def split: if_splits option.splits)
    then show ?thesis
      unfolding s_def [symmetric] Let_def e Some prod.case option.case by (cases x) simp_all
  next
    case None
    define f where "f = (\<lambda>t :: thread. t\<lparr>join_waiters := (join_waiters t)[join_waiter_count t := ?me],
        join_waiter_count := join_waiter_count t + 1\<rparr>)"
    have s': "s' = block_current (update_thread t f s)" and t: "t < MAX_THREADS"
      and n: "join_waiter_count (threads s ! t) \<noteq> MAX_THREADS" and c: "?me \<noteq> NO_THREAD" "?me \<noteq> t"
      and nx: "st t s \<noteq> Exited"
      using None e by (auto simp: join_enter_def Let_def thread_at_def f_def split: if_splits)
    have cl: "?me < MAX_THREADS" using inv c by (auto simp: sched_inv_def)
    have tab: "table_inv s" using inv by (simp add: sched_inv_def)
    note D = table_invD [OF tab]
    have n': "join_waiter_count (threads s ! t) < length (join_waiters (threads s ! t))" using n D(6,7) [OF t] by simp
    let ?s1 = "update_thread t f s"
    have i1: "sched_inv ?s1" unfolding f_def by (rule record_waiter_inv [OF inv t cl n])
    have nth1: "threads ?s1 ! j = (if j = t then f (threads s ! t) else threads s ! j)" for j
      using t D(1) by (simp add: update_thread_nth)
    have ws: "take (join_waiter_count (threads ?s1 ! t)) (join_waiters (threads ?s1 ! t)) =
        take (join_waiter_count (threads s ! t)) (join_waiters (threads s ! t)) @ [?me]"
      using n' unfolding nth1 by (simp add: f_def take_Suc_conv_app_nth)
    have idle: "s' = ?s1" if "?me = IDLE_THREAD" using that by (simp add: s' block_current_def)
    have blk: "current_thread s' \<noteq> ?me \<and> st ?me s' = Blocked \<and> join_waiters (threads s' ! t) = join_waiters (threads ?s1 ! t) \<and>
        join_waiter_count (threads s' ! t) = join_waiter_count (threads ?s1 ! t)" if "?me \<noteq> IDLE_THREAD"
      using block_effect [OF i1] c that t by (simp add: s')
    have "thread_state_of t s \<noteq> Some Exited \<and> t < MAX_THREADS \<and> ?me \<noteq> t \<and>
          (if ?me = IDLE_THREAD then True
           else thread_state_of ?me s' = Some Blocked \<and> current_thread s' \<noteq> ?me) \<and>
          take (join_waiter_count (thread_at t s')) (join_waiters (thread_at t s')) =
            take (join_waiter_count (thread_at t s)) (join_waiters (thread_at t s)) @ [?me]"
    proof (cases "?me = IDLE_THREAD")
      case True
      then show ?thesis using idle ws nx t c by (simp add: thread_state_of_def thread_at_def)
    next
      case False
      then show ?thesis using blk ws nx t c cl by (simp add: thread_state_of_def thread_at_def)
    qed
    then show ?thesis
      unfolding s_def [symmetric] Let_def e None prod.case option.case .
  qed
qed

text \<open>Waking a list of waiters, without regard to the scheduler's invariant.\<close>

lemma wake_waiter_effect:
  assumes len: "length (threads s) = MAX_THREADS" and wf: "queue_wf (queue s)" and w: "w < MAX_THREADS"
  shows "threads (wake_waiter w s) ! t =
      (if t = w \<and> st w s = Blocked then (threads s ! t)\<lparr>thread_state := Ready\<rparr> else threads s ! t)"
    and "length (threads (wake_waiter w s)) = MAX_THREADS \<and> queue_wf (queue (wake_waiter w s)) \<and>
      current_thread (wake_waiter w s) = current_thread s"
    and "set (ready_list s) \<subseteq> set (ready_list (wake_waiter w s))"
proof -
  show "threads (wake_waiter w s) ! t =
      (if t = w \<and> st w s = Blocked then (threads s ! t)\<lparr>thread_state := Ready\<rparr> else threads s ! t)"
    using w len by (simp add: wake_waiter_def thread_at_def set_state_nth)
  have q: "queue_wf (snd (queue_push w (queue s))) \<and>
      set (queue_contents (queue s)) \<subseteq> set (queue_contents (snd (queue_push w (queue s))))"
    by (rule rq.push_cases [OF wf, of w]) (use wf in auto)
  then show "length (threads (wake_waiter w s)) = MAX_THREADS \<and> queue_wf (queue (wake_waiter w s)) \<and>
      current_thread (wake_waiter w s) = current_thread s"
    using wf len by (simp add: wake_waiter_def enqueue_def)
  show "set (ready_list s) \<subseteq> set (ready_list (wake_waiter w s))"
    using q by (simp add: wake_waiter_def enqueue_def ready_list_def)
qed

lemma wake_list_effect:
  assumes "length (threads s) = MAX_THREADS" and "queue_wf (queue s)" and "\<forall>w \<in> set ws. w < MAX_THREADS"
  shows "(\<forall>t. threads (fold wake_waiter ws s) ! t =
      (if t \<in> set ws \<and> st t s = Blocked then (threads s ! t)\<lparr>thread_state := Ready\<rparr> else threads s ! t)) \<and>
    current_thread (fold wake_waiter ws s) = current_thread s \<and>
    set (ready_list s) \<subseteq> set (ready_list (fold wake_waiter ws s))"
  using assms
proof (induction ws arbitrary: s)
  case (Cons w ws)
  have w: "w < MAX_THREADS" "\<forall>w \<in> set ws. w < MAX_THREADS" using Cons.prems(3) by simp_all
  note E = wake_waiter_effect [OF Cons.prems(1,2) w(1)]
  have I: "(\<forall>t. threads (fold wake_waiter ws (wake_waiter w s)) ! t =
      (if t \<in> set ws \<and> st t (wake_waiter w s) = Blocked then (threads (wake_waiter w s) ! t)\<lparr>thread_state := Ready\<rparr>
       else threads (wake_waiter w s) ! t)) \<and>
    current_thread (fold wake_waiter ws (wake_waiter w s)) = current_thread (wake_waiter w s) \<and>
    set (ready_list (wake_waiter w s)) \<subseteq> set (ready_list (fold wake_waiter ws (wake_waiter w s)))"
    by (rule Cons.IH) (use E(2) w in auto)
  then have "threads (fold wake_waiter (w # ws) s) ! t =
      (if t \<in> set (w # ws) \<and> st t s = Blocked then (threads s ! t)\<lparr>thread_state := Ready\<rparr> else threads s ! t)" for t
    using E(1) by auto
  moreover have "set (ready_list s) \<subseteq> set (ready_list (fold wake_waiter (w # ws) s))"
    using I E(3) by simp blast
  moreover have "current_thread (fold wake_waiter (w # ws) s) = current_thread s" using I E(2) by simp
  ultimately show ?case by blast
qed simp

text \<open>
  \<open>terminate_process\<close> ends only the main thread of a child of the caller.  It leaves the
  process table alone; the thread is marked exited with \<open>TERMINATED_STATUS\<close>, its joiners become
  ready, and nobody else changes state.  What was queued stays queued: the thread of a ready
  child keeps its entry in the run queue, where \<open>next_ready\<close> skips it only while the slot is
  not reused.
\<close>

theorem terminate_ends_own_child:
  "let s = sched_run ops (kernel_initial c m);
       child = Option.bind (current_process s) (\<lambda>parent. child_main_thread p parent s);
       t = the child; (terminated, s') = terminate_process p s
   in if child = None then \<not> terminated \<and> s' = s
      else terminated \<and> processes s' = processes s \<and> current_thread s' = current_thread s \<and>
        (if thread_state_of t s = Some Exited then s' = s
         else if t < MAX_THREADS then
           thread_state_of t s' = Some Exited \<and> exit_status (thread_at t s') = TERMINATED_STATUS \<and>
           {u. u < MAX_THREADS \<and> u \<noteq> t \<and> thread_state_of u s' \<noteq> thread_state_of u s} =
             {u. u \<in> set (take (join_waiter_count (thread_at t s)) (join_waiters (thread_at t s))) \<and>
                 u \<noteq> t \<and> thread_state_of u s = Some Blocked} \<and>
           set (ready_list s) - set (ready_list s') = {}
         else True)"
proof -
  define s where "s = sched_run ops (kernel_initial c m)"
  have inv: "sched_inv s" unfolding s_def by (rule sched_boot_inv)
  have tab: "table_inv s" using inv by (simp add: sched_inv_def)
  note D = table_invD [OF tab]
  define child where "child = Option.bind (current_process s) (\<lambda>parent. child_main_thread p parent s)"
  obtain r s' where e: "terminate_process p s = (r, s')" by fastforce
  have of: "u < MAX_THREADS \<Longrightarrow> thread_state_of u x = Some (st u x)" for u x
    by (simp add: thread_state_of_def thread_at_def)
  show ?thesis
  proof (cases child)
    case None
    then have "\<not> r \<and> s' = s"
      using e by (auto simp: terminate_process_def child_def split: option.splits)
    then show ?thesis unfolding s_def [symmetric] Let_def child_def [symmetric] e prod.case using None by simp
  next
    case (Some t)
    define s1 where "s1 = update_thread t (\<lambda>t. t\<lparr>thread_state := Exited, thread_entry := None, exit_status := TERMINATED_STATUS\<rparr>) s"
    have rs: "r" "st t s = Exited \<Longrightarrow> s' = s" "st t s \<noteq> Exited \<Longrightarrow> s' = wake_waiters t s1"
      using e Some by (auto simp: terminate_process_def child_def s1_def thread_at_def bind_eq_Some_conv split: option.splits if_splits)
    define ws where "ws = take (join_waiter_count (threads s ! t)) (join_waiters (threads s ! t))"
    have ok: "thread_state_of t s' = Some Exited \<and> exit_status (thread_at t s') = TERMINATED_STATUS \<and>
           {u. u < MAX_THREADS \<and> u \<noteq> t \<and> thread_state_of u s' \<noteq> thread_state_of u s} =
             {u. u \<in> set ws \<and> u \<noteq> t \<and> thread_state_of u s = Some Blocked} \<and>
           set (ready_list s) - set (ready_list s') = {} \<and> current_thread s' = current_thread s"
      if t: "t < MAX_THREADS" "st t s \<noteq> Exited"
    proof -
      have nth1: "threads s1 ! u = (if u = t then (threads s ! u)\<lparr>thread_state := Exited, thread_entry := None,
          exit_status := TERMINATED_STATUS\<rparr> else threads s ! u)" for u
        using t D(1) by (simp add: s1_def update_thread_nth)
      have wk: "s' = fold wake_waiter ws s1"
        using rs(3) [OF t(2)] by (simp add: wake_waiters_def thread_at_def nth1 ws_def)
      have ws: "\<forall>w \<in> set ws. w < MAX_THREADS" using D(8) [OF t(1)] by (simp add: ws_def)
      have E: "threads s' ! u = (if u \<in> set ws \<and> st u s1 = Blocked then (threads s1 ! u)\<lparr>thread_state := Ready\<rparr> else threads s1 ! u)"
        "current_thread s' = current_thread s" "set (ready_list s) \<subseteq> set (ready_list s')" for u
        using wake_list_effect [of s1 ws] D(1,2) ws by (simp_all add: wk s1_def)
      have "st u s' = (if u = t then Exited else if u \<in> set ws \<and> st u s = Blocked then Ready else st u s)" for u
        by (simp add: E(1) nth1)
      then have "{u. u < MAX_THREADS \<and> u \<noteq> t \<and> thread_state_of u s' \<noteq> thread_state_of u s} =
             {u. u \<in> set ws \<and> u \<noteq> t \<and> thread_state_of u s = Some Blocked}"
        using ws of by (auto split: if_splits)
      moreover have "thread_state_of t s' = Some Exited \<and> exit_status (thread_at t s') = TERMINATED_STATUS"
        using t by (simp add: of E(1) nth1 thread_at_def)
      ultimately show ?thesis using E(2,3) by blast
    qed
    have pr: "processes s' = processes s" using rs by (cases "st t s = Exited") (simp_all add: s1_def)
    have cur: "current_thread s' = current_thread s"
      using rs by (cases "st t s = Exited") (simp_all add: s1_def)
    show ?thesis
      unfolding s_def [symmetric] Let_def child_def [symmetric] e prod.case Some option.sel
      using rs ok pr cur of [of t s]
      by (cases "t < MAX_THREADS") (simp_all add: ws_def thread_at_def, simp add: thread_state_of_def)
  qed
qed

end
