(* ===== verification/Contents.thy ===== *)
theory Contents
  imports Paging
begin

text \<open>
  The bytes user code finds at its addresses.  The operations on page tables keep the contents
  of every mapped page of every address space: they write only tables, and frames that were
  free.
\<close>

section \<open>Bytes behind a user address\<close>

definition user_byte :: "u64 \<Rightarrow> u64 \<Rightarrow> memory \<Rightarrow> u8 option" where
  "user_byte r va m =
     map_option (\<lambda>f. phys m (unat f + unat va mod 4096)) (resolve (table_indices va) r m)"

definition same_frame :: "u64 \<Rightarrow> memory \<Rightarrow> memory \<Rightarrow> bool" where
  "same_frame u m m' \<longleftrightarrow> (\<forall>j < 512. table_entry u j m' = table_entry u j m)"

lemma same_frame_bytes:
  assumes "same_frame u m m'" and "k < 4096"
  shows "phys m' (unat u + k) = phys m (unat u + k)"
proof (rule bit_eqI)
  fix n assume "possible_bit TYPE(8 word) n"
  then have n: "n < 8" by (simp add: possible_bit_word)
  have "table_entry u (k div 8) m' = table_entry u (k div 8) m"
    using assms by (simp add: same_frame_def)
  then have "bit (table_entry u (k div 8) m') (8 * (k mod 8) + n) = bit (table_entry u (k div 8) m) (8 * (k mod 8) + n)"
    by simp
  moreover have "8 * (k mod 8) + n < 64" using n by presburger
  moreover have "(8 * (k mod 8) + n) div 8 = k mod 8" "(8 * (k mod 8) + n) mod 8 = n" using n by simp_all
  moreover have "unat u + 8 * (k div 8) + k mod 8 = unat u + k" by simp
  ultimately show "bit (phys m' (unat u + k)) n = bit (phys m (unat u + k)) n"
    by (simp add: table_entry_def bit_read64)
qed

lemma same_frame_trans: "same_frame u m m1 \<Longrightarrow> same_frame u m1 m2 \<Longrightarrow> same_frame u m m2"
  by (simp add: same_frame_def)

text \<open>The frame of a mapped page is no table.\<close>

lemma page_frame_inert:
  assumes fo: "forest R m" and r: "r \<in> R" and q: "page_path q" and res: "resolve q r m = Some f"
  shows "inert R f m"
  unfolding inert_def
proof (intro conjI ballI allI impI notI)
  have uq: "user_path q" using q by (simp add: page_path_def)
  show "f \<in> owned_frames (mem_frames m)" by (rule forestD(2) [OF fo r uq res])
  fix r' p assume "r' \<in> R" "user_path p" "length p < 4" "resolve p r' m = Some f"
  then show False using forestD(3) [OF fo r _ uq _ res, of r' p] q by (auto simp: page_path_def)
qed

text \<open>Steps that keep the present leaves and the frames behind them.\<close>

definition kept :: "u64 set \<Rightarrow> memory \<Rightarrow> memory \<Rightarrow> bool" where
  "kept R m m' \<longleftrightarrow> (\<forall>r \<in> R. \<forall>q f. page_path q \<longrightarrow> resolve q r m = Some f \<longrightarrow>
     resolve q r m' = Some f \<and> leaf_entry q r m' = leaf_entry q r m \<and> same_frame f m m')"

lemma kept_refl [simp]: "kept R m m"
  by (simp add: kept_def same_frame_def)

lemma keptD:
  assumes "kept R m m'" and "r \<in> R" and "page_path q" and "resolve q r m = Some f"
  shows "resolve q r m' = Some f" and "leaf_entry q r m' = leaf_entry q r m" and "same_frame f m m'"
  using assms unfolding kept_def by blast+

lemma kept_trans: "kept R m m1 \<Longrightarrow> kept R m1 m2 \<Longrightarrow> kept R m m2"
  unfolding kept_def [of R m m2]
  by (intro ballI allI impI) (simp add: keptD same_frame_trans [OF keptD(3) keptD(3)])

lemma kept_subset: "kept R m m' \<Longrightarrow> R' \<subseteq> R \<Longrightarrow> kept R' m m'"
  by (auto simp: kept_def)

lemma kept_byte:
  assumes "kept R m m'" and "r \<in> R" and "user_range va" and "user_byte r va m = Some b"
  shows "user_byte r va m' = Some b"
proof -
  obtain f where f: "resolve (table_indices va) r m = Some f" "b = phys m (unat f + unat va mod 4096)"
    using assms(4) by (auto simp: user_byte_def)
  have "resolve (table_indices va) r m' = Some f" "same_frame f m m'"
    using keptD [OF assms(1,2) page_path_indices [OF assms(3)] f(1)] by blast+
  then show ?thesis using same_frame_bytes f(2) by (simp add: user_byte_def)
qed

lemma keptI:
  assumes fo: "forest R m"
    and inert: "\<And>u. inert R u m \<Longrightarrow> same_frame u m m'"
    and leaf: "\<And>r q. r \<in> R \<Longrightarrow> page_path q \<Longrightarrow> leaf_entry q r m AND PRESENT \<noteq> 0 \<Longrightarrow>
      leaf_entry q r m' = leaf_entry q r m"
  shows "kept R m m'"
  unfolding kept_def
proof (intro ballI allI impI)
  fix r q f assume r: "r \<in> R" and q: "page_path q" and res: "resolve q r m = Some f"
  have p: "leaf_entry q r m AND PRESENT \<noteq> 0" 
    using res unfolding resolve_leaf [OF q] by (metis option.distinct(1))
  have l: "leaf_entry q r m' = leaf_entry q r m" by (rule leaf [OF r q p])
  have "resolve q r m' = Some f" using res unfolding resolve_leaf [OF q] l .
  then show "resolve q r m' = Some f \<and> leaf_entry q r m' = leaf_entry q r m \<and> same_frame f m m'"
    using l inert [OF page_frame_inert [OF fo r q res]] by blast
qed

section \<open>Mapping keeps contents\<close>

lemma map_user_page_forest:
  assumes fo: "forest R m" and r: "r \<in> R" and c: "loose R c m" and user: "user_flags flags"
    and e: "map_user_page_in r va c flags m = (res, m')"
  shows "forest R m'" and "kept R m m'" and "inert R u m \<Longrightarrow> inert R u m' \<and> same_frame u m m'"
    and "res = Inr () \<Longrightarrow> user_range va \<and> leaf_entry (table_indices va) r m AND PRESENT = 0 \<and>
      resolve (table_indices va) r m' = Some c \<and> leaf_entry (table_indices va) r m' = c OR flag_bits flags"
    and "res = Inr () \<Longrightarrow> r' \<in> R \<Longrightarrow> page_path q \<Longrightarrow> r' \<noteq> r \<or> q \<noteq> table_indices va \<Longrightarrow>
      leaf_entry q r' m' = leaf_entry q r' m"
proof -
  have ALL: "forest R m' \<and> kept R m m' \<and> (\<forall>u. inert R u m \<longrightarrow> inert R u m' \<and> same_frame u m m') \<and>
    (res = Inr () \<longrightarrow> user_range va \<and> leaf_entry (table_indices va) r m AND PRESENT = 0 \<and>
      resolve (table_indices va) r m' = Some c \<and> leaf_entry (table_indices va) r m' = c OR flag_bits flags \<and>
      (\<forall>r' \<in> R. \<forall>q. page_path q \<longrightarrow> r' \<noteq> r \<or> q \<noteq> table_indices va \<longrightarrow> leaf_entry q r' m' = leaf_entry q r' m))"
  proof (cases "user_range va")
    case False
    then have "m' = m" "res \<noteq> Inr ()" using e by (auto simp: map_user_page_in_def)
    then show ?thesis using fo by (simp add: same_frame_def)
  next
    case True
    have "map_page_in r va c flags m = (res, m')" using e True by (simp add: map_user_page_in_def)
    note M = map_page_in_forest [OF fo r True c this user [unfolded user_flags_def]]
    have q: "page_path (table_indices va)" by (rule page_path_indices [OF True])
    have "kept R m m'"
    proof (rule keptI [OF fo])
      show "same_frame u m m'" if "inert R u m" for u using M that by (simp add: same_frame_def)
      show "leaf_entry q r' m' = leaf_entry q r' m" if "r' \<in> R" "page_path q" "leaf_entry q r' m AND PRESENT \<noteq> 0" for r' q
        using M that by (cases res) auto
    qed
    then show ?thesis using M True r q by (auto simp: same_frame_def)
  qed
  then show "forest R m'" "kept R m m'" "inert R u m \<Longrightarrow> inert R u m' \<and> same_frame u m m'"
    "res = Inr () \<Longrightarrow> user_range va \<and> leaf_entry (table_indices va) r m AND PRESENT = 0 \<and>
      resolve (table_indices va) r m' = Some c \<and> leaf_entry (table_indices va) r m' = c OR flag_bits flags"
    "res = Inr () \<Longrightarrow> r' \<in> R \<Longrightarrow> page_path q \<Longrightarrow> r' \<noteq> r \<or> q \<noteq> table_indices va \<Longrightarrow>
      leaf_entry q r' m' = leaf_entry q r' m"
    by blast+
qed

lemma zeroed_frame:
  assumes fo: "forest R m" and al: "allocate_physical_frame m = (Some f, m1)" and m2: "m2 = zero_physical_frame f m1"
  shows "forest R m2" and "kept R m m2" and "loose R f m2" and "frame_ok f"
    and "k < 4096 \<Longrightarrow> phys m2 (unat f + k) = 0" and "leaf_entry q r m2 = leaf_entry q r m \<or> r \<notin> R \<or> \<not> page_path q"
    and "\<And>d. loose R d m \<Longrightarrow> loose R d m2 \<and> d \<noteq> f"
    and "inert R u m \<Longrightarrow> inert R u m2 \<and> u \<noteq> f \<and> same_frame u m m2"
proof -
  note A = allocate_loose [OF fo al]
  have fr: "mem_frames m2 = mem_frames m1" by (simp add: m2 zero_physical_frame_def)
  have out: "phys m2 k = phys m1 k" if "k < unat f \<or> unat f + 4096 \<le> k" for k
    using that by (auto simp: m2 zero_physical_frame_def write_physical_frame_def PAGE_SIZE_def)
  note W = write_inert [OF A(1) loose_inert [OF A(2)] fr out]
  show "forest R m2" by (rule W(1))
  show lf: "leaf_entry q r m2 = leaf_entry q r m \<or> r \<notin> R \<or> \<not> page_path q" for q r
    using W(2) [of r q] A(5) by auto
  show sf: "inert R u m2 \<and> u \<noteq> f \<and> same_frame u m m2" if "inert R u m" for u
  proof -
    have "inert R u m1" "u \<noteq> f" using A(10,11) that by auto
    then show ?thesis using W(4,6) [of u] A(7) by (simp add: same_frame_def)
  qed
  show "kept R m m2"
    by (rule keptI [OF fo]) (use sf lf in blast)+
  show "loose R f m2" using W(5) A(2) by simp
  show "frame_ok f" by (rule A(9))
  show "k < 4096 \<Longrightarrow> phys m2 (unat f + k) = 0"
    by (simp add: m2 zero_physical_frame_def write_physical_frame_def PAGE_SIZE_def)
  show "loose R d m2 \<and> d \<noteq> f" if "loose R d m" for d
    using that A(3,4) W(5) by metis
qed

text \<open>Filling part of a mapped page.\<close>

lemma fill_page:
  assumes fo: "forest R m" and r: "r \<in> R" and q: "page_path q" and res: "resolve q r m = Some f"
    and off: "off + length data \<le> 4096" and m': "m' = write_physical_frame (f + of_nat off) data m"
  shows "forest R m'" and "k < 4096 \<Longrightarrow> phys m' (unat f + k) =
      (if off \<le> k \<and> k < off + length data then data ! (k - off) else phys m (unat f + k))"
    and "\<And>q r. r \<in> R \<Longrightarrow> page_path q \<Longrightarrow> leaf_entry q r m' = leaf_entry q r m"
    and "inert R u m \<Longrightarrow> u \<noteq> f \<Longrightarrow> same_frame u m m'" and "inert R u m' = inert R u m"
    and "loose R u m' = loose R u m"
proof -
  note I = page_frame_inert [OF fo r q res]
  have "frame_ok f" using I by (auto simp: inert_def intro: owned_ok)
  then have f52: "unat f < 2 ^ 52" by (simp add: frame_ok_def)
  have o: "unat (of_nat off :: u64) = off" using off by (simp add: unat_of_nat take_bit_nat_eq_self)
  have a: "unat (f + of_nat off) = unat f + off"
    using f52 off by (subst unat_add_lem [THEN iffD1]) (simp_all add: o)
  have out: "phys m' k = phys m k" if "k < unat f \<or> unat f + 4096 \<le> k" for k
    using that off by (auto simp: m' write_physical_frame_def a)
  have fr: "mem_frames m' = mem_frames m" by (simp add: m')
  note W = write_inert [OF fo I fr out]
  show "forest R m'" by (rule W(1))
  show "leaf_entry q r m' = leaf_entry q r m" if "r \<in> R" "page_path q" for q r
    by (rule W(2) [OF _ that])
  show "inert R u m \<Longrightarrow> u \<noteq> f \<Longrightarrow> same_frame u m m'" using W(6) [of u] by (simp add: same_frame_def)
  show "inert R u m' = inert R u m" "loose R u m' = loose R u m" using W(4) [of u] W(5) [of u] by simp_all
  show "k < 4096 \<Longrightarrow> phys m' (unat f + k) =
      (if off \<le> k \<and> k < off + length data then data ! (k - off) else phys m (unat f + k))"
    by (simp add: m' write_physical_frame_def a)
qed

section \<open>Contents over runs\<close>

lemma map_fresh_kept:
  assumes fo: "forest R m" and r: "r \<in> R" and user: "user_flags flags"
    and e: "map_fresh_user_page r va flags bytes m = (res, fr, m')"
  shows "kept R m m'"
proof (cases "allocate_physical_frame m")
  case (Pair x m1)
  show ?thesis
  proof (cases x)
    case None
    then have "m1 = m"
      using Pair fa.allocate_None by (fastforce simp: allocate_physical_frame_def split: prod.splits)
    then show ?thesis using e Pair None by (simp add: map_fresh_user_page_def)
  next
    case (Some f)
    define m2 where "m2 = zero_physical_frame f m1"
    define m3 where "m3 = write_physical_frame f (take 4096 bytes) m2"
    note Z = zeroed_frame [OF fo Pair [unfolded Some] m2_def]
    have out: "phys m3 k = phys m2 k" if "k < unat f \<or> unat f + 4096 \<le> k" for k
      using that by (auto simp: m3_def write_physical_frame_def)
    have fr: "mem_frames m3 = mem_frames m2" by (simp add: m3_def)
    note W = write_inert [OF Z(1) loose_inert [OF Z(3)] fr out]
    have "kept R m m3"
    proof (rule keptI [OF fo])
      show "same_frame u m m3" if "inert R u m" for u
        using Z(8) [OF that] W(6) [of u] by (simp add: same_frame_def)
      show "leaf_entry q r' m3 = leaf_entry q r' m" if "r' \<in> R" "page_path q" for r' q
        using W(2) [OF _ that] Z(6) [of q r'] that by simp
    qed
    moreover have "map_user_page_in r va f flags m3 = (res, m')"
      using e Pair Some by (auto simp: map_fresh_user_page_def m2_def [symmetric] m3_def [symmetric] split: prod.splits)
    from map_user_page_forest(2) [OF W(1) r _ user this] have "kept R m3 m'" using W(5) Z(3) by blast
    ultimately show ?thesis by (rule kept_trans)
  qed
qed

lemma destroy_kept:
  assumes fo: "forest R m" and r: "r \<in> R"
  shows "kept (R - {r}) m (destroy_user_address_space r m)"
proof -
  let ?m = "destroy_user_address_space r m"
  note D = destroy_forest [OF fo r refl]
  show ?thesis
    unfolding kept_def
  proof (intro ballI allI impI)
    fix r' q f assume r': "r' \<in> R - {r}" and q: "page_path q" and res: "resolve q r' m = Some f"
    have uq: "user_path q" using q by (simp add: page_path_def)
    have "f \<notin> space_frames r m"
    proof
      assume "f \<in> space_frames r m"
      then obtain p where "user_path p" "resolve p r m = Some f" by (auto simp: space_frames_def)
      then show False using forestD(3) [OF fo _ r uq _ res] r' by blast
    qed
    moreover have "frame_ok f" using forestD(2) [OF fo _ uq res] r' by (auto intro: owned_ok)
    ultimately have "same_frame f m ?m" using D(2) by (simp add: releases_def same_frame_def)
    then show "resolve q r' ?m = Some f \<and> leaf_entry q r' ?m = leaf_entry q r' m \<and> same_frame f m ?m"
      using D(3) [OF r' q] D(4) [OF r' uq] res by simp
  qed
qed

lemma space_step_kept:
  assumes inv: "spaces_inv base (S, m)" and e: "space_step op (S, m) = (S', m')"
  shows "kept (dom (live S) \<inter> dom (live S')) m m'"
proof -
  let ?R = "dom (live S)"
  note fo = spaces_invD(1) [OF inv]
  show ?thesis
  proof (cases op)
    case CreateSpace
    obtain x m1 where c: "create_user_address_space m = (x, m1)" by fastforce
    note C = create_forest [OF fo c]
    have "kept ?R m m1"
    proof (cases x)
      case (Inr f)
      show ?thesis
      proof (rule keptI [OF fo])
        show "same_frame u m m1" if "inert ?R u m" for u using C Inr that by (simp add: same_frame_def)
        show "leaf_entry q r m1 = leaf_entry q r m" if "r \<in> ?R" "page_path q" for r q using C Inr that by simp
      qed
    qed (use C in simp)
    moreover have "m' = m1" using e CreateSpace c by (cases x) auto
    ultimately show ?thesis by (auto intro: kept_subset)
  next
    case (MapFresh r va flags bytes)
    obtain x fr m1 where f: "map_fresh_user_page r va flags bytes m = (x, fr, m1)" by (metis prod_cases3)
    have "m' = m \<or> (live S r \<noteq> None \<and> user_flags flags \<and> m' = m1)"
      using e MapFresh f by (auto split: option.splits if_splits sum.splits)
    then have "kept ?R m m'" using map_fresh_kept [OF fo _ _ f] by auto
    then show ?thesis by (auto intro: kept_subset)
  next
    case (DestroySpace r)
    show ?thesis
    proof (cases "live S r")
      case None
      then show ?thesis using e DestroySpace by simp
    next
      case (Some pages)
      then have "m' = destroy_user_address_space r m" "S' = S\<lparr>live := (live S)(r := None)\<rparr>"
        using e DestroySpace by simp_all
      then have "m' = destroy_user_address_space r m" "dom (live S') = ?R - {r}" by auto
      then show ?thesis using destroy_kept [OF fo, of r] Some by (auto intro: kept_subset)
    qed
  qed
qed

text \<open>
  C31: whatever is created, mapped or destroyed, every byte user code can reach in an address
  space that survives the operation stays as it is: no operation on one space, and no new
  mapping in the same space, touches the contents of a mapped page.
\<close>

theorem user_contents_kept:
  "(case space_run ops (boot_memory regions ranges m) of (S, m1) \<Rightarrow>
     (case space_step op (S, m1) of (S', m2) \<Rightarrow>
        {(r, va). live S r \<noteq> None \<and> live S' r \<noteq> None \<and> user_range va \<and>
           user_byte r va m1 \<noteq> None \<and> user_byte r va m2 \<noteq> user_byte r va m1} = {}))"
proof -
  obtain S m1 where run: "space_run ops (boot_memory regions ranges m) = (S, m1)" by fastforce
  obtain S' m2 where e: "space_step op (S, m1) = (S', m2)" by fastforce
  have k: "kept (dom (live S) \<inter> dom (live S')) m1 m2" by (rule space_step_kept [OF boot_run_inv [OF run] e])
  have "user_byte r va m2 = user_byte r va m1"
    if "live S r \<noteq> None" "live S' r \<noteq> None" "user_range va" "user_byte r va m1 \<noteq> None" for r va
    using kept_byte [OF k _ that(3)] that by (metis IntI domIff not_None_eq)
  then show ?thesis unfolding run e prod.case by blast
qed

end
