(* ===== verification/Elf.thy ===== *)
theory Elf
  imports Contents
begin

text \<open>
  The program loader, \<open>kernel-core/src/elf.rs\<close>.  An image is a list of bytes; the value of an
  early \<open>return Err\<close> and of the \<open>?\<close> operator is the left injection, together with the memory
  reached so far.
\<close>

section \<open>Data\<close>

definition ELF_HEADER_SIZE :: nat where "ELF_HEADER_SIZE = 64"
definition PROGRAM_HEADER_SIZE :: nat where "PROGRAM_HEADER_SIZE = 56"
definition ELF_MACHINE_X86_64 :: u16 where "ELF_MACHINE_X86_64 = 0x3E"
definition ELF_TYPE_EXECUTABLE :: u16 where "ELF_TYPE_EXECUTABLE = 2"
definition PROGRAM_HEADER_LOAD :: u32 where "PROGRAM_HEADER_LOAD = 1"
definition PROGRAM_HEADER_TLS :: u32 where "PROGRAM_HEADER_TLS = 7"
definition PROGRAM_FLAG_EXECUTE :: u32 where "PROGRAM_FLAG_EXECUTE = 1"
definition PROGRAM_FLAG_WRITE :: u32 where "PROGRAM_FLAG_WRITE = 2"
definition USER_TLS_BASE :: u64 where "USER_TLS_BASE = 0x0000300000000000"
definition TLS_TCB_SIZE :: u64 where "TLS_TCB_SIZE = 64"

record tls_image =
  tls_file_offset :: u64
  tls_file_size :: u64
  tls_memory_size :: u64
  tls_align :: u64

record loaded_image =
  loaded_entry :: u64
  loaded_stack_pointer :: u64
  loaded_tls :: "tls_image option"
  loaded_fs_base :: u64

datatype elf_error = InvalidHeader | UnsupportedExecutable | InvalidProgramHeader
  | InvalidSegment | NoExecutableSegment | PagingFailed paging_error

section \<open>Reading little-endian fields\<close>

definition from_le_bytes :: "u8 list \<Rightarrow> 'w :: len word" where
  "from_le_bytes bs = foldr (\<lambda>b w. push_bit 8 w OR ucast b) bs 0"

definition read_field :: "nat \<Rightarrow> u8 list \<Rightarrow> nat \<Rightarrow> elf_error + 'w :: len word" where
  "read_field width bytes offset =
     (if offset + width \<le> length bytes then Inr (from_le_bytes (slice bytes offset (offset + width)))
      else Inl InvalidHeader)"

definition read_u16 :: "u8 list \<Rightarrow> nat \<Rightarrow> elf_error + u16" where
  "read_u16 bytes offset = read_field 2 bytes offset"

definition read_u32 :: "u8 list \<Rightarrow> nat \<Rightarrow> elf_error + u32" where
  "read_u32 bytes offset = read_field 4 bytes offset"

definition read_u64 :: "u8 list \<Rightarrow> nat \<Rightarrow> elf_error + u64" where
  "read_u64 bytes offset = read_field 8 bytes offset"

text \<open>The \<open>?\<close> operator on a result without state.\<close>

fun and_then :: "'e + 'a \<Rightarrow> ('a \<Rightarrow> 'e + 'b) \<Rightarrow> 'e + 'b" where
  "and_then (Inl e) f = Inl e"
| "and_then (Inr x) f = f x"

section \<open>The file header\<close>

definition header_valid :: "u8 list \<Rightarrow> bool" where
  "header_valid elf \<longleftrightarrow> \<not> (length elf < ELF_HEADER_SIZE \<or>
     take 4 elf \<noteq> [0x7F, 0x45, 0x4C, 0x46] \<or> elf ! 4 \<noteq> 2 \<or> elf ! 5 \<noteq> 1 \<or> elf ! 6 \<noteq> 1 \<or>
     read_u16 elf 16 \<noteq> Inr ELF_TYPE_EXECUTABLE \<or> read_u16 elf 18 \<noteq> Inr ELF_MACHINE_X86_64 \<or>
     read_u32 elf 20 \<noteq> Inr 1 \<or> read_u16 elf 52 \<noteq> Inr (of_nat ELF_HEADER_SIZE) \<or>
     read_u16 elf 54 \<noteq> Inr (of_nat PROGRAM_HEADER_SIZE))"

text \<open>The entry point, and the offset and number of the program headers.\<close>

definition parse_header :: "u8 list \<Rightarrow> elf_error + (u64 \<times> nat \<times> nat)" where
  "parse_header elf =
     (if \<not> header_valid elf then Inl InvalidHeader
      else and_then (read_u64 elf 24) (\<lambda>entry.
           and_then (read_u64 elf 32) (\<lambda>program_header_offset.
           and_then (read_u16 elf 56) (\<lambda>program_header_count.
             let table_size = unat program_header_count * PROGRAM_HEADER_SIZE;
                 table_end = unat program_header_offset + table_size
             in if 2 ^ 64 \<le> table_size \<or> 2 ^ 64 \<le> table_end \<or> length elf < table_end
                then Inl InvalidHeader
                else Inr (entry, unat program_header_offset, unat program_header_count)))))"

section \<open>Program headers\<close>

datatype program_header =
    Tls tls_image
  | Load (load_flags: u32) (load_offset: u64) (load_address: u64) (load_file_size: u64) (load_memory_size: u64)
  | Other

text \<open>The fields of one program header and the checks on them.\<close>

definition is_power_of_two :: "u64 \<Rightarrow> bool" where
  "is_power_of_two x \<longleftrightarrow> x \<noteq> 0 \<and> x AND (x - 1) = 0"

definition parse_tls :: "u8 list \<Rightarrow> nat \<Rightarrow> elf_error + program_header" where
  "parse_tls elf header_offset =
     and_then (read_u64 elf (header_offset + 8)) (\<lambda>file_offset.
     and_then (read_u64 elf (header_offset + 32)) (\<lambda>file_size.
     and_then (read_u64 elf (header_offset + 40)) (\<lambda>memory_size.
     and_then (read_u64 elf (header_offset + 48)) (\<lambda>align.
       if memory_size < file_size \<or>
          (case checked_add file_offset file_size of None \<Rightarrow> True | Some end \<Rightarrow> length elf < unat end) \<or>
          (align \<noteq> 0 \<and> \<not> is_power_of_two align)
       then Inl InvalidProgramHeader
       else Inr (Tls \<lparr>tls_file_offset = file_offset, tls_file_size = file_size,
                      tls_memory_size = memory_size, tls_align = align\<rparr>)))))"

definition parse_load :: "u8 list \<Rightarrow> nat \<Rightarrow> elf_error + program_header" where
  "parse_load elf header_offset =
     and_then (read_u32 elf (header_offset + 4)) (\<lambda>flags.
     and_then (read_u64 elf (header_offset + 8)) (\<lambda>file_offset.
     and_then (read_u64 elf (header_offset + 16)) (\<lambda>virtual_address.
     and_then (read_u64 elf (header_offset + 32)) (\<lambda>file_size.
     and_then (read_u64 elf (header_offset + 40)) (\<lambda>memory_size.
       if memory_size < file_size then Inl InvalidSegment
       else case checked_add file_offset file_size of
              None \<Rightarrow> Inl InvalidSegment
            | Some file_end \<Rightarrow>
                (case checked_add virtual_address memory_size of
                   None \<Rightarrow> Inl InvalidSegment
                 | Some memory_end \<Rightarrow>
                     if memory_size = 0 \<or> length elf < unat file_end \<or>
                        virtual_address < FUTURE_USER_SPACE_BASE \<or> USER_SPACE_END < memory_end
                     then Inl InvalidSegment
                     else Inr (Load flags file_offset virtual_address file_size memory_size)))))))"

definition parse_program_header :: "u8 list \<Rightarrow> nat \<Rightarrow> elf_error + program_header" where
  "parse_program_header elf header_offset =
     and_then (read_u32 elf header_offset) (\<lambda>header_type.
       if header_type = PROGRAM_HEADER_TLS then parse_tls elf header_offset
       else if header_type \<noteq> PROGRAM_HEADER_LOAD then Inr Other
       else parse_load elf header_offset)"

section \<open>Mapping the pages of a segment\<close>

definition segment_page_flags :: "u32 \<Rightarrow> page_flags" where
  "segment_page_flags flags =
     (case (flags AND PROGRAM_FLAG_WRITE \<noteq> 0, flags AND PROGRAM_FLAG_EXECUTE \<noteq> 0) of
        (False, False) \<Rightarrow> UserReadOnly
      | (True, False) \<Rightarrow> UserReadWrite
      | (False, True) \<Rightarrow> UserReadExecute
      | (True, True) \<Rightarrow> UserReadWriteExecute)"

definition page_base :: "u64 \<Rightarrow> u64" where
  "page_base address = address AND NOT (PAGE_SIZE - 1)"

text \<open>The pages from \<open>first\<close> to \<open>last\<close>, in steps of \<open>PAGE_SIZE\<close>.\<close>

definition pages_between :: "u64 \<Rightarrow> u64 \<Rightarrow> u64 list" where
  "pages_between first last_page =
     map (\<lambda>i. first + of_nat i * PAGE_SIZE) [0..<Suc (unat (last_page - first) div unat PAGE_SIZE)]"

text \<open>One round of the loop: a zeroed frame is mapped, then the part of the file that falls into the page is copied.\<close>

definition load_page ::
  "u8 list \<Rightarrow> u64 \<Rightarrow> page_flags \<Rightarrow> u64 \<Rightarrow> u64 \<Rightarrow> u64 \<Rightarrow> u64 \<Rightarrow> memory \<Rightarrow> (elf_error + unit) \<times> memory" where
  "load_page elf address_space page_flags file_offset virtual_address file_size page m =
     (case allocate_physical_frame m of
        (None, m) \<Rightarrow> (Inl (PagingFailed FrameAllocationFailed), m)
      | (Some frame, m) \<Rightarrow>
          (case map_user_page_in address_space page frame page_flags (zero_physical_frame frame m) of
             (Inl e, m) \<Rightarrow> (Inl (PagingFailed e), m)
           | (Inr _, m) \<Rightarrow>
               (let copy_start = max page virtual_address;
                    copy_end = min (page + PAGE_SIZE) (virtual_address + file_size)
                in if copy_start < copy_end then
                     (let source_offset = file_offset + copy_start - virtual_address;
                          byte_count = unat (copy_end - copy_start)
                      in (Inr (), write_physical_frame (frame + copy_start - page)
                            (slice elf (unat source_offset) (unat source_offset + byte_count)) m))
                   else (Inr (), m))))"

fun load_pages ::
  "u8 list \<Rightarrow> u64 \<Rightarrow> page_flags \<Rightarrow> u64 \<Rightarrow> u64 \<Rightarrow> u64 \<Rightarrow> u64 list \<Rightarrow> memory \<Rightarrow> (elf_error + unit) \<times> memory" where
  "load_pages elf address_space flags file_offset virtual_address file_size [] m = (Inr (), m)"
| "load_pages elf address_space flags file_offset virtual_address file_size (page # pages) m =
     (case load_page elf address_space flags file_offset virtual_address file_size page m of
        (Inl e, m) \<Rightarrow> (Inl e, m)
      | (Inr _, m) \<Rightarrow> load_pages elf address_space flags file_offset virtual_address file_size pages m)"

definition segment_pages :: "u64 \<Rightarrow> u64 \<Rightarrow> u64 list" where
  "segment_pages virtual_address memory_end = pages_between (page_base virtual_address) (page_base (memory_end - 1))"

definition entry_in_segment :: "u64 \<Rightarrow> program_header \<Rightarrow> bool" where
  "entry_in_segment entry header =
     (case header of
        Load flags _ virtual_address _ memory_size \<Rightarrow>
          flags AND PROGRAM_FLAG_EXECUTE \<noteq> 0 \<and> virtual_address \<le> entry \<and> entry < virtual_address + memory_size
      | _ \<Rightarrow> False)"

section \<open>Loading\<close>

text \<open>The loop over the program headers, from index \<open>index\<close> with \<open>count\<close> headers left.\<close>

fun load_headers ::
  "u8 list \<Rightarrow> u64 \<Rightarrow> u64 \<Rightarrow> nat \<Rightarrow> nat \<Rightarrow> nat \<Rightarrow> bool \<Rightarrow> tls_image option \<Rightarrow> memory \<Rightarrow>
   (elf_error + (bool \<times> tls_image option)) \<times> memory" where
  "load_headers elf address_space entry table index 0 entry_is_executable tls m =
     (Inr (entry_is_executable, tls), m)"
| "load_headers elf address_space entry table index (Suc count) entry_is_executable tls m =
     (let header_offset = table + index * PROGRAM_HEADER_SIZE
      in case read_u32 elf header_offset of
           Inl e \<Rightarrow> (Inl e, m)
         | Inr header_type \<Rightarrow>
             if header_type = PROGRAM_HEADER_TLS \<and> tls \<noteq> None then (Inl InvalidProgramHeader, m)
             else case parse_program_header elf header_offset of
               Inl e \<Rightarrow> (Inl e, m)
             | Inr (Tls t) \<Rightarrow>
                 load_headers elf address_space entry table (Suc index) count entry_is_executable (Some t) m
             | Inr Other \<Rightarrow>
                 load_headers elf address_space entry table (Suc index) count entry_is_executable tls m
             | Inr (Load flags file_offset virtual_address file_size memory_size) \<Rightarrow>
                 (case load_pages elf address_space (segment_page_flags flags) file_offset virtual_address
                         file_size (segment_pages virtual_address (virtual_address + memory_size)) m of
                    (Inl e, m) \<Rightarrow> (Inl e, m)
                  | (Inr _, m) \<Rightarrow>
                      load_headers elf address_space entry table (Suc index) count
                        (entry_is_executable \<or>
                         entry_in_segment entry (Load flags file_offset virtual_address file_size memory_size))
                        tls m))"

definition load_initial_tls ::
  "u8 list \<Rightarrow> u64 \<Rightarrow> nat \<Rightarrow> tls_image \<Rightarrow> memory \<Rightarrow> (elf_error + u64) \<times> memory" where
  "load_initial_tls elf address_space slot tls m =
     (let align = max (tls_align tls) 16;
          tls_size = max (tls_memory_size tls) 1
      in case checked_add tls_size (align - 1) of
           None \<Rightarrow> (Inl InvalidProgramHeader, m)
         | Some padded \<Rightarrow>
             (let block_size = padded AND NOT (align - 1);
                  base = USER_TLS_BASE + of_nat slot * 0x10000
              in case checked_add base block_size of
                   None \<Rightarrow> (Inl InvalidProgramHeader, m)
                 | Some fs_base \<Rightarrow>
                     (case checked_add fs_base TLS_TCB_SIZE of
                        None \<Rightarrow> (Inl InvalidProgramHeader, m)
                      | Some end \<Rightarrow>
                          (case load_pages elf address_space UserReadWrite (tls_file_offset tls) base
                                  (tls_file_size tls) (segment_pages base end) m of
                             (Inl e, m) \<Rightarrow> (Inl e, m)
                           | (Inr _, m) \<Rightarrow> (Inr fs_base, m)))))"

definition load_user_elf_into ::
  "u8 list \<Rightarrow> u64 \<Rightarrow> nat \<Rightarrow> memory \<Rightarrow> (elf_error + loaded_image) \<times> memory" where
  "load_user_elf_into elf address_space stack_slot m =
     (case parse_header elf of
        Inl e \<Rightarrow> (Inl e, m)
      | Inr (entry, table, count) \<Rightarrow>
          (case load_headers elf address_space entry table 0 count False None m of
             (Inl e, m) \<Rightarrow> (Inl e, m)
           | (Inr (entry_is_executable, tls), m) \<Rightarrow>
               if \<not> entry_is_executable then (Inl NoExecutableSegment, m)
               else case allocate_user_stack_in address_space stack_slot m of
                      (Inl e, m) \<Rightarrow> (Inl (PagingFailed e), m)
                    | (Inr stack_top, m) \<Rightarrow>
                        (case (case tls of
                                 Some tls_image \<Rightarrow> load_initial_tls elf address_space stack_slot tls_image m
                               | None \<Rightarrow> (Inr 0, m)) of
                           (Inl e, m) \<Rightarrow> (Inl e, m)
                         | (Inr fs_base, m) \<Rightarrow>
                             (Inr \<lparr>loaded_entry = entry, loaded_stack_pointer = stack_top - 8,
                                   loaded_tls = tls, loaded_fs_base = fs_base\<rparr>, m))))"

definition load_user_elf :: "u8 list \<Rightarrow> memory \<Rightarrow> (elf_error + loaded_image) \<times> memory" where
  "load_user_elf elf m = load_user_elf_into elf (active_address_space m) 0 m"

end
