(* ===== verification/Loader.thy ===== *)
theory Loader
  imports Elf
begin

text \<open>
  What the loader leaves in the address space: every segment of an accepted image is mapped
  with its permissions and holds the bytes of the file, padded with zeros.
\<close>

section \<open>Pages and addresses\<close>

definition mapped_as :: "u64 \<Rightarrow> u64 \<Rightarrow> page_flags \<Rightarrow> memory \<Rightarrow> bool" where
  "mapped_as r va flags m \<longleftrightarrow> user_range va \<and>
     (\<exists>f. resolve (table_indices va) r m = Some f \<and> leaf_entry (table_indices va) r m = f OR flag_bits flags)"

lemma kept_mapped_as: "kept R m m' \<Longrightarrow> r \<in> R \<Longrightarrow> mapped_as r va flags m \<Longrightarrow> mapped_as r va flags m'"
  unfolding mapped_as_def using keptD(1,2) [OF _ _ page_path_indices] by metis

lemma mapped_as_access:
  assumes fo: "forest R m" and r: "r \<in> R" and user: "user_flags flags" and ma: "mapped_as r va flags m"
  shows "is_user_mapped va (switch_address_space r m)"
    and "is_user_executable va (switch_address_space r m) \<longleftrightarrow>
      flags = UserReadExecute \<or> flags = UserReadWriteExecute"
proof -
  obtain f where va: "user_range va" and res: "resolve (table_indices va) r m = Some f"
    and leaf: "leaf_entry (table_indices va) r m = f OR flag_bits flags"
    using ma by (auto simp: mapped_as_def)
  have "user_path (table_indices va)" using page_path_indices [OF va] by (simp add: page_path_def)
  from owned_ok [OF forestD(2) [OF fo r this res]] have "bit f n \<Longrightarrow> 12 \<le> n \<and> n < 52" for n
    by (rule frame_ok_bits)
  then have "\<not> bit f 63" by fastforce
  then show "is_user_mapped va (switch_address_space r m)"
    "is_user_executable va (switch_address_space r m) \<longleftrightarrow>
      flags = UserReadExecute \<or> flags = UserReadWriteExecute"
    using user bit_flag_bits(2) [of flags]
    by (auto simp add: user_access_leaf [OF fo r va] leaf bit_or_iff user_flags_bits)
qed

text \<open>Arithmetic of pages, kept away from the decision procedures.\<close>

lemma page_floor: "(n :: nat) div 4096 * 4096 \<le> n" "n < n div 4096 * 4096 + 4096"
proof -
  have "n div 4096 * 4096 + n mod 4096 = n" "n mod 4096 < 4096" by simp_all
  then show "n div 4096 * 4096 \<le> n" "n < n div 4096 * 4096 + 4096" by linarith+
qed

lemma page_aligned: "(n :: nat) mod 4096 = 0 \<Longrightarrow> n div 4096 * 4096 = n"
  using div_mult_mod_eq [of n 4096] by simp

lemma unat_page_base: "unat (page_base a) = unat a div 4096 * 4096"
proof -
  have mask: "PAGE_SIZE - 1 = (mask 12 :: u64)" by (simp add: PAGE_SIZE_def mask_eq_exp_minus_1)
  have "page_base a = push_bit 12 (drop_bit 12 a)"
    unfolding page_base_def mask by (rule bit_word_eqI) (auto simp: bit_simps)
  moreover have "drop_bit 12 (unat a) = unat a div 4096" by (simp add: drop_bit_eq_div)
  then have "unat (drop_bit 12 a) = unat a div 4096" unfolding unat_drop_bit_eq .
  moreover have "unat a div 4096 * 4096 < 2 ^ 64" using page_floor(1) [of "unat a"] unat_u64_lt [of a] by simp
  ultimately show ?thesis
    by (simp add: push_bit_eq_mult unat_word_ariths)
qed

text \<open>Two addresses of one page are reached through the same table entries.\<close>

lemma same_page_indices:
  assumes "unat a div 4096 = unat b div 4096"
  shows "table_indices a = table_indices b"
proof -
  have "n div 2 ^ 39 = n div 4096 div 2 ^ 27" "n div 2 ^ 30 = n div 4096 div 2 ^ 18"
    "n div 2 ^ 21 = n div 4096 div 2 ^ 9" "n div 2 ^ 12 = n div 4096" for n :: nat
    by (simp_all add: div_mult2_eq [symmetric])
  then show ?thesis using assms by (simp add: table_indices_nat)
qed

lemma same_page_range:
  assumes "user_range p" and "unat p mod 4096 = 0" and "unat a div 4096 = unat p div 4096"
  shows "user_range a"
proof -
  have p: "unat p div 4096 * 4096 = unat p" by (rule page_aligned [OF assms(2)])
  have le: "unat p \<le> unat a" "unat a < unat p + 4096"
    using page_floor [of "unat a"] assms(3) p by simp_all
  have "unat p div 4096 < 34359738368"
    using assms(1) by (simp add: user_range_nat less_mult_imp_div_less)
  then have "unat p div 4096 \<le> 34359738367" by simp
  then have "unat p div 4096 * 4096 \<le> 34359738367 * 4096" by (rule mult_le_mono1)
  then show ?thesis using assms(1) p le by (simp add: user_range_nat)
qed

lemma pages_between_mem:
  assumes f: "unat first mod 4096 = 0" "unat first div 4096 \<le> n" and l: "n \<le> unat last_page div 4096"
  shows "\<exists>p \<in> set (pages_between first last_page). unat p = n * 4096"
proof -
  define i where "i = n - unat first div 4096"
  note fe = page_aligned [OF f(1)]
  have n: "n * 4096 \<le> unat last_page" using l page_floor(1) [of "unat last_page"] by (meson le_trans mult_le_mono1)
  have fn: "unat first \<le> n * 4096" using f(2) fe by (metis mult_le_mono1)
  have le: "unat first \<le> unat last_page" using fn n by simp
  have d: "unat (last_page - first) = unat last_page - unat first"
    using le by (simp add: unat_sub word_le_nat_alt)
  have eq: "unat first + i * 4096 = n * 4096"
    using f(2) fe unfolding i_def by (simp add: diff_mult_distrib fn)
  then have "i * 4096 \<le> unat last_page - unat first" using n by simp
  then have "i \<le> (unat last_page - unat first) div 4096" by (simp add: less_eq_div_iff_mult_less_eq)
  then have i: "i < Suc (unat (last_page - first) div unat PAGE_SIZE)"
    by (simp add: d PAGE_SIZE_def)
  have n64: "n * 4096 < 2 ^ 64" using n unat_u64_lt [of last_page] by simp
  have "unat (of_nat i * PAGE_SIZE :: u64) = i * 4096"
    using n64 eq by (simp add: PAGE_SIZE_def unat_word_ariths unat_of_nat take_bit_nat_eq_self)
  then have "unat (first + of_nat i * PAGE_SIZE) = n * 4096"
    using n64 eq by (simp add: unat_word_ariths)
  moreover have "first + of_nat i * PAGE_SIZE \<in> set (pages_between first last_page)"
    unfolding pages_between_def set_map set_upt using i by (intro imageI) simp
  ultimately show ?thesis by blast
qed

lemma pages_between_aligned:
  assumes "unat first mod 4096 = 0" and "p \<in> set (pages_between first last_page)"
  shows "unat p mod 4096 = 0"
proof -
  obtain i where p: "p = first + of_nat i * PAGE_SIZE" using assms(2) by (auto simp: pages_between_def)
  have "unat (of_nat i * PAGE_SIZE :: u64) mod 4096 = 0"
    by (simp add: unat_word_ariths PAGE_SIZE_def mod_mod_cancel)
  then have "(unat first + unat (of_nat i * PAGE_SIZE :: u64)) mod 4096 = 0"
    using assms(1) by (simp add: mod_add_eq [symmetric])
  then show ?thesis unfolding p by (simp add: unat_word_ariths(1) mod_mod_cancel)
qed

section \<open>One page of a segment\<close>

definition file_byte :: "u8 list \<Rightarrow> u64 \<Rightarrow> u64 \<Rightarrow> u64 \<Rightarrow> u64 \<Rightarrow> u8" where
  "file_byte elf file_offset virtual_address file_size a =
     (if unat virtual_address \<le> unat a \<and> unat a < unat virtual_address + unat file_size
      then elf ! (unat file_offset + (unat a - unat virtual_address)) else 0)"

text \<open>The part of the file that is copied into a page, with the arithmetic of the code.\<close>

lemma copy_bounds:
  fixes page va fsz :: u64
  assumes "unat va + unat fsz < 2 ^ 64" and "unat page + 4096 < 2 ^ 64"
  shows "unat (max page va) = max (unat page) (unat va)"
    "unat (min (page + PAGE_SIZE) (va + fsz)) = min (unat page + 4096) (unat va + unat fsz)"
    "max page va < min (page + PAGE_SIZE) (va + fsz) \<longleftrightarrow>
       max (unat page) (unat va) < min (unat page + 4096) (unat va + unat fsz)"
proof -
  have pe: "unat (page + PAGE_SIZE) = unat page + 4096"
    using assms(2) by (simp add: PAGE_SIZE_def unat_word_ariths)
  have ve: "unat (va + fsz) = unat va + unat fsz"
    using assms(1) by (simp add: unat_word_ariths)
  show 1: "unat (max page va) = max (unat page) (unat va)"
    by (simp add: max_def word_le_nat_alt)
  show 2: "unat (min (page + PAGE_SIZE) (va + fsz)) = min (unat page + 4096) (unat va + unat fsz)"
    by (simp only: unat_min_word pe ve)
  show "max page va < min (page + PAGE_SIZE) (va + fsz) \<longleftrightarrow>
       max (unat page) (unat va) < min (unat page + 4096) (unat va + unat fsz)"
    by (simp only: word_less_nat_alt 1 2)
qed

lemma copy_range:
  fixes page va fsz off :: u64
  assumes geom: "unat off + unat fsz < 2 ^ 64" "unat va + unat fsz < 2 ^ 64"
    and page: "unat page + 4096 < 2 ^ 64"
    and lt: "max (unat page) (unat va) < min (unat page + 4096) (unat va + unat fsz)"
  shows "unat (min (page + PAGE_SIZE) (va + fsz) - max page va) =
       min (unat page + 4096) (unat va + unat fsz) - max (unat page) (unat va)"
    "unat (off + max page va - va) = unat off + (max (unat page) (unat va) - unat va)"
    "f + max page va - page = f + of_nat (max (unat page) (unat va) - unat page)"
proof -
  note B = copy_bounds [OF geom(2) page]
  show "unat (min (page + PAGE_SIZE) (va + fsz) - max page va) =
       min (unat page + 4096) (unat va + unat fsz) - max (unat page) (unat va)"
    using lt unfolding B(3) [symmetric] by (subst unat_sub) (simp_all only: B(1,2) less_imp_le)
  have d: "unat (max page va - x) = max (unat page) (unat va) - unat x" if "x = page \<or> x = va" for x
    using that by (subst unat_sub) (auto simp only: B(1) max.cobounded1 max.cobounded2)
  have "unat off + unat (max page va - va) < 2 ^ LENGTH(64)"
    using d [of va] lt geom(1) by simp linarith
  then have "unat (off + (max page va - va)) = unat off + unat (max page va - va)"
    by (rule unat_add_lem [THEN iffD1])
  then show "unat (off + max page va - va) = unat off + (max (unat page) (unat va) - unat va)"
    unfolding d [OF disjI2 [OF refl]] by (simp add: add_diff_eq)
  have "max page va - page = of_nat (max (unat page) (unat va) - unat page)"
  proof -
    have "of_nat (unat (max page va - page)) = max page va - page" by simp
    then show ?thesis unfolding d [OF disjI1 [OF refl]] by simp
  qed
  then show "f + max page va - page = f + of_nat (max (unat page) (unat va) - unat page)"
    by (simp add: add_diff_eq [symmetric])
qed

text \<open>What \<open>load_page\<close> does to the tables and to the mapped frame.\<close>

definition copied_part :: "u8 list \<Rightarrow> u64 \<Rightarrow> u64 \<Rightarrow> u64 \<Rightarrow> u64 \<Rightarrow> nat \<times> u8 list" where
  "copied_part elf off va fsz page =
     (if max page va < min (page + PAGE_SIZE) (va + fsz)
      then (unat (max page va - page), slice elf (unat (off + max page va - va))
              (unat (off + max page va - va) + unat (min (page + PAGE_SIZE) (va + fsz) - max page va)))
      else (0, []))"

lemma copied_part_fits:
  assumes "copied_part elf off va fsz page = (n, data)"
  shows "n + length data \<le> 4096"
proof (cases "max page va < min (page + PAGE_SIZE) (va + fsz)")
  case True
  let ?cs = "max page va" and ?ce = "min (page + PAGE_SIZE) (va + fsz)"
  have le: "?cs \<le> ?ce" "page \<le> ?cs" "?ce \<le> page + PAGE_SIZE" using True by auto
  have "length data \<le> unat (?ce - ?cs)" "n = unat (?cs - page)"
    using assms True by (auto simp: copied_part_def slice_def)
  moreover have "unat (?ce - ?cs) = unat ?ce - unat ?cs" "unat (?cs - page) = unat ?cs - unat page"
    using le by (simp_all only: unat_sub)
  moreover have "unat ?ce \<le> unat page + 4096"
  proof -
    have "unat ?ce \<le> unat (page + PAGE_SIZE)" using le(3) by (simp only: word_le_nat_alt)
    also have "\<dots> \<le> unat page + 4096" by (simp add: unat_word_ariths PAGE_SIZE_def)
    finally show ?thesis .
  qed
  moreover have "unat ?cs \<le> unat ?ce" "unat page \<le> unat ?cs" using le by (simp_all only: word_le_nat_alt)
  ultimately show ?thesis by linarith
next
  case False
  then show ?thesis using assms unfolding copied_part_def if_not_P [OF False] by simp
qed

lemma load_page_shape:
  assumes fo: "forest R m" and r: "r \<in> R" and user: "user_flags flags"
    and e: "load_page elf r flags off va fsz page m = (res, m')"
    and part: "copied_part elf off va fsz page = (n, data)"
  shows "forest R m'" and "kept R m m'"
    and "res = Inr () \<Longrightarrow> user_range page \<and>
      (\<exists>f. resolve (table_indices page) r m' = Some f \<and> leaf_entry (table_indices page) r m' = f OR flag_bits flags \<and>
        (\<forall>k < 4096. phys m' (unat f + k) = (if n \<le> k \<and> k < n + length data then data ! (k - n) else 0)))"
proof -
  have ALL: "forest R m' \<and> kept R m m' \<and> (res = Inr () \<longrightarrow> user_range page \<and>
      (\<exists>f. resolve (table_indices page) r m' = Some f \<and> leaf_entry (table_indices page) r m' = f OR flag_bits flags \<and>
        (\<forall>k < 4096. phys m' (unat f + k) = (if n \<le> k \<and> k < n + length data then data ! (k - n) else 0))))"
  proof (cases "allocate_physical_frame m")
    case (Pair x m1)
    show ?thesis
    proof (cases x)
      case None
      then have "m1 = m"
        using Pair fa.allocate_None by (fastforce simp: allocate_physical_frame_def split: prod.splits)
      then show ?thesis using e Pair None fo by (auto simp: load_page_def)
    next
      case (Some f)
      define m2 where "m2 = zero_physical_frame f m1"
      note Z = zeroed_frame [OF fo Pair [unfolded Some] m2_def]
      obtain y m3 where mp: "map_user_page_in r page f flags m2 = (y, m3)" by fastforce
      note M = map_user_page_forest [OF Z(1) r Z(3) user mp]
      have k3: "kept R m m3" by (rule kept_trans [OF Z(2) M(2)])
      show ?thesis
      proof (cases y)
        case (Inl err)
        then show ?thesis using e Pair Some mp M(1) k3 by (auto simp: load_page_def m2_def [symmetric])
      next
        case (Inr u)
        have page: "user_range page" and res3: "resolve (table_indices page) r m3 = Some f"
          and leaf3: "leaf_entry (table_indices page) r m3 = f OR flag_bits flags"
          using M(4) Inr by simp_all
        note q = page_path_indices [OF page]
        have zero3: "phys m3 (unat f + k) = 0" if "k < 4096" for k
          using same_frame_bytes [of f m2 m3 k] M(3) [of f] loose_inert [OF Z(3)] Z(5) that by simp
        have sum: "f + max page va - page = f + of_nat (unat (max page va - page))" by (simp add: add_diff_eq)
        have "res = Inr () \<and> (m' = write_physical_frame (f + of_nat n) data m3 \<or> m' = m3 \<and> data = [])"
        proof (cases "max page va < min (page + PAGE_SIZE) (va + fsz)")
          case True
          then have "res = Inr () \<and> m' = write_physical_frame (f + max page va - page)
              (slice elf (unat (off + max page va - va)) (unat (off + max page va - va) +
                unat (min (page + PAGE_SIZE) (va + fsz) - max page va))) m3"
            using e Pair Some mp Inr by (simp add: load_page_def m2_def [symmetric] Let_def)
          moreover have "n = unat (max page va - page)" "data = slice elf (unat (off + max page va - va))
              (unat (off + max page va - va) + unat (min (page + PAGE_SIZE) (va + fsz) - max page va))"
            using part unfolding copied_part_def if_P [OF True] by simp_all
          ultimately show ?thesis unfolding sum by blast
        next
          case False
          have "data = []" using part unfolding copied_part_def if_not_P [OF False] by simp
          moreover have "res = Inr () \<and> m' = m3"
            using e Pair Some mp Inr False
            by (auto simp: load_page_def m2_def [symmetric] Let_def split: if_splits)
          ultimately show ?thesis by blast
        qed
        moreover have "m3 = write_physical_frame (f + of_nat n) [] m3"
          by (rule memory.equality) (auto simp: write_physical_frame_def fun_eq_iff)
        ultimately have res: "res = Inr ()" and m4: "m' = write_physical_frame (f + of_nat n) data m3" by auto
        note W = fill_page [OF M(1) r q res3 copied_part_fits [OF part] m4]
        have "kept R m m'"
        proof (rule keptI [OF fo])
          show "same_frame u m m'" if "inert R u m" for u
            using Z(8) [OF that] M(3) [of u] W(4) [of u] by (meson same_frame_trans)
          show "leaf_entry q r' m' = leaf_entry q r' m"
            if "r' \<in> R" "page_path q" "leaf_entry q r' m AND PRESENT \<noteq> 0" for r' q
          proof -
            have "resolve q r' m \<noteq> None" using that(3) unfolding resolve_leaf [OF that(2)] by simp
            then have "leaf_entry q r' m3 = leaf_entry q r' m" using keptD(2) [OF k3 that(1,2)] by blast
            then show ?thesis using W(3) [OF that(1,2)] by simp
          qed
        qed
        moreover have lf: "leaf_entry (table_indices page) r m' = f OR flag_bits flags"
          using W(3) [OF r q] leaf3 by simp
        moreover have "resolve (table_indices page) r m' = Some f"
          using res3 unfolding resolve_leaf [OF q] lf leaf3 .
        ultimately show ?thesis using W(1,2) zero3 page by simp
      qed
    qed
  qed
  then show "forest R m'" "kept R m m'" "res = Inr () \<Longrightarrow> user_range page \<and>
      (\<exists>f. resolve (table_indices page) r m' = Some f \<and> leaf_entry (table_indices page) r m' = f OR flag_bits flags \<and>
        (\<forall>k < 4096. phys m' (unat f + k) = (if n \<le> k \<and> k < n + length data then data ! (k - n) else 0)))"
    by blast+
qed

lemma load_page_effect:
  assumes fo: "forest R m" and r: "r \<in> R" and user: "user_flags flags"
    and geom: "unat off + unat fsz \<le> length elf" "unat off + unat fsz < 2 ^ 64" "unat va + unat fsz < 2 ^ 64"
    and al: "unat page mod 4096 = 0"
    and e: "load_page elf r flags off va fsz page m = (Inr (), m')"
    and a: "unat a div 4096 = unat page div 4096"
  shows "mapped_as r a flags m' \<and> user_byte r a m' = Some (file_byte elf off va fsz a)"
proof -
  obtain n data where part: "copied_part elf off va fsz page = (n, data)" by fastforce
  obtain f where page: "user_range page" and W: "resolve (table_indices page) r m' = Some f"
      "leaf_entry (table_indices page) r m' = f OR flag_bits flags"
      "\<And>k. k < 4096 \<Longrightarrow> phys m' (unat f + k) = (if n \<le> k \<and> k < n + length data then data ! (k - n) else 0)"
    using load_page_shape(3) [OF fo r user e part] by blast
  have p64: "unat page + 4096 < 2 ^ 64" using page by (simp add: user_range_nat)
  define s where "s = max (unat page) (unat va)"
  define t where "t = min (unat page + 4096) (unat va + unat fsz)"
  note B = copy_bounds [OF geom(3) p64, folded s_def t_def]
  have pt: "unat page \<le> s" "unat va \<le> s" "t \<le> unat page + 4096" "t \<le> unat va + unat fsz"
    by (simp_all add: s_def t_def)
  have dat: "s < t \<Longrightarrow> n = s - unat page \<and> data = slice elf (unat off + (s - unat va)) (unat off + (t - unat va))"
    "\<not> s < t \<Longrightarrow> data = []"
  proof -
    assume st: "s < t"
    note C = copy_range [OF geom(2,3) p64 st [unfolded s_def t_def], folded s_def t_def]
    have "page \<le> max page va" by simp
    then have "unat (max page va - page) = s - unat page" by (simp only: unat_sub B(1))
    moreover have "unat off + (s - unat va) + (t - s) = unat off + (t - unat va)" using st pt by simp
    ultimately show "n = s - unat page \<and> data = slice elf (unat off + (s - unat va)) (unat off + (t - unat va))"
      using part st B(3) unfolding copied_part_def C by simp
  next
    assume "\<not> s < t"
    then have "\<not> max page va < min (page + PAGE_SIZE) (va + fsz)" using B(3) by blast
    then show "data = []" using part unfolding copied_part_def by (simp only: if_False prod.inject)
  qed
  have len: "length data = (if s < t then t - s else 0)" using dat geom(1) pt by auto
  have ti: "table_indices a = table_indices page" by (rule same_page_indices [OF a])
  define k where "k = unat a mod 4096"
  have k: "k < 4096" "unat a = unat page + k"
    using a page_aligned [OF al] div_mult_mod_eq [of "unat a" 4096] by (simp_all add: k_def)
  have "phys m' (unat f + k) = file_byte elf off va fsz a"
  proof (cases "unat va \<le> unat a \<and> unat a < unat va + unat fsz")
    case True
    then have st: "s \<le> unat a" "unat a < t" using k by (simp_all add: s_def t_def)
    then have "data ! (k - n) = elf ! (unat off + (s - unat va) + (k - n))"
      using geom(1) pt k(2) dat(1) by simp
    moreover have "unat off + (s - unat va) + (k - n) = unat off + (unat a - unat va)"
      using st pt k(2) dat(1) by simp
    ultimately show ?thesis using W(3) [OF k(1)] st pt True len dat(1) k(2) by (auto simp: file_byte_def)
  next
    case False
    then have "\<not> (n \<le> k \<and> k < n + length data)"
      using pt k(2) dat(1) len by (cases "s < t") (auto simp: s_def t_def)
    then show ?thesis using W(3) [OF k(1)] False by (auto simp: file_byte_def)
  qed
  then show ?thesis
    using W same_page_range [OF page al a] by (simp add: mapped_as_def user_byte_def ti k_def)
qed

lemma load_pages_safe:
  assumes "forest R m" and "r \<in> R" and "user_flags flags" and "load_pages elf r flags off va fsz ps m = (res, m')"
  shows "forest R m' \<and> kept R m m'"
  using assms(1,4)
proof (induction ps arbitrary: m)
  case (Cons p ps)
  obtain x m1 where lp: "load_page elf r flags off va fsz p m = (x, m1)" by fastforce
  obtain n data where part: "copied_part elf off va fsz p = (n, data)" by fastforce
  note E = load_page_shape(1,2) [OF Cons.prems(1) assms(2,3) lp part]
  show ?case
  proof (cases x)
    case (Inl err)
    then show ?thesis using Cons.prems(2) lp E by simp
  next
    case (Inr u)
    then have "load_pages elf r flags off va fsz ps m1 = (res, m')" using Cons.prems(2) lp by simp
    from Cons.IH [OF E(1) this] show ?thesis using kept_trans [OF E(2)] by blast
  qed
qed simp

lemma load_pages_effect:
  assumes "forest R m" and "r \<in> R" and "user_flags flags"
    and "unat off + unat fsz \<le> length elf" "unat off + unat fsz < 2 ^ 64" "unat va + unat fsz < 2 ^ 64"
    and "\<forall>p \<in> set ps. unat p mod 4096 = 0"
    and "load_pages elf r flags off va fsz ps m = (Inr (), m')"
    and "\<exists>p \<in> set ps. unat p div 4096 = unat a div 4096"
  shows "mapped_as r a flags m' \<and> user_byte r a m' = Some (file_byte elf off va fsz a)"
  using assms(1,7-9)
proof (induction ps arbitrary: m)
  case (Cons p ps)
  obtain x m1 where lp: "load_page elf r flags off va fsz p m = (x, m1)" by fastforce
  have x: "x = Inr ()" and rest: "load_pages elf r flags off va fsz ps m1 = (Inr (), m')"
    using Cons.prems(3) lp by (cases x; simp)+
  have al: "unat p mod 4096 = 0" "\<forall>p \<in> set ps. unat p mod 4096 = 0" using Cons.prems(2) by simp_all
  obtain n data where part: "copied_part elf off va fsz p = (n, data)" by fastforce
  note fo1 = load_page_shape(1) [OF Cons.prems(1) assms(2,3) lp part]
  show ?case
  proof (cases "unat p div 4096 = unat a div 4096")
    case True
    have 1: "mapped_as r a flags m1 \<and> user_byte r a m1 = Some (file_byte elf off va fsz a)"
      by (rule load_page_effect [OF Cons.prems(1) assms(2-6) al(1) lp [unfolded x] True [symmetric]])
    then have "user_range a" by (simp add: mapped_as_def)
    moreover have "kept R m1 m'" using load_pages_safe [OF fo1 assms(2,3) rest] by blast
    ultimately show ?thesis using kept_mapped_as [OF _ assms(2)] kept_byte [OF _ assms(2)] 1 by blast
  next
    case False
    then show ?thesis using Cons.IH [OF fo1 al(2) rest] Cons.prems(4) by simp
  qed
qed simp

section \<open>A whole segment\<close>

definition header_range_ok :: "u8 list \<Rightarrow> program_header \<Rightarrow> bool" where
  "header_range_ok elf h \<longleftrightarrow>
     (case h of
        Load flags off va fsz msz \<Rightarrow> unat off + unat fsz \<le> length elf \<and> unat off + unat fsz < 2 ^ 64 \<and>
          unat fsz \<le> unat msz \<and> 0 < unat msz \<and> unat va + unat msz \<le> 2 ^ 47
      | Tls t \<Rightarrow> unat (tls_file_offset t) + unat (tls_file_size t) \<le> length elf \<and>
          unat (tls_file_offset t) + unat (tls_file_size t) < 2 ^ 64 \<and> tls_file_size t \<le> tls_memory_size t
      | Other \<Rightarrow> True)"

lemma and_then_Inr: "and_then x f = Inr y \<longleftrightarrow> (\<exists>z. x = Inr z \<and> f z = Inr y)"
  by (cases x) auto

lemma checked_add_u64:
  "checked_add (a :: u64) b = Some c \<Longrightarrow> unat c = unat a + unat b \<and> unat a + unat b < 18446744073709551616"
  using checked_add_Some [of a b c] unat_u64_lt [of c] by simp

lemma parse_header_ok:
  assumes "parse_program_header elf at = Inr h"
  shows "header_range_ok elf h"
proof -
  have "header_range_ok elf h" if "parse_load elf at = Inr h"
    using that
    by (auto simp: parse_load_def and_then_Inr header_range_ok_def word_le_nat_alt word_less_nat_alt
        USER_SPACE_END_def checked_add_None [symmetric] unat_gt_0 split: if_splits option.splits
        dest!: checked_add_u64)
  moreover have "header_range_ok elf h" if "parse_tls elf at = Inr h"
    using that
    by (auto simp: parse_tls_def and_then_Inr header_range_ok_def word_le_nat_alt word_less_nat_alt
        split: if_splits option.splits dest!: checked_add_u64)
  ultimately show ?thesis
    using assms by (auto simp: parse_program_header_def and_then_Inr header_range_ok_def split: if_splits)
qed

definition segment_loaded :: "u64 \<Rightarrow> u8 list \<Rightarrow> program_header \<Rightarrow> memory \<Rightarrow> bool" where
  "segment_loaded r elf h m \<longleftrightarrow>
     (case h of
        Load flags off va fsz msz \<Rightarrow>
          (\<forall>a. unat va \<le> unat a \<longrightarrow> unat a < unat va + unat msz \<longrightarrow>
             mapped_as r a (segment_page_flags flags) m \<and> user_byte r a m = Some (file_byte elf off va fsz a))
      | _ \<Rightarrow> True)"

lemma segment_user_flags [simp]: "user_flags (segment_page_flags flags)"
  unfolding user_flags_bits segment_page_flags_def
  by (auto simp: bit_or_iff bit_flags split: bool.split)

lemma segment_loaded_kept:
  assumes "kept R m m'" and "r \<in> R" and "segment_loaded r elf h m"
  shows "segment_loaded r elf h m'"
proof (cases h)
  case (Load flags off va fsz msz)
  have "mapped_as r a (segment_page_flags flags) m' \<and> user_byte r a m' = Some (file_byte elf off va fsz a)"
    if "unat va \<le> unat a" "unat a < unat va + unat msz" for a
  proof -
    have *: "mapped_as r a (segment_page_flags flags) m" "user_byte r a m = Some (file_byte elf off va fsz a)"
      using assms(3) Load that by (simp_all add: segment_loaded_def)
    then have "user_range a" by (simp add: mapped_as_def)
    then show ?thesis using kept_mapped_as [OF assms(1,2)] kept_byte [OF assms(1,2)] * by blast
  qed
  then show ?thesis using Load by (simp add: segment_loaded_def)
qed (simp_all add: segment_loaded_def)

lemma segment_pages_cover:
  assumes "0 < unat msz" and "unat va + unat msz < 2 ^ 64"
    and "unat va \<le> unat a" and "unat a < unat va + unat msz"
  shows "\<exists>p \<in> set (segment_pages va (va + msz)). unat p div 4096 = unat a div 4096"
proof -
  have e: "unat (va + msz) = unat va + unat msz" using assms(2) by (simp add: unat_word_ariths)
  have l: "unat (va + msz - 1) = unat va + unat msz - 1"
    using assms(1) e by (metis One_nat_def Suc_leI add_gr_0 unat_1 unat_minus_one unat_gt_0)
  have b: "unat (page_base x) mod 4096 = 0" "unat (page_base x) div 4096 = unat x div 4096" for x
    by (simp_all add: unat_page_base)
  have "\<exists>p \<in> set (segment_pages va (va + msz)). unat p = unat a div 4096 * 4096"
    unfolding segment_pages_def using assms(3,4)
    by (intro pages_between_mem) (simp_all add: b l div_le_mono)
  then show ?thesis by force
qed

lemma segment_pages_aligned: "p \<in> set (segment_pages va e) \<Longrightarrow> unat p mod 4096 = 0"
  using pages_between_aligned [of "page_base va" p "page_base (e - 1)"]
  by (simp add: segment_pages_def unat_page_base)

lemma load_segment_effect:
  assumes fo: "forest R m" and r: "r \<in> R" and ok: "header_range_ok elf (Load flags off va fsz msz)"
    and e: "load_pages elf r (segment_page_flags flags) off va fsz (segment_pages va (va + msz)) m = (Inr (), m')"
  shows "segment_loaded r elf (Load flags off va fsz msz) m'"
proof -
  have g: "unat off + unat fsz \<le> length elf" "unat off + unat fsz < 2 ^ 64" "unat va + unat fsz < 2 ^ 64"
    "0 < unat msz" "unat va + unat msz \<le> 2 ^ 47"
    using ok by (auto simp: header_range_ok_def)
  have al: "\<forall>p \<in> set (segment_pages va (va + msz)). unat p mod 4096 = 0"
    using segment_pages_aligned by blast
  have "unat va + unat msz < 2 ^ 64" using g(5) by simp
  then show ?thesis
    using load_pages_effect [OF fo r segment_user_flags g(1-3) al e segment_pages_cover [OF g(4)]]
    by (simp add: segment_loaded_def)
qed

section \<open>The program headers\<close>

definition headers_done ::
  "u64 \<Rightarrow> u8 list \<Rightarrow> u64 \<Rightarrow> nat \<Rightarrow> nat \<Rightarrow> nat \<Rightarrow> bool \<Rightarrow> bool \<Rightarrow> memory \<Rightarrow> bool" where
  "headers_done r elf entry table index count x0 x m \<longleftrightarrow>
     (\<forall>i. index \<le> i \<longrightarrow> i < index + count \<longrightarrow>
        (\<exists>h. parse_program_header elf (table + i * PROGRAM_HEADER_SIZE) = Inr h \<and> segment_loaded r elf h m)) \<and>
     (x \<longleftrightarrow> x0 \<or> (\<exists>i h. index \<le> i \<and> i < index + count \<and>
        parse_program_header elf (table + i * PROGRAM_HEADER_SIZE) = Inr h \<and> entry_in_segment entry h))"

lemma headers_done_0 [simp]: "headers_done r elf entry table index 0 x0 x m \<longleftrightarrow> x = x0"
  unfolding headers_done_def by (metis add_0_right not_less)

lemma headers_done_Suc:
  assumes "parse_program_header elf (table + index * PROGRAM_HEADER_SIZE) = Inr h" and "segment_loaded r elf h m"
    and "headers_done r elf entry table (Suc index) count (x0 \<or> entry_in_segment entry h) x m"
  shows "headers_done r elf entry table index (Suc count) x0 x m"
proof -
  have range: "index \<le> i \<and> i < index + Suc count \<longleftrightarrow> i = index \<or> (Suc index \<le> i \<and> i < Suc index + count)" for i
    by auto
  have "\<exists>h. parse_program_header elf (table + i * PROGRAM_HEADER_SIZE) = Inr h \<and> segment_loaded r elf h m"
    if "index \<le> i" "i < index + Suc count" for i
    using assms range [of i] that by (cases "i = index") (auto simp: headers_done_def)
  moreover have "x \<longleftrightarrow> x0 \<or> (\<exists>i h. index \<le> i \<and> i < index + Suc count \<and>
        parse_program_header elf (table + i * PROGRAM_HEADER_SIZE) = Inr h \<and> entry_in_segment entry h)"
  proof -
    have "x \<longleftrightarrow> x0 \<or> entry_in_segment entry h \<or> (\<exists>i h. (Suc index \<le> i \<and> i < Suc index + count) \<and>
        parse_program_header elf (table + i * PROGRAM_HEADER_SIZE) = Inr h \<and> entry_in_segment entry h)"
      using assms(3) unfolding headers_done_def by blast
    moreover have "h' = h" if "parse_program_header elf (table + index * PROGRAM_HEADER_SIZE) = Inr h'" for h'
      using that assms(1) by simp
    ultimately show ?thesis using assms(1) unfolding conj_assoc [symmetric] range by blast
  qed
  ultimately show ?thesis unfolding headers_done_def by blast
qed

lemma load_headers_effect:
  assumes "forest R m" and "r \<in> R"
    and "load_headers elf r entry table index count x0 t0 m = (res, m')"
    and "case t0 of None \<Rightarrow> True | Some t \<Rightarrow> header_range_ok elf (Tls t)"
  shows "forest R m' \<and> kept R m m' \<and> (case res of Inl _ \<Rightarrow> True
    | Inr (x, t) \<Rightarrow> headers_done r elf entry table index count x0 x m' \<and>
        (case t of None \<Rightarrow> True | Some t \<Rightarrow> header_range_ok elf (Tls t)))"
  using assms(1,3,4)
proof (induction count arbitrary: index x0 t0 m)
  case 0
  then show ?case by auto
next
  case (Suc count)
  let ?at = "table + index * PROGRAM_HEADER_SIZE"
  let ?G = "forest R m' \<and> kept R m m' \<and> (case res of Inl _ \<Rightarrow> True
    | Inr (x, t) \<Rightarrow> headers_done r elf entry table index (Suc count) x0 x m' \<and>
        (case t of None \<Rightarrow> True | Some t \<Rightarrow> header_range_ok elf (Tls t)))"
  show ?G
  proof (cases "\<exists>h ty. read_u32 elf ?at = Inr ty \<and> \<not> (ty = PROGRAM_HEADER_TLS \<and> t0 \<noteq> None) \<and>
      parse_program_header elf ?at = Inr h")
    case False
    then have "m' = m \<and> (\<exists>e. res = Inl e)"
      using Suc.prems(2) by (auto simp: Let_def split: sum.splits if_splits)
    then show ?thesis using Suc.prems(1) by auto
  next
    case True
    then obtain h ty where h: "read_u32 elf ?at = Inr ty" "\<not> (ty = PROGRAM_HEADER_TLS \<and> t0 \<noteq> None)"
      "parse_program_header elf ?at = Inr h" by blast
    note ok = parse_header_ok [OF h(3)]
    have unfolded: "(ty = PROGRAM_HEADER_TLS \<and> t0 \<noteq> None) = False" using h(2) by blast
    note run = Suc.prems(2) [unfolded load_headers.simps Let_def h(1) h(3) sum.case unfolded if_False]
    have step: ?G
      if fo1: "forest R m1" and k1: "kept R m m1" and s1: "segment_loaded r elf h m1"
        and rest: "load_headers elf r entry table (Suc index) count (x0 \<or> entry_in_segment entry h) t1 m1 = (res, m')"
        and t1: "case t1 of None \<Rightarrow> True | Some t \<Rightarrow> header_range_ok elf (Tls t)" for m1 t1
    proof -
      note I = Suc.IH [OF fo1 rest t1]
      have "segment_loaded r elf h m'" using segment_loaded_kept [OF _ assms(2) s1] I by blast
      note D = headers_done_Suc [OF h(3) this]
      show ?thesis using I kept_trans [OF k1] D by (auto split: sum.splits)
    qed
    show ?thesis
    proof (cases h)
      case (Tls t)
      then show ?thesis
        using step [of m "Some t"] Suc.prems(1) run ok
        by (simp add: segment_loaded_def entry_in_segment_def)
    next
      case Other
      then show ?thesis
        using step [of m t0] Suc.prems(1,3) run by (simp add: segment_loaded_def entry_in_segment_def)
    next
      case (Load flags off va fsz msz)
      obtain y m1 where lp: "load_pages elf r (segment_page_flags flags) off va fsz
          (segment_pages va (va + msz)) m = (y, m1)" by fastforce
      note S = load_pages_safe [OF Suc.prems(1) assms(2) segment_user_flags lp]
      show ?thesis
      proof (cases y)
        case (Inl e)
        then show ?thesis using S run Load lp by auto
      next
        case (Inr u)
        have "segment_loaded r elf h m1"
          using load_segment_effect [OF Suc.prems(1) assms(2)] ok lp Inr Load by simp
        then show ?thesis
          using step [of m1 t0] S Suc.prems(3) run Load lp Inr by simp
      qed
    qed
  qed
qed

section \<open>The stack and the thread-local block\<close>

lemma user_flags_rw [simp]: "user_flags UserReadWrite"
  by (simp add: user_flags_bits bit_or_iff bit_flags)

lemma stack_as_load:
  "load_pages [] r UserReadWrite 0 0 0 ps m =
     (case map_fresh_pages (\<lambda>address frame m. map_user_page_in r address frame UserReadWrite
                (zero_physical_frame frame m)) ps m of
        (Inl e, m') \<Rightarrow> (Inl (PagingFailed e), m') | (Inr _, m') \<Rightarrow> (Inr (), m'))"
  by (induction ps arbitrary: m)
    (auto simp: load_page_def Let_def split: prod.splits option.splits sum.splits)

lemma user_stack_aligned: "p \<in> set (user_stack_pages slot) \<Longrightarrow> unat p mod 4096 = 0"
proof -
  assume "p \<in> set (user_stack_pages slot)"
  then obtain k where p: "p = user_stack_top slot - of_nat k * PAGE_SIZE" by (auto simp: user_stack_pages_def)
  define z :: u64 where "z = 2 ^ 35 - 1 - of_nat slot * (of_nat USER_STACK_PAGES + 1) - of_nat k"
  have "p = z * 4096"
    by (simp add: p z_def user_stack_top_def USER_SPACE_END_def PAGE_SIZE_def algebra_simps)
  then show ?thesis by (simp add: unat_word_ariths mod_mod_cancel)
qed

lemma user_stack_effect:
  assumes fo: "forest R m" and r: "r \<in> R" and e: "allocate_user_stack_in r slot m = (res, m')"
  shows "forest R m' \<and> kept R m m' \<and> (case res of Inl _ \<Rightarrow> True | Inr st \<Rightarrow> st = user_stack_top slot \<and>
     (\<forall>a. page_of a \<in> page_of ` set (user_stack_pages slot) \<longrightarrow>
        mapped_as r a UserReadWrite m' \<and> user_byte r a m' = Some 0))"
proof -
  obtain y m1 where lp: "load_pages [] r UserReadWrite 0 0 0 (user_stack_pages slot) m = (y, m1)" by fastforce
  then have m1: "m1 = m'" and y: "case res of Inl _ \<Rightarrow> True | Inr st \<Rightarrow> y = Inr () \<and> st = user_stack_top slot"
    using e unfolding stack_as_load allocate_user_stack_in_def
    by (auto split: prod.splits sum.splits)
  have "mapped_as r a UserReadWrite m' \<and> user_byte r a m' = Some 0"
    if "y = Inr ()" "page_of a \<in> page_of ` set (user_stack_pages slot)" for a
  proof -
    have "\<exists>p \<in> set (user_stack_pages slot). unat p div 4096 = unat a div 4096"
      using that(2) by (auto simp: page_of_def)
    then have "mapped_as r a UserReadWrite m' \<and> user_byte r a m' = Some (file_byte [] 0 0 0 a)"
      using lp user_stack_aligned that(1) m1 by (intro load_pages_effect [OF fo r user_flags_rw]) auto
    then show ?thesis by (simp add: file_byte_def)
  qed
  then show ?thesis using load_pages_safe [OF fo r user_flags_rw lp] y m1 by (auto split: sum.splits)
qed

definition tls_base :: "nat \<Rightarrow> u64" where
  "tls_base slot = USER_TLS_BASE + of_nat slot * 0x10000"

definition tls_loaded :: "u64 \<Rightarrow> u8 list \<Rightarrow> nat \<Rightarrow> tls_image \<Rightarrow> u64 \<Rightarrow> memory \<Rightarrow> bool" where
  "tls_loaded r elf slot t fs m \<longleftrightarrow> (\<forall>a. unat (tls_base slot) \<le> unat a \<longrightarrow> unat a < unat fs + 64 \<longrightarrow>
     mapped_as r a UserReadWrite m \<and>
     user_byte r a m = Some (file_byte elf (tls_file_offset t) (tls_base slot) (tls_file_size t) a))"

lemma block_covers:
  fixes size align :: u64
  assumes "checked_add size (align - 1) = Some padded"
  shows "size \<le> padded AND NOT (align - 1)"
proof -
  let ?low = "padded AND (align - 1)" and ?high = "padded AND NOT (align - 1)"
  have "?high + ?low = ?high OR ?low" by (rule disjunctive_add) (auto simp: bit_simps)
  also have "\<dots> = padded" by (rule bit_word_eqI) (auto simp: bit_simps)
  finally have high: "?high = padded - ?low" by (simp add: eq_diff_eq)
  have "?low \<le> padded" by (rule word_and_le2)
  then have "unat ?high = unat padded - unat ?low" unfolding high by (rule unat_sub)
  moreover have "unat ?low \<le> unat (align - 1)" using word_and_le1 by (simp only: word_le_nat_alt)
  moreover have "unat padded = unat size + unat (align - 1)" using checked_add_u64 [OF assms] by simp
  ultimately show ?thesis by (simp add: word_le_nat_alt)
qed

lemma initial_tls_effect:
  assumes fo: "forest R m" and r: "r \<in> R" and ok: "header_range_ok elf (Tls t)"
    and e: "load_initial_tls elf r slot t m = (res, m')"
  shows "forest R m' \<and> kept R m m' \<and> (case res of Inl _ \<Rightarrow> True | Inr fs \<Rightarrow> tls_loaded r elf slot t fs m')"
proof (cases "checked_add (max (tls_memory_size t) 1) (max (tls_align t) 16 - 1)")
  case (Some padded)
  define block where "block = padded AND NOT (max (tls_align t) 16 - 1)"
  show ?thesis
  proof (cases "\<exists>fs end. checked_add (tls_base slot) block = Some fs \<and> checked_add fs TLS_TCB_SIZE = Some end")
    case True
    then obtain fs "end" where fs: "checked_add (tls_base slot) block = Some fs"
      and fin: "checked_add fs TLS_TCB_SIZE = Some end" by blast
    obtain y m1 where lp: "load_pages elf r UserReadWrite (tls_file_offset t) (tls_base slot) (tls_file_size t)
        (segment_pages (tls_base slot) end) m = (y, m1)" by fastforce
    have split: "res = (case y of Inl e \<Rightarrow> Inl e | Inr _ \<Rightarrow> Inr fs)" "m' = m1"
      using e Some fs fin lp
      by (auto simp: load_initial_tls_def Let_def block_def tls_base_def split: sum.splits)
    have "tls_loaded r elf slot t fs m1" if y: "y = Inr ()"
    proof -
      have "tls_memory_size t \<le> max (tls_memory_size t) 1" by simp
      also have "\<dots> \<le> block" unfolding block_def by (rule block_covers [OF Some])
      finally have "tls_memory_size t \<le> block" .
      moreover have "tls_file_size t \<le> tls_memory_size t" using ok by (simp add: header_range_ok_def)
      ultimately have "tls_file_size t \<le> block" by (rule order_trans [rotated])
      then have "unat (tls_file_size t) \<le> unat block" by (simp only: word_le_nat_alt)
      moreover note F = checked_add_u64 [OF fs] checked_add_u64 [OF fin]
      ultimately have g: "unat (tls_file_offset t) + unat (tls_file_size t) \<le> length elf"
        "unat (tls_file_offset t) + unat (tls_file_size t) < 2 ^ 64"
        "unat (tls_base slot) + unat (tls_file_size t) < 2 ^ 64"
        using ok by (simp_all add: header_range_ok_def)
      define sz where "sz = end - tls_base slot"
      have tcb: "unat TLS_TCB_SIZE = 64" by (simp add: TLS_TCB_SIZE_def)
      then have "unat (tls_base slot) \<le> unat end" "unat end = unat fs + 64" using F by simp_all
      then have sz: "unat sz = unat end - unat (tls_base slot)" "end = tls_base slot + sz"
        by (simp_all add: sz_def unat_sub word_le_nat_alt)
      have pos: "0 < unat sz" "unat (tls_base slot) + unat sz < 2 ^ 64" using F sz(1) tcb by simp_all
      have al: "\<forall>p \<in> set (segment_pages (tls_base slot) end). unat p mod 4096 = 0"
        using segment_pages_aligned by blast
      show ?thesis
        unfolding tls_loaded_def
      proof (intro allI impI)
        fix a :: u64 assume a: "unat (tls_base slot) \<le> unat a" "unat a < unat fs + 64"
        then have "unat a < unat (tls_base slot) + unat sz" using sz(1) F tcb by simp
        from segment_pages_cover [OF pos a(1) this]
        have "\<exists>p \<in> set (segment_pages (tls_base slot) end). unat p div 4096 = unat a div 4096"
          by (simp add: sz(2) [symmetric])
        from load_pages_effect [OF fo r user_flags_rw g al lp [unfolded y] this]
        show "mapped_as r a UserReadWrite m1 \<and>
          user_byte r a m1 = Some (file_byte elf (tls_file_offset t) (tls_base slot) (tls_file_size t) a)" .
      qed
    qed
    then show ?thesis using load_pages_safe [OF fo r user_flags_rw lp] split by (cases y) auto
  next
    case False
    then have "m' = m \<and> (\<exists>e. res = Inl e)"
      using e Some by (auto simp: load_initial_tls_def Let_def block_def tls_base_def split: option.splits)
    then show ?thesis using fo by auto
  qed
next
  case None
  then show ?thesis using e fo by (auto simp: load_initial_tls_def Let_def)
qed

end
