(* ===== verification/Images.thy ===== *)
theory Images
  imports Loader
begin

text \<open>
  The loader as a whole, \<open>load_user_elf_into\<close>: what an accepted image guarantees about the
  address space, and what a load, accepted or not, leaves alone.
\<close>

section \<open>The steps of a load\<close>

lemma headers_done_kept:
  assumes k: "kept R m m'" and r: "r \<in> R" and h: "headers_done r elf entry table index count x0 x m"
  shows "headers_done r elf entry table index count x0 x m'"
  using h segment_loaded_kept [OF k r] unfolding headers_done_def by blast

definition stack_ready :: "u64 \<Rightarrow> nat \<Rightarrow> memory \<Rightarrow> bool" where
  "stack_ready r slot m \<longleftrightarrow> (\<forall>a. page_of a \<in> page_of ` set (user_stack_pages slot) \<longrightarrow>
     mapped_as r a UserReadWrite m \<and> user_byte r a m = Some 0)"

lemma stack_ready_kept:
  assumes k: "kept R m m'" and r: "r \<in> R" and s: "stack_ready r slot m"
  shows "stack_ready r slot m'"
  unfolding stack_ready_def
proof (intro allI impI)
  fix a assume "page_of a \<in> page_of ` set (user_stack_pages slot)"
  then have a: "mapped_as r a UserReadWrite m" "user_byte r a m = Some 0"
    using s unfolding stack_ready_def by blast+
  then have "user_range a" by (simp add: mapped_as_def)
  then show "mapped_as r a UserReadWrite m' \<and> user_byte r a m' = Some 0"
    using a kept_mapped_as [OF k r] kept_byte [OF k r] by blast
qed

lemma load_image_effect:
  assumes fo: "forest R m" and r: "r \<in> R" and e: "load_user_elf_into elf r slot m = (res, m')"
  shows "forest R m' \<and> kept R m m' \<and> (case res of Inl _ \<Rightarrow> True | Inr li \<Rightarrow>
    (case parse_header elf of Inl _ \<Rightarrow> False | Inr (entry, table, count) \<Rightarrow>
      loaded_entry li = entry \<and> headers_done r elf entry table 0 count False True m' \<and>
      loaded_stack_pointer li = user_stack_top slot - 8 \<and> stack_ready r slot m' \<and>
      (case loaded_tls li of None \<Rightarrow> loaded_fs_base li = 0
       | Some t \<Rightarrow> tls_loaded r elf slot t (loaded_fs_base li) m')))"
proof (cases "parse_header elf")
  case (Inl err)
  then show ?thesis using e fo by (auto simp: load_user_elf_into_def)
next
  case (Inr y)
  obtain entry table count where y: "y = (entry, table, count)" by (metis prod_cases3)
  obtain res1 m1 where lh: "load_headers elf r entry table 0 count False None m = (res1, m1)" by fastforce
  note H = load_headers_effect [OF fo r lh, simplified]
  note hdr = Inr [unfolded y]
  show ?thesis
  proof (cases "\<exists>t. res1 = Inr (True, t)")
    case False
    then have "m' = m1 \<and> (\<exists>err. res = Inl err)"
      using e hdr lh by (auto simp: load_user_elf_into_def split: sum.splits prod.splits)
    then show ?thesis using H by auto
  next
    case True
    then obtain t where t: "res1 = Inr (True, t)" by blast
    obtain res2 m2 where st: "allocate_user_stack_in r slot m1 = (res2, m2)" by fastforce
    have H1: "forest R m1" "kept R m m1" "headers_done r elf entry table 0 count False True m1"
      "\<And>i. t = Some i \<Longrightarrow> header_range_ok elf (Tls i)"
      using H t by auto
    note S = user_stack_effect [OF H1(1) r st]
    have k2: "kept R m m2" using kept_trans [OF H1(2)] S by blast
    show ?thesis
    proof (cases res2)
      case (Inl err)
      then have "m' = m2 \<and> (\<exists>err. res = Inl err)"
        using e hdr lh t st by (auto simp: load_user_elf_into_def)
      then show ?thesis using S k2 by auto
    next
      case (Inr top)
      have top: "top = user_stack_top slot" and ready: "stack_ready r slot m2"
        using S Inr by (simp_all add: stack_ready_def)
      obtain res3 m3 where tls: "(case t of Some i \<Rightarrow> load_initial_tls elf r slot i m2 | None \<Rightarrow> (Inr 0, m2)) = (res3, m3)"
        by fastforce
      have T: "forest R m3 \<and> kept R m2 m3 \<and> (case res3 of Inl _ \<Rightarrow> True | Inr fs \<Rightarrow>
          (case t of None \<Rightarrow> fs = 0 | Some i \<Rightarrow> tls_loaded r elf slot i fs m3))"
      proof (cases t)
        case None
        then show ?thesis using tls S by auto
      next
        case (Some i)
        then show ?thesis
          using initial_tls_effect [OF _ r H1(4) [OF Some], of m2 slot res3 m3] tls S by (auto split: sum.splits)
      qed
      have m3: "m' = m3" and res: "res = (case res3 of Inl err \<Rightarrow> Inl err | Inr fs \<Rightarrow>
          Inr \<lparr>loaded_entry = entry, loaded_stack_pointer = top - 8, loaded_tls = t, loaded_fs_base = fs\<rparr>)"
        using e hdr lh t st Inr tls by (auto simp: load_user_elf_into_def split: sum.splits)
      have "headers_done r elf entry table 0 count False True m3"
        using headers_done_kept [OF _ r headers_done_kept [OF _ r H1(3)]] S T by blast
      moreover have "stack_ready r slot m3" using stack_ready_kept [OF _ r ready] T by blast
      ultimately show ?thesis
        using T kept_trans [OF k2] hdr top unfolding m3 res by (auto split: sum.splits option.splits)
    qed
  qed
qed

section \<open>Properties\<close>

lemma segment_page_flags_execute:
  "segment_page_flags flags = UserReadExecute \<or> segment_page_flags flags = UserReadWriteExecute \<longleftrightarrow>
     flags AND PROGRAM_FLAG_EXECUTE \<noteq> 0"
  by (auto simp: segment_page_flags_def split: bool.splits)

definition addresses_from :: "u64 \<Rightarrow> nat \<Rightarrow> u64 set" where
  "addresses_from va n = {a. unat va \<le> unat a \<and> unat a < unat va + n}"

text \<open>What an accepted image has in memory, segment by segment, under the space's own page tables.\<close>

definition segment_in_place :: "u64 \<Rightarrow> u8 list \<Rightarrow> memory \<Rightarrow> program_header \<Rightarrow> bool" where
  "segment_in_place r elf m h =
     (case h of
        Load flags off va fsz msz \<Rightarrow>
          addresses_from va (unat msz) \<subseteq>
            {a. user_byte r a m = Some (file_byte elf off va fsz a) \<and>
                mapped_as r a (segment_page_flags flags) m \<and>
                is_user_mapped a (switch_address_space r m) \<and>
                (is_user_executable a (switch_address_space r m) \<longleftrightarrow> flags AND PROGRAM_FLAG_EXECUTE \<noteq> 0)}
      | _ \<Rightarrow> True)"

lemma segment_loaded_in_place:
  assumes fo: "forest R m" and r: "r \<in> R" and s: "segment_loaded r elf h m"
  shows "segment_in_place r elf m h"
proof (cases h)
  case (Load flags off va fsz msz)
  show ?thesis
    unfolding segment_in_place_def Load program_header.case
  proof
    fix a assume "a \<in> addresses_from va (unat msz)"
    then have a: "mapped_as r a (segment_page_flags flags) m" "user_byte r a m = Some (file_byte elf off va fsz a)"
      using s Load by (simp_all add: segment_loaded_def addresses_from_def)
    note A = mapped_as_access [OF fo r segment_user_flags a(1)]
    show "a \<in> {a. user_byte r a m = Some (file_byte elf off va fsz a) \<and>
        mapped_as r a (segment_page_flags flags) m \<and> is_user_mapped a (switch_address_space r m) \<and>
        (is_user_executable a (switch_address_space r m) \<longleftrightarrow> flags AND PROGRAM_FLAG_EXECUTE \<noteq> 0)}"
      using a A unfolding segment_page_flags_execute by blast
  qed
qed (simp_all add: segment_in_place_def)

lemma entry_loaded_executable:
  assumes fo: "forest R m" and r: "r \<in> R" and s: "segment_loaded r elf h m"
    and p: "parse_program_header elf at = Inr h" and x: "entry_in_segment entry h"
  shows "is_user_executable entry (switch_address_space r m)"
proof -
  obtain flags off va fsz msz where h: "h = Load flags off va fsz msz"
    using x by (cases h) (simp_all add: entry_in_segment_def)
  have "unat (va + msz) = unat va + unat msz"
    using parse_header_ok [OF p] by (simp add: h header_range_ok_def unat_word_ariths)
  then have "entry \<in> addresses_from va (unat msz)" and "flags AND PROGRAM_FLAG_EXECUTE \<noteq> 0"
    using x by (auto simp: h entry_in_segment_def addresses_from_def word_le_nat_alt word_less_nat_alt)
  then show ?thesis using segment_loaded_in_place [OF fo r s] unfolding h segment_in_place_def by auto
qed

text \<open>
  C18: after an accepted load, on whatever address spaces exist, every LOAD segment of the image
  is in place: each of its addresses holds the byte of the file, or zero beyond the file's part,
  is reachable by user code, and is executable exactly when the segment is.
\<close>

theorem elf_segments_loaded:
  "(case space_run ops (boot_memory regions ranges m) of (S, m1) \<Rightarrow>
     (case load_user_elf_into elf r slot m1 of
        (Inl _, _) \<Rightarrow> True
      | (Inr li, m2) \<Rightarrow>
          if live S r = None then True
          else (case parse_header elf of
                  Inl _ \<Rightarrow> False
                | Inr (entry, table, count) \<Rightarrow>
                    list_all (\<lambda>i. case parse_program_header elf (table + i * PROGRAM_HEADER_SIZE) of
                                    Inl _ \<Rightarrow> False | Inr h \<Rightarrow> segment_in_place r elf m2 h) [0..<count])))"
proof -
  obtain S m1 where run: "space_run ops (boot_memory regions ranges m) = (S, m1)" by fastforce
  obtain res m2 where e: "load_user_elf_into elf r slot m1 = (res, m2)" by fastforce
  note fo = spaces_invD(1) [OF boot_run_inv [OF run]]
  show ?thesis
  proof (cases "(\<exists>li. res = Inr li) \<and> live S r \<noteq> None")
    case True
    then have r: "r \<in> dom (live S)" by auto
    note L = load_image_effect [OF fo r e]
    obtain entry table count where h: "parse_header elf = Inr (entry, table, count)"
      and d: "headers_done r elf entry table 0 count False True m2" and fo2: "forest (dom (live S)) m2"
      using L True by (auto split: sum.splits)
    have "\<exists>h. parse_program_header elf (table + i * PROGRAM_HEADER_SIZE) = Inr h \<and> segment_in_place r elf m2 h"
      if "i < count" for i
      using d that segment_loaded_in_place [OF fo2 r] unfolding headers_done_def
      by (metis add_0 le0)
    then show ?thesis using h run e True by (fastforce simp: list_all_iff split: sum.splits)
  next
    case False
    then show ?thesis using run e by (cases res) auto
  qed
qed

text \<open>
  C19: an accepted image has a valid header; its entry point is the header's and is executable
  in the loaded space; the stack pointer leaves one word on a stack whose four pages are
  mapped writable and cleared; and the thread-local block, when the image has one, holds the
  initial data followed by zeros up to the end of the control block.
\<close>

theorem elf_start_state:
  "(case space_run ops (boot_memory regions ranges m) of (S, m1) \<Rightarrow>
     (case load_user_elf_into elf r slot m1 of
        (Inl _, _) \<Rightarrow> True
      | (Inr li, m2) \<Rightarrow>
          if live S r = None then True
          else header_valid elf \<and> read_u64 elf 24 = Inr (loaded_entry li) \<and>
            is_user_executable (loaded_entry li) (switch_address_space r m2) \<and>
            loaded_stack_pointer li = user_stack_top slot - 8 \<and>
            page_of -` (page_of ` set (user_stack_pages slot)) \<subseteq>
              {a. mapped_as r a UserReadWrite m2 \<and> user_byte r a m2 = Some 0} \<and>
            (case loaded_tls li of
               None \<Rightarrow> loaded_fs_base li = 0
             | Some t \<Rightarrow> {a. unat (tls_base slot) \<le> unat a \<and> unat a < unat (loaded_fs_base li) + 64} \<subseteq>
                 {a. mapped_as r a UserReadWrite m2 \<and> user_byte r a m2 =
                    Some (file_byte elf (tls_file_offset t) (tls_base slot) (tls_file_size t) a)})))"
proof -
  obtain S m1 where run: "space_run ops (boot_memory regions ranges m) = (S, m1)" by fastforce
  obtain res m2 where e: "load_user_elf_into elf r slot m1 = (res, m2)" by fastforce
  note fo = spaces_invD(1) [OF boot_run_inv [OF run]]
  show ?thesis
  proof (cases "(\<exists>li. res = Inr li) \<and> live S r \<noteq> None")
    case True
    then obtain li where li: "res = Inr li" by blast
    have r: "r \<in> dom (live S)" using True by auto
    note L = load_image_effect [OF fo r e]
    obtain entry table count where h: "parse_header elf = Inr (entry, table, count)"
      and d: "headers_done r elf entry table 0 count False True m2" and fo2: "forest (dom (live S)) m2"
      and en: "loaded_entry li = entry"
      using L li by (auto split: sum.splits)
    obtain i h' where p: "parse_program_header elf (table + i * PROGRAM_HEADER_SIZE) = Inr h'"
      and x: "entry_in_segment entry h'" and i: "i < count"
      using d unfolding headers_done_def by auto
    have "segment_loaded r elf h' m2"
      using d i p unfolding headers_done_def by fastforce
    note ex = entry_loaded_executable [OF fo2 r this p x]
    have hv: "header_valid elf" "read_u64 elf 24 = Inr entry"
      using h by (auto simp: parse_header_def and_then_Inr Let_def split: if_splits)
    show ?thesis
      using L h run e li hv ex en
      by (auto simp: stack_ready_def tls_loaded_def split: option.splits)
  next
    case False
    then show ?thesis using run e by (cases res) auto
  qed
qed

text \<open>
  C20: a load, accepted or refused at any point, changes no byte that user code could already
  reach, in the space it loads into or in any other.
\<close>

theorem elf_load_disturbs_nothing:
  "(case space_run ops (boot_memory regions ranges m) of (S, m1) \<Rightarrow>
     (case load_user_elf_into elf r slot m1 of (_, m2) \<Rightarrow>
        if live S r = None then True
        else {(r', va). live S r' \<noteq> None \<and> user_range va \<and>
                user_byte r' va m1 \<noteq> None \<and> user_byte r' va m2 \<noteq> user_byte r' va m1} = {}))"
proof -
  obtain S m1 where run: "space_run ops (boot_memory regions ranges m) = (S, m1)" by fastforce
  obtain res m2 where e: "load_user_elf_into elf r slot m1 = (res, m2)" by fastforce
  show ?thesis
  proof (cases "live S r")
    case (Some pages)
    then have "r \<in> dom (live S)" by auto
    then have k: "kept (dom (live S)) m1 m2"
      using load_image_effect [OF spaces_invD(1) [OF boot_run_inv [OF run]] _ e] by blast
    have "user_byte r' va m2 = user_byte r' va m1"
      if "live S r' \<noteq> None" "user_range va" "user_byte r' va m1 \<noteq> None" for r' va
      using kept_byte [OF k _ that(2)] that by (metis domIff not_None_eq)
    then have "{(r', va). live S r' \<noteq> None \<and> user_range va \<and>
        user_byte r' va m1 \<noteq> None \<and> user_byte r' va m2 \<noteq> user_byte r' va m1} = {}" by blast
    then show ?thesis using Some unfolding run e prod.case by simp
  qed (simp add: run e)
qed

end
