(* ===== verification/Console.thy ===== *)
theory Console
  imports Prelude
begin

text \<open>
  The virtual terminals of \<open>kernel-core/src/console.rs\<close>: an off-screen buffer, a cursor and a
  pending key per terminal, the copy of the active one to the hardware framebuffer, text, the
  blinking cursor and the keyboard.  Pixels are 32-bit little-endian writes into the bytes of a
  surface: the hardware framebuffer or the buffer of a terminal.  The VGA text mode and the
  boot messages are not part of the model.
\<close>

section \<open>Data\<close>

definition USER_CONSOLE_BACKGROUND :: u32 where "USER_CONSOLE_BACKGROUND = 0x00162D3D"
definition USER_CONSOLE_FOREGROUND :: u32 where "USER_CONSOLE_FOREGROUND = 0x00FFFFFF"
definition USER_CONSOLE_MARGIN :: nat where "USER_CONSOLE_MARGIN = 32"
definition USER_CONSOLE_SCALE :: nat where "USER_CONSOLE_SCALE = 2"
definition USER_CONSOLE_LINE_HEIGHT :: nat where "USER_CONSOLE_LINE_HEIGHT = 16"
definition USER_CONSOLE_CHARACTER_WIDTH :: nat where "USER_CONSOLE_CHARACTER_WIDTH = 12"
definition TTY_COUNT :: nat where "TTY_COUNT = 3"
definition MAX_TTY_WIDTH :: nat where "MAX_TTY_WIDTH = 1280"
definition MAX_TTY_HEIGHT :: nat where "MAX_TTY_HEIGHT = 800"
definition TTY_BUFFER_BYTES :: nat where "TTY_BUFFER_BYTES = MAX_TTY_WIDTH * MAX_TTY_HEIGHT * 4"
definition SCANCODE_ALT_MAKE :: u8 where "SCANCODE_ALT_MAKE = 0x38"
definition SCANCODE_ALT_BREAK :: u8 where "SCANCODE_ALT_BREAK = 0xB8"
definition SCANCODE_F1 :: u8 where "SCANCODE_F1 = 0x3B"

lemmas console_constants = USER_CONSOLE_MARGIN_def USER_CONSOLE_SCALE_def USER_CONSOLE_LINE_HEIGHT_def
  USER_CONSOLE_CHARACTER_WIDTH_def TTY_COUNT_def

text \<open>What the address of a framebuffer points to.\<close>

datatype surface = Primary | TtyBuffer nat

type_synonym pixels = "surface \<Rightarrow> nat \<Rightarrow> u8"

record framebuffer =
  fb_address :: surface
  fb_width :: nat
  fb_height :: nat
  fb_pitch :: nat
  bits_per_pixel :: nat

record tty_state =
  cursor_x :: nat
  cursor_y :: nat
  cursor_visible :: bool
  blink_ticks :: u8
  pending_key :: u8

definition tty_state_empty :: tty_state where
  "tty_state_empty = \<lparr>cursor_x = USER_CONSOLE_MARGIN, cursor_y = USER_CONSOLE_MARGIN,
     cursor_visible = False, blink_ticks = 0, pending_key = 0\<rparr>"

record terminals =
  surfaces :: pixels
  tty_states :: "tty_state list"
  active_tty :: nat
  alt_held :: bool
  primary_framebuffer :: "framebuffer option"
  multi_tty_enabled :: bool

text \<open>The statics before the console is enabled; the hardware memory holds what it holds.\<close>

definition terminals_initial :: "(nat \<Rightarrow> u8) \<Rightarrow> terminals" where
  "terminals_initial hardware =
     \<lparr>surfaces = (\<lambda>a. case a of Primary \<Rightarrow> hardware | TtyBuffer _ \<Rightarrow> (\<lambda>_. 0)),
      tty_states = replicate TTY_COUNT tty_state_empty, active_tty = 0, alt_held = False,
      primary_framebuffer = None, multi_tty_enabled = False\<rparr>"

section \<open>Pixels\<close>

text \<open>\<open>write_volatile\<close> and \<open>read_volatile\<close> of a \<open>u32\<close> at a byte offset of a surface.\<close>

definition write_pixel :: "surface \<Rightarrow> nat \<Rightarrow> u32 \<Rightarrow> pixels \<Rightarrow> pixels" where
  "write_pixel a offset color px =
     px(a := (px a)(offset := ucast color, offset + 1 := ucast (drop_bit 8 color),
                    offset + 2 := ucast (drop_bit 16 color), offset + 3 := ucast (drop_bit 24 color)))"

definition read_pixel :: "surface \<Rightarrow> nat \<Rightarrow> pixels \<Rightarrow> u32" where
  "read_pixel a offset px =
     ucast (px a offset) OR push_bit 8 (ucast (px a (offset + 1))) OR
     push_bit 16 (ucast (px a (offset + 2))) OR push_bit 24 (ucast (px a (offset + 3)))"

definition framebuffer_pixel :: "framebuffer \<Rightarrow> nat \<Rightarrow> nat \<Rightarrow> nat option" where
  "framebuffer_pixel fb x y =
     (if fb_width fb \<le> x \<or> fb_height fb \<le> y then None else Some (y * fb_pitch fb + x * 4))"

definition put_framebuffer_pixel :: "framebuffer \<Rightarrow> nat \<Rightarrow> nat \<Rightarrow> u32 \<Rightarrow> pixels \<Rightarrow> pixels" where
  "put_framebuffer_pixel fb x y color px =
     (case framebuffer_pixel fb x y of
        None \<Rightarrow> px
      | Some offset \<Rightarrow> write_pixel (fb_address fb) offset color px)"

text \<open>The nested loops that fill a rectangle, rows first.\<close>

definition paint :: "framebuffer \<Rightarrow> nat list \<Rightarrow> nat list \<Rightarrow> u32 \<Rightarrow> pixels \<Rightarrow> pixels" where
  "paint fb columns rows color px =
     fold (\<lambda>y. fold (\<lambda>x. put_framebuffer_pixel fb x y color) columns) rows px"

definition blit_to_primary :: "framebuffer \<Rightarrow> terminals \<Rightarrow> terminals" where
  "blit_to_primary source c =
     (case primary_framebuffer c of
        None \<Rightarrow> c
      | Some primary \<Rightarrow>
          c\<lparr>surfaces := fold (\<lambda>row. fold (\<lambda>column px.
               write_pixel (fb_address primary) (row * fb_pitch primary + column * 4)
                 (read_pixel (fb_address source) (row * fb_pitch source + column * 4) px) px)
               [0..<fb_width source]) [0..<fb_height source] (surfaces c)\<rparr>)"

section \<open>Glyphs\<close>

definition GLYPHS :: "(char \<times> u8 list) list" where
  "GLYPHS =
    [(CHR ''A'', [0x0E, 0x11, 0x11, 0x1F, 0x11, 0x11, 0x11]),
     (CHR ''B'', [0x1E, 0x11, 0x11, 0x1E, 0x11, 0x11, 0x1E]),
     (CHR ''C'', [0x0E, 0x11, 0x10, 0x10, 0x10, 0x11, 0x0E]),
     (CHR ''D'', [0x1E, 0x11, 0x11, 0x11, 0x11, 0x11, 0x1E]),
     (CHR ''E'', [0x1F, 0x10, 0x10, 0x1E, 0x10, 0x10, 0x1F]),
     (CHR ''F'', [0x1F, 0x10, 0x10, 0x1E, 0x10, 0x10, 0x10]),
     (CHR ''G'', [0x0E, 0x11, 0x10, 0x17, 0x11, 0x11, 0x0F]),
     (CHR ''H'', [0x11, 0x11, 0x11, 0x1F, 0x11, 0x11, 0x11]),
     (CHR ''I'', [0x1F, 0x04, 0x04, 0x04, 0x04, 0x04, 0x1F]),
     (CHR ''J'', [0x01, 0x01, 0x01, 0x01, 0x11, 0x11, 0x0E]),
     (CHR ''K'', [0x11, 0x12, 0x14, 0x18, 0x14, 0x12, 0x11]),
     (CHR ''L'', [0x10, 0x10, 0x10, 0x10, 0x10, 0x10, 0x1F]),
     (CHR ''M'', [0x11, 0x1B, 0x15, 0x15, 0x11, 0x11, 0x11]),
     (CHR ''N'', [0x11, 0x19, 0x15, 0x13, 0x11, 0x11, 0x11]),
     (CHR ''O'', [0x0E, 0x11, 0x11, 0x11, 0x11, 0x11, 0x0E]),
     (CHR ''P'', [0x1E, 0x11, 0x11, 0x1E, 0x10, 0x10, 0x10]),
     (CHR ''Q'', [0x0E, 0x11, 0x11, 0x11, 0x15, 0x12, 0x0D]),
     (CHR ''R'', [0x1E, 0x11, 0x11, 0x1E, 0x14, 0x12, 0x11]),
     (CHR ''S'', [0x0F, 0x10, 0x10, 0x0E, 0x01, 0x01, 0x1E]),
     (CHR ''T'', [0x1F, 0x04, 0x04, 0x04, 0x04, 0x04, 0x04]),
     (CHR ''U'', [0x11, 0x11, 0x11, 0x11, 0x11, 0x11, 0x0E]),
     (CHR ''V'', [0x11, 0x11, 0x11, 0x11, 0x11, 0x0A, 0x04]),
     (CHR ''W'', [0x11, 0x11, 0x11, 0x15, 0x15, 0x15, 0x0A]),
     (CHR ''X'', [0x11, 0x11, 0x0A, 0x04, 0x0A, 0x11, 0x11]),
     (CHR ''Y'', [0x11, 0x11, 0x0A, 0x04, 0x04, 0x04, 0x04]),
     (CHR ''Z'', [0x1F, 0x01, 0x02, 0x04, 0x08, 0x10, 0x1F]),
     (CHR ''0'', [0x0E, 0x11, 0x13, 0x15, 0x19, 0x11, 0x0E]),
     (CHR ''1'', [0x04, 0x0C, 0x04, 0x04, 0x04, 0x04, 0x0E]),
     (CHR ''2'', [0x0E, 0x11, 0x01, 0x02, 0x04, 0x08, 0x1F]),
     (CHR ''3'', [0x1E, 0x01, 0x01, 0x0E, 0x01, 0x01, 0x1E]),
     (CHR ''4'', [0x02, 0x06, 0x0A, 0x12, 0x1F, 0x02, 0x02]),
     (CHR ''5'', [0x1F, 0x10, 0x10, 0x1E, 0x01, 0x01, 0x1E]),
     (CHR ''6'', [0x0E, 0x10, 0x10, 0x1E, 0x11, 0x11, 0x0E]),
     (CHR ''7'', [0x1F, 0x01, 0x02, 0x04, 0x08, 0x08, 0x08]),
     (CHR ''8'', [0x0E, 0x11, 0x11, 0x0E, 0x11, 0x11, 0x0E]),
     (CHR ''9'', [0x0E, 0x11, 0x11, 0x0F, 0x01, 0x01, 0x0E]),
     (CHR ''>'', [0x10, 0x08, 0x04, 0x02, 0x04, 0x08, 0x10]),
     (CHR '' '', [0, 0, 0, 0, 0, 0, 0])]"

definition framebuffer_glyph :: "u8 \<Rightarrow> u8 list" where
  "framebuffer_glyph character =
     (case find (\<lambda>(c, _). of_char c = character) GLYPHS of
        Some (_, glyph) \<Rightarrow> glyph
      | None \<Rightarrow> [0x1F, 0x01, 0x02, 0x04, 0x04, 0x00, 0x04])"

definition to_ascii_uppercase :: "u8 \<Rightarrow> u8" where
  "to_ascii_uppercase b = (if 97 \<le> b \<and> b \<le> 122 then b - 32 else b)"

text \<open>The pixels of one glyph, its rows from the top, the most significant of five bits on the left.\<close>

definition draw_glyph :: "framebuffer \<Rightarrow> u8 list \<Rightarrow> nat \<Rightarrow> nat \<Rightarrow> nat \<Rightarrow> u32 \<Rightarrow> pixels \<Rightarrow> pixels" where
  "draw_glyph fb glyph x y scale color px =
     fold (\<lambda>row. fold (\<lambda>column.
         if bit (glyph ! row) (4 - column)
         then paint fb [x + column * scale..<x + column * scale + scale]
                       [y + row * scale..<y + row * scale + scale] color
         else (\<lambda>px. px)) [0..<5]) [0..<length glyph] px"

fun draw_framebuffer_text :: "framebuffer \<Rightarrow> u8 list \<Rightarrow> nat \<Rightarrow> nat \<Rightarrow> nat \<Rightarrow> u32 \<Rightarrow> pixels \<Rightarrow> pixels" where
  "draw_framebuffer_text fb [] x y scale color px = px"
| "draw_framebuffer_text fb (b # bs) x y scale color px =
     draw_framebuffer_text fb bs (x + 6 * scale) y scale color
       (draw_glyph fb (framebuffer_glyph (to_ascii_uppercase b)) x y scale color px)"

section \<open>Terminals\<close>

definition tty_at :: "nat \<Rightarrow> terminals \<Rightarrow> tty_state" where
  "tty_at tty c = tty_states c ! tty"

definition update_tty :: "nat \<Rightarrow> (tty_state \<Rightarrow> tty_state) \<Rightarrow> terminals \<Rightarrow> terminals" where
  "update_tty tty f c = c\<lparr>tty_states := (tty_states c)[tty := f (tty_states c ! tty)]\<rparr>"

definition on_pixels :: "(pixels \<Rightarrow> pixels) \<Rightarrow> terminals \<Rightarrow> terminals" where
  "on_pixels f c = c\<lparr>surfaces := f (surfaces c)\<rparr>"

definition tty_target :: "nat \<Rightarrow> terminals \<Rightarrow> framebuffer option" where
  "tty_target tty c =
     (if TTY_COUNT \<le> tty then None
      else case primary_framebuffer c of
        None \<Rightarrow> None
      | Some primary \<Rightarrow>
          if multi_tty_enabled c
          then Some \<lparr>fb_address = TtyBuffer tty, fb_width = fb_width primary, fb_height = fb_height primary,
                     fb_pitch = fb_width primary * 4, bits_per_pixel = bits_per_pixel primary\<rparr>
          else if tty = 0 then Some primary else None)"

definition blit_if_active :: "nat \<Rightarrow> framebuffer \<Rightarrow> terminals \<Rightarrow> terminals" where
  "blit_if_active tty target c =
     (if \<not> multi_tty_enabled c \<or> tty \<noteq> active_tty c then c else blit_to_primary target c)"

text \<open>The two bottom rows of the cell at a cursor position.\<close>

definition paint_cursor :: "framebuffer \<Rightarrow> nat \<Rightarrow> nat \<Rightarrow> u32 \<Rightarrow> pixels \<Rightarrow> pixels" where
  "paint_cursor target x y =
     paint target [x..<x + USER_CONSOLE_CHARACTER_WIDTH]
       [y + USER_CONSOLE_LINE_HEIGHT - 2..<y + USER_CONSOLE_LINE_HEIGHT]"

definition show_cursor :: "nat \<Rightarrow> framebuffer \<Rightarrow> terminals \<Rightarrow> terminals" where
  "show_cursor tty target c =
     (let x = cursor_x (tty_at tty c); y = cursor_y (tty_at tty c)
      in update_tty tty (\<lambda>t. t\<lparr>cursor_visible := True\<rparr>)
           (on_pixels (paint_cursor target x y USER_CONSOLE_FOREGROUND) c))"

definition hide_cursor :: "nat \<Rightarrow> framebuffer \<Rightarrow> terminals \<Rightarrow> terminals" where
  "hide_cursor tty target c =
     (if \<not> cursor_visible (tty_at tty c) then c
      else let x = cursor_x (tty_at tty c); y = cursor_y (tty_at tty c)
           in update_tty tty (\<lambda>t. t\<lparr>cursor_visible := False\<rparr>)
                (on_pixels (paint_cursor target x y USER_CONSOLE_BACKGROUND) c))"

definition clear_tty :: "nat \<Rightarrow> terminals \<Rightarrow> terminals" where
  "clear_tty tty c =
     (case tty_target tty c of
        None \<Rightarrow> c
      | Some target \<Rightarrow>
          (let c = on_pixels (paint target [0..<fb_width target] [0..<fb_height target] USER_CONSOLE_BACKGROUND) c;
               c = update_tty tty (\<lambda>t. t\<lparr>cursor_x := USER_CONSOLE_MARGIN, cursor_y := USER_CONSOLE_MARGIN,
                     cursor_visible := False\<rparr>) c;
               c = show_cursor tty target c
           in blit_if_active tty target c))"

definition newline :: "nat \<Rightarrow> framebuffer \<Rightarrow> terminals \<Rightarrow> terminals" where
  "newline tty target c =
     (let next_y = cursor_y (tty_at tty c) + USER_CONSOLE_LINE_HEIGHT
      in if fb_height target < next_y + USER_CONSOLE_LINE_HEIGHT then clear_tty tty c
         else update_tty tty (\<lambda>t. t\<lparr>cursor_x := USER_CONSOLE_MARGIN, cursor_y := next_y\<rparr>) c)"

text \<open>The body of the loop of \<open>user_console_write\<close>.\<close>

definition put_character :: "nat \<Rightarrow> framebuffer \<Rightarrow> u8 \<Rightarrow> terminals \<Rightarrow> terminals" where
  "put_character tty target byte c =
     (if byte = 13 then c
      else if byte = 10 then newline tty target c
      else let c = (if fb_width target < cursor_x (tty_at tty c) + USER_CONSOLE_CHARACTER_WIDTH
                    then newline tty target c else c);
               x = cursor_x (tty_at tty c); y = cursor_y (tty_at tty c);
               c = on_pixels (draw_framebuffer_text target [byte] x y USER_CONSOLE_SCALE
                     USER_CONSOLE_FOREGROUND) c
           in update_tty tty (\<lambda>t. t\<lparr>cursor_x := x + USER_CONSOLE_CHARACTER_WIDTH\<rparr>) c)"

definition user_console_write :: "nat \<Rightarrow> u8 list \<Rightarrow> terminals \<Rightarrow> terminals" where
  "user_console_write tty bytes c =
     (case tty_target tty c of
        None \<Rightarrow> c
      | Some target \<Rightarrow>
          (let c = hide_cursor tty target c;
               c = fold (put_character tty target) bytes c;
               c = show_cursor tty target c
           in blit_if_active tty target c))"

definition user_console_clear :: "nat \<Rightarrow> terminals \<Rightarrow> terminals" where
  "user_console_clear tty c = clear_tty tty c"

definition tick_tty :: "nat \<Rightarrow> terminals \<Rightarrow> terminals" where
  "tick_tty tty c =
     (case tty_target tty c of
        None \<Rightarrow> c
      | Some target \<Rightarrow>
          (let c = update_tty tty (\<lambda>t. t\<lparr>blink_ticks := blink_ticks t + 1\<rparr>) c
           in if blink_ticks (tty_at tty c) < 50 then c
              else let c = update_tty tty (\<lambda>t. t\<lparr>blink_ticks := 0\<rparr>) c;
                       c = (if cursor_visible (tty_at tty c) then hide_cursor tty target c
                            else show_cursor tty target c)
                   in blit_if_active tty target c))"

definition user_console_tick :: "terminals \<Rightarrow> terminals" where
  "user_console_tick c = fold tick_tty [0..<TTY_COUNT] c"

definition user_console_backspace :: "nat \<Rightarrow> terminals \<Rightarrow> terminals" where
  "user_console_backspace tty c =
     (case tty_target tty c of
        None \<Rightarrow> c
      | Some target \<Rightarrow>
          (let c = hide_cursor tty target c; x = cursor_x (tty_at tty c)
           in if x \<le> USER_CONSOLE_MARGIN then show_cursor tty target c
              else let previous_x = x - USER_CONSOLE_CHARACTER_WIDTH; y = cursor_y (tty_at tty c);
                       c = on_pixels (paint target [previous_x..<previous_x + USER_CONSOLE_CHARACTER_WIDTH]
                             [y..<y + USER_CONSOLE_LINE_HEIGHT] USER_CONSOLE_BACKGROUND) c;
                       c = update_tty tty (\<lambda>t. t\<lparr>cursor_x := previous_x\<rparr>) c;
                       c = show_cursor tty target c
                   in blit_if_active tty target c))"

definition switch_tty :: "nat \<Rightarrow> terminals \<Rightarrow> terminals" where
  "switch_tty tty c =
     (if TTY_COUNT \<le> tty then c
      else let c = c\<lparr>active_tty := tty\<rparr>
           in case tty_target tty c of None \<Rightarrow> c | Some target \<Rightarrow> blit_to_primary target c)"

definition enable_user_console :: "framebuffer \<Rightarrow> terminals \<Rightarrow> terminals" where
  "enable_user_console fb c =
     fold clear_tty [0..<TTY_COUNT]
       (c\<lparr>primary_framebuffer := Some fb,
          multi_tty_enabled := (bits_per_pixel fb = 32 \<and> fb_width fb \<le> MAX_TTY_WIDTH \<and>
            fb_height fb \<le> MAX_TTY_HEIGHT)\<rparr>)"

section \<open>Keyboard\<close>

definition SCANCODES :: "(u8 \<times> u8) list" where
  "SCANCODES = [(0x0E, 8), (0x0F, 9), (0x1C, 10), (0x39, 32)] @
     zip (map of_nat [0x10..<0x1A]) (ascii ''qwertyuiop'') @
     zip (map of_nat [0x1E..<0x27]) (ascii ''asdfghjkl'') @
     zip (map of_nat [0x2C..<0x33]) (ascii ''zxcvbnm'')"

definition decode_scancode :: "u8 \<Rightarrow> u8 option" where
  "decode_scancode scancode =
     (if scancode AND 0x80 \<noteq> 0 then None
      else if 0x02 \<le> scancode \<and> scancode \<le> 0x0B then Some (49 + scancode - 0x02)
      else map_of SCANCODES scancode)"

definition poll_user_key :: "nat \<Rightarrow> terminals \<Rightarrow> u8 option \<times> terminals" where
  "poll_user_key tty c =
     (if TTY_COUNT \<le> tty then (None, c)
      else let byte = pending_key (tty_at tty c); c = update_tty tty (\<lambda>t. t\<lparr>pending_key := 0\<rparr>) c
           in (if byte = 0 then None else decode_scancode byte, c))"

definition handle_scancode :: "u8 \<Rightarrow> terminals \<Rightarrow> terminals" where
  "handle_scancode byte c =
     (if byte = SCANCODE_ALT_MAKE then c\<lparr>alt_held := True\<rparr>
      else if byte = SCANCODE_ALT_BREAK then c\<lparr>alt_held := False\<rparr>
      else if alt_held c \<and> SCANCODE_F1 \<le> byte \<and> byte < SCANCODE_F1 + of_nat TTY_COUNT
      then switch_tty (unat (byte - SCANCODE_F1)) c
      else if byte AND 0x80 = 0 then update_tty (active_tty c) (\<lambda>t. t\<lparr>pending_key := byte\<rparr>) c
      else c)"

end
