(* ===== verification/Descriptors.thy ===== *)
theory Descriptors
  imports Vfs Processes Elf Console
begin

text \<open>
  The file system calls of \<open>kernel-core/src/user.rs\<close>: the per-process descriptor tables and
  working directories over the virtual file system.  A call answers the \<open>u64\<close> of the code, the
  caller's buffer afterwards, and the state.
\<close>

section \<open>Data\<close>

definition USER_HEAP_BASE :: u64 where "USER_HEAP_BASE = 0x0000500000000000"
definition USER_HEAP_LIMIT :: u64 where "USER_HEAP_LIMIT = 0x0000700000000000"
definition CURRENT_DIRECTORY_MAX :: nat where "CURRENT_DIRECTORY_MAX = 5"
definition EXECUTABLE_PATH :: "u8 list" where "EXECUTABLE_PATH = ascii ''/init''"
definition MAX_FDS :: nat where "MAX_FDS = 16"
definition FD_PATH_LENGTH :: nat where "FD_PATH_LENGTH = 64"
definition OPEN_WRITE :: u64 where "OPEN_WRITE = 1"
definition OPEN_CREATE :: u64 where "OPEN_CREATE = 2"
definition OPEN_DIRECTORY :: u64 where "OPEN_DIRECTORY = 4"

datatype descriptor_kind = Empty | File | Directory

record descriptor =
  desc_kind :: descriptor_kind
  desc_path :: "u8 list"
  desc_path_length :: nat
  desc_position :: nat
  desc_writable :: bool

definition descriptor_empty :: descriptor where
  "descriptor_empty = \<lparr>desc_kind = Empty, desc_path = replicate FD_PATH_LENGTH 0, desc_path_length = 0,
     desc_position = 0, desc_writable = False\<rparr>"

datatype console_binding = TtyTarget nat | PtyTarget nat

record process_user_state =
  heap_break :: u64
  heap_mapped_end :: u64
  cwd :: "u8 list"
  cwd_length :: nat
  executable_entry :: u64
  descriptors :: "descriptor list"
  console :: console_binding

definition process_user_state_empty :: process_user_state where
  "process_user_state_empty =
     \<lparr>heap_break = USER_HEAP_BASE, heap_mapped_end = USER_HEAP_BASE,
      cwd = replicate CURRENT_DIRECTORY_MAX 0, cwd_length = 1, executable_entry = 0,
      descriptors = replicate MAX_FDS descriptor_empty, console = TtyTarget 0\<rparr>"

text \<open>
  The statics of the module.  \<open>USER_HEAP_BREAK\<close>, \<open>USER_HEAP_MAPPED_END\<close>,
  \<open>CURRENT_DIRECTORY\<close>, \<open>CURRENT_DIRECTORY_LENGTH\<close>, \<open>EXECUTABLE_ENTRY\<close> and
  \<open>FILE_DESCRIPTORS\<close> are written by \<open>run_demo\<close> and read nowhere; they are left out.
\<close>

record user_statics =
  process_state :: "process_user_state list"
  resolved_path :: "u8 list"
  user_image :: "loaded_image option"
  pending_address_space :: u64

definition user_initial :: user_statics where
  "user_initial = \<lparr>process_state = replicate 8 process_user_state_empty,
     resolved_path = replicate FD_PATH_LENGTH 0, user_image = None, pending_address_space = 0\<rparr>"

text \<open>The kernel as these calls see it: threads and processes, file system, and the statics.\<close>

record system =
  sys_kernel :: kernel
  sys_vfs :: vfs
  sys_user :: user_statics

section \<open>Access to the state of the calling process\<close>

definition state_slot :: "nat \<Rightarrow> nat" where
  "state_slot process = min (process - 1) 7"

definition current_state_slot :: "system \<Rightarrow> nat" where
  "current_state_slot s =
     state_slot (case current_process (sys_kernel s) of None \<Rightarrow> 1 | Some process \<Rightarrow> process)"

definition user_state :: "system \<Rightarrow> process_user_state" where
  "user_state s = process_state (sys_user s) ! current_state_slot s"

definition update_state :: "nat \<Rightarrow> (process_user_state \<Rightarrow> process_user_state) \<Rightarrow> system \<Rightarrow> system" where
  "update_state slot f s =
     s\<lparr>sys_user := (sys_user s)\<lparr>process_state :=
        (process_state (sys_user s))[slot := f (process_state (sys_user s) ! slot)]\<rparr>\<rparr>"

definition update_user_state :: "(process_user_state \<Rightarrow> process_user_state) \<Rightarrow> system \<Rightarrow> system" where
  "update_user_state f s = update_state (current_state_slot s) f s"

definition update_descriptor :: "nat \<Rightarrow> (descriptor \<Rightarrow> descriptor) \<Rightarrow> system \<Rightarrow> system" where
  "update_descriptor index f s =
     update_user_state (\<lambda>st. st\<lparr>descriptors := (descriptors st)[index := f (descriptors st ! index)]\<rparr>) s"

definition descriptor_index :: "u64 \<Rightarrow> nat option" where
  "descriptor_index fd =
     Option.bind (checked_sub fd 3) (\<lambda>v. if unat v < MAX_FDS then Some (unat v) else None)"

section \<open>Paths\<close>

text \<open>\<open>core::str::from_utf8\<close>: the well-formed byte sequences of UTF-8.\<close>

definition continuation :: "u8 \<Rightarrow> bool" where
  "continuation b \<longleftrightarrow> 0x80 \<le> b \<and> b \<le> 0xBF"

definition second_byte_ok :: "u8 \<Rightarrow> u8 \<Rightarrow> bool" where
  "second_byte_ok a b \<longleftrightarrow>
     (if a = 0xE0 then 0xA0 \<le> b \<and> b \<le> 0xBF
      else if a = 0xED then 0x80 \<le> b \<and> b \<le> 0x9F
      else if a = 0xF0 then 0x90 \<le> b \<and> b \<le> 0xBF
      else if a = 0xF4 then 0x80 \<le> b \<and> b \<le> 0x8F
      else continuation b)"

fun utf8_valid :: "u8 list \<Rightarrow> bool" where
  "utf8_valid [] = True"
| "utf8_valid (a # bs) =
     (if a < 0x80 then utf8_valid bs
      else case bs of
        [] \<Rightarrow> False
      | b # cs \<Rightarrow>
          if 0xC2 \<le> a \<and> a \<le> 0xDF then continuation b \<and> utf8_valid cs
          else case cs of
            [] \<Rightarrow> False
          | c # ds \<Rightarrow>
              if 0xE0 \<le> a \<and> a \<le> 0xEF then second_byte_ok a b \<and> continuation c \<and> utf8_valid ds
              else case ds of
                [] \<Rightarrow> False
              | d # es \<Rightarrow> 0xF0 \<le> a \<and> a \<le> 0xF4 \<and> second_byte_ok a b \<and> continuation c \<and>
                  continuation d \<and> utf8_valid es)"

definition descriptor_path :: "descriptor \<Rightarrow> u8 list option" where
  "descriptor_path d =
     (let path = take (desc_path_length d) (desc_path d) in if utf8_valid path then Some path else None)"

text \<open>The end of \<open>resolve_path\<close>: \<open>len\<close> bytes of the buffer are in place.\<close>

definition resolve_tail :: "u8 list \<Rightarrow> nat \<Rightarrow> u8 list \<Rightarrow> u8 list option \<times> u8 list" where
  "resolve_tail path len buffer =
     (if FD_PATH_LENGTH \<le> len + length path then (None, buffer)
      else let buffer = store_bytes buffer len path;
               resolved = take (len + length path) buffer
           in (if utf8_valid resolved then Some resolved else None, buffer))"

definition resolve_path :: "u8 list \<Rightarrow> system \<Rightarrow> u8 list option \<times> system" where
  "resolve_path path s =
     (let st = user_state s; buffer = resolved_path (sys_user s);
          (resolved, buffer) =
            (if path \<noteq> [] \<and> path ! 0 = SLASH then resolve_tail path 0 buffer
             else if FD_PATH_LENGTH \<le> cwd_length st + 1 + length path then (None, buffer)
             else let buffer = store_bytes buffer 0 (take (cwd_length st) (cwd st))
                  in if cwd_length st \<noteq> 1
                     then resolve_tail path (cwd_length st + 1) (buffer[cwd_length st := SLASH])
                     else resolve_tail path (cwd_length st) buffer)
      in (resolved, s\<lparr>sys_user := (sys_user s)\<lparr>resolved_path := buffer\<rparr>\<rparr>))"

section \<open>The calls\<close>

definition open_target :: "u8 list \<Rightarrow> u64 \<Rightarrow> system \<Rightarrow> bool \<times> system" where
  "open_target path flags s =
     (if flags AND OPEN_DIRECTORY \<noteq> 0 then (is_directory path, s)
      else case vfs_open_file path (flags AND OPEN_WRITE \<noteq> 0) (flags AND OPEN_CREATE \<noteq> 0) (sys_vfs s) of
             (r, v) \<Rightarrow> (\<not> isl r, s\<lparr>sys_vfs := v\<rparr>))"

definition user_open :: "u8 list \<Rightarrow> u64 \<Rightarrow> system \<Rightarrow> u64 \<times> system" where
  "user_open path flags s =
     (case resolve_path path s of
        (None, s) \<Rightarrow> (u64_max, s)
      | (Some path, s) \<Rightarrow>
          (case open_target path flags s of
             (False, s) \<Rightarrow> (u64_max, s)
           | (True, s) \<Rightarrow>
               (case find_index (\<lambda>d. desc_kind d = Empty) (descriptors (user_state s)) of
                  None \<Rightarrow> (u64_max, s)
                | Some index \<Rightarrow>
                    if FD_PATH_LENGTH \<le> length path then (u64_max, s)
                    else (of_nat (index + 3), update_descriptor index (\<lambda>d.
                            d\<lparr>desc_kind := (if flags AND OPEN_DIRECTORY \<noteq> 0 then Directory else File),
                              desc_path := store_bytes (desc_path d) 0 path, desc_path_length := length path,
                              desc_position := 0, desc_writable := (flags AND OPEN_WRITE \<noteq> 0)\<rparr>) s))))"

definition user_chdir :: "u8 list \<Rightarrow> system \<Rightarrow> u64 \<times> system" where
  "user_chdir path s =
     (case resolve_path path s of
        (None, s) \<Rightarrow> (u64_max, s)
      | (Some path, s) \<Rightarrow>
          if \<not> is_directory path then (u64_max, s)
          else (0, update_user_state (\<lambda>st. st\<lparr>cwd_length := length path, cwd := store_bytes (cwd st) 0 path\<rparr>) s))"

definition user_getcwd :: "u8 list \<Rightarrow> system \<Rightarrow> u64 \<times> u8 list" where
  "user_getcwd out s =
     (let st = user_state s
      in if length out < cwd_length st + 1 then (u64_max, out)
         else (of_nat (cwd_length st), (store_bytes out 0 (take (cwd_length st) (cwd st)))[cwd_length st := 0]))"

definition executable_info :: "u8 list \<Rightarrow> system \<Rightarrow> u64 \<times> u8 list" where
  "executable_info out s =
     (if length out < length EXECUTABLE_PATH + 1 then (u64_max, out)
      else (executable_entry (user_state s), (store_bytes out 0 EXECUTABLE_PATH)[length EXECUTABLE_PATH := 0]))"

definition user_read :: "u64 \<Rightarrow> u8 list \<Rightarrow> system \<Rightarrow> u64 \<times> u8 list \<times> system" where
  "user_read fd out s =
     (case descriptor_index fd of
        None \<Rightarrow> (u64_max, out, s)
      | Some index \<Rightarrow>
          (let d = descriptors (user_state s) ! index
           in case descriptor_path d of
                None \<Rightarrow> (u64_max, out, s)
              | Some path \<Rightarrow>
                  (case desc_kind d of
                     File \<Rightarrow>
                       (case vfs_open path (sys_vfs s) of
                          None \<Rightarrow> (u64_max, out, s)
                        | Some bytes \<Rightarrow>
                            (let remaining = drop (desc_position d) bytes;
                                 count = min (length remaining) (length out)
                             in (of_nat count, store_bytes out 0 (take count remaining),
                                 update_descriptor index (\<lambda>d. d\<lparr>desc_position := desc_position d + count\<rparr>) s)))
                   | Directory \<Rightarrow>
                       if length out < 2 then (u64_max, out, s)
                       else (let capacity = length out - 1
                             in case directory_entry path (desc_position d) (take capacity out) (sys_vfs s) of
                                  None \<Rightarrow> (0, out, s)
                                | Some (len, front) \<Rightarrow>
                                    (of_nat (len + 1), (front @ drop capacity out)[len := 0],
                                     update_descriptor index (\<lambda>d. d\<lparr>desc_position := desc_position d + 1\<rparr>) s))
                   | Empty \<Rightarrow> (u64_max, out, s))))"

definition user_write :: "u64 \<Rightarrow> u8 list \<Rightarrow> system \<Rightarrow> u64 \<times> system" where
  "user_write fd bytes s =
     (case descriptor_index fd of
        None \<Rightarrow> (u64_max, s)
      | Some index \<Rightarrow>
          (let d = descriptors (user_state s) ! index
           in if desc_kind d \<noteq> File \<or> \<not> desc_writable d then (u64_max, s)
              else case descriptor_path d of
                None \<Rightarrow> (u64_max, s)
              | Some path \<Rightarrow>
                  (case vfs_write_at path (desc_position d) bytes (sys_vfs s) of
                     (Inl _, v) \<Rightarrow> (u64_max, s\<lparr>sys_vfs := v\<rparr>)
                   | (Inr _, v) \<Rightarrow>
                       (of_nat (length bytes), update_descriptor index
                          (\<lambda>d. d\<lparr>desc_position := desc_position d + length bytes\<rparr>) (s\<lparr>sys_vfs := v\<rparr>)))))"

definition user_close :: "u64 \<Rightarrow> system \<Rightarrow> u64 \<times> system" where
  "user_close fd s =
     (case descriptor_index fd of
        None \<Rightarrow> (u64_max, s)
      | Some index \<Rightarrow>
          if desc_kind (descriptors (user_state s) ! index) = Empty then (u64_max, s)
          else (0, update_descriptor index (\<lambda>_. descriptor_empty) s))"

text \<open>\<open>(size >> (byte * 8)) as u8\<close> for the eight bytes of a size.\<close>

definition le_bytes :: "u64 \<Rightarrow> u8 list" where
  "le_bytes x = map (\<lambda>i. ucast (drop_bit (i * 8) x)) [0..<8]"

definition user_stat :: "u64 \<Rightarrow> u8 list \<Rightarrow> system \<Rightarrow> u64 \<times> u8 list" where
  "user_stat fd out s =
     (if length out < 16 then (u64_max, out)
      else case descriptor_index fd of
        None \<Rightarrow> (u64_max, out)
      | Some index \<Rightarrow>
          (let d = descriptors (user_state s) ! index
           in case descriptor_path d of
                None \<Rightarrow> (u64_max, out)
              | Some path \<Rightarrow>
                  if desc_kind d = Empty then (u64_max, out)
                  else (let kind = (if desc_kind d = File then 1 else 2);
                            size = (if desc_kind d = File
                                    then of_nat (case vfs_open path (sys_vfs s) of None \<Rightarrow> 0 | Some bytes \<Rightarrow> length bytes)
                                    else 0)
                        in (0, store_bytes (out[0 := kind, 1 := (if desc_writable d then 0 else 1)]) 8 (le_bytes size)))))"

text \<open>\<open>i64::checked_add\<close>.\<close>

definition checked_add_signed :: "u64 \<Rightarrow> u64 \<Rightarrow> u64 option" where
  "checked_add_signed a b =
     (if - (2 ^ 63) \<le> sint a + sint b \<and> sint a + sint b < 2 ^ 63 then Some (a + b) else None)"

definition seek_base :: "descriptor \<Rightarrow> u64 \<Rightarrow> system \<Rightarrow> u64 option" where
  "seek_base d whence s =
     (if whence = 0 then Some 0
      else if whence = 1 then Some (of_nat (desc_position d))
      else if whence = 2 \<and> desc_kind d = File then
        (case descriptor_path d of
           None \<Rightarrow> None
         | Some path \<Rightarrow>
             Some (of_nat (case vfs_open path (sys_vfs s) of None \<Rightarrow> 0 | Some bytes \<Rightarrow> length bytes)))
      else None)"

definition user_seek :: "u64 \<Rightarrow> u64 \<Rightarrow> u64 \<Rightarrow> system \<Rightarrow> u64 \<times> system" where
  "user_seek fd offset whence s =
     (case descriptor_index fd of
        None \<Rightarrow> (u64_max, s)
      | Some index \<Rightarrow>
          (let d = descriptors (user_state s) ! index
           in if desc_kind d = Empty then (u64_max, s)
              else case Option.bind (seek_base d whence s) (\<lambda>base. checked_add_signed base offset) of
                None \<Rightarrow> (u64_max, s)
              | Some position \<Rightarrow>
                  if 0 \<le> sint position
                  then (position, update_descriptor index (\<lambda>d. d\<lparr>desc_position := unat position\<rparr>) s)
                  else (u64_max, s)))"

definition console_target :: "system \<Rightarrow> console_binding" where
  "console_target s = console (user_state s)"

definition bind_tty :: "nat \<Rightarrow> system \<Rightarrow> system" where
  "bind_tty tty s = update_user_state (\<lambda>st. st\<lparr>console := TtyTarget (min tty (TTY_COUNT - 1))\<rparr>) s"

definition bind_pty :: "nat \<Rightarrow> system \<Rightarrow> system" where
  "bind_pty pty s = update_user_state (\<lambda>st. st\<lparr>console := PtyTarget pty\<rparr>) s"


text \<open>What \<open>run_demo\<close> and \<open>spawn\<close> do to the state of a new process.\<close>

definition reset_state :: "u64 \<Rightarrow> process_user_state \<Rightarrow> process_user_state" where
  "reset_state entry u =
     u\<lparr>heap_break := USER_HEAP_BASE, heap_mapped_end := USER_HEAP_BASE, cwd := (cwd u)[0 := SLASH],
        cwd_length := 1, executable_entry := entry,
        descriptors := fold (\<lambda>index ds. ds[index := descriptor_empty]) [0..<MAX_FDS] (descriptors u)\<rparr>"

end
