(* ===== verification/Files.thy ===== *)
theory Files
  imports Descriptors
begin

text \<open>
  The file system calls as their users see them: every process has a working directory and a
  table of open files with a path and a position, and nothing else.
\<close>

section \<open>Specification\<close>

record open_file =
  of_directory :: bool
  of_path :: "u8 list"
  of_position :: nat
  of_writable :: bool

record file_table =
  opened :: "nat \<Rightarrow> open_file option"
  working :: "u8 list"
  program_entry :: u64

text \<open>A relative path is taken from the working directory; the length limit is the code's.\<close>

definition absolute :: "u8 list \<Rightarrow> u8 list \<Rightarrow> u8 list" where
  "absolute dir path =
     (if take 1 path = [SLASH] then path else if length dir = 1 then dir @ path else dir @ [SLASH] @ path)"

definition spec_resolve :: "u8 list \<Rightarrow> u8 list \<Rightarrow> u8 list option" where
  "spec_resolve dir path =
     (if length path + (if take 1 path = [SLASH] then 0 else length dir + 1) < FD_PATH_LENGTH \<and>
         utf8_valid (absolute dir path)
      then Some (absolute dir path) else None)"

datatype file_call = Open "u8 list" u64 | Read u64 "u8 list" | Write u64 "u8 list" | Close u64
  | Stat u64 "u8 list" | Seek u64 u64 u64 | Chdir "u8 list" | Getcwd "u8 list" | ExecutableInfo "u8 list"

definition lookup_fd :: "u64 \<Rightarrow> file_table \<Rightarrow> (nat \<times> open_file) option" where
  "lookup_fd fd t =
     (if 3 \<le> unat fd then map_option (\<lambda>file. (unat fd - 3, file)) (opened t (unat fd - 3)) else None)"

definition size_of :: "u8 list \<Rightarrow> vfs \<Rightarrow> nat" where
  "size_of path v = (case vfs_open path v of None \<Rightarrow> 0 | Some bytes \<Rightarrow> length bytes)"

definition set_file :: "nat \<Rightarrow> open_file \<Rightarrow> file_table \<Rightarrow> file_table" where
  "set_file index file t = t\<lparr>opened := (opened t)(index \<mapsto> file)\<rparr>"

fun spec_call :: "file_call \<Rightarrow> file_table \<Rightarrow> vfs \<Rightarrow> (u64 \<times> u8 list) \<times> file_table \<times> vfs" where
  "spec_call (Open path flags) t v =
     (case spec_resolve (working t) path of
        None \<Rightarrow> ((u64_max, []), t, v)
      | Some path \<Rightarrow>
          (let directory = flags AND OPEN_DIRECTORY \<noteq> 0; writable = flags AND OPEN_WRITE \<noteq> 0;
               (found, v) = (if directory then (is_directory path, v)
                 else map_prod (\<lambda>r. \<not> isl r) id (vfs_open_file path writable (flags AND OPEN_CREATE \<noteq> 0) v))
           in case (if found then find (\<lambda>i. opened t i = None) [0..<MAX_FDS] else None) of
                None \<Rightarrow> ((u64_max, []), t, v)
              | Some index \<Rightarrow> ((of_nat (index + 3), []),
                  set_file index \<lparr>of_directory = directory, of_path = path, of_position = 0, of_writable = writable\<rparr> t,
                  v)))"
| "spec_call (Read fd out) t v =
     (case lookup_fd fd t of
        None \<Rightarrow> ((u64_max, out), t, v)
      | Some (index, file) \<Rightarrow>
          if of_directory file then
            (if length out < 2 then ((u64_max, out), t, v)
             else case directory_entry (of_path file) (of_position file) (butlast out) v of
               None \<Rightarrow> ((0, out), t, v)
             | Some (len, front) \<Rightarrow> ((of_nat (len + 1), (front @ [last out])[len := 0]),
                 set_file index (file\<lparr>of_position := of_position file + 1\<rparr>) t, v))
          else case vfs_open (of_path file) v of
            None \<Rightarrow> ((u64_max, out), t, v)
          | Some bytes \<Rightarrow>
              (let got = take (length out) (drop (of_position file) bytes)
               in ((of_nat (length got), got @ drop (length got) out),
                   set_file index (file\<lparr>of_position := of_position file + length got\<rparr>) t, v)))"
| "spec_call (Write fd bytes) t v =
     (case lookup_fd fd t of
        None \<Rightarrow> ((u64_max, []), t, v)
      | Some (index, file) \<Rightarrow>
          if of_directory file \<or> \<not> of_writable file then ((u64_max, []), t, v)
          else case vfs_write_at (of_path file) (of_position file) bytes v of
            (Inl _, v) \<Rightarrow> ((u64_max, []), t, v)
          | (Inr _, v) \<Rightarrow> ((of_nat (length bytes), []),
              set_file index (file\<lparr>of_position := of_position file + length bytes\<rparr>) t, v))"
| "spec_call (Close fd) t v =
     (case lookup_fd fd t of
        None \<Rightarrow> ((u64_max, []), t, v)
      | Some (index, file) \<Rightarrow> ((0, []), t\<lparr>opened := (opened t)(index := None)\<rparr>, v))"
| "spec_call (Stat fd out) t v =
     (case (if length out < 16 then None else lookup_fd fd t) of
        None \<Rightarrow> ((u64_max, out), t, v)
      | Some (index, file) \<Rightarrow>
          ((0, [if of_directory file then 2 else 1, if of_writable file then 0 else 1] @ slice out 2 8 @
             le_bytes (if of_directory file then 0 else of_nat (size_of (of_path file) v)) @ drop 16 out), t, v))"
| "spec_call (Seek fd offset whence) t v =
     (case lookup_fd fd t of
        None \<Rightarrow> ((u64_max, []), t, v)
      | Some (index, file) \<Rightarrow>
          (let base = (if whence = 0 then Some 0 else if whence = 1 then Some (of_nat (of_position file))
                       else if whence = 2 \<and> \<not> of_directory file then Some (of_nat (size_of (of_path file) v))
                       else None)
           in case base of
                None \<Rightarrow> ((u64_max, []), t, v)
              | Some base \<Rightarrow>
                  (let position = sint (base :: u64) + sint offset
                   in if 0 \<le> position \<and> position < 2 ^ 63
                      then ((of_int position, []), set_file index (file\<lparr>of_position := nat position\<rparr>) t, v)
                      else ((u64_max, []), t, v))))"
| "spec_call (Chdir path) t v =
     (case spec_resolve (working t) path of
        None \<Rightarrow> ((u64_max, []), t, v)
      | Some path \<Rightarrow>
          if is_directory path then ((0, []), t\<lparr>working := path\<rparr>, v) else ((u64_max, []), t, v))"
| "spec_call (Getcwd out) t v =
     (if length (working t) < length out
      then ((of_nat (length (working t)), working t @ [0] @ drop (length (working t) + 1) out), t, v)
      else ((u64_max, out), t, v))"
| "spec_call (ExecutableInfo out) t v =
     (if 5 < length out then ((program_entry t, ascii ''/init'' @ [0] @ drop 6 out), t, v)
      else ((u64_max, out), t, v))"

section \<open>The code's calls\<close>

fun user_call :: "file_call \<Rightarrow> system \<Rightarrow> (u64 \<times> u8 list) \<times> system" where
  "user_call (Open path flags) s = (case user_open path flags s of (n, s) \<Rightarrow> ((n, []), s))"
| "user_call (Read fd out) s = (case user_read fd out s of (n, out, s) \<Rightarrow> ((n, out), s))"
| "user_call (Write fd bytes) s = (case user_write fd bytes s of (n, s) \<Rightarrow> ((n, []), s))"
| "user_call (Close fd) s = (case user_close fd s of (n, s) \<Rightarrow> ((n, []), s))"
| "user_call (Stat fd out) s = (user_stat fd out s, s)"
| "user_call (Seek fd offset whence) s = (case user_seek fd offset whence s of (n, s) \<Rightarrow> ((n, []), s))"
| "user_call (Chdir path) s = (case user_chdir path s of (n, s) \<Rightarrow> ((n, []), s))"
| "user_call (Getcwd out) s = (user_getcwd out s, s)"
| "user_call (ExecutableInfo out) s = (executable_info out s, s)"

section \<open>Representation\<close>

definition desc_wf :: "descriptor \<Rightarrow> bool" where
  "desc_wf d \<longleftrightarrow> length (desc_path d) = FD_PATH_LENGTH \<and> desc_path_length d < FD_PATH_LENGTH \<and>
     utf8_valid (take (desc_path_length d) (desc_path d))"

definition state_wf :: "process_user_state \<Rightarrow> bool" where
  "state_wf u \<longleftrightarrow> length (cwd u) = CURRENT_DIRECTORY_MAX \<and> 1 \<le> cwd_length u \<and>
     cwd_length u \<le> CURRENT_DIRECTORY_MAX \<and> length (descriptors u) = MAX_FDS \<and>
     (\<forall>d \<in> set (descriptors u). desc_wf d)"

definition user_wf :: "system \<Rightarrow> bool" where
  "user_wf s \<longleftrightarrow> length (process_state (sys_user s)) = 8 \<and>
     (\<forall>u \<in> set (process_state (sys_user s)). state_wf u) \<and>
     length (resolved_path (sys_user s)) = FD_PATH_LENGTH"

definition abs_descriptor :: "descriptor \<Rightarrow> open_file option" where
  "abs_descriptor d = (if desc_kind d = Empty then None else Some \<lparr>of_directory = (desc_kind d = Directory),
     of_path = take (desc_path_length d) (desc_path d), of_position = desc_position d, of_writable = desc_writable d\<rparr>)"

definition abs_state :: "process_user_state \<Rightarrow> file_table" where
  "abs_state u = \<lparr>opened = (\<lambda>i. if i < MAX_FDS then abs_descriptor (descriptors u ! i) else None),
     working = take (cwd_length u) (cwd u), program_entry = executable_entry u\<rparr>"

definition abs_tables :: "system \<Rightarrow> nat \<Rightarrow> file_table" where
  "abs_tables s slot =
     abs_state (if slot < 8 then process_state (sys_user s) ! slot else process_user_state_empty)"

section \<open>Simulation\<close>

lemma take_store_bytes:
  assumes "i + length bs \<le> length xs"
  shows "take (i + length bs) (store_bytes xs i bs) = take i xs @ bs"
proof (rule nth_equalityI)
  fix k assume "k < length (take (i + length bs) (store_bytes xs i bs))"
  then have "k < i + length bs" "k < length xs" using assms by simp_all
  then show "take (i + length bs) (store_bytes xs i bs) ! k = (take i xs @ bs) ! k"
    using assms by (simp add: nth_store_bytes nth_append)
qed (use assms in simp)

lemma store_bytes_0:
  assumes "length bs \<le> length xs"
  shows "store_bytes xs 0 bs = bs @ drop (length bs) xs"
  using assms by (intro nth_equalityI) (auto simp: loop_simps nth_append)

lemma current_slot_lt [simp]: "current_state_slot s < 8"
  by (simp add: current_state_slot_def state_slot_def)

lemma user_wf_state: "user_wf s \<Longrightarrow> slot < 8 \<Longrightarrow> state_wf (process_state (sys_user s) ! slot)"
  by (simp add: user_wf_def)

lemma user_state_wf: "user_wf s \<Longrightarrow> state_wf (user_state s)"
  by (simp add: user_state_def user_wf_state)

lemma abs_current: "abs_tables s (current_state_slot s) = abs_state (user_state s)"
  by (simp add: abs_tables_def user_state_def)

text \<open>Every change a call makes goes through \<open>update_state\<close>.\<close>

lemma update_state_same [simp]:
  "sys_kernel (update_state k f s) = sys_kernel s" "sys_vfs (update_state k f s) = sys_vfs s"
  "resolved_path (sys_user (update_state k f s)) = resolved_path (sys_user s)"
  by (simp_all add: update_state_def)

lemma update_state_sim:
  assumes "user_wf s" and "k < 8" and "state_wf (f (process_state (sys_user s) ! k))"
  shows "user_wf (update_state k f s)"
    and "abs_tables (update_state k f s) = (abs_tables s)(k := abs_state (f (process_state (sys_user s) ! k)))"
  using assms
  by (auto simp: user_wf_def update_state_def abs_tables_def nth_list_update dest!: set_update_subset_insert [THEN subsetD])

lemma update_descriptor_sim:
  assumes wf: "user_wf s" and i: "i < MAX_FDS" and d: "desc_wf (f (descriptors (user_state s) ! i))"
  shows "user_wf (update_descriptor i f s)" and "sys_kernel (update_descriptor i f s) = sys_kernel s"
    and "sys_vfs (update_descriptor i f s) = sys_vfs s"
    and "abs_tables (update_descriptor i f s) = (abs_tables s)(current_state_slot s :=
       (abs_state (user_state s))\<lparr>opened := (opened (abs_state (user_state s)))
          (i := abs_descriptor (f (descriptors (user_state s) ! i)))\<rparr>)"
proof -
  let ?g = "\<lambda>u. u\<lparr>descriptors := (descriptors u)[i := f (descriptors u ! i)]\<rparr>"
  have w: "state_wf (user_state s)" by (rule user_state_wf [OF wf])
  then have "state_wf (?g (user_state s))"
    using d by (auto simp: state_wf_def dest!: set_update_subset_insert [THEN subsetD])
  note U = update_state_sim [OF wf current_slot_lt [of s], of ?g, folded user_state_def, OF this]
  have a: "abs_state (?g (user_state s)) = (abs_state (user_state s))\<lparr>opened :=
      (opened (abs_state (user_state s)))(i := abs_descriptor (f (descriptors (user_state s) ! i)))\<rparr>"
    using w i by (auto simp: abs_state_def state_wf_def fun_eq_iff nth_list_update)
  show "user_wf (update_descriptor i f s)" "sys_kernel (update_descriptor i f s) = sys_kernel s"
    "sys_vfs (update_descriptor i f s) = sys_vfs s"
    "abs_tables (update_descriptor i f s) = (abs_tables s)(current_state_slot s :=
       (abs_state (user_state s))\<lparr>opened := (opened (abs_state (user_state s)))
          (i := abs_descriptor (f (descriptors (user_state s) ! i)))\<rparr>)"
    using U a by (simp_all add: update_descriptor_def update_user_state_def)
qed

lemma descriptor_index_iff:
  "descriptor_index fd = (if 3 \<le> unat fd \<and> unat fd - 3 < MAX_FDS then Some (unat fd - 3) else None)"
proof -
  have "unat (fd - 3) = unat fd - 3" if "3 \<le> unat fd" using that by (simp add: unat_sub word_le_nat_alt)
  then show ?thesis by (simp add: descriptor_index_def checked_sub_def word_le_nat_alt)
qed

lemma lookup_fd_index:
  "lookup_fd fd (abs_state u) = Option.bind (descriptor_index fd)
     (\<lambda>i. map_option (\<lambda>file. (i, file)) (abs_descriptor (descriptors u ! i)))"
  by (simp add: lookup_fd_def descriptor_index_iff abs_state_def)

lemma resolve_tail_eq:
  assumes "length buffer = FD_PATH_LENGTH"
  shows "fst (resolve_tail path len buffer) =
      (if len + length path < FD_PATH_LENGTH \<and> utf8_valid (take len buffer @ path)
       then Some (take len buffer @ path) else None)"
    and "length (snd (resolve_tail path len buffer)) = FD_PATH_LENGTH"
  using assms take_store_bytes [of len path buffer] by (auto simp: resolve_tail_def Let_def)

lemma resolve_path_sim:
  assumes wf: "user_wf s"
  obtains buffer where "length buffer = FD_PATH_LENGTH"
    "resolve_path path s = (spec_resolve (working (abs_state (user_state s))) path,
       s\<lparr>sys_user := (sys_user s)\<lparr>resolved_path := buffer\<rparr>\<rparr>)"
proof -
  let ?u = "user_state s" and ?b = "resolved_path (sys_user s)"
  have w: "state_wf ?u" and b: "length ?b = FD_PATH_LENGTH"
    using wf user_state_wf by (simp_all add: user_wf_def)
  have dir: "working (abs_state ?u) = take (cwd_length ?u) (cwd ?u)" "length (take (cwd_length ?u) (cwd ?u)) = cwd_length ?u"
    using w by (simp_all add: abs_state_def state_wf_def)
  have first: "path \<noteq> [] \<and> path ! 0 = SLASH \<longleftrightarrow> take 1 path = [SLASH]" by (cases path) auto
  let ?b1 = "store_bytes ?b 0 (take (cwd_length ?u) (cwd ?u))"
  have b1: "take (cwd_length ?u) ?b1 = take (cwd_length ?u) (cwd ?u)"
    using dir b w take_store_bytes_0 [of "take (cwd_length ?u) (cwd ?u)" ?b]
    by (simp add: state_wf_def FD_PATH_LENGTH_def CURRENT_DIRECTORY_MAX_def)
  have b2: "take (cwd_length ?u + 1) (?b1[cwd_length ?u := SLASH]) = take (cwd_length ?u) (cwd ?u) @ [SLASH]"
  proof -
    have "cwd_length ?u < length ?b1" using b w by (simp add: state_wf_def FD_PATH_LENGTH_def CURRENT_DIRECTORY_MAX_def)
    then show ?thesis using b1 by (simp add: take_Suc_conv_app_nth)
  qed
  let ?r = "if path \<noteq> [] \<and> path ! 0 = SLASH then resolve_tail path 0 ?b
    else if FD_PATH_LENGTH \<le> cwd_length ?u + 1 + length path then (None, ?b)
    else if cwd_length ?u \<noteq> 1 then resolve_tail path (cwd_length ?u + 1) (?b1[cwd_length ?u := SLASH])
    else resolve_tail path (cwd_length ?u) ?b1"
  have len: "length (snd ?r) = FD_PATH_LENGTH" using b by (simp add: resolve_tail_eq(2))
  have "fst ?r = spec_resolve (working (abs_state ?u)) path"
  proof (cases "take 1 path = [SLASH]")
    case True
    then show ?thesis unfolding first using b by (simp add: resolve_tail_eq(1) spec_resolve_def absolute_def)
  next
    case False
    note sr = spec_resolve_def absolute_def if_not_P [OF False] dir
    show ?thesis
    proof (cases "cwd_length ?u = 1")
      case True
      then show ?thesis
        unfolding first if_not_P [OF False] sr using b b1 by (simp add: resolve_tail_eq(1))
    next
      case no: False
      then show ?thesis
        unfolding first if_not_P [OF False] sr using b b2
        by (simp add: resolve_tail_eq(1) del: take_append take_update_cancel)
    qed
  qed
  then have "resolve_path path s = (spec_resolve (working (abs_state ?u)) path,
      s\<lparr>sys_user := (sys_user s)\<lparr>resolved_path := snd ?r\<rparr>\<rparr>)"
    by (auto simp: resolve_path_def Let_def split: prod.splits)
  with len show thesis by (rule that)
qed

section \<open>One call\<close>

text \<open>The state after a call, with respect to the answer and tables of the specification.\<close>

definition simulates :: "system \<Rightarrow> system \<Rightarrow> file_table \<Rightarrow> vfs \<Rightarrow> bool" where
  "simulates s s' t v \<longleftrightarrow> user_wf s' \<and> sys_kernel s' = sys_kernel s \<and> sys_vfs s' = v \<and>
     abs_tables s' = (abs_tables s)(current_state_slot s := t)"

lemma simulates_refl: "user_wf s \<Longrightarrow> simulates s s (abs_state (user_state s)) (sys_vfs s)"
  unfolding simulates_def abs_current [symmetric] by simp

lemma simulates_set_file:
  assumes "user_wf s" and "i < MAX_FDS" and "desc_wf (f (descriptors (user_state s) ! i))"
    and "abs_descriptor (f (descriptors (user_state s) ! i)) = Some fl"
  shows "simulates s (update_descriptor i f s) (set_file i fl (abs_state (user_state s))) (sys_vfs s)"
  using update_descriptor_sim [where f = f, OF assms(1-3)] assms(4) by (simp add: simulates_def set_file_def)

lemma with_buffer [simp]:
  assumes "length buffer = FD_PATH_LENGTH" and "user_wf s"
  shows "user_wf (s\<lparr>sys_user := (sys_user s)\<lparr>resolved_path := buffer\<rparr>\<rparr>)"
    and "user_state (s\<lparr>sys_user := (sys_user s)\<lparr>resolved_path := buffer\<rparr>\<rparr>) = user_state s"
    and "current_state_slot (s\<lparr>sys_user := (sys_user s)\<lparr>resolved_path := buffer\<rparr>\<rparr>) = current_state_slot s"
    and "abs_tables (s\<lparr>sys_user := (sys_user s)\<lparr>resolved_path := buffer\<rparr>\<rparr>) = abs_tables s"
  using assms
  by (simp_all add: user_wf_def user_state_def current_state_slot_def abs_tables_def fun_eq_iff)

lemma with_vfs [simp]:
  "user_wf (s\<lparr>sys_vfs := v\<rparr>) \<longleftrightarrow> user_wf s"
  "user_state (s\<lparr>sys_vfs := v\<rparr>) = user_state s"
  "current_state_slot (s\<lparr>sys_vfs := v\<rparr>) = current_state_slot s"
  "abs_tables (s\<lparr>sys_vfs := v\<rparr>) = abs_tables s"
  by (simp_all add: user_wf_def user_state_def current_state_slot_def abs_tables_def fun_eq_iff)

lemma simulates_trans:
  assumes "simulates s s1 (abs_state (user_state s)) v1"
    and "simulates s1 s' t v" and "current_state_slot s1 = current_state_slot s"
  shows "simulates s s' t v"
  using assms by (simp add: simulates_def)

lemma wf_descriptor: "user_wf s \<Longrightarrow> i < MAX_FDS \<Longrightarrow> desc_wf (descriptors (user_state s) ! i)"
  using user_state_wf [of s] by (simp add: state_wf_def)

lemma wf_path: "desc_wf d \<Longrightarrow> descriptor_path d = Some (take (desc_path_length d) (desc_path d))"
  by (simp add: desc_wf_def descriptor_path_def)

text \<open>The calls that only move a position.\<close>

lemma moved_descriptor [simp]:
  "desc_wf (d\<lparr>desc_position := n\<rparr>) \<longleftrightarrow> desc_wf d"
  "abs_descriptor (d\<lparr>desc_position := n\<rparr>) = map_option (\<lambda>f. f\<lparr>of_position := n\<rparr>) (abs_descriptor d)"
  by (simp_all add: desc_wf_def abs_descriptor_def)

lemma fd_cases [case_names bad good]:
  assumes wf: "user_wf s"
  obtains (bad) "lookup_fd fd (abs_state (user_state s)) = None"
      "case descriptor_index fd of None \<Rightarrow> True | Some i \<Rightarrow> i < MAX_FDS \<and>
         desc_kind (descriptors (user_state s) ! i) = Empty"
  | (good) i fl where "lookup_fd fd (abs_state (user_state s)) = Some (i, fl)" "descriptor_index fd = Some i"
      "i < MAX_FDS" "abs_descriptor (descriptors (user_state s) ! i) = Some fl"
      "desc_wf (descriptors (user_state s) ! i)"
      "of_path fl = take (desc_path_length (descriptors (user_state s) ! i)) (desc_path (descriptors (user_state s) ! i))"
      "desc_kind (descriptors (user_state s) ! i) = (if of_directory fl then Directory else File)"
      "of_position fl = desc_position (descriptors (user_state s) ! i)"
      "of_writable fl = desc_writable (descriptors (user_state s) ! i)"
proof (cases "descriptor_index fd")
  case None
  then show thesis using bad by (simp add: lookup_fd_index)
next
  case (Some i)
  then have i: "i < MAX_FDS" by (auto simp: descriptor_index_iff split: if_splits)
  let ?d = "descriptors (user_state s) ! i"
  show thesis
  proof (cases "desc_kind ?d = Empty")
    case True
    then show thesis using bad Some i by (simp add: lookup_fd_index abs_descriptor_def)
  next
    case False
    then have "desc_kind ?d = Directory \<or> desc_kind ?d = File" by (cases "desc_kind ?d") auto
    then show thesis
      using Some i wf_descriptor [OF wf i] False
      by (intro good [of i "the (abs_descriptor ?d)"]) (auto simp: lookup_fd_index abs_descriptor_def)
  qed
qed

lemma read_sim:
  assumes wf: "user_wf s" and spec: "spec_call (Read fd out) (abs_state (user_state s)) (sys_vfs s) = (ans, t, v)"
  shows "\<exists>s'. user_call (Read fd out) s = (ans, s') \<and> simulates s s' t v"
  using wf
proof (cases rule: fd_cases [where fd = fd])
  case bad
  have "user_read fd out s = (u64_max, out, s)"
    using bad(2) by (auto simp: user_read_def Let_def split: option.splits)
  then show ?thesis using bad spec simulates_refl [OF wf] by auto
next
  case (good i fl)
  let ?d = "descriptors (user_state s) ! i"
  note p = wf_path [OF good(5)]
  show ?thesis
  proof (cases "of_directory fl")
    case True
    have out: "2 \<le> length out \<Longrightarrow> take (length out - 1) out = butlast out \<and> drop (length out - 1) out = [last out]"
      by (cases out rule: rev_cases) (auto simp: butlast_conv_take)
    show ?thesis
      using spec good True p out simulates_refl [OF wf]
        simulates_set_file [OF wf good(3), of "\<lambda>d. d\<lparr>desc_position := desc_position d + 1\<rparr>"]
      by (auto simp: user_read_def Let_def not_less split: option.splits if_splits)
  next
    case False
    show ?thesis
    proof (cases "vfs_open (of_path fl) (sys_vfs s)")
      case None
      then show ?thesis using spec good False p simulates_refl [OF wf] by (auto simp: user_read_def)
    next
      case (Some bytes)
      let ?rem = "drop (of_position fl) bytes" and ?got = "take (length out) (drop (of_position fl) bytes)"
      have g: "take (min (length ?rem) (length out)) ?rem = ?got" "min (length ?rem) (length out) = length ?got"
        by (simp_all add: min_def)
      have "store_bytes out 0 ?got = ?got @ drop (length ?got) out" by (rule store_bytes_0) simp
      then show ?thesis
        using spec good False p Some g
          simulates_set_file [OF wf good(3), of "\<lambda>d. d\<lparr>desc_position := desc_position d + length ?got\<rparr>"]
        by (auto simp: user_read_def Let_def)
    qed
  qed
qed

lemma write_sim:
  assumes wf: "user_wf s" and spec: "spec_call (Write fd bytes) (abs_state (user_state s)) (sys_vfs s) = (ans, t, v)"
  shows "\<exists>s'. user_call (Write fd bytes) s = (ans, s') \<and> simulates s s' t v"
  using wf
proof (cases rule: fd_cases [where fd = fd])
  case bad
  have "user_write fd bytes s = (u64_max, s)"
    using bad(2) by (auto simp: user_write_def Let_def split: option.splits)
  then show ?thesis using bad spec simulates_refl [OF wf] by auto
next
  case (good i fl)
  note p = wf_path [OF good(5)]
  show ?thesis
  proof (cases "of_directory fl \<or> \<not> of_writable fl")
    case True
    then show ?thesis using spec good simulates_refl [OF wf] by (auto simp: user_write_def Let_def)
  next
    case False
    obtain r v' where w: "vfs_write_at (of_path fl) (of_position fl) bytes (sys_vfs s) = (r, v')" by fastforce
    let ?s = "s\<lparr>sys_vfs := v'\<rparr>"
    have "simulates s ?s (abs_state (user_state s)) v'" 
      using simulates_refl [of ?s] wf by (simp add: simulates_def)
    moreover have "simulates ?s (update_descriptor i (\<lambda>d. d\<lparr>desc_position := desc_position d + length bytes\<rparr>) ?s)
        (set_file i (fl\<lparr>of_position := of_position fl + length bytes\<rparr>) (abs_state (user_state s))) v'"
      using simulates_set_file [of ?s i "\<lambda>d. d\<lparr>desc_position := desc_position d + length bytes\<rparr>"] wf good
      by simp
    ultimately show ?thesis
      using spec good False p w simulates_trans [of s ?s] by (cases r) (auto simp: user_write_def Let_def)
  qed
qed

lemma close_sim:
  assumes wf: "user_wf s" and spec: "spec_call (Close fd) (abs_state (user_state s)) (sys_vfs s) = (ans, t, v)"
  shows "\<exists>s'. user_call (Close fd) s = (ans, s') \<and> simulates s s' t v"
  using wf
proof (cases rule: fd_cases [where fd = fd])
  case bad
  have "user_close fd s = (u64_max, s)"
    using bad(2) by (auto simp: user_close_def Let_def split: option.splits)
  then show ?thesis using bad spec simulates_refl [OF wf] by auto
next
  case (good i fl)
  have "desc_wf descriptor_empty" "abs_descriptor descriptor_empty = None"
    by (simp_all add: desc_wf_def descriptor_empty_def FD_PATH_LENGTH_def abs_descriptor_def)
  then show ?thesis
    using spec good update_descriptor_sim [OF wf good(3), of "\<lambda>_. descriptor_empty"]
    by (auto simp: user_close_def simulates_def split: if_splits)
qed

lemma stat_bytes:
  assumes "16 \<le> length out" and "length sz = 8"
  shows "store_bytes (out[0 := k, 1 := w]) 8 sz = [k, w] @ slice out 2 8 @ sz @ drop 16 out"
proof (rule nth_equalityI)
  fix j assume j: "j < length (store_bytes (out[0 := k, 1 := w]) 8 sz)"
  then have "j = 0 \<or> j = 1 \<or> (2 \<le> j \<and> j < 8) \<or> (8 \<le> j \<and> j < 16) \<or> 16 \<le> j" by linarith
  moreover have "2 \<le> j \<Longrightarrow> Suc (Suc (j - Suc (Suc 0))) = j" by simp
  ultimately show "store_bytes (out[0 := k, 1 := w]) 8 sz ! j = ([k, w] @ slice out 2 8 @ sz @ drop 16 out) ! j"
    using assms j by (auto simp: loop_simps nth_append slice_def)
qed (use assms in \<open>simp add: slice_def\<close>)

lemma stat_sim:
  assumes wf: "user_wf s" and spec: "spec_call (Stat fd out) (abs_state (user_state s)) (sys_vfs s) = (ans, t, v)"
  shows "\<exists>s'. user_call (Stat fd out) s = (ans, s') \<and> simulates s s' t v"
  using wf
proof (cases rule: fd_cases [where fd = fd])
  case bad
  have "user_stat fd out s = (u64_max, out)"
    using bad(2) by (auto simp: user_stat_def Let_def split: option.splits)
  then show ?thesis using bad spec simulates_refl [OF wf] by (auto split: if_splits)
next
  case (good i fl)
  have "length (le_bytes x) = 8" for x by (simp add: le_bytes_def)
  then show ?thesis
    using spec good wf_path [OF good(5)] simulates_refl [OF wf] stat_bytes [of out]
    by (cases "length out < 16") (auto simp: user_stat_def Let_def size_of_def)
qed

lemma checked_add_signed_eq:
  "checked_add_signed a b = Some c \<and> 0 \<le> sint c \<longleftrightarrow>
     0 \<le> sint a + sint b \<and> sint a + sint b < 2 ^ 63 \<and> c = of_int (sint a + sint b)"
proof -
  have w: "a + b = of_int (sint a + sint b)" by simp
  have fits: "sint (of_int z :: u64) = z" if "- (2 ^ 63) \<le> z" "z < 2 ^ 63" for z
    using that by (simp add: signed_of_int signed_take_bit_int_eq_self)
  show ?thesis
    using fits [of "sint a + sint b"]
    by (auto simp: checked_add_signed_def w simp del: of_int_add of_int_sint)
qed

lemma seek_sim:
  assumes wf: "user_wf s"
    and spec: "spec_call (Seek fd offset whence) (abs_state (user_state s)) (sys_vfs s) = (ans, t, v)"
  shows "\<exists>s'. user_call (Seek fd offset whence) s = (ans, s') \<and> simulates s s' t v"
  using wf
proof (cases rule: fd_cases [where fd = fd])
  case bad
  have "user_seek fd offset whence s = (u64_max, s)"
    using bad(2) by (auto simp: user_seek_def Let_def split: option.splits)
  then show ?thesis using bad spec simulates_refl [OF wf] by auto
next
  case (good i fl)
  let ?d = "descriptors (user_state s) ! i"
  let ?base = "if whence = 0 then Some (0 :: u64) else if whence = 1 then Some (of_nat (of_position fl))
     else if whence = 2 \<and> \<not> of_directory fl then Some (of_nat (size_of (of_path fl) (sys_vfs s))) else None"
  have b: "seek_base ?d whence s = ?base"
    using good wf_path [OF good(5)] by (simp add: seek_base_def size_of_def)
  have ne: "desc_kind ?d \<noteq> Empty" using good(7) by simp
  show ?thesis
  proof (cases ?base)
    case None
    then show ?thesis using spec good b ne simulates_refl [OF wf] by (auto simp: user_seek_def Let_def)
  next
    case (Some base)
    let ?p = "sint base + sint offset"
    have spec': "(ans, t, v) = (if 0 \<le> ?p \<and> ?p < 2 ^ 63
        then ((of_int ?p, []), set_file i (fl\<lparr>of_position := nat ?p\<rparr>) (abs_state (user_state s)), sys_vfs s)
        else ((u64_max, []), abs_state (user_state s), sys_vfs s))"
      using spec good(1) Some by (simp add: Let_def)
    show ?thesis
    proof (cases "0 \<le> ?p \<and> ?p < 2 ^ 63")
      case True
      define c :: u64 where "c = of_int ?p"
      have c: "checked_add_signed base offset = Some c" "0 \<le> sint c"
        using True checked_add_signed_eq [of base offset c] by (simp_all add: c_def)
      have "unat c = nat ?p"
        using True by (simp add: c_def unsigned_of_int take_bit_int_eq_self del: of_int_add)
      then show ?thesis
        using spec' True c b Some good ne
          simulates_set_file [OF wf good(3), of "\<lambda>d. d\<lparr>desc_position := unat c\<rparr>"]
        by (auto simp: user_seek_def Let_def c_def simp del: of_int_add)
    next
      case False
      then have "\<not> (checked_add_signed base offset = Some c \<and> 0 \<le> sint c)" for c
        using checked_add_signed_eq [of base offset c] by linarith
      then have "user_seek fd offset whence s = (u64_max, s)"
        using b Some good(2) ne by (auto simp: user_seek_def Let_def split: option.splits)
      then show ?thesis using spec' False simulates_refl [OF wf] by auto
    qed
  qed
qed

lemma chdir_sim:
  assumes wf: "user_wf s" and spec: "spec_call (Chdir path) (abs_state (user_state s)) (sys_vfs s) = (ans, t, v)"
  shows "\<exists>s'. user_call (Chdir path) s = (ans, s') \<and> simulates s s' t v"
proof -
  obtain buffer where b: "length buffer = FD_PATH_LENGTH"
    and r: "resolve_path path s = (spec_resolve (working (abs_state (user_state s))) path,
       s\<lparr>sys_user := (sys_user s)\<lparr>resolved_path := buffer\<rparr>\<rparr>)"
    by (rule resolve_path_sim [OF wf])
  let ?s = "s\<lparr>sys_user := (sys_user s)\<lparr>resolved_path := buffer\<rparr>\<rparr>"
  note B = with_buffer [OF b wf]
  have same: "simulates s ?s (abs_state (user_state s)) (sys_vfs s)"
    using B abs_current [of s] by (simp add: simulates_def fun_upd_idem)
  show ?thesis
  proof (cases "\<exists>p. spec_resolve (working (abs_state (user_state s))) path = Some p \<and> is_directory p")
    case False
    then show ?thesis using spec r same by (auto simp: user_chdir_def split: option.splits)
  next
    case True
    then obtain p where p: "spec_resolve (working (abs_state (user_state s))) path = Some p" "is_directory p" by blast
    let ?f = "\<lambda>u. u\<lparr>cwd_length := length p, cwd := store_bytes (cwd u) 0 p\<rparr>"
    have len: "1 \<le> length p" "length p \<le> CURRENT_DIRECTORY_MAX"
      using p(2) by (auto simp: is_directory_def CURRENT_DIRECTORY_MAX_def ascii_def)
    have w: "state_wf (user_state s)" by (rule user_state_wf [OF wf])
    then have "state_wf (?f (user_state s))" using len by (simp add: state_wf_def)
    moreover have "abs_state (?f (user_state s)) = (abs_state (user_state s))\<lparr>working := p\<rparr>"
      using w len by (simp add: abs_state_def state_wf_def fun_eq_iff)
    ultimately have "simulates s (update_user_state ?f ?s) ((abs_state (user_state s))\<lparr>working := p\<rparr>) (sys_vfs s)"
      using update_state_sim [OF B(1) current_slot_lt, of ?f s] B(3,4)
      by (simp add: update_user_state_def simulates_def user_state_def)
    then show ?thesis using spec r p by (auto simp: user_chdir_def)
  qed
qed

lemma getcwd_sim:
  assumes wf: "user_wf s" and spec: "spec_call (Getcwd out) (abs_state (user_state s)) (sys_vfs s) = (ans, t, v)"
  shows "\<exists>s'. user_call (Getcwd out) s = (ans, s') \<and> simulates s s' t v"
proof -
  let ?u = "user_state s" and ?dir = "working (abs_state (user_state s))"
  have w: "state_wf ?u" by (rule user_state_wf [OF wf])
  have dir: "?dir = take (cwd_length ?u) (cwd ?u)" "length ?dir = cwd_length ?u"
    using w by (simp_all add: abs_state_def state_wf_def)
  have "(store_bytes out 0 ?dir)[length ?dir := 0] = ?dir @ [0] @ drop (length ?dir + 1) out"
    if "length ?dir < length out"
    using that by (simp add: store_bytes_0 list_update_append Cons_nth_drop_Suc [symmetric])
  then show ?thesis
    using spec dir simulates_refl [OF wf] by (auto simp: user_getcwd_def Let_def split: if_splits)
qed

lemma executable_info_sim:
  assumes wf: "user_wf s"
    and spec: "spec_call (ExecutableInfo out) (abs_state (user_state s)) (sys_vfs s) = (ans, t, v)"
  shows "\<exists>s'. user_call (ExecutableInfo out) s = (ans, s') \<and> simulates s s' t v"
proof -
  have l: "length EXECUTABLE_PATH = 5" by (simp add: EXECUTABLE_PATH_def ascii_def)
  have "(store_bytes out 0 EXECUTABLE_PATH)[5 := 0] = EXECUTABLE_PATH @ [0] @ drop 6 out" if "5 < length out"
    using that l by (simp add: store_bytes_0 list_update_append Cons_nth_drop_Suc [symmetric])
  moreover have "program_entry (abs_state (user_state s)) = executable_entry (user_state s)"
    by (simp add: abs_state_def)
  ultimately show ?thesis
    using spec l simulates_refl [OF wf]
    by (auto simp: executable_info_def EXECUTABLE_PATH_def split: if_splits)
qed

lemma find_positions: "find (\<lambda>i. p (ds ! i)) [0..<length ds] = find_index p ds"
proof (cases "find_index p ds")
  case None
  then have "\<not> p (ds ! i)" if "i < length ds" for i using that by (auto simp: loop_simps)
  then have "find (\<lambda>i. p (ds ! i)) [0..<length ds] = None" by (simp add: find_None_iff)
  then show ?thesis using None by simp
next
  case (Some i)
  then have "find (\<lambda>i. p (ds ! i)) [0..<length ds] = Some i" by (auto simp: find_Some_iff loop_simps)
  then show ?thesis using Some by simp
qed

lemma find_free_slot:
  assumes "length ds = n" and "\<And>i. i < n \<Longrightarrow> f i = abs_descriptor (ds ! i)"
  shows "find (\<lambda>i. f i = None) [0..<n] = find_index (\<lambda>d. desc_kind d = Empty) ds"
proof -
  have "f i = None \<longleftrightarrow> desc_kind (ds ! i) = Empty" if "i < n" for i
    using assms(2) [OF that] by (simp add: abs_descriptor_def)
  then have "find (\<lambda>i. f i = None) [0..<n] = find (\<lambda>i. desc_kind (ds ! i) = Empty) [0..<length ds]"
    using assms(1) by (intro find_cong) auto
  also have "\<dots> = find_index (\<lambda>d. desc_kind d = Empty) ds" by (rule find_positions)
  finally show ?thesis .
qed

lemma open_sim:
  assumes wf: "user_wf s" and spec: "spec_call (Open path flags) (abs_state (user_state s)) (sys_vfs s) = (ans, t, v)"
  shows "\<exists>s'. user_call (Open path flags) s = (ans, s') \<and> simulates s s' t v"
proof -
  obtain buffer where b: "length buffer = FD_PATH_LENGTH"
    and r: "resolve_path path s = (spec_resolve (working (abs_state (user_state s))) path,
       s\<lparr>sys_user := (sys_user s)\<lparr>resolved_path := buffer\<rparr>\<rparr>)"
    by (rule resolve_path_sim [OF wf])
  let ?s = "s\<lparr>sys_user := (sys_user s)\<lparr>resolved_path := buffer\<rparr>\<rparr>"
  note B = with_buffer [OF b wf]
  have same: "simulates s ?s (abs_state (user_state s)) (sys_vfs s)"
    using B abs_current [of s] by (simp add: simulates_def fun_upd_idem)
  show ?thesis
  proof (cases "spec_resolve (working (abs_state (user_state s))) path")
    case None
    then show ?thesis using spec r same by (auto simp: user_open_def)
  next
    case (Some p)
    let ?dir = "flags AND OPEN_DIRECTORY \<noteq> 0" and ?wr = "flags AND OPEN_WRITE \<noteq> 0"
    obtain found v1 where o: "(if ?dir then (is_directory p, sys_vfs s)
        else map_prod (\<lambda>r. \<not> isl r) id (vfs_open_file p ?wr (flags AND OPEN_CREATE \<noteq> 0) (sys_vfs s))) = (found, v1)"
      by fastforce
    let ?s1 = "?s\<lparr>sys_vfs := v1\<rparr>"
    have ot: "open_target p flags ?s = (found, ?s1)"
      using o by (auto simp: open_target_def split: prod.splits if_splits)
    have wf1: "user_wf ?s1" and u1: "user_state ?s1 = user_state s" using B by simp_all
    have same1: "simulates s ?s1 (abs_state (user_state s)) v1"
      using same by (simp add: simulates_def)
    have w: "state_wf (user_state s)" by (rule user_state_wf [OF wf])
    have free: "find (\<lambda>i. opened (abs_state (user_state s)) i = None) [0..<MAX_FDS] =
        find_index (\<lambda>d. desc_kind d = Empty) (descriptors (user_state s))"
      using w by (intro find_free_slot) (auto simp: state_wf_def abs_state_def)
    show ?thesis
    proof (cases "found \<and> find_index (\<lambda>d. desc_kind d = Empty) (descriptors (user_state s)) \<noteq> None")
      case False
      have "user_open path flags s = (u64_max, ?s1)"
        unfolding user_open_def r Some prod.case option.case ot u1 using False by (auto split: bool.split option.split)
      moreover have "(if found then find_index (\<lambda>d. desc_kind d = Empty) (descriptors (user_state s)) else None) = None"
        using False by auto
      then have "(ans, t, v) = ((u64_max, []), abs_state (user_state s), v1)"
        unfolding spec [symmetric] spec_call.simps Some option.case Let_def o prod.case free by simp
      ultimately show ?thesis using same1 by simp
    next
      case True
      then obtain i where i: "find_index (\<lambda>d. desc_kind d = Empty) (descriptors (user_state s)) = Some i" by blast
      then have i16: "i < MAX_FDS" using w find_index_length by (fastforce simp: state_wf_def)
      let ?f = "\<lambda>d. d\<lparr>desc_kind := (if ?dir then Directory else File), desc_path := store_bytes (desc_path d) 0 p,
          desc_path_length := length p, desc_position := 0, desc_writable := ?wr\<rparr>"
      have p: "length p < FD_PATH_LENGTH" "utf8_valid p"
        using Some by (auto simp: spec_resolve_def absolute_def split: if_splits)
      note d = wf_descriptor [OF wf i16]
      have tk: "take (length p) (store_bytes (desc_path (descriptors (user_state s) ! i)) 0 p) = p"
        using d p(1) by (simp add: desc_wf_def)
      have wd: "desc_wf (?f (descriptors (user_state s) ! i))"
        using d p tk by (simp add: desc_wf_def)
      have ad: "abs_descriptor (?f (descriptors (user_state s) ! i)) =
          Some \<lparr>of_directory = ?dir, of_path = p, of_position = 0, of_writable = ?wr\<rparr>"
        using tk by (simp add: abs_descriptor_def)
      have "simulates ?s1 (update_descriptor i ?f ?s1)
          (set_file i \<lparr>of_directory = ?dir, of_path = p, of_position = 0, of_writable = ?wr\<rparr>
             (abs_state (user_state s))) v1"
        using simulates_set_file [OF wf1 i16, of ?f] wd ad unfolding u1 by simp
      then have "simulates s (update_descriptor i ?f ?s1)
          (set_file i \<lparr>of_directory = ?dir, of_path = p, of_position = 0, of_writable = ?wr\<rparr>
             (abs_state (user_state s))) v1"
        using simulates_trans [OF same1] B(3) by simp
      moreover have "user_open path flags s = (of_nat (i + 3), update_descriptor i ?f ?s1)"
        unfolding user_open_def r Some prod.case option.case ot using True i p(1) u1 by simp
      moreover have "(ans, t, v) = ((of_nat (i + 3), []), set_file i \<lparr>of_directory = ?dir, of_path = p,
          of_position = 0, of_writable = ?wr\<rparr> (abs_state (user_state s)), v1)"
        unfolding spec [symmetric] spec_call.simps Some option.case Let_def o prod.case free using True i by simp
      ultimately show ?thesis by simp
    qed
  qed
qed

lemma call_sim:
  assumes "user_wf s" and "spec_call c (abs_state (user_state s)) (sys_vfs s) = (ans, t, v)"
  shows "\<exists>s'. user_call c s = (ans, s') \<and> simulates s s' t v"
  using assms
  by (cases c) (blast intro: open_sim read_sim write_sim close_sim stat_sim seek_sim chdir_sim getcwd_sim
      executable_info_sim)+

section \<open>Runs\<close>

text \<open>
  The events of a run: a call made while the kernel is in some state (which says whose call it
  is), and the start of a process.
\<close>

datatype file_event = Called kernel file_call | Started nat u64

fun user_event :: "file_event \<Rightarrow> system \<Rightarrow> (u64 \<times> u8 list) \<times> system" where
  "user_event (Called k c) s = user_call c (s\<lparr>sys_kernel := k\<rparr>)"
| "user_event (Started process entry) s = ((0, []), update_state (state_slot process) (reset_state entry) s)"

type_synonym files_spec = "(nat \<Rightarrow> file_table) \<times> vfs"

definition caller_slot :: "kernel \<Rightarrow> nat" where
  "caller_slot k = state_slot (case current_process k of None \<Rightarrow> 1 | Some process \<Rightarrow> process)"

definition fresh_table :: "u64 \<Rightarrow> file_table" where
  "fresh_table entry = \<lparr>opened = (\<lambda>_. None), working = [SLASH], program_entry = entry\<rparr>"

fun spec_event :: "file_event \<Rightarrow> files_spec \<Rightarrow> (u64 \<times> u8 list) \<times> files_spec" where
  "spec_event (Called k c) (T, v) =
     (case spec_call c (T (caller_slot k)) v of (ans, t, v) \<Rightarrow> (ans, T(caller_slot k := t), v))"
| "spec_event (Started process entry) (T, v) = ((0, []), T(state_slot process := fresh_table entry), v)"

fun user_run :: "file_event list \<Rightarrow> system \<Rightarrow> (u64 \<times> u8 list) list \<times> system" where
  "user_run [] s = ([], s)"
| "user_run (e # es) s = (case user_event e s of (a, s) \<Rightarrow> map_prod (Cons a) id (user_run es s))"

fun spec_run :: "file_event list \<Rightarrow> files_spec \<Rightarrow> (u64 \<times> u8 list) list \<times> files_spec" where
  "spec_run [] S = ([], S)"
| "spec_run (e # es) S = (case spec_event e S of (a, S) \<Rightarrow> map_prod (Cons a) id (spec_run es S))"

definition system_boot :: "(u8 list \<times> u8 list) list \<Rightarrow> kernel \<Rightarrow> system" where
  "system_boot files k = \<lparr>sys_kernel = k, sys_vfs = vfs_boot files, sys_user = user_initial\<rparr>"

definition initial_table :: file_table where
  "initial_table = \<lparr>opened = (\<lambda>_. None), working = [0], program_entry = 0\<rparr>"

lemma empty_descriptor [simp]: "desc_wf descriptor_empty" "abs_descriptor descriptor_empty = None"
  by (simp_all add: desc_wf_def descriptor_empty_def FD_PATH_LENGTH_def abs_descriptor_def)

lemma reset_descriptors:
  assumes "length ds = n"
  shows "fold (\<lambda>i ds. ds[i := e]) [0..<n] ds = replicate n e"
proof -
  have "fold (\<lambda>i ds. ds[i := e]) [0..<k] ds = replicate k e @ drop k ds" if "k \<le> n" for k
    using that
  proof (induction k)
    case (Suc k)
    then have "k < length ds" using assms by simp
    then have "drop k ds = ds ! k # drop (Suc k) ds" by (simp add: Cons_nth_drop_Suc)
    then show ?case using Suc by (simp add: list_update_append replicate_append_same)
  qed simp
  from this [of n] show ?thesis using assms by simp
qed

lemma reset_state_sim:
  assumes "state_wf u"
  shows "state_wf (reset_state entry u)" and "abs_state (reset_state entry u) = fresh_table entry"
proof -
  note r = reset_descriptors [of "descriptors u" MAX_FDS descriptor_empty]
  show "state_wf (reset_state entry u)"
    using assms r by (simp add: state_wf_def reset_state_def CURRENT_DIRECTORY_MAX_def)
  obtain b bs where "cwd u = b # bs" using assms by (cases "cwd u") (auto simp: state_wf_def CURRENT_DIRECTORY_MAX_def)
  then show "abs_state (reset_state entry u) = fresh_table entry"
    using assms r by (simp add: state_wf_def reset_state_def abs_state_def fresh_table_def fun_eq_iff)
qed

lemma event_sim:
  assumes wf: "user_wf s" and e: "spec_event e (abs_tables s, sys_vfs s) = (ans, S)"
  shows "\<exists>s'. user_event e s = (ans, s') \<and> user_wf s' \<and> (abs_tables s', sys_vfs s') = S"
proof (cases e)
  case (Called k c)
  let ?s = "s\<lparr>sys_kernel := k\<rparr>"
  have s: "user_wf ?s" "abs_tables ?s = abs_tables s" "sys_vfs ?s = sys_vfs s"
    using wf by (simp_all add: user_wf_def abs_tables_def fun_eq_iff)
  have slot: "current_state_slot ?s = caller_slot k" by (simp add: current_state_slot_def caller_slot_def)
  obtain t v where c: "spec_call c (abs_state (user_state ?s)) (sys_vfs ?s) = (ans, t, v)"
    and S: "S = ((abs_tables s)(caller_slot k := t), v)"
    using e Called s abs_current [of ?s] slot by (auto split: prod.splits)
  show ?thesis using call_sim [OF s(1) c] Called S s slot by (auto simp: simulates_def)
next
  case (Started process entry)
  have k: "state_slot process < 8" by (simp add: state_slot_def)
  note R = reset_state_sim [OF user_wf_state [OF wf k], of entry]
  show ?thesis
    using e Started update_state_sim [where f = "reset_state entry", OF wf k R(1)] R(2) by auto
qed

lemma run_sim:
  assumes "user_wf s" and "spec_run es (abs_tables s, sys_vfs s) = (answers, S)"
  shows "\<exists>s'. user_run es s = (answers, s') \<and> user_wf s' \<and> (abs_tables s', sys_vfs s') = S"
  using assms
proof (induction es arbitrary: s answers S)
  case (Cons e es)
  obtain a S1 where e: "spec_event e (abs_tables s, sys_vfs s) = (a, S1)" by (meson surj_pair)
  obtain s1 where s1: "user_event e s = (a, s1)" "user_wf s1" "(abs_tables s1, sys_vfs s1) = S1"
    using event_sim [OF Cons.prems(1) e] by blast
  obtain as S2 where r: "spec_run es S1 = (as, S2)" by (meson surj_pair)
  with Cons.IH [OF s1(2), of as S2] s1 obtain s2 where
    "user_run es s1 = (as, s2)" "user_wf s2" "(abs_tables s2, sys_vfs s2) = S2" by auto
  then show ?case using Cons.prems(2) e s1 r by auto
qed simp

lemma system_boot_wf:
  "user_wf (system_boot files k)" "abs_tables (system_boot files k) = (\<lambda>_. initial_table)"
  "sys_vfs (system_boot files k) = vfs_boot files"
  by (simp_all add: system_boot_def user_initial_def user_wf_def state_wf_def process_user_state_empty_def
      CURRENT_DIRECTORY_MAX_def MAX_FDS_def abs_tables_def abs_state_def initial_table_def fun_eq_iff nth_replicate)

lemma run_invariants:
  assumes "user_run es (system_boot files k) = (answers, s)"
  shows "user_wf s"
  using run_sim [OF system_boot_wf(1)] assms by (metis prod.exhaust prod.inject)

text \<open>
  C21: over any run of file system calls made by any processes in any interleaving, with
  processes started and restarted, every call answers, and fills its buffer, as the
  specification says: per process, a working directory and a map from descriptors to open files.
  In particular no call sees or changes the descriptors of another process, and opening takes
  the lowest free descriptor.
\<close>

theorem file_calls_observe_spec:
  "fst (user_run es (system_boot files k)) = fst (spec_run es (\<lambda>_. initial_table, vfs_boot files))"
proof -
  obtain answers S where r: "spec_run es (\<lambda>_. initial_table, vfs_boot files) = (answers, S)" by (meson surj_pair)
  then show ?thesis
    using run_sim [OF system_boot_wf(1), of es files k answers S] system_boot_wf(2,3) by force
qed

end
