(* ===== verification/Transfers.thy ===== *)
theory Transfers
  imports Files
begin

text \<open>
  Consequences of the specification of the file system calls: what is written is read back,
  \<open>stat\<close> reports the size a reader finds, and the working directory is always a directory.
\<close>

section \<open>Little-endian numbers\<close>

lemma bit_from_le_bytes:
  "bit (from_le_bytes bs :: 'w :: len word) n \<longleftrightarrow>
     n < LENGTH('w) \<and> n div 8 < length bs \<and> bit (bs ! (n div 8)) (n mod 8)"
proof (induction bs arbitrary: n)
  case Nil
  then show ?case by (simp add: from_le_bytes_def)
next
  case (Cons b bs)
  have step: "from_le_bytes (b # bs) = push_bit 8 (from_le_bytes bs :: 'w word) OR ucast b"
    by (simp add: from_le_bytes_def)
  show ?case
  proof (cases "n < 8")
    case True
    then show ?thesis unfolding step by (auto simp: bit_simps)
  next
    case False
    then have n: "n = n - 8 + 8" by simp
    have n: "n div 8 = Suc ((n - 8) div 8)" "n mod 8 = (n - 8) mod 8"
      by (subst n, simp)+
    have "\<not> bit (ucast b :: 'w word) n" using False bit_imp_le_length [of b n] by (auto simp: bit_ucast_iff)
    moreover have "bit (push_bit 8 (from_le_bytes bs :: 'w word)) n \<longleftrightarrow>
        n < LENGTH('w) \<and> bit (from_le_bytes bs :: 'w word) (n - 8)"
      using False by (auto simp: bit_push_bit_iff)
    ultimately show ?thesis unfolding step bit_or_iff n using Cons.IH [of "n - 8"] by auto
  qed
qed

lemma from_le_bytes_le_bytes [simp]: "from_le_bytes (le_bytes x) = x"
proof (rule bit_word_eqI)
  fix n assume "n < LENGTH(64)"
  then have "n div 8 < 8" by (simp add: less_mult_imp_div_less)
  moreover have "n div 8 * 8 + n mod 8 = n" by simp
  ultimately show "bit (from_le_bytes (le_bytes x) :: u64) n = bit x n"
    using \<open>n < LENGTH(64)\<close> by (simp add: bit_from_le_bytes le_bytes_def bit_simps)
qed

section \<open>The file system under a run\<close>

lemma map_snd_eq: "map_prod f id p = (b, v) \<longleftrightarrow> f (fst p) = b \<and> v = snd p"
  by (cases p) auto

lemma spec_call_vfs:
  "spec_call c t v = (a, t', v') \<Longrightarrow> v' = v \<or> (\<exists>op. v' = snd (vfs_exec op v))"
proof (cases c)
  case (Open path flags)
  assume "spec_call c t v = (a, t', v')"
  then have "v' = v \<or> (\<exists>p. v' = snd (vfs_open_file p (flags AND OPEN_WRITE \<noteq> 0) (flags AND OPEN_CREATE \<noteq> 0) v))"
    using Open by (auto simp: Let_def map_snd_eq split: option.splits if_splits prod.splits)
  then show ?thesis using vfs_exec.simps(1) by metis
next
  case (Write fd bytes)
  assume "spec_call c t v = (a, t', v')"
  then have "v' = v \<or> (\<exists>fl :: open_file. v' = snd (vfs_write_at (of_path fl) (of_position fl) bytes v))"
    using Write by (auto split: option.splits if_splits prod.splits sum.splits) (metis snd_conv)+
  then show ?thesis using vfs_exec.simps(2) by metis
qed (auto simp: Let_def split: option.splits if_splits prod.splits)

lemma run_vfs_inv:
  assumes "user_wf s" and "vfs_inv boot (sys_vfs s)" and "user_run es s = (answers, s')"
  shows "vfs_inv boot (sys_vfs s')"
  using assms
proof (induction es arbitrary: s answers)
  case (Cons e es)
  obtain a S1 where e: "spec_event e (abs_tables s, sys_vfs s) = (a, S1)" by (meson surj_pair)
  obtain s1 where s1: "user_event e s = (a, s1)" "user_wf s1" "(abs_tables s1, sys_vfs s1) = S1"
    using event_sim [OF Cons.prems(1) e] by blast
  have "sys_vfs s1 = sys_vfs s \<or> (\<exists>op. sys_vfs s1 = snd (vfs_exec op (sys_vfs s)))"
    using e s1(3) spec_call_vfs by (cases e) (fastforce split: prod.splits)+
  then have "vfs_inv boot (sys_vfs s1)" using Cons.prems(2) vfs_inv_exec by metis
  moreover obtain as where "user_run es s1 = (as, s')" using Cons.prems(3) s1(1) by (auto simp: map_prod_def split: prod.splits)
  ultimately show ?case using Cons.IH s1(2) by blast
qed simp

lemma boot_run:
  assumes "user_run es (system_boot files k) = (answers, s)"
  obtains boot where "user_wf s" "vfs_inv boot (sys_vfs s)"
  using run_invariants [OF assms] run_vfs_inv [OF system_boot_wf(1) _ assms] vfs_boot_inv
  unfolding system_boot_wf(3) by blast

lemma simulates_next:
  assumes "simulates s s' t v"
  shows "user_wf s'" "abs_state (user_state s') = t" "sys_vfs s' = v" "current_state_slot s' = current_state_slot s"
proof -
  show slot: "current_state_slot s' = current_state_slot s"
    using assms by (simp add: simulates_def current_state_slot_def)
  show "abs_state (user_state s') = t"
    using assms abs_current [of s'] by (simp add: simulates_def slot)
qed (use assms in \<open>simp_all add: simulates_def\<close>)

lemma write_bound:
  "vfs_write_at path offset bytes v = (Inr u, v') \<Longrightarrow> offset + length bytes \<le> 4096"
  by (auto simp: vfs_write_at_def on_storage_def storage_write_at_def Let_def MAX_RAM_FILE_SIZE_def
      split: option.splits sum.splits if_splits prod.splits)

lemma patch_window: "take (length bytes) (drop offset (patch old offset bytes)) = bytes"
proof -
  have "length (take offset (old @ replicate (offset + length bytes - length old) 0)) = offset" by simp
  then show ?thesis by (simp add: patch_def Let_def)
qed

lemma sint_of_nat_small: "n < 2 ^ 63 \<Longrightarrow> sint (of_nat n :: u64) = int n"
  by (simp add: signed_of_nat signed_take_bit_int_eq_self)

lemma sint_of_int_fits: "- (2 ^ 63) \<le> z \<Longrightarrow> z < 2 ^ 63 \<Longrightarrow> sint (of_int z :: u64) = z"
  by (simp add: signed_of_int signed_take_bit_int_eq_self)

lemma sint_minus_small: "n < 2 ^ 63 \<Longrightarrow> sint (- of_nat n :: u64) = - int n"
  using sint_of_int_fits [of "- int n"] by simp

section \<open>Properties\<close>

text \<open>
  C22: bytes written through a descriptor are read back: after any run, if a write succeeds, then
  seeking back by its length and reading as many bytes returns exactly what was written.
\<close>

theorem written_bytes_read_back:
  "(case user_run es (system_boot files k) of (_, s) \<Rightarrow>
     (case user_write fd bytes s of (n, s1) \<Rightarrow>
      (case user_seek fd (- of_nat (length bytes)) 1 s1 of (_, s2) \<Rightarrow>
       (case user_read fd (replicate (length bytes) 0) s2 of (c, out, _) \<Rightarrow>
          if n = u64_max then True else n = of_nat (length bytes) \<and> c = n \<and> out = bytes))))"
proof -
  obtain answers s where run: "user_run es (system_boot files k) = (answers, s)" by (meson surj_pair)
  obtain boot where wf: "user_wf s" and inv: "vfs_inv boot (sys_vfs s)" by (rule boot_run [OF run])
  obtain n s1 where w: "user_write fd bytes s = (n, s1)" by fastforce
  obtain ans t v where spec: "spec_call (Write fd bytes) (abs_state (user_state s)) (sys_vfs s) = (ans, t, v)"
    by (metis prod_cases3)
  have ans: "ans = (n, [])" and sim: "simulates s s1 t v" using write_sim [OF wf spec] w by auto
  show ?thesis
  proof (cases "n = u64_max")
    case True
    then show ?thesis using run w by (auto split: prod.splits)
  next
    case False
    obtain i fl where fl: "lookup_fd fd (abs_state (user_state s)) = Some (i, fl)" "\<not> of_directory fl"
      and wr: "vfs_write_at (of_path fl) (of_position fl) bytes (sys_vfs s) = (Inr (), v)"
      and n: "n = of_nat (length bytes)"
      and t: "t = set_file i (fl\<lparr>of_position := of_position fl + length bytes\<rparr>) (abs_state (user_state s))"
      using spec ans False by (auto split: option.splits if_splits prod.splits sum.splits)
    note b = write_bound [OF wr]
    have look: "lookup_fd fd (set_file i fl' (abs_state (user_state s))) = Some (i, fl')" for fl'
      using fl(1) by (auto simp: lookup_fd_def set_file_def split: if_splits)
    obtain old where rd: "vfs_open (of_path fl) v = Some (patch old (of_position fl) bytes)"
      using vfs_write_cases [OF inv wr] by auto
    note S1 = simulates_next [OF sim]
    let ?m = "- of_nat (length bytes) :: u64"
    have p: "sint (of_nat (of_position fl + length bytes) :: u64) + sint ?m = int (of_position fl)"
      using b by (subst sint_of_nat_small, simp, subst sint_minus_small) simp_all
    have "spec_call (Seek fd ?m 1) (abs_state (user_state s1)) (sys_vfs s1) =
        ((of_int (int (of_position fl)), []), set_file i fl (abs_state (user_state s)), v)"
      using look [of "fl\<lparr>of_position := of_position fl + length bytes\<rparr>"] p b
      unfolding S1(2,3) t by (simp add: Let_def set_file_def del: of_nat_add)
    from seek_sim [OF S1(1) this] obtain s2 where
      s2: "user_seek fd ?m 1 s1 = (of_int (int (of_position fl)), s2)"
        "simulates s1 s2 (set_file i fl (abs_state (user_state s))) v"
      by (auto split: prod.splits)
    note S2 = simulates_next [OF s2(2)]
    let ?buf = "replicate (length bytes) (0 :: u8)"
    have "spec_call (Read fd ?buf) (abs_state (user_state s2)) (sys_vfs s2) =
        ((of_nat (length bytes), bytes),
          set_file i (fl\<lparr>of_position := of_position fl + length bytes\<rparr>) (set_file i fl (abs_state (user_state s))), v)"
      using look [of fl] fl(2) rd patch_window [of bytes "of_position fl" old]
      unfolding S2(2,3) by (simp add: Let_def)
    from read_sim [OF S2(1) this] obtain s3 where "user_read fd ?buf s2 = (of_nat (length bytes), bytes, s3)"
      by (auto split: prod.splits)
    then show ?thesis using run w s2(1) n by simp
  qed
qed

text \<open>
  the size that \<open>stat\<close> stores for a file is the number of bytes a reader finds: decoded from
  its eight little-endian bytes it is what a read from the start returns whenever that read comes
  up short of its buffer.
\<close>

theorem stat_size_is_content_size:
  "(case user_run es (system_boot files k) of (_, s) \<Rightarrow>
     (case user_stat fd out s of (n, info) \<Rightarrow>
      (case user_seek fd 0 0 s of (_, s1) \<Rightarrow>
       (case user_read fd buf s1 of (c, _, _) \<Rightarrow>
          if n = 0 \<and> info ! 0 = 1 \<and> c \<noteq> u64_max \<and> unat c < length buf \<and> length buf < 2 ^ 64
          then from_le_bytes (slice info 8 16) = c else True))))"
proof -
  obtain answers s where run: "user_run es (system_boot files k) = (answers, s)" by (meson surj_pair)
  obtain boot where wf: "user_wf s" and inv: "vfs_inv boot (sys_vfs s)" by (rule boot_run [OF run])
  obtain n info where st: "user_stat fd out s = (n, info)" by fastforce
  obtain p s1 where sk: "user_seek fd 0 0 s = (p, s1)" by fastforce
  obtain c out' s2 where rd: "user_read fd buf s1 = (c, out', s2)" by (metis prod_cases3)
  show ?thesis
  proof (cases "n = 0 \<and> info ! 0 = 1 \<and> c \<noteq> u64_max \<and> unat c < length buf \<and> length buf < 2 ^ 64")
    case True
    obtain ans t v where spec: "spec_call (Stat fd out) (abs_state (user_state s)) (sys_vfs s) = (ans, t, v)"
      by (metis prod_cases3)
    have ans: "ans = (n, info)" using stat_sim [OF wf spec] st by auto
    obtain i fl where fl: "lookup_fd fd (abs_state (user_state s)) = Some (i, fl)" "\<not> of_directory fl"
      and info: "info = [1, if of_writable fl then 0 else 1] @ slice out 2 8 @
          le_bytes (of_nat (size_of (of_path fl) (sys_vfs s))) @ drop 16 out" and len: "16 \<le> length out"
      using spec ans True by (auto simp: u64_max_def split: option.splits if_splits prod.splits)
    have sz: "slice info 8 16 = le_bytes (of_nat (size_of (of_path fl) (sys_vfs s)))"
      using len unfolding info by (simp add: slice_def le_bytes_def)
    have "spec_call (Seek fd 0 0) (abs_state (user_state s)) (sys_vfs s) =
        ((0, []), set_file i (fl\<lparr>of_position := 0\<rparr>) (abs_state (user_state s)), sys_vfs s)"
      using fl by simp
    from seek_sim [OF wf this] sk have
      sim: "simulates s s1 (set_file i (fl\<lparr>of_position := 0\<rparr>) (abs_state (user_state s))) (sys_vfs s)"
      by (auto split: prod.splits)
    note S1 = simulates_next [OF sim]
    have look: "lookup_fd fd (abs_state (user_state s1)) = Some (i, fl\<lparr>of_position := 0\<rparr>)"
      using fl(1) unfolding S1(2) by (auto simp: lookup_fd_def set_file_def split: if_splits)
    obtain ans2 t2 v2 where spec2: "spec_call (Read fd buf) (abs_state (user_state s1)) (sys_vfs s1) = (ans2, t2, v2)"
      by (metis prod_cases3)
    have ans2: "ans2 = (c, out')" using read_sim [OF S1(1) spec2] rd by auto
    obtain bytes where b: "vfs_open (of_path fl) (sys_vfs s) = Some bytes" and c: "c = of_nat (length (take (length buf) bytes))"
      using spec2 ans2 look fl(2) True unfolding S1(3) by (auto simp: Let_def split: option.splits)
    have "unat c = length (take (length buf) bytes)"
      unfolding c using True by (simp add: unat_of_nat take_bit_nat_eq_self min_def)
    then have "length bytes < length buf" using True by (simp add: min_def split: if_splits)
    then have "c = of_nat (size_of (of_path fl) (sys_vfs s))" using b c by (simp add: size_of_def)
    then show ?thesis using run st sk rd by (simp add: sz)
  next
    case False
    then show ?thesis unfolding run st sk rd prod.case if_not_P [OF False] by simp
  qed
qed

lemma spec_call_working:
  "spec_call c t v = (a, t', v') \<Longrightarrow> is_directory (working t) \<Longrightarrow> is_directory (working t')"
  by (cases c) (auto simp: Let_def set_file_def split: option.splits if_splits prod.splits sum.splits)

lemma spec_event_working:
  "spec_event e (T, v) = (a, T', v') \<Longrightarrow> is_directory (working (T slot)) \<Longrightarrow> is_directory (working (T' slot))"
  by (cases e) (auto simp: fresh_table_def is_directory_def [of "[SLASH]"] split: prod.splits dest: spec_call_working)

lemma spec_run_working:
  "spec_run es (T, v) = (as, T', v') \<Longrightarrow> is_directory (working (T slot)) \<Longrightarrow> is_directory (working (T' slot))"
proof (induction es arbitrary: T v as)
  case (Cons e es)
  obtain a T1 v1 where e: "spec_event e (T, v) = (a, T1, v1)" by (metis prod_cases3)
  then show ?case using Cons spec_event_working [OF e] by (auto simp: map_prod_def split: prod.splits)
qed simp

lemma user_run_append:
  "user_run (es @ es') s = (case user_run es s of (as, s1) \<Rightarrow> map_prod ((@) as) id (user_run es' s1))"
  by (induction es arbitrary: s) (auto simp: map_prod_def split: prod.splits)

lemma is_directory_cases: "is_directory p \<longleftrightarrow> p \<in> {ascii ''/'', ascii ''/tmp''}"
  by (auto simp: is_directory_def)

text \<open>
  Once a process has been started, its working directory is the root or \<open>/tmp\<close> whatever it
  and the others do afterwards: that is the text \<open>getcwd\<close> stores, with its length and a final
  zero, in every buffer of at least five bytes; in particular the five-byte field of the state
  always holds it.
\<close>

theorem getcwd_answers_directory:
  "(case user_run (es @ [Started process entry] @ es') (system_boot files k) of (_, s) \<Rightarrow>
     (case user_getcwd out (s\<lparr>sys_kernel := k'\<rparr>) of (n, out') \<Rightarrow>
        if caller_slot k' = state_slot process \<and> 5 \<le> length out
        then take (unat n) out' \<in> {ascii ''/'', ascii ''/tmp''} \<and> out' ! unat n = 0 else True))"
proof -
  obtain a1 s1 where r1: "user_run es (system_boot files k) = (a1, s1)" by (meson surj_pair)
  note wf1 = run_invariants [OF r1]
  obtain a2 s2 where e: "user_event (Started process entry) s1 = (a2, s2)" by fastforce
  have slot: "state_slot process < 8" by (simp add: state_slot_def)
  note R = reset_state_sim [OF user_wf_state [OF wf1 slot], of entry]
  have wf2: "user_wf s2" and t2: "abs_tables s2 (state_slot process) = fresh_table entry"
    using e update_state_sim [where f = "reset_state entry", OF wf1 slot R(1)] R(2) by auto
  obtain a3 s where r3: "user_run es' s2 = (a3, s)" by (meson surj_pair)
  obtain as S where sr: "spec_run es' (abs_tables s2, sys_vfs s2) = (as, S)" by (meson surj_pair)
  from run_sim [OF wf2 sr] r3 have wf: "user_wf s" and S: "S = (abs_tables s, sys_vfs s)" by auto
  have dir: "is_directory (working (abs_tables s (state_slot process)))"
    using spec_run_working [of es' "abs_tables s2" "sys_vfs s2" as "abs_tables s" "sys_vfs s" "state_slot process"]
      sr S t2 by (simp add: fresh_table_def is_directory_def)
  let ?s = "s\<lparr>sys_kernel := k'\<rparr>"
  obtain n out' where g: "user_getcwd out ?s = (n, out')" by fastforce
  have run: "user_run (es @ [Started process entry] @ es') (system_boot files k) = (a1 @ a2 # a3, s)"
    using r1 e r3 by (simp add: user_run_append)
  show ?thesis
  proof (cases "caller_slot k' = state_slot process \<and> 5 \<le> length out")
    case True
    let ?dir = "working (abs_tables s (state_slot process))"
    have wf': "user_wf ?s" "abs_tables ?s = abs_tables s"
      using wf by (simp_all add: user_wf_def abs_tables_def fun_eq_iff)
    have cur: "current_state_slot ?s = state_slot process"
      using True by (simp add: current_state_slot_def caller_slot_def)
    have st: "abs_state (user_state ?s) = abs_tables s (state_slot process)"
      using abs_current [of ?s] by (simp add: cur wf'(2))
    have len: "length ?dir \<le> 4" using dir by (auto simp: is_directory_def ascii_def)
    then have "spec_call (Getcwd out) (abs_state (user_state ?s)) (sys_vfs ?s) =
        ((of_nat (length ?dir), ?dir @ [0] @ drop (length ?dir + 1) out), abs_state (user_state ?s), sys_vfs ?s)"
      using True by (simp add: st)
    from getcwd_sim [OF wf'(1) this] g have
      "n = of_nat (length ?dir)" "out' = ?dir @ [0] @ drop (length ?dir + 1) out" by auto
    moreover have "unat (of_nat (length ?dir) :: u64) = length ?dir"
      using len by (simp add: unat_of_nat take_bit_nat_eq_self)
    ultimately show ?thesis using run g dir unfolding is_directory_cases by simp
  next
    case False
    then show ?thesis unfolding run g prod.case if_not_P [OF False] by simp
  qed
qed

end
