(* ===== verification/Launch.thy ===== *)
theory Launch
  imports Descriptors
begin

text \<open>
  The memory and process calls of \<open>kernel-core/src/user.rs\<close>: the heap (\<open>brk\<close>), the initial
  stack of a program, \<open>spawn\<close> and the start of the first process.  The kernel writes user
  addresses through the active page tables; a write to an unmapped page is the value None (the
  kernel page-faults and does not continue).
\<close>

section \<open>Writing user memory\<close>

definition write_user_byte :: "u64 \<Rightarrow> u8 \<Rightarrow> memory \<Rightarrow> memory option" where
  "write_user_byte address b m =
     map_option (\<lambda>frame. write_physical_frame (frame + of_nat (unat address mod 4096)) [b] m)
       (resolve (table_indices address) (active_address_space m) m)"

fun write_user_bytes :: "u64 \<Rightarrow> u8 list \<Rightarrow> memory \<Rightarrow> memory option" where
  "write_user_bytes address [] m = Some m"
| "write_user_bytes address (b # bs) m =
     Option.bind (write_user_byte address b m) (write_user_bytes (address + 1) bs)"

definition write_user_word :: "u64 \<Rightarrow> u64 \<Rightarrow> memory \<Rightarrow> memory option" where
  "write_user_word address word m = write_user_bytes address (le_bytes word) m"

section \<open>The initial stack\<close>

text \<open>A position of the cursor and the memory.\<close>

type_synonym stack_state = "u64 \<times> memory"

definition push_argument :: "u8 list \<Rightarrow> stack_state \<Rightarrow> stack_state option" where
  "push_argument text = (\<lambda>(cursor, m).
     let cursor = cursor - (of_nat (length text) + 1)
     in Option.bind (write_user_bytes cursor text m) (\<lambda>m.
        map_option (Pair cursor) (write_user_bytes (cursor + of_nat (length text)) [0] m)))"

text \<open>\<open>for index in (0..argument_count).rev()\<close>: the last string is written first.\<close>

fun push_arguments :: "u8 list list \<Rightarrow> stack_state \<Rightarrow> (u64 list \<times> stack_state) option" where
  "push_arguments [] s = Some ([], s)"
| "push_arguments (text # texts) s =
     Option.bind (push_arguments texts s) (\<lambda>(pointers, s).
     map_option (\<lambda>(cursor, m). (cursor # pointers, (cursor, m))) (push_argument text s))"

definition push_bytes :: "u8 list \<Rightarrow> stack_state \<Rightarrow> stack_state option" where
  "push_bytes bytes = (\<lambda>(cursor, m).
     let cursor = cursor - of_nat (length bytes)
     in map_option (Pair cursor) (write_user_bytes cursor bytes m))"

definition push_word :: "u64 \<Rightarrow> stack_state \<Rightarrow> stack_state option" where
  "push_word word = (\<lambda>(cursor, m).
     let cursor = cursor - 8 in map_option (Pair cursor) (write_user_word cursor word m))"

fun push_words :: "u64 list \<Rightarrow> stack_state \<Rightarrow> stack_state option" where
  "push_words [] s = Some s"
| "push_words (word # words) s = Option.bind (push_word word s) (push_words words)"

definition PATH_TEXT :: "u8 list" where "PATH_TEXT = ascii ''PATH=/bin'' @ [0]"
definition PWD_TEXT :: "u8 list" where "PWD_TEXT = ascii ''PWD=/'' @ [0]"

definition initialize_process_stack :: "u64 \<Rightarrow> u8 list \<Rightarrow> u8 list list \<Rightarrow> memory \<Rightarrow> stack_state option" where
  "initialize_process_stack sp program_name argv m =
     Option.bind (push_arguments (program_name # take 4 argv) (sp + 8, m)) (\<lambda>(arguments, s).
     Option.bind (push_bytes PATH_TEXT s) (\<lambda>(path_pointer, m).
     Option.bind (push_bytes PWD_TEXT (path_pointer, m)) (\<lambda>(pwd_pointer, m).
     let cursor = pwd_pointer AND NOT 0xF
     in Option.bind (push_words [0] (cursor, m)) (\<lambda>s.
        Option.bind (push_words [0, pwd_pointer, path_pointer, 0] s) (\<lambda>s.
        Option.bind (push_words (rev arguments) s) (push_word (of_nat (length arguments))))))))"

section \<open>The heap\<close>

text \<open>The pages of the loop \<open>while page < required_end\<close>.\<close>

definition heap_pages :: "u64 \<Rightarrow> u64 \<Rightarrow> u64 list" where
  "heap_pages mapped_end required_end =
     map (\<lambda>i. mapped_end + of_nat i * PAGE_SIZE) [0..<(unat required_end - unat mapped_end + 4095) div 4096]"

definition map_heap_pages :: "u64 list \<Rightarrow> memory \<Rightarrow> (paging_error + unit) \<times> memory" where
  "map_heap_pages pages m =
     map_fresh_pages (\<lambda>page frame m. map_user_page_with_flags page frame UserReadWrite (zero_physical_frame frame m))
       pages m"

text \<open>\<open>brk\<close> on the two heap fields of the process and the memory.\<close>

definition heap_brk :: "u64 \<Rightarrow> u64 \<times> u64 \<times> memory \<Rightarrow> u64 \<times> u64 \<times> u64 \<times> memory" where
  "heap_brk requested_break = (\<lambda>(current_break, mapped_end, m).
     if requested_break = 0 then (current_break, current_break, mapped_end, m)
     else if requested_break < USER_HEAP_BASE \<or> USER_HEAP_LIMIT < requested_break
     then (u64_max, current_break, mapped_end, m)
     else if requested_break \<le> current_break then (requested_break, requested_break, mapped_end, m)
     else case checked_add requested_break (PAGE_SIZE - 1) of
       None \<Rightarrow> (u64_max, current_break, mapped_end, m)
     | Some v \<Rightarrow>
         (let required_end = v AND NOT (PAGE_SIZE - 1)
          in case map_heap_pages (heap_pages mapped_end required_end) m of
               (Inl _, m) \<Rightarrow> (u64_max, current_break, mapped_end, m)
             | (Inr _, m) \<Rightarrow> (requested_break, requested_break, required_end, m)))"

definition on_system_memory :: "(memory \<Rightarrow> 'a \<times> memory) \<Rightarrow> system \<Rightarrow> 'a \<times> system" where
  "on_system_memory f s =
     (case f (kmem (sys_kernel s)) of (r, m) \<Rightarrow> (r, s\<lparr>sys_kernel := (sys_kernel s)\<lparr>kmem := m\<rparr>\<rparr>))"

definition brk :: "u64 \<Rightarrow> system \<Rightarrow> u64 \<times> system" where
  "brk requested_break s =
     (let u = user_state s;
          ((answer, break, mapped_end), s) = on_system_memory (\<lambda>m.
             case heap_brk requested_break (heap_break u, heap_mapped_end u, m) of
               (answer, break, mapped_end, m) \<Rightarrow> ((answer, break, mapped_end), m)) s
      in (answer, update_user_state (\<lambda>u. u\<lparr>heap_break := break, heap_mapped_end := mapped_end\<rparr>) s))"

section \<open>Starting programs\<close>

text \<open>\<open>crate::switch_address_space\<close>, the initial stack and the self pointer of the thread block.\<close>

definition prepare_image :: "loaded_image \<Rightarrow> u8 list \<Rightarrow> u8 list list \<Rightarrow> memory \<Rightarrow> stack_state option" where
  "prepare_image loaded program_name argv m =
     Option.bind (initialize_process_stack (loaded_stack_pointer loaded) program_name argv m) (\<lambda>(sp, m).
       if loaded_fs_base loaded \<noteq> 0
       then map_option (Pair sp) (write_user_word (loaded_fs_base loaded) (loaded_fs_base loaded) m)
       else Some (sp, m))"

definition set_memory :: "memory \<Rightarrow> system \<Rightarrow> system" where
  "set_memory m s = s\<lparr>sys_kernel := (sys_kernel s)\<lparr>kmem := m\<rparr>\<rparr>"

text \<open>The end of \<open>spawn\<close>, once the image is loaded into the new address space.\<close>

definition spawn_loaded ::
  "u8 list \<Rightarrow> u8 list list \<Rightarrow> u64 \<Rightarrow> nat \<Rightarrow> loaded_image \<Rightarrow> system \<Rightarrow> (u64 \<times> system) option" where
  "spawn_loaded path argv address_space process loaded s =
     (let s = update_state (state_slot process) (\<lambda>u. u\<lparr>executable_entry := loaded_entry loaded\<rparr>) s;
          m = kmem (sys_kernel s);
          previous_address_space = active_address_space m
      in map_option (\<lambda>(sp, m).
           let s = set_memory (switch_address_space previous_address_space m) s
           in case spawn_user_for_process process (loaded_entry loaded) 0 (loaded_fs_base loaded) (Some sp)
                     (sys_kernel s) of
                (None, k) \<Rightarrow> (u64_max, s\<lparr>sys_kernel := k\<rparr>)
              | (Some thread, k) \<Rightarrow>
                  (of_nat process, s\<lparr>sys_kernel := set_process_main_thread process thread k\<rparr>))
         (prepare_image loaded path argv (switch_address_space address_space m)))"

definition user_spawn :: "u8 list \<Rightarrow> u8 list list \<Rightarrow> system \<Rightarrow> (u64 \<times> system) option" where
  "user_spawn path argv s =
     (case resolve_path path s of
        (None, s) \<Rightarrow> Some (u64_max, s)
      | (Some path, s) \<Rightarrow>
          (case vfs_open path (sys_vfs s) of
             None \<Rightarrow> Some (u64_max, s)
           | Some elf \<Rightarrow>
               (case on_system_memory create_user_address_space s of
                  (Inl _, s) \<Rightarrow> Some (u64_max, s)
                | (Inr address_space, s) \<Rightarrow>
                    (case create_process address_space (sys_kernel s) of
                       (None, k) \<Rightarrow> Some (u64_max, s\<lparr>sys_kernel := k\<rparr>)
                     | (Some process, k) \<Rightarrow>
                         (let s = update_state (state_slot process)
                                    (\<lambda>u. (reset_state 0 u)\<lparr>console := TtyTarget 0\<rparr>) (s\<lparr>sys_kernel := k\<rparr>)
                          in case on_system_memory (load_user_elf_into elf address_space process) s of
                               (Inl _, s) \<Rightarrow> Some (u64_max, s)
                             | (Inr loaded, s) \<Rightarrow> spawn_loaded path argv address_space process loaded s)))))"

section \<open>The first process\<close>

definition BOOT_STACK_SLOT :: nat where "BOOT_STACK_SLOT = 100"

text \<open>\<open>run_demo\<close> until it moves to the boot stack.\<close>

definition run_demo :: "system \<Rightarrow> (elf_error + unit) \<times> system" where
  "run_demo s =
     (case vfs_open (ascii ''/init'') (sys_vfs s) of
        None \<Rightarrow> (Inl InvalidHeader, s)
      | Some elf \<Rightarrow>
          (case on_system_memory create_user_address_space s of
             (Inl e, s) \<Rightarrow> (Inl (PagingFailed e), s)
           | (Inr address_space, s) \<Rightarrow>
               (case on_system_memory (load_user_elf_into elf address_space 0) s of
                  (Inl e, s) \<Rightarrow> (Inl e, s)
                | (Inr loaded, s) \<Rightarrow>
                    (let s = s\<lparr>sys_user := (sys_user s)\<lparr>user_image := Some loaded,
                               pending_address_space := address_space\<rparr>\<rparr>;
                         s = update_state 0 (reset_state (loaded_entry loaded)) s
                     in case on_system_memory (allocate_kernel_stack BOOT_STACK_SLOT) s of
                          (Inl e, s) \<Rightarrow> (Inl (PagingFailed e), s)
                        | (Inr _, s) \<Rightarrow> (Inr (), s)))))"

text \<open>
  The continuation on the boot stack, until the scheduler switches to the first thread.  A missing
  image, a page fault and \<open>halt\<close> are the value None.  The serial messages are left out.
\<close>

definition continue_after_stack_switch :: "system \<Rightarrow> system option" where
  "continue_after_stack_switch s =
     Option.bind (user_image (sys_user s)) (\<lambda>loaded.
     let address_space = pending_address_space (sys_user s);
         m = switch_address_space address_space (kmem (sys_kernel s))
     in Option.bind (prepare_image loaded (ascii ''init'') [] m) (\<lambda>(sp, m).
        let k = initialize_user_process address_space ((sys_kernel s)\<lparr>kmem := m\<rparr>)
        in case spawn_user (loaded_entry loaded) 0 (loaded_fs_base loaded) (Some sp) k of
             (None, _) \<Rightarrow> None
           | (Some _, k) \<Rightarrow> map_option (\<lambda>k. s\<lparr>sys_kernel := k\<rparr>) (start k)))"

end
