(* ===== verification/UserMemory.thy ===== *)
theory UserMemory
  imports Launch Images
begin

text \<open>
  The kernel's view of the active user memory: a partial map from addresses to bytes, which a
  write through the page tables updates at one address.  The clients of the interface only see
  that map.
\<close>

section \<open>The interface\<close>

text \<open>Bytes put into a map from an address on, and the bytes a map holds there.\<close>

definition put :: "(u64 \<Rightarrow> u8 option) \<Rightarrow> u64 \<Rightarrow> u8 list \<Rightarrow> u64 \<Rightarrow> u8 option" where
  "put f a bs = (\<lambda>c. if unat a \<le> unat c \<and> unat c < unat a + length bs then Some (bs ! (unat c - unat a)) else f c)"

definition holds :: "(u64 \<Rightarrow> u8 option) \<Rightarrow> u64 \<Rightarrow> u8 list \<Rightarrow> bool" where
  "holds f a bs \<longleftrightarrow> (\<forall>c. unat a \<le> unat c \<longrightarrow> unat c < unat a + length bs \<longrightarrow> f c = Some (bs ! (unat c - unat a)))"

primrec store_list :: "(u64 \<Rightarrow> u8 \<Rightarrow> 'm \<Rightarrow> 'm option) \<Rightarrow> u64 \<Rightarrow> u8 list \<Rightarrow> 'm \<Rightarrow> 'm option" where
  "store_list store a [] m = Some m"
| "store_list store a (b # bs) m = Option.bind (store a b m) (store_list store (a + 1) bs)"

lemma put_Nil [simp]: "put f a [] = f"
  by (auto simp: put_def fun_eq_iff)

lemma put_Cons:
  assumes "unat a + length (b # bs) < 2 ^ 64"
  shows "put f a (b # bs) = put (f(a \<mapsto> b)) (a + 1) bs"
proof
  fix c
  have a1: "unat (a + 1) = unat a + 1" using assms by (simp add: unat_word_ariths)
  show "put f a (b # bs) c = put (f(a \<mapsto> b)) (a + 1) bs c"
  proof (cases "unat c = unat a")
    case True
    then have "c = a" by (simp add: word_unat_eq_iff)
    then show ?thesis by (simp add: put_def a1)
  next
    case False
    then have "c \<noteq> a" by auto
    have i: "unat a + 1 \<le> unat c \<Longrightarrow> unat c - unat a = Suc (unat c - (unat a + 1))" by simp
    show ?thesis
    proof (cases "unat a + 1 \<le> unat c \<and> unat c < unat a + 1 + length bs")
      case True
      then show ?thesis using i by (simp add: put_def a1)
    next
      case no: False
      then have "\<not> (unat a \<le> unat c \<and> unat c < unat a + length (b # bs))" using False by auto
      then show ?thesis using no \<open>c \<noteq> a\<close> unfolding put_def a1 by auto
    qed
  qed
qed

locale byte_store =
  fixes store :: "u64 \<Rightarrow> u8 \<Rightarrow> 'm \<Rightarrow> 'm option"
    and load :: "'m \<Rightarrow> u64 \<Rightarrow> u8 option"
    and ok :: "'m \<Rightarrow> bool"
  assumes store_law: "ok m \<Longrightarrow> load m a \<noteq> None \<Longrightarrow>
    \<exists>m'. store a b m = Some m' \<and> ok m' \<and> load m' = (load m)(a \<mapsto> b)"
begin

lemma store_list_law:
  assumes "ok m" and "unat a + length bs < 2 ^ 64"
    and "\<And>c. unat a \<le> unat c \<Longrightarrow> unat c < unat a + length bs \<Longrightarrow> load m c \<noteq> None"
  shows "\<exists>m'. store_list store a bs m = Some m' \<and> ok m' \<and> load m' = put (load m) a bs"
  using assms
proof (induction bs arbitrary: a m)
  case (Cons b bs)
  have "load m a \<noteq> None" using Cons.prems(3) [of a] by simp
  then obtain m1 where m1: "store a b m = Some m1" "ok m1" "load m1 = (load m)(a \<mapsto> b)"
    using store_law Cons.prems(1) by blast
  have a1: "unat (a + 1) = unat a + 1" using Cons.prems(2) by (simp add: unat_word_ariths)
  have "load m1 c \<noteq> None" if "unat (a + 1) \<le> unat c" "unat c < unat (a + 1) + length bs" for c
    using Cons.prems(3) [of c] that by (simp add: m1(3) a1)
  then obtain m2 where "store_list store (a + 1) bs m1 = Some m2" "ok m2" "load m2 = put (load m1) (a + 1) bs"
    using Cons.IH [OF m1(2), of "a + 1"] Cons.prems(2) by (auto simp: a1)
  then show ?case using m1 put_Cons [OF Cons.prems(2)] by simp
qed simp

end

section \<open>The active address space\<close>

lemma resolve_switch [simp]: "resolve p t (switch_address_space r m) = resolve p t m"
  by (induction p arbitrary: t) (simp_all add: Let_def)

lemma forest_switch: "forest R m \<Longrightarrow> forest R (switch_address_space r m)"
  by (simp add: forest_def) (simp add: switch_address_space_def)

lemma user_byte_switch [simp]: "user_byte r a (switch_address_space r' m) = user_byte r a m"
  by (simp add: user_byte_def) (simp add: switch_address_space_def)

definition user_load :: "memory \<Rightarrow> u64 \<Rightarrow> u8 option" where
  "user_load m a = (if user_range a then user_byte (cr3 m) a m else None)"

text \<open>
  The root \<open>r\<close> is active in a forest of spaces, and the other spaces read as in a fixed memory.
\<close>

definition user_memory_ok :: "u64 set \<Rightarrow> u64 \<Rightarrow> memory \<Rightarrow> memory \<Rightarrow> bool" where
  "user_memory_ok R r m0 m \<longleftrightarrow> forest R m \<and> r \<in> R \<and> cr3 m = r \<and>
     (\<forall>r' \<in> R. r' \<noteq> r \<longrightarrow> (\<forall>a. user_range a \<longrightarrow> user_byte r' a m = user_byte r' a m0))"

lemma write_byte_effect:
  assumes fo: "forest R m" and r: "r \<in> R" and c: "cr3 m = r" and a: "user_range a"
    and b: "user_byte r a m \<noteq> None"
  shows "\<exists>m'. write_user_byte a b' m = Some m' \<and> forest R m' \<and> cr3 m' = r \<and>
    (\<forall>r' \<in> R. \<forall>x. user_range x \<longrightarrow>
       user_byte r' x m' = (if r' = r \<and> x = a then Some b' else user_byte r' x m))"
proof -
  obtain f where f: "resolve (table_indices a) r m = Some f" using b by (auto simp: user_byte_def)
  define m' where "m' = write_physical_frame (f + of_nat (unat a mod 4096)) [b'] m"
  have off: "unat a mod 4096 + length [b'] \<le> 4096"
  proof -
    have "unat a mod 4096 < 4096" by simp
    then show ?thesis by simp
  qed
  note W = fill_page [OF fo r page_path_indices [OF a] f off m'_def]
  have "active_address_space m = r" using root_mask [OF fo r] c by (simp add: active_address_space_def)
  then have w: "write_user_byte a b' m = Some m'" using f by (simp add: write_user_byte_def m'_def)
  have "user_byte r' x m' = (if r' = r \<and> x = a then Some b' else user_byte r' x m)"
    if r': "r' \<in> R" and x: "user_range x" for r' x
  proof -
    note q = page_path_indices [OF x]
    have res: "resolve (table_indices x) r' m' = resolve (table_indices x) r' m"
      unfolding resolve_leaf [OF q] W(3) [OF r' q] ..
    show ?thesis
    proof (cases "resolve (table_indices x) r' m")
      case None
      then have "\<not> (r' = r \<and> x = a)" using f by auto
      then show ?thesis using None by (simp add: user_byte_def res)
    next
      case (Some f')
      show ?thesis
      proof (cases "r' = r \<and> table_indices x = table_indices a")
        case True
        then have f': "f' = f" using Some f by simp
        moreover have "resolve (table_indices x) r' m' = Some f" using res Some f' by simp
        moreover have "x = a \<longleftrightarrow> unat x mod 4096 = unat a mod 4096"
        proof -
          have "unat x div 4096 = unat a div 4096" using True table_indices_inject [OF x a] by simp
          then show ?thesis by (metis div_mult_mod_eq unsigned_word_eqI word_unat_eq_iff)
        qed
        ultimately show ?thesis using True Some W(2) [of "unat x mod 4096"] by (auto simp: user_byte_def)
      next
        case False
        have "f' \<noteq> f"
          using forestD(3) [OF fo r' r _ _ Some] f False q page_path_indices [OF a]
          by (auto simp: page_path_def)
        then have "same_frame f' m m'" using W(4) page_frame_inert [OF fo r' q Some] by blast
        then have "phys m' (unat f' + unat x mod 4096) = phys m (unat f' + unat x mod 4096)"
          by (rule same_frame_bytes) simp
        then show ?thesis using Some False by (auto simp: user_byte_def res)
      qed
    qed
  qed
  moreover have "cr3 m' = r" using c by (simp add: m'_def)
  ultimately show ?thesis using w W(1) by blast
qed

lemma user_store_law:
  assumes ok: "user_memory_ok R r m0 m" and a: "user_load m a \<noteq> None"
  shows "\<exists>m'. write_user_byte a b m = Some m' \<and> user_memory_ok R r m0 m' \<and>
    user_load m' = (user_load m)(a \<mapsto> b)"
proof -
  have m: "forest R m" "r \<in> R" "cr3 m = r" using ok by (simp_all add: user_memory_ok_def)
  have ra: "user_range a" "user_byte r a m \<noteq> None" using a m by (auto simp: user_load_def split: if_splits)
  obtain m' where m': "write_user_byte a b m = Some m'" "forest R m'" "cr3 m' = r"
    and ub: "\<And>r' x. r' \<in> R \<Longrightarrow> user_range x \<Longrightarrow>
      user_byte r' x m' = (if r' = r \<and> x = a then Some b else user_byte r' x m)"
    using write_byte_effect [OF m ra, of b] by blast
  have "user_load m' = (user_load m)(a \<mapsto> b)"
    using ub [OF m(2)] ra m(3) m'(3) by (auto simp: user_load_def fun_eq_iff)
  moreover have "user_memory_ok R r m0 m'" using ok m' ub by (simp add: user_memory_ok_def)
  ultimately show ?thesis using m'(1) by blast
qed

interpretation um: byte_store write_user_byte user_load "user_memory_ok R r m0" for R r m0
  by unfold_locales (rule user_store_law)

lemma write_user_bytes_list: "write_user_bytes a bs m = store_list write_user_byte a bs m"
  by (induction bs arbitrary: a m) (auto intro: Option.bind_cong)

end
