(* ===== verification/Heap.thy ===== *)
theory Heap
  imports UserMemory Files
begin

text \<open>
  The heap of a process: \<open>brk\<close> maps cleared pages behind the break, keeps everything below the
  break mapped, and never touches what is already there; growing again after a shrink can fail.
\<close>

section \<open>The mapping loop\<close>

lemma walk_create_cr3: "walk_create flags is t m = (res, m') \<Longrightarrow> cr3 m' = cr3 m"
proof (induction "is" arbitrary: t m)
  case (Cons i "is")
  have "allocate_physical_frame m = (x, m1) \<Longrightarrow> cr3 m1 = cr3 m" for x m1
    by (auto simp: allocate_physical_frame_def split: prod.splits)
  then show ?case using Cons by (fastforce simp: Let_def split: if_splits prod.splits option.splits)
qed simp

lemma map_user_page_cr3: "map_user_page_in r va f flags m = (res, m') \<Longrightarrow> cr3 m' = cr3 m"
  by (auto simp: map_user_page_in_def map_page_in_def Let_def walk_create_cr3
      split: if_splits prod.splits sum.splits)

lemma map_active: "map_user_page_with_flags va f flags m = map_user_page_in (cr3 m) va f flags m"
  by (simp add: map_user_page_with_flags_def map_user_page_in_def map_page_def)

lemma heap_as_load:
  assumes "cr3 m = r"
  shows "load_pages [] r UserReadWrite 0 0 0 ps m =
     (case map_heap_pages ps m of
        (Inl e, m') \<Rightarrow> (Inl (PagingFailed e), m') | (Inr _, m') \<Rightarrow> (Inr (), m'))"
  using assms
proof (induction ps arbitrary: m)
  case (Cons p ps)
  obtain x m1 where al: "allocate_physical_frame m = (x, m1)" by fastforce
  then have c1: "cr3 m1 = r"
    using Cons.prems by (auto simp: allocate_physical_frame_def split: prod.splits)
  show ?case
  proof (cases x)
    case None
    then show ?thesis using al by (simp add: map_heap_pages_def load_page_def)
  next
    case (Some f)
    let ?z = "zero_physical_frame f m1"
    have cz: "cr3 ?z = r" using c1 by (simp add: zero_physical_frame_def)
    obtain y m2 where mp: "map_user_page_in r p f UserReadWrite ?z = (y, m2)" by fastforce
    have "cr3 m2 = r" using map_user_page_cr3 [OF mp] cz by simp
    then show ?thesis
      using Cons.IH [of m2] al Some mp cz
      by (cases y) (simp_all add: map_heap_pages_def load_page_def Let_def map_active)
  qed
qed (simp add: map_heap_pages_def)

lemma heap_pages_cover:
  fixes a :: u64
  assumes e: "unat e mod 4096 = 0" and t: "unat t mod 4096 = 0" and a: "unat e \<le> unat a" "unat a < unat t"
  shows "\<exists>p \<in> set (heap_pages e t). unat p div 4096 = unat a div 4096"
proof -
  define i where "i = unat a div 4096 - unat e div 4096"
  have le: "unat e div 4096 \<le> unat a div 4096" using a(1) by (rule div_le_mono)
  have lt: "unat a div 4096 < unat t div 4096"
  proof (rule ccontr)
    assume "\<not> unat a div 4096 < unat t div 4096"
    then have "unat t div 4096 * 4096 \<le> unat a div 4096 * 4096" by (intro mult_le_mono1) simp
    then show False using a(2) page_aligned [OF t] page_floor(1) [of "unat a"] by linarith
  qed
  have ei: "unat e + i * 4096 = unat a div 4096 * 4096"
  proof -
    have "unat e div 4096 * 4096 \<le> unat a div 4096 * 4096" using le by (rule mult_le_mono1)
    then show ?thesis unfolding i_def diff_mult_distrib page_aligned [OF e] by simp
  qed
  have bound: "unat e + i * 4096 < 2 ^ 64"
    using ei page_floor(1) [of "unat a"] unat_u64_lt [of a] by simp
  have i64: "unat (of_nat i * PAGE_SIZE :: u64) = i * 4096"
    using bound by (simp add: PAGE_SIZE_def unat_word_ariths unat_of_nat take_bit_nat_eq_self)
  then have p: "unat (e + of_nat i * PAGE_SIZE) = unat a div 4096 * 4096"
    using bound ei by (simp add: unat_word_ariths)
  have "Suc i * 4096 \<le> unat t - unat e"
  proof -
    have "Suc (unat a div 4096) * 4096 \<le> unat t div 4096 * 4096" using lt by (intro mult_le_mono1) simp
    then show ?thesis using ei page_aligned [OF t] by simp
  qed
  then have "Suc i \<le> (unat t - unat e + 4095) div 4096" by (simp add: less_eq_div_iff_mult_less_eq)
  then have "e + of_nat i * PAGE_SIZE \<in> set (heap_pages e t)"
    unfolding heap_pages_def set_map set_upt by (intro imageI) simp
  moreover have "unat (e + of_nat i * PAGE_SIZE) div 4096 = unat a div 4096" using p by simp
  ultimately show ?thesis by blast
qed

lemma heap_pages_aligned:
  assumes "unat e mod 4096 = 0" and "p \<in> set (heap_pages e t)"
  shows "unat p mod 4096 = 0"
proof -
  obtain i where p: "p = e + of_nat i * PAGE_SIZE" using assms(2) by (auto simp: heap_pages_def)
  have "unat (of_nat i * PAGE_SIZE :: u64) mod 4096 = 0"
    by (simp add: unat_word_ariths PAGE_SIZE_def mod_mod_cancel)
  then have "(unat e + unat (of_nat i * PAGE_SIZE :: u64)) mod 4096 = 0"
    using assms(1) by (simp add: mod_add_eq [symmetric])
  then show ?thesis unfolding p by (simp add: unat_word_ariths(1) mod_mod_cancel)
qed

section \<open>The invariant\<close>

type_synonym heap_state = "u64 \<times> u64 \<times> memory"

definition heap_inv :: "u64 set \<Rightarrow> u64 \<Rightarrow> heap_state \<Rightarrow> bool" where
  "heap_inv R r = (\<lambda>(b, e, m). forest R m \<and> r \<in> R \<and> cr3 m = r \<and>
     USER_HEAP_BASE \<le> b \<and> b \<le> e \<and> e \<le> USER_HEAP_LIMIT \<and> unat e mod 4096 = 0 \<and>
     (\<forall>a. USER_HEAP_BASE \<le> a \<longrightarrow> a < e \<longrightarrow> mapped_as r a UserReadWrite m))"

lemma rounded_up:
  assumes "checked_add x (PAGE_SIZE - 1) = Some v" and "x \<le> USER_HEAP_LIMIT"
  shows "x \<le> v AND NOT (PAGE_SIZE - 1)" "unat (v AND NOT (PAGE_SIZE - 1)) mod 4096 = 0"
    "v AND NOT (PAGE_SIZE - 1) \<le> USER_HEAP_LIMIT"
proof -
  have v: "unat v = unat x + 4095" using checked_add_u64 [OF assms(1)] by (simp add: PAGE_SIZE_def)
  have r: "unat (v AND NOT (PAGE_SIZE - 1)) = unat v div 4096 * 4096"
    using unat_page_base [of v] by (simp add: page_base_def)
  show "x \<le> v AND NOT (PAGE_SIZE - 1)"
    using page_floor(2) [of "unat v"] v r by (simp add: word_le_nat_alt)
  show "unat (v AND NOT (PAGE_SIZE - 1)) mod 4096 = 0" by (simp add: r)
  have "unat v div 4096 \<le> (unat USER_HEAP_LIMIT + 4095) div 4096"
    using assms(2) v by (intro div_le_mono) (simp add: word_le_nat_alt)
  also have "\<dots> = unat USER_HEAP_LIMIT div 4096" by (simp add: USER_HEAP_LIMIT_def)
  finally have "unat v div 4096 * 4096 \<le> unat USER_HEAP_LIMIT div 4096 * 4096" by (rule mult_le_mono1)
  then show "v AND NOT (PAGE_SIZE - 1) \<le> USER_HEAP_LIMIT" unfolding word_le_nat_alt r by (simp add: USER_HEAP_LIMIT_def)
qed

text \<open>One successful or refused growth.\<close>

lemma map_heap_effect:
  assumes inv: "heap_inv R r (b, e, m)" and t: "unat t mod 4096 = 0"
    and mp: "map_heap_pages (heap_pages e t) m = (res, m')"
  shows "forest R m'" and "kept R m m'" and "cr3 m' = r"
    and "res = Inr () \<Longrightarrow> e \<le> a \<Longrightarrow> a < t \<Longrightarrow> mapped_as r a UserReadWrite m' \<and> user_byte r a m' = Some 0"
proof -
  have fo: "forest R m" and r: "r \<in> R" and c: "cr3 m = r" and al: "unat e mod 4096 = 0"
    using inv by (simp_all add: heap_inv_def)
  obtain x where lp: "load_pages [] r UserReadWrite 0 0 0 (heap_pages e t) m = (x, m')"
    and x: "res = Inr () \<Longrightarrow> x = Inr ()"
    using mp heap_as_load [OF c, of "heap_pages e t"] by (cases res) auto
  show "forest R m'" "kept R m m'" using load_pages_safe [OF fo r user_flags_rw lp] by blast+
  have "map_heap_pages ps m = (res, m') \<Longrightarrow> cr3 m' = cr3 m" for ps m
  proof (induction ps arbitrary: m)
    case (Cons p ps)
    obtain x m1 where al: "allocate_physical_frame m = (x, m1)" by fastforce
    then have c1: "cr3 m1 = cr3 m" by (auto simp: allocate_physical_frame_def split: prod.splits)
    show ?case
    proof (cases x)
      case None
      then show ?thesis using Cons.prems al c1 by (simp add: map_heap_pages_def)
    next
      case (Some f)
      obtain y m2 where mp: "map_user_page_in (cr3 m) p f UserReadWrite (zero_physical_frame f m1) = (y, m2)"
        by fastforce
      have c2: "cr3 m2 = cr3 m" using map_user_page_cr3 [OF mp] c1 by (simp add: zero_physical_frame_def)
      then show ?thesis
        using Cons al Some mp c1
        by (cases y) (auto simp: map_heap_pages_def map_active zero_physical_frame_def)
    qed
  qed (simp add: map_heap_pages_def)
  from this [OF mp] show "cr3 m' = r" using c by simp
  assume "res = Inr ()" "e \<le> a" "a < t"
  then have cov: "\<exists>p \<in> set (heap_pages e t). unat p div 4096 = unat a div 4096"
    by (intro heap_pages_cover [OF al t]) (simp_all add: word_le_nat_alt word_less_nat_alt)
  have "mapped_as r a UserReadWrite m' \<and> user_byte r a m' = Some (file_byte [] 0 0 0 a)"
    using lp x [OF \<open>res = Inr ()\<close>] cov heap_pages_aligned [OF al]
    by (intro load_pages_effect [OF fo r user_flags_rw]) auto
  then show "mapped_as r a UserReadWrite m' \<and> user_byte r a m' = Some 0" by (simp add: file_byte_def)
qed

lemma heap_brk_grow:
  assumes "req \<noteq> 0" and "\<not> req < USER_HEAP_BASE" and "\<not> USER_HEAP_LIMIT < req" and "\<not> req \<le> b"
    and "checked_add req (PAGE_SIZE - 1) = Some v"
  shows "heap_brk req (b, e, m) = (case map_heap_pages (heap_pages e (v AND NOT (PAGE_SIZE - 1))) m of
     (Inl _, m) \<Rightarrow> (u64_max, b, e, m) | (Inr _, m) \<Rightarrow> (req, req, v AND NOT (PAGE_SIZE - 1), m))"
  unfolding heap_brk_def prod.case if_not_P [OF assms(1)] if_not_P [OF assms(4)] assms(5) option.case Let_def
  using assms(2,3) by simp

lemma heap_brk_inv:
  assumes inv: "heap_inv R r (b, e, m)" and k: "heap_brk req (b, e, m) = (ans, b', e', m')"
  shows "heap_inv R r (b', e', m')" and "kept R m m'"
proof -
  have "heap_inv R r (b', e', m') \<and> kept R m m'"
  proof (cases "req = 0 \<or> req < USER_HEAP_BASE \<or> USER_HEAP_LIMIT < req \<or> req \<le> b")
    case True
    then show ?thesis
      using inv k by (auto simp: heap_brk_def heap_inv_def not_less split: if_splits)
  next
    case False
    show ?thesis
    proof (cases "checked_add req (PAGE_SIZE - 1)")
      case None
      then show ?thesis using inv k False by (auto simp: heap_brk_def)
    next
      case (Some v)
      let ?t = "v AND NOT (PAGE_SIZE - 1)"
      have lim: "req \<le> USER_HEAP_LIMIT" using False by (simp add: not_less)
      note up = rounded_up [OF Some lim]
      obtain res m1 where mp: "map_heap_pages (heap_pages e ?t) m = (res, m1)" by fastforce
      note E = map_heap_effect [OF inv up(2) mp]
      have k': "(ans, b', e', m') = (case res of Inl _ \<Rightarrow> (u64_max, b, e, m1) | Inr _ \<Rightarrow> (req, req, ?t, m1))"
        using k heap_brk_grow [OF _ _ _ _ Some, of b e m] False mp by (simp split: sum.splits)
      have low: "mapped_as r a UserReadWrite m1" if "USER_HEAP_BASE \<le> a" "a < e" for a
        using kept_mapped_as [OF E(2)] that inv by (simp add: heap_inv_def)
      have high: "mapped_as r a UserReadWrite m1" if "USER_HEAP_BASE \<le> a" "a < ?t" "res = Inr ()" for a
        using low [OF that(1)] E(4) [OF that(3) _ that(2)] by (cases "a < e") (simp_all add: not_less)
      show ?thesis
      proof (cases res)
        case (Inl err)
        then show ?thesis using k' E(1-3) inv low by (simp add: heap_inv_def)
      next
        case (Inr u)
        then have "b' = req" "e' = ?t" "m' = m1" "res = Inr ()" using k' by simp_all
        moreover have "USER_HEAP_BASE \<le> req" using False by (simp add: not_less)
        ultimately show ?thesis using E(1-3) inv high up lim by (simp add: heap_inv_def)
      qed
    qed
  qed
  then show "heap_inv R r (b', e', m')" "kept R m m'" by blast+
qed

section \<open>brk on the system\<close>

text \<open>The heap of the calling process and its memory.\<close>

definition heap_view :: "system \<Rightarrow> heap_state" where
  "heap_view s = (heap_break (user_state s), heap_mapped_end (user_state s), kmem (sys_kernel s))"

lemma slot_with_memory [simp]:
  "current_state_slot (s\<lparr>sys_kernel := (sys_kernel s)\<lparr>kmem := m\<rparr>\<rparr>) = current_state_slot s"
  by (simp add: current_state_slot_def current_process_def current_id_def process_id_def thread_at_def)

lemma brk_view:
  assumes "user_wf s"
  shows "heap_brk req (heap_view s) = (fst (brk req s), heap_view (snd (brk req s)))"
    and "user_wf (snd (brk req s))"
proof -
  obtain ans b e m where h: "heap_brk req (heap_view s) = (ans, b, e, m)" by (metis prod_cases4)
  let ?s = "s\<lparr>sys_kernel := (sys_kernel s)\<lparr>kmem := m\<rparr>\<rparr>"
  let ?f = "\<lambda>u. u\<lparr>heap_break := b, heap_mapped_end := e\<rparr>"
  have eq: "brk req s = (ans, update_user_state ?f ?s)"
    using h by (simp add: brk_def heap_view_def on_system_memory_def Let_def)
  have wf: "user_wf ?s" "user_state ?s = user_state s"
    using assms by (simp_all add: user_wf_def user_state_def)
  have "state_wf (?f (process_state (sys_user ?s) ! current_state_slot ?s))"
    using user_state_wf [OF wf(1)] by (simp add: state_wf_def user_state_def)
  note U = update_state_sim [where f = ?f, OF wf(1) current_slot_lt this]
  have len: "length (process_state (sys_user s)) = 8" using assms by (simp add: user_wf_def)
  have slot: "current_state_slot (update_state (current_state_slot s) ?f ?s) = current_state_slot s"
    by (simp add: current_state_slot_def current_process_def current_id_def process_id_def thread_at_def)
  have "heap_view (update_user_state ?f ?s) = (b, e, m)"
    using len current_slot_lt [of s]
    by (simp add: heap_view_def update_user_state_def user_state_def slot) (simp add: update_state_def)
  then show "heap_brk req (heap_view s) = (fst (brk req s), heap_view (snd (brk req s)))"
    using h eq by simp
  show "user_wf (snd (brk req s))" using U(1) eq by (simp add: update_user_state_def)
qed

definition brk_calls :: "u64 list \<Rightarrow> system \<Rightarrow> system" where
  "brk_calls requests s = fold (\<lambda>req s. snd (brk req s)) requests s"

lemma brk_calls_inv:
  assumes "user_wf s" and "heap_inv R r (heap_view s)"
  shows "user_wf (brk_calls requests s) \<and> heap_inv R r (heap_view (brk_calls requests s))"
  using assms
proof (induction requests arbitrary: s)
  case (Cons req requests)
  note V = brk_view [OF Cons.prems(1), of req]
  obtain b e m where v: "heap_view s = (b, e, m)" by (metis prod_cases3)
  obtain b' e' m' where v': "heap_view (snd (brk req s)) = (b', e', m')" by (metis prod_cases3)
  have "heap_inv R r (heap_view (snd (brk req s)))"
    using heap_brk_inv(1) [of R r b e m req "fst (brk req s)" b' e' m'] Cons.prems(2) V(1) v v' by simp
  then show ?case using Cons.IH [OF V(2)] by (simp add: brk_calls_def)
qed (simp add: brk_calls_def)

text \<open>
  A process whose heap has just been reset, in any live address space, after any file system
  calls.
\<close>

definition heap_start :: "space_op list \<Rightarrow> memory_region list \<Rightarrow> memory_range list \<Rightarrow> memory \<Rightarrow> u64 \<Rightarrow>
    file_event list \<Rightarrow> (u8 list \<times> u8 list) list \<Rightarrow> kernel \<Rightarrow> u64 \<Rightarrow> kernel \<Rightarrow> system" where
  "heap_start ops regions ranges m r es files k entry k' =
     update_user_state (reset_state entry) ((snd (user_run es (system_boot files k)))\<lparr>sys_kernel :=
       k'\<lparr>kmem := switch_address_space r (snd (space_run ops (boot_memory regions ranges m)))\<rparr>\<rparr>)"

lemma switch_active: "cr3 m = r \<Longrightarrow> switch_address_space r m = m"
  by (simp add: switch_address_space_def)

lemma heap_start_inv:
  assumes run: "space_run ops (boot_memory regions ranges m) = (S, m1)" and r: "live S r \<noteq> None"
  shows "user_wf (heap_start ops regions ranges m r es files k entry k')"
    and "heap_inv (dom (live S)) r (heap_view (heap_start ops regions ranges m r es files k entry k'))"
proof -
  obtain answers s where u: "user_run es (system_boot files k) = (answers, s)" by (meson surj_pair)
  let ?m = "switch_address_space r m1"
  let ?s = "s\<lparr>sys_kernel := k'\<lparr>kmem := ?m\<rparr>\<rparr>"
  have wf: "user_wf ?s" using run_invariants [OF u] by (simp add: user_wf_def)
  have eq: "heap_start ops regions ranges m r es files k entry k' = update_user_state (reset_state entry) ?s"
    by (simp add: heap_start_def u run)
  note R = reset_state_sim [OF user_state_wf [OF wf], of entry, unfolded user_state_def]
  note U = update_state_sim [where f = "reset_state entry", OF wf current_slot_lt R(1)]
  show "user_wf (heap_start ops regions ranges m r es files k entry k')"
    unfolding eq update_user_state_def by (rule U(1))
  have len: "length (process_state (sys_user ?s)) = 8" using wf by (simp add: user_wf_def)
  have slot: "current_state_slot (update_state (current_state_slot ?s) (reset_state entry) ?s) = current_state_slot ?s"
    by (simp add: current_state_slot_def)
  have view: "heap_view (update_user_state (reset_state entry) ?s) = (USER_HEAP_BASE, USER_HEAP_BASE, ?m)"
    using len current_slot_lt [of ?s]
    by (simp add: heap_view_def update_user_state_def user_state_def slot)
      (simp add: update_state_def reset_state_def)
  have "forest (dom (live S)) ?m" using spaces_invD(1) [OF boot_run_inv [OF run]] by (rule forest_switch)
  then show "heap_inv (dom (live S)) r (heap_view (heap_start ops regions ranges m r es files k entry k'))"
    using r unfolding eq view
    by (auto simp: heap_inv_def domIff USER_HEAP_BASE_def USER_HEAP_LIMIT_def)
qed

lemma limit_below_max: "x \<le> USER_HEAP_LIMIT \<Longrightarrow> x \<noteq> u64_max"
proof -
  have "\<not> u64_max \<le> USER_HEAP_LIMIT" by code_simp
  then show "x \<le> USER_HEAP_LIMIT \<Longrightarrow> x \<noteq> u64_max" by blast
qed

section \<open>Properties\<close>

text \<open>
  C29: whatever breaks a process asks for, granted or refused, in whatever order, every address
  between the heap base and its current break is mapped readable and writable for user code, and
  the break stays below the limit.
\<close>

theorem brk_keeps_heap_mapped:
  "(case space_run ops (boot_memory regions ranges m) of (S, _) \<Rightarrow>
     (case heap_view (brk_calls requests (heap_start ops regions ranges m r es files k entry k')) of (b, e, m') \<Rightarrow>
        if live S r = None then True
        else b \<le> USER_HEAP_LIMIT \<and> {a. USER_HEAP_BASE \<le> a \<and> a < b} \<subseteq>
          {a. mapped_as r a UserReadWrite m' \<and> is_user_mapped a m'}))"
proof -
  obtain S m1 where run: "space_run ops (boot_memory regions ranges m) = (S, m1)" by fastforce
  let ?s = "brk_calls requests (heap_start ops regions ranges m r es files k entry k')"
  obtain b e m' where v: "heap_view ?s = (b, e, m')" by (metis prod_cases3)
  show ?thesis
  proof (cases "live S r = None")
    case False
    note H = heap_start_inv [OF run False, of es files k entry k']
    have inv: "heap_inv (dom (live S)) r (b, e, m')" using brk_calls_inv [OF H, of requests] v by simp
    then have fo: "forest (dom (live S)) m'" and r: "r \<in> dom (live S)" and c: "cr3 m' = r"
      and lim: "b \<le> e" "e \<le> USER_HEAP_LIMIT" by (simp_all add: heap_inv_def)
    have "mapped_as r a UserReadWrite m' \<and> is_user_mapped a m'" if "USER_HEAP_BASE \<le> a" "a < b" for a
    proof -
      have "a < e" using that(2) lim(1) by (rule less_le_trans)
      then have ma: "mapped_as r a UserReadWrite m'" using inv that(1) by (simp add: heap_inv_def)
      show ?thesis using ma mapped_as_access(1) [OF fo r user_flags_rw ma] by (simp add: switch_active [OF c])
    qed
    moreover have "b \<le> USER_HEAP_LIMIT" using lim by (rule order_trans)
    ultimately show ?thesis by (auto simp: run v)
  qed (simp add: run v)
qed

text \<open>
  C30: a request of zero answers the current break; one outside the heap's range is refused; one
  up to the break is granted; a larger one is granted or refused as a whole.  Granted memory
  above the mapped end reads as zero, and no byte user code could already reach, in this or any
  other live space, changes either way.
\<close>

theorem brk_answers:
  "(case space_run ops (boot_memory regions ranges m) of (S, _) \<Rightarrow>
     let s = brk_calls requests (heap_start ops regions ranges m r es files k entry k');
         (answer, s') = brk req s; (b, e, m1) = heap_view s; (b', e', m2) = heap_view s'
     in if live S r = None then True
        else answer = (if req = 0 then b
                       else if req < USER_HEAP_BASE \<or> USER_HEAP_LIMIT < req then u64_max
                       else if req \<le> b \<or> b' = req then req else u64_max) \<and>
          b' = (if req = 0 \<or> answer = u64_max then b else req) \<and>
          (if b' = req then {a. e \<le> a \<and> a < req} \<subseteq> {a. user_byte r a m2 = Some 0} else True) \<and>
          {(r', a). live S r' \<noteq> None \<and> user_range a \<and> user_byte r' a m1 \<noteq> None \<and>
             user_byte r' a m2 \<noteq> user_byte r' a m1} = {})"
proof -
  obtain S mm where run: "space_run ops (boot_memory regions ranges m) = (S, mm)" by fastforce
  let ?s = "brk_calls requests (heap_start ops regions ranges m r es files k entry k')"
  obtain answer s' where k: "brk req ?s = (answer, s')" by fastforce
  obtain b e m1 where v: "heap_view ?s = (b, e, m1)" by (metis prod_cases3)
  obtain b' e' m2 where v': "heap_view s' = (b', e', m2)" by (metis prod_cases3)
  show ?thesis
  proof (cases "live S r = None")
    case False
    note H = brk_calls_inv [OF heap_start_inv [OF run False, of es files k entry k'], of requests]
    have inv: "heap_inv (dom (live S)) r (b, e, m1)" using H v by simp
    have hb: "heap_brk req (b, e, m1) = (answer, b', e', m2)" using brk_view(1) [of ?s req] H k v v' by simp
    have lim: "b \<le> e" "b \<le> USER_HEAP_LIMIT" using inv by (auto simp: heap_inv_def)
    have max: "b \<noteq> u64_max" using lim(2) by (rule limit_below_max)
    note kp = heap_brk_inv(2) [OF inv hb]
    have same: "{(r', a). live S r' \<noteq> None \<and> user_range a \<and> user_byte r' a m1 \<noteq> None \<and>
        user_byte r' a m2 \<noteq> user_byte r' a m1} = {}"
      using kept_byte [OF kp] by (auto simp: domIff) (metis domI option.exhaust)
    have "answer = (if req = 0 then b else if req < USER_HEAP_BASE \<or> USER_HEAP_LIMIT < req then u64_max
             else if req \<le> b \<or> b' = req then req else u64_max) \<and>
          b' = (if req = 0 \<or> answer = u64_max then b else req) \<and>
          (if b' = req then {a. e \<le> a \<and> a < req} \<subseteq> {a. user_byte r a m2 = Some 0} else True)"
    proof (cases "req = 0 \<or> req < USER_HEAP_BASE \<or> USER_HEAP_LIMIT < req \<or> req \<le> b")
      case True
      have none: "{a. e \<le> a \<and> a < req} = {}" if "req \<le> b"
        using that lim(1) by auto
      have umax: "u64_max \<noteq> req" if "\<not> USER_HEAP_LIMIT < req"
        using limit_below_max [of req] that by (auto simp: not_less)
      show ?thesis using True hb none umax lim(2) by (auto simp: heap_brk_def split: if_splits)
    next
      case no: False
      show ?thesis
      proof (cases "checked_add req (PAGE_SIZE - 1)")
        case None
        then show ?thesis using hb no by (auto simp: heap_brk_def)
      next
        case (Some w)
        have lr: "req \<le> USER_HEAP_LIMIT" using no by (simp add: not_less)
        note up = rounded_up [OF Some lr]
        let ?t = "w AND NOT (PAGE_SIZE - 1)"
        obtain res m3 where mp: "map_heap_pages (heap_pages e ?t) m1 = (res, m3)" by fastforce
        have g: "(answer, b', e', m2) = (case res of Inl _ \<Rightarrow> (u64_max, b, e, m3) | Inr _ \<Rightarrow> (req, req, ?t, m3))"
          using hb heap_brk_grow [OF _ _ _ _ Some, of b e m1] no mp by (simp split: sum.splits)
        have rm: "req \<noteq> u64_max" using lr by (rule limit_below_max)
        have zero: "{a. e \<le> a \<and> a < req} \<subseteq> {a. user_byte r a m3 = Some 0}" if "res = Inr ()"
          using map_heap_effect(4) [OF inv up(2) mp that] up(1) by (auto dest: less_le_trans)
        show ?thesis
        proof (cases res)
          case (Inl err)
          then show ?thesis using g no by auto
        next
          case (Inr u)
          then show ?thesis using g no rm zero by auto
        qed
      qed
    qed
    then show ?thesis
      unfolding run prod.case Let_def k v v' if_not_P [OF False] using same by iprover
  qed (simp add: run k v v')
qed

text \<open>Mapping over a mapped page is refused.\<close>

lemma mapped_leaf:
  assumes "mapped_as r a flags m"
  shows "leaf_entry (table_indices a) r m AND PRESENT \<noteq> 0"
proof -
  have q: "page_path (table_indices a)" using assms by (simp add: mapped_as_def page_path_indices)
  have "resolve (table_indices a) r m \<noteq> None" using assms by (auto simp: mapped_as_def)
  then show ?thesis unfolding resolve_leaf [OF q] by (auto split: if_splits)
qed

lemma map_heap_refused:
  assumes inv: "heap_inv R r (b, e, m)" and ma: "mapped_as r p UserReadWrite m"
  shows "fst (map_heap_pages (p # ps) m) \<noteq> Inr ()"
proof -
  have fo: "forest R m" and r: "r \<in> R" and c: "cr3 m = r" using inv by (simp_all add: heap_inv_def)
  obtain x m1 where al: "allocate_physical_frame m = (x, m1)" by fastforce
  show ?thesis
  proof (cases x)
    case None
    then show ?thesis using al by (simp add: map_heap_pages_def)
  next
    case (Some f)
    define m2 where "m2 = zero_physical_frame f m1"
    note Z = zeroed_frame [OF fo al [unfolded Some] m2_def]
    have "cr3 m2 = r" using al c by (auto simp: m2_def zero_physical_frame_def allocate_physical_frame_def split: prod.splits)
    moreover obtain y m3 where mp: "map_user_page_in r p f UserReadWrite m2 = (y, m3)" by fastforce
    have "y \<noteq> Inr ()"
      using map_user_page_forest(4) [OF Z(1) r Z(3) user_flags_rw mp]
        mapped_leaf [OF kept_mapped_as [OF Z(2) r ma]] by auto
    ultimately show ?thesis
      using al Some mp by (cases y) (auto simp: map_heap_pages_def m2_def [symmetric] map_active)
  qed
qed

text \<open>
  C40: after a granted growth by two pages, a shrink to the base and a growth by one byte, the
  two pages can no longer be had: the second page is still mapped, but the mapped end has moved
  below it, so mapping it again fails.
\<close>

theorem brk_regrow_refused:
  "(case space_run ops (boot_memory regions ranges m) of (S, _) \<Rightarrow>
     let s = heap_start ops regions ranges m r es files k entry k'; two_pages = USER_HEAP_BASE + 2 * PAGE_SIZE;
         (granted, s1) = brk two_pages s; s2 = brk_calls [USER_HEAP_BASE] s1;
         (regrown, s3) = brk (USER_HEAP_BASE + 1) s2
     in if live S r \<noteq> None \<and> granted = two_pages \<and> regrown = USER_HEAP_BASE + 1
        then fst (brk two_pages s3) = u64_max else True)"
proof -
  obtain S mm where run: "space_run ops (boot_memory regions ranges m) = (S, mm)" by fastforce
  let ?s = "heap_start ops regions ranges m r es files k entry k'" and ?x = "USER_HEAP_BASE + 2 * PAGE_SIZE"
  obtain g s1 where k1: "brk ?x ?s = (g, s1)" by fastforce
  let ?s2 = "brk_calls [USER_HEAP_BASE] s1"
  obtain g3 s3 where k3: "brk (USER_HEAP_BASE + 1) ?s2 = (g3, s3)" by fastforce
  have "fst (brk ?x s3) = u64_max" if r: "live S r \<noteq> None" and g: "g = ?x" and g3: "g3 = USER_HEAP_BASE + 1"
  proof -
    let ?R = "dom (live S)"
    have H0: "user_wf ?s" "heap_inv ?R r (heap_view ?s)" using heap_start_inv [OF run r] by blast+
    have H1: "user_wf s1" "heap_inv ?R r (heap_view s1)"
      using brk_calls_inv [OF H0, of "[?x]"] k1 by (simp_all add: brk_calls_def)
    have H2: "user_wf ?s2" "heap_inv ?R r (heap_view ?s2)" using brk_calls_inv [OF H1] by blast+
    have H3: "user_wf s3" "heap_inv ?R r (heap_view s3)"
      using brk_calls_inv [OF H2, of "[USER_HEAP_BASE + 1]"] k3 by (simp_all add: brk_calls_def)
    obtain b1 e1 m1 where v1: "heap_view s1 = (b1, e1, m1)" by (metis prod_cases3)
    obtain b2 e2 m2 where v2: "heap_view ?s2 = (b2, e2, m2)" by (metis prod_cases3)
    obtain b3 e3 m3 where v3: "heap_view s3 = (b3, e3, m3)" by (metis prod_cases3)
    obtain b0 e0 m0 where v0: "heap_view ?s = (b0, e0, m0)" by (metis prod_cases3)
    have facts: "\<not> ?x = 0" "\<not> ?x < USER_HEAP_BASE" "\<not> USER_HEAP_LIMIT < ?x" "?x \<noteq> u64_max"
      "USER_HEAP_BASE \<noteq> 0" "\<not> USER_HEAP_LIMIT < USER_HEAP_BASE" "USER_HEAP_BASE + 1 \<noteq> 0"
      "\<not> USER_HEAP_BASE + 1 < USER_HEAP_BASE" "\<not> USER_HEAP_LIMIT < USER_HEAP_BASE + 1"
      "\<not> USER_HEAP_BASE + 1 \<le> USER_HEAP_BASE" "USER_HEAP_BASE + 1 \<noteq> u64_max" "\<not> ?x \<le> USER_HEAP_BASE + 1"
      "checked_add (USER_HEAP_BASE + 1) (PAGE_SIZE - 1) = Some (USER_HEAP_BASE + PAGE_SIZE)"
      "(USER_HEAP_BASE + PAGE_SIZE) AND NOT (PAGE_SIZE - 1) = USER_HEAP_BASE + PAGE_SIZE"
      "checked_add ?x (PAGE_SIZE - 1) = Some (?x + (PAGE_SIZE - 1))"
      "(?x + (PAGE_SIZE - 1)) AND NOT (PAGE_SIZE - 1) = ?x"
      "USER_HEAP_BASE \<le> USER_HEAP_BASE + PAGE_SIZE" "USER_HEAP_BASE + PAGE_SIZE < ?x"
      by (simp_all add: USER_HEAP_BASE_def USER_HEAP_LIMIT_def PAGE_SIZE_def u64_max_def checked_add_def)
    have b1: "b1 = ?x"
      using brk_view(1) [OF H0(1), of ?x] k1 v0 v1 g facts(1-4)
      by (auto simp: heap_brk_def Let_def split: if_splits option.splits sum.splits prod.splits)
    have "USER_HEAP_BASE \<le> b1" using H1(2) v1 by (simp add: heap_inv_def)
    then have "heap_brk USER_HEAP_BASE (b1, e1, m1) = (USER_HEAP_BASE, USER_HEAP_BASE, e1, m1)"
      unfolding heap_brk_def prod.case using facts(5,6) by simp
    then have v2': "b2 = USER_HEAP_BASE" "m2 = m1"
      using brk_view(1) [OF H1(1), of USER_HEAP_BASE] v1 v2 by (simp_all add: brk_calls_def)
    have grow: "heap_brk (USER_HEAP_BASE + 1) (b2, e2, m2) =
        (case map_heap_pages (heap_pages e2 (USER_HEAP_BASE + PAGE_SIZE)) m2 of
           (Inl _, m) \<Rightarrow> (u64_max, b2, e2, m) | (Inr _, m) \<Rightarrow> (USER_HEAP_BASE + 1, USER_HEAP_BASE + 1, USER_HEAP_BASE + PAGE_SIZE, m))"
      unfolding v2'(1) using heap_brk_grow [OF facts(7-10,13)] unfolding facts(14) .
    then have v3': "b3 = USER_HEAP_BASE + 1" "e3 = USER_HEAP_BASE + PAGE_SIZE"
      using brk_view(1) [OF H2(1), of "USER_HEAP_BASE + 1"] k3 v2 v3 g3 facts(11)
      by (auto split: sum.splits prod.splits)
    have inv1: "heap_inv ?R r (b1, e1, m1)" and inv2: "heap_inv ?R r (b2, e2, m2)" and inv3: "heap_inv ?R r (b3, e3, m3)"
      using H1 H2 H3 v1 v2 v3 by simp_all
    have "USER_HEAP_BASE + PAGE_SIZE < e1" using inv1 facts(18) unfolding b1 heap_inv_def by auto
    then have "mapped_as r (USER_HEAP_BASE + PAGE_SIZE) UserReadWrite m1"
      using inv1 facts(17) by (simp add: heap_inv_def)
    moreover have "kept ?R m2 m3"
      using heap_brk_inv(2) [OF inv2] brk_view(1) [OF H2(1), of "USER_HEAP_BASE + 1"] v2 v3 k3 by fastforce
    moreover have "r \<in> ?R" using inv1 by (simp add: heap_inv_def)
    ultimately have ma: "mapped_as r (USER_HEAP_BASE + PAGE_SIZE) UserReadWrite m3"
      using kept_mapped_as v2'(2) by blast
    have "heap_pages e3 ?x = [USER_HEAP_BASE + PAGE_SIZE]" unfolding v3'
      by (simp add: heap_pages_def USER_HEAP_BASE_def PAGE_SIZE_def)
    then have "fst (map_heap_pages (heap_pages e3 ?x) m3) \<noteq> Inr ()" using map_heap_refused [OF inv3 ma] by simp
    moreover have "heap_brk ?x (b3, e3, m3) =
        (case map_heap_pages (heap_pages e3 ?x) m3 of
           (Inl _, m) \<Rightarrow> (u64_max, b3, e3, m) | (Inr _, m) \<Rightarrow> (?x, ?x, ?x, m))"
      unfolding v3'(1) using heap_brk_grow [OF facts(1-3,12,15)] unfolding facts(16) .
    ultimately have "fst (heap_brk ?x (b3, e3, m3)) = u64_max" by (auto split: sum.splits prod.splits)
    then show ?thesis using brk_view(1) [OF H3(1), of ?x] v3 by simp
  qed
  then show ?thesis unfolding run prod.case Let_def k1 k3 by (intro if_bool_eq_conj [THEN iffD2] conjI impI) blast+
qed

end
