(* ===== verification/ProcessStack.thy ===== *)
theory ProcessStack
  imports UserMemory
begin

text \<open>
  The stack a program starts on: \<open>initialize_process_stack\<close> leaves the argument count, the
  pointers, the environment and the strings at the top of the stack, and nothing else changes.
\<close>

section \<open>A stack that grows downwards\<close>

definition stack_inv :: "u64 set \<Rightarrow> u64 \<Rightarrow> memory \<Rightarrow> nat \<Rightarrow> nat \<Rightarrow> stack_state \<Rightarrow> u8 list \<Rightarrow> bool" where
  "stack_inv R r m0 low hi = (\<lambda>(c, m) bs.
     user_memory_ok R r m0 m \<and> low \<le> unat c \<and> unat c + length bs = hi \<and> hi < 2 ^ 64 \<and>
     holds (user_load m) c bs \<and> (\<forall>a. low \<le> unat a \<longrightarrow> unat a < unat c \<longrightarrow> user_load m a = Some 0) \<and>
     (\<forall>a. unat a < low \<or> hi \<le> unat a \<longrightarrow> user_load m a = user_load m0 a))"

lemma unat_down: "n \<le> unat (c :: u64) \<Longrightarrow> unat (c - of_nat n) = unat c - n"
proof -
  assume n: "n \<le> unat c"
  then have "n < 2 ^ 64" using unat_u64_lt [of c] by simp
  then have "unat (of_nat n :: u64) = n" by (simp add: unat_of_nat take_bit_nat_eq_self)
  then show ?thesis using n by (simp add: unat_sub word_le_nat_alt)
qed

lemma push_law:
  assumes inv: "stack_inv R r m0 low hi (c, m) bs" and fits: "low + length xs \<le> unat c"
  shows "\<exists>m'. write_user_bytes (c - of_nat (length xs)) xs m = Some m' \<and>
    stack_inv R r m0 low hi (c - of_nat (length xs), m') (xs @ bs)"
proof -
  let ?c = "c - of_nat (length xs)"
  have c: "unat ?c = unat c - length xs" using fits by (intro unat_down) simp
  have ok: "user_memory_ok R r m0 m" and l: "unat c + length bs = hi" "hi < 2 ^ 64" "low \<le> unat c"
    and h: "holds (user_load m) c bs" and z: "\<And>a. low \<le> unat a \<Longrightarrow> unat a < unat c \<Longrightarrow> user_load m a = Some 0"
    and o: "\<And>a. unat a < low \<or> hi \<le> unat a \<Longrightarrow> user_load m a = user_load m0 a"
    using inv by (auto simp: stack_inv_def)
  have lt: "unat ?c + length xs < 2 ^ 64" using l c fits by simp
  have mapped: "user_load m a \<noteq> None" if "unat ?c \<le> unat a" "unat a < unat ?c + length xs" for a
    using z [of a] that c fits by simp
  obtain m' where m': "write_user_bytes ?c xs m = Some m'" "user_memory_ok R r m0 m'"
    "user_load m' = put (user_load m) ?c xs"
    using um.store_list_law [OF ok lt mapped] by (auto simp: write_user_bytes_list)
  have "holds (user_load m') ?c (xs @ bs)"
    unfolding holds_def
  proof (intro allI impI)
    fix a :: u64 assume a: "unat ?c \<le> unat a" "unat a < unat ?c + length (xs @ bs)"
    show "user_load m' a = Some ((xs @ bs) ! (unat a - unat ?c))"
    proof (cases "unat a < unat c")
      case True
      then have "unat a - unat ?c < length xs" "unat a < unat ?c + length xs" using a c fits by linarith+
      then show ?thesis using a by (simp add: m'(3) put_def nth_append)
    next
      case False
      then have i: "\<not> unat a - unat ?c < length xs" "unat a - unat ?c - length xs = unat a - unat c"
        "\<not> unat a < unat ?c + length xs" "unat a < unat c + length bs"
        using a c fits by (simp_all only: length_append)
      have "user_load m a = Some (bs ! (unat a - unat c))" using h False i(4) by (simp add: holds_def)
      then show ?thesis using i(1-3) by (simp add: m'(3) put_def nth_append)
    qed
  qed
  moreover have "user_load m' a = Some 0" if "low \<le> unat a" "unat a < unat ?c" for a
    using z [of a] that c by (simp add: m'(3) put_def)
  moreover have "user_load m' a = user_load m0 a" if "unat a < low \<or> hi \<le> unat a" for a
  proof -
    have "\<not> (unat ?c \<le> unat a \<and> unat a < unat ?c + length xs)" using that c fits l by auto
    then have "user_load m' a = user_load m a" unfolding m'(3) put_def by (rule if_not_P)
    then show ?thesis using o [OF that] by simp
  qed
  moreover have "low \<le> unat ?c" "unat ?c + length (xs @ bs) = hi" using c fits l by simp_all
  ultimately show ?thesis using m' l(2) by (auto simp: stack_inv_def)
qed

lemma store_list_append:
  "store_list store a (xs @ ys) m =
     Option.bind (store_list store a xs m) (store_list store (a + of_nat (length xs)) ys)"
  by (induction xs arbitrary: a m) (auto simp: algebra_simps intro: Option.bind_cong)

lemma push_argument_bytes: "push_argument text (c, m) = push_bytes (text @ [0]) (c, m)"
proof -
  have "of_nat (length (text @ [0 :: u8])) = of_nat (length text) + (1 :: u64)" by simp
  then show ?thesis
    by (simp add: push_argument_def push_bytes_def Let_def write_user_bytes_list store_list_append
        del: length_append of_nat_Suc) (cases "store_list write_user_byte (c - (of_nat (length text) + 1)) text m"; simp)
qed

lemma push_bytes_law:
  assumes "stack_inv R r m0 low hi s bs" and "low + length xs \<le> unat (fst s)"
  shows "\<exists>m'. push_bytes xs s = Some (fst s - of_nat (length xs), m') \<and>
    stack_inv R r m0 low hi (fst s - of_nat (length xs), m') (xs @ bs)"
  using push_law [of R r m0 low hi "fst s" "snd s" bs xs] assms
  by (cases s) (auto simp: push_bytes_def Let_def)

text \<open>The strings, the pointers to them, and the words.\<close>

definition strings :: "u8 list list \<Rightarrow> u8 list" where
  "strings texts = concat (map (\<lambda>text. text @ [0]) texts)"

fun string_pointers :: "u64 \<Rightarrow> u8 list list \<Rightarrow> u64 list" where
  "string_pointers a [] = []"
| "string_pointers a (text # texts) = a # string_pointers (a + of_nat (length text + 1)) texts"

definition words :: "u64 list \<Rightarrow> u8 list" where
  "words ws = concat (map le_bytes ws)"

lemma strings_simps [simp]: "strings [] = []" "strings (text # texts) = (text @ [0]) @ strings texts"
  by (simp_all add: strings_def)

lemma words_simps [simp]: "words [] = []" "words (w # ws) = le_bytes w @ words ws" "words (ws @ vs) = words ws @ words vs"
  by (simp_all add: words_def)

lemma length_le_bytes [simp]: "length (le_bytes w) = 8"
  by (simp add: le_bytes_def)

lemma length_words [simp]: "length (words ws) = 8 * length ws"
  by (induction ws) simp_all

lemma length_string_pointers [simp]: "length (string_pointers a texts) = length texts"
  by (induction texts arbitrary: a) simp_all

lemma push_arguments_law:
  assumes "stack_inv R r m0 low hi s bs" and "low + length (strings texts) \<le> unat (fst s)"
  shows "\<exists>m'. let c = fst s - of_nat (length (strings texts)) in
    push_arguments texts s = Some (string_pointers c texts, (c, m')) \<and>
    stack_inv R r m0 low hi (c, m') (strings texts @ bs)"
  using assms
proof (induction texts)
  case Nil
  then show ?case by (cases s) simp
next
  case (Cons tx texts)
  let ?c = "fst s - of_nat (length (strings texts))"
  obtain m1 where m1: "push_arguments texts s = Some (string_pointers ?c texts, (?c, m1))"
    "stack_inv R r m0 low hi (?c, m1) (strings texts @ bs)"
    using Cons by (auto simp: Let_def)
  have c: "unat ?c = unat (fst s) - length (strings texts)" using Cons.prems(2) by (intro unat_down) simp
  have "low + length (tx @ [0 :: u8]) \<le> unat (fst (?c, m1))" using Cons.prems(2) c by simp
  from push_bytes_law [OF m1(2) this] obtain m2 where
    m2: "push_bytes (tx @ [0]) (?c, m1) = Some (?c - of_nat (length (tx @ [0 :: u8])), m2)"
      "stack_inv R r m0 low hi (?c - of_nat (length (tx @ [0 :: u8])), m2) ((tx @ [0]) @ strings texts @ bs)"
    by auto
  let ?d = "?c - of_nat (length (tx @ [0 :: u8]))"
  have d: "fst s - of_nat (length (strings (tx # texts))) = ?d" "?d + of_nat (length tx + 1) = ?c"
    by simp_all
  have "push_arguments (tx # texts) s = Some (?d # string_pointers ?c texts, (?d, m2))"
    using m1(1) m2(1) by (simp add: push_argument_bytes del: of_nat_Suc)
  then have "push_arguments (tx # texts) s = Some (string_pointers ?d (tx # texts), (?d, m2))"
    unfolding string_pointers.simps d(2) .
  then show ?case unfolding Let_def d(1) using m2(2) by auto
qed

lemma push_word_law:
  assumes "stack_inv R r m0 low hi s bs" and "low + 8 \<le> unat (fst s)"
  shows "\<exists>m'. push_word w s = Some (fst s - 8, m') \<and> stack_inv R r m0 low hi (fst s - 8, m') (le_bytes w @ bs)"
  using push_law [of R r m0 low hi "fst s" "snd s" bs "le_bytes w"] assms
  by (cases s) (auto simp: push_word_def write_user_word_def Let_def)

lemma push_words_law:
  assumes "stack_inv R r m0 low hi s bs" and "low + 8 * length ws \<le> unat (fst s)"
  shows "\<exists>m'. push_words ws s = Some (fst s - of_nat (8 * length ws), m') \<and>
    stack_inv R r m0 low hi (fst s - of_nat (8 * length ws), m') (words (rev ws) @ bs)"
  using assms
proof (induction ws arbitrary: s bs)
  case Nil
  then show ?case by (cases s) simp
next
  case (Cons w ws)
  have c: "unat (fst s - 8) = unat (fst s) - 8" using unat_down [of 8 "fst s"] Cons.prems(2) by simp
  obtain m1 where m1: "push_word w s = Some (fst s - 8, m1)" "stack_inv R r m0 low hi (fst s - 8, m1) (le_bytes w @ bs)"
    using push_word_law [OF Cons.prems(1)] Cons.prems(2) by auto
  have "low + 8 * length ws \<le> unat (fst (fst s - 8, m1))" using Cons.prems(2) c by simp
  from Cons.IH [OF m1(2) this] m1(1) show ?case by (auto simp: algebra_simps)
qed

text \<open>Aligning the cursor leaves cleared bytes behind.\<close>

lemma unat_align16: "unat (c AND NOT 0xF :: u64) = unat c - unat c mod 16"
proof -
  have mask: "0xF = (mask 4 :: u64)" by (simp add: mask_eq_exp_minus_1)
  have e: "c AND NOT 0xF = push_bit 4 (drop_bit 4 c)"
    unfolding mask by (rule bit_word_eqI) (auto simp: bit_simps)
  have "drop_bit 4 (unat c) = unat c div 16" by (simp add: drop_bit_eq_div)
  then have d: "unat (drop_bit 4 c) = unat c div 16" unfolding unat_drop_bit_eq .
  have q: "unat c div 16 * 16 = unat c - unat c mod 16" by (simp add: minus_mod_eq_div_mult)
  have "unat (2 ^ 4 :: u64) = 16" by simp
  moreover have "unat c div 16 * 16 < 2 ^ LENGTH(64)" using q unat_u64_lt [of c] by simp
  ultimately have "unat (drop_bit 4 c * 2 ^ 4) = unat c div 16 * 16"
    using unat_mult_lem [THEN iffD1, of "drop_bit 4 c" "2 ^ 4"] unfolding d by metis
  then show ?thesis unfolding e push_bit_eq_mult q .
qed

lemma lower_law:
  assumes inv: "stack_inv R r m0 low hi (c, m) bs" and d: "unat d + k = unat c" and fits: "low + k \<le> unat c"
  shows "stack_inv R r m0 low hi (d, m) (replicate k 0 @ bs)"
proof -
  have z: "\<And>a. low \<le> unat a \<Longrightarrow> unat a < unat c \<Longrightarrow> user_load m a = Some 0"
    and h: "holds (user_load m) c bs" using inv by (auto simp: stack_inv_def)
  have "holds (user_load m) d (replicate k 0 @ bs)"
    unfolding holds_def
  proof (intro allI impI)
    fix x :: u64 assume x: "unat d \<le> unat x" "unat x < unat d + length (replicate k 0 @ bs)"
    show "user_load m x = Some ((replicate k 0 @ bs) ! (unat x - unat d))"
    proof (cases "unat x < unat c")
      case True
      have "low \<le> unat x" using x(1) d fits by linarith
      moreover have "unat x - unat d < k" using True x(1) d by linarith
      ultimately show ?thesis using z True by (simp add: nth_append)
    next
      case False
      then have i: "\<not> unat x - unat d < k" "unat x - unat d - k = unat x - unat c"
        using x(1) d by linarith+
      have "unat x < unat c + length bs" using x(2) d by simp
      then have "user_load m x = Some (bs ! (unat x - unat c))" using h False by (simp add: holds_def)
      then show ?thesis using i by (simp add: nth_append)
    qed
  qed
  moreover have "low \<le> unat d" "unat d + length (replicate k (0 :: u8) @ bs) = unat c + length bs" "unat d \<le> unat c"
    using d fits by simp_all
  ultimately show ?thesis using inv by (auto simp: stack_inv_def)
qed

lemma align_law:
  assumes inv: "stack_inv R r m0 low hi (c, m) bs" and fits: "low + 16 \<le> unat c"
  shows "stack_inv R r m0 low hi (c AND NOT 0xF, m) (replicate (unat c mod 16) 0 @ bs)"
proof (rule lower_law [OF inv])
  show "unat (c AND NOT 0xF) + unat c mod 16 = unat c" unfolding unat_align16 by simp
  have "unat c mod 16 < 16" by simp
  then show "low + unat c mod 16 \<le> unat c" using fits by linarith
qed

section \<open>The whole stack\<close>

text \<open>
  What a program finds from its stack pointer up to the top of its stack: the argument count,
  the argument pointers, a null pointer, the two environment pointers, a null pointer, one word
  of padding, cleared bytes, and the texts that are pointed to.
\<close>

definition startup_layout :: "u64 \<Rightarrow> u8 list \<Rightarrow> u8 list list \<Rightarrow> u8 list" where
  "startup_layout stack_end name argv =
     (let texts = name # take 4 argv;
          strings_at = stack_end - of_nat (length (strings texts));
          path_at = strings_at - of_nat (length PATH_TEXT);
          pwd_at = path_at - of_nat (length PWD_TEXT)
      in words (of_nat (length texts) # string_pointers strings_at texts @ [0, path_at, pwd_at, 0, 0]) @
         replicate (unat pwd_at mod 16) 0 @ PWD_TEXT @ PATH_TEXT @ strings texts)"

lemma process_stack_law:
  assumes inv: "stack_inv R r m0 low hi (sp + 8, m) []"
    and fits: "low + length (startup_layout (sp + 8) name argv) \<le> unat (sp + 8)"
  shows "\<exists>m'. initialize_process_stack sp name argv m =
      Some (sp + 8 - of_nat (length (startup_layout (sp + 8) name argv)), m') \<and>
    stack_inv R r m0 low hi (sp + 8 - of_nat (length (startup_layout (sp + 8) name argv)), m')
      (startup_layout (sp + 8) name argv)"
proof -
  define texts where "texts = name # take 4 argv"
  define a1 where "a1 = sp + 8 - of_nat (length (strings texts))"
  define a2 where "a2 = a1 - of_nat (length PATH_TEXT)"
  define a3 where "a3 = a2 - of_nat (length PWD_TEXT)"
  define k where "k = unat a3 mod 16"
  define a4 where "a4 = a3 AND NOT 0xF"
  define n where "n = length texts"
  have layout: "startup_layout (sp + 8) name argv =
      words (of_nat n # string_pointers a1 texts @ [0, a2, a3, 0, 0]) @ replicate k 0 @ PWD_TEXT @ PATH_TEXT @ strings texts"
    by (simp add: startup_layout_def Let_def texts_def a1_def a2_def a3_def k_def n_def)
  have lens: "length PATH_TEXT = 10" "length PWD_TEXT = 6" by (simp_all add: PATH_TEXT_def PWD_TEXT_def ascii_def)
  have n: "0 < n" by (simp add: n_def texts_def)
  have k: "k < 16" by (simp add: k_def)
  have total: "length (startup_layout (sp + 8) name argv) = 8 * (n + 6) + k + 16 + length (strings texts)"
    unfolding layout by (simp add: lens n_def)
  define L where "L = length (strings texts)"
  have room: "low + (8 * (n + 6) + k + 16 + L) \<le> unat (sp + 8)" using total fits by (simp add: L_def)
  have u1: "unat a1 + L = unat (sp + 8)" unfolding a1_def L_def [symmetric] using room by (subst unat_down) simp_all
  have u2: "unat a2 + 10 = unat a1" unfolding a2_def lens using room u1 by (subst unat_down) simp_all
  have u3: "unat a3 + 6 = unat a2" unfolding a3_def lens using room u1 u2 by (subst unat_down) simp_all
  have u4: "unat a4 + k = unat a3" unfolding a4_def k_def unat_align16 by simp
  let ?b = "a4 - of_nat 8 - of_nat 32" and ?args = "string_pointers a1 texts" and ?env = "[0, a3, a2, 0]"
  have u5: "unat (a4 - of_nat 8) + 8 = unat a4" using room u1 u2 u3 u4 n by (subst unat_down) simp_all
  have u6: "unat ?b + 32 = unat (a4 - of_nat 8)" using room u1 u2 u3 u4 u5 n by (subst unat_down) simp_all
  have u7: "unat (?b - of_nat (8 * n)) + 8 * n = unat ?b"
    using room u1 u2 u3 u4 u5 u6 n by (subst unat_down) simp_all
  have f1: "low + length (strings texts) \<le> unat (fst (sp + 8, m))"
    and f2: "low + length PATH_TEXT \<le> unat (fst (a1, x))"
    and f3: "low + length PWD_TEXT \<le> unat (fst (a2, x))"
    and f4: "low + 16 \<le> unat a3"
    and f5: "low + 8 * length [0 :: u64] \<le> unat (fst (a4, x))"
    and f6: "low + 8 * length ?env \<le> unat (fst (a4 - of_nat 8, x))"
    and f7: "low + 8 * length (rev ?args) \<le> unat (fst (?b, x))"
    and f8: "low + 8 \<le> unat (fst (?b - of_nat (8 * n), x))" for x :: memory
    using room u1 u2 u3 u4 u5 u6 u7 n unfolding fst_conv lens length_rev length_string_pointers n_def [symmetric] L_def [symmetric]
    by simp_all
  obtain m1 where m1: "push_arguments texts (sp + 8, m) = Some (?args, (a1, m1))"
    "stack_inv R r m0 low hi (a1, m1) (strings texts)"
    using push_arguments_law [OF inv f1] by (auto simp: Let_def a1_def)
  obtain m2 where m2: "push_bytes PATH_TEXT (a1, m1) = Some (a2, m2)"
    "stack_inv R r m0 low hi (a2, m2) (PATH_TEXT @ strings texts)"
    using push_bytes_law [OF m1(2) f2] by (auto simp: a2_def)
  obtain m3 where m3: "push_bytes PWD_TEXT (a2, m2) = Some (a3, m3)"
    "stack_inv R r m0 low hi (a3, m3) (PWD_TEXT @ PATH_TEXT @ strings texts)"
    using push_bytes_law [OF m2(2) f3] by (auto simp: a3_def)
  let ?texts = "PWD_TEXT @ PATH_TEXT @ strings texts"
  have i4: "stack_inv R r m0 low hi (a4, m3) (replicate k 0 @ ?texts)"
    unfolding a4_def k_def by (rule align_law [OF m3(2) f4])
  obtain m5 where m5: "push_words [0] (a4, m3) = Some (a4 - of_nat 8, m5)"
    "stack_inv R r m0 low hi (a4 - of_nat 8, m5) (words [0] @ replicate k 0 @ ?texts)"
    using push_words_law [OF i4 f5] by auto
  obtain m6 where m6: "push_words ?env (a4 - of_nat 8, m5) = Some (?b, m6)"
    "stack_inv R r m0 low hi (?b, m6) (words (rev ?env) @ words [0] @ replicate k 0 @ ?texts)"
    using push_words_law [OF m5(2) f6] by auto
  have len: "length ?args = n" by (simp add: n_def)
  obtain m7 where m7: "push_words (rev ?args) (?b, m6) = Some (?b - of_nat (8 * n), m7)"
    "stack_inv R r m0 low hi (?b - of_nat (8 * n), m7) (words ?args @ words (rev ?env) @ words [0] @ replicate k 0 @ ?texts)"
    using push_words_law [OF m6(2) f7] unfolding rev_rev_ident length_rev len fst_conv by blast
  obtain m8 where m8: "push_word (of_nat n) (?b - of_nat (8 * n), m7) = Some (?b - of_nat (8 * n) - 8, m8)"
    "stack_inv R r m0 low hi (?b - of_nat (8 * n) - 8, m8)
       (le_bytes (of_nat n) @ words ?args @ words (rev ?env) @ words [0] @ replicate k 0 @ ?texts)"
    using push_word_law [OF m7(2) f8, of "of_nat n"] unfolding fst_conv by blast
  have whole: "le_bytes (of_nat n) @ words ?args @ words (rev ?env) @ words [0] @ replicate k 0 @ ?texts =
      startup_layout (sp + 8) name argv"
    unfolding layout by simp
  have run: "initialize_process_stack sp name argv m = Some (?b - of_nat (8 * n) - 8, m8)"
    unfolding initialize_process_stack_def texts_def [symmetric] m1(1) Option.bind.simps prod.case m2(1) m3(1)
      Let_def a4_def [symmetric] m5(1) m6(1) m7(1) len m8(1) ..
  have "unat (?b - of_nat (8 * n) - 8) + length (startup_layout (sp + 8) name argv) = hi" "unat (sp + 8) = hi"
    using m8(2) inv unfolding whole by (simp_all add: stack_inv_def)
  then have e: "?b - of_nat (8 * n) - 8 = sp + 8 - of_nat (length (startup_layout (sp + 8) name argv))"
    using fits unat_down [of "length (startup_layout (sp + 8) name argv)" "sp + 8"] by (simp add: word_unat_eq_iff)
  show ?thesis using run m8(2) unfolding whole e by blast
qed

section \<open>Properties\<close>

lemma user_stack_cover:
  assumes "slot \<le> 1000" and "unat (user_stack_top slot) - 16384 \<le> unat a" and "unat a < unat (user_stack_top slot)"
  shows "page_of a \<in> page_of ` set (user_stack_pages slot)"
proof -
  define T where "T = 34359738367 - slot * 5"
  have s: "slot * 5 \<le> 5000" using assms(1) by linarith
  have "unat (of_nat slot * (of_nat USER_STACK_PAGES + 1) * PAGE_SIZE :: u64) = slot * 5 * 4096"
    using s by (simp add: USER_STACK_PAGES_def PAGE_SIZE_def unat_word_ariths unat_of_nat take_bit_nat_eq_self)
  then have top: "unat (user_stack_top slot) = T * 4096"
    using s unfolding user_stack_top_def T_def
    by (subst unat_sub) (simp_all add: USER_SPACE_END_def PAGE_SIZE_def word_le_nat_alt)
  have lt: "unat a div 4096 < T" using assms(3) unfolding top by (rule less_mult_imp_div_less)
  have ge: "T - 4 \<le> unat a div 4096"
  proof -
    have "(T - 4) * 4096 \<le> unat a" using assms(2) unfolding top by (simp add: diff_mult_distrib)
    then show ?thesis by (simp add: less_eq_div_iff_mult_less_eq)
  qed
  define k where "k = T - unat a div 4096"
  have k: "1 \<le> k" "k \<le> 4" "k \<le> T" "T - k = unat a div 4096" using lt ge by (simp_all add: k_def)
  have "unat (of_nat k * PAGE_SIZE :: u64) = k * 4096"
    using k(2) by (simp add: PAGE_SIZE_def unat_word_ariths unat_of_nat take_bit_nat_eq_self)
  then have p: "unat (user_stack_top slot - of_nat k * PAGE_SIZE) = (T - k) * 4096"
    using k(3) top by (subst unat_sub) (simp_all add: word_le_nat_alt diff_mult_distrib)
  have "user_stack_top slot - of_nat k * PAGE_SIZE \<in> set (user_stack_pages slot)"
    unfolding user_stack_pages_def set_map set_upt using k by (intro imageI) (simp add: USER_STACK_PAGES_def)
  moreover have "page_of (user_stack_top slot - of_nat k * PAGE_SIZE) = page_of a"
    unfolding page_of_def p k(4) by simp
  ultimately show ?thesis by (metis imageI)
qed

text \<open>
  C28: the stack of a freshly loaded program: unless the texts exceed its four pages, the set-up
  succeeds, and from the returned stack pointer up to the end of the stack the program finds
  exactly the startup layout, while no other byte of this or any other space changes.
\<close>

theorem process_stack_layout:
  "(case space_run ops (boot_memory regions ranges m) of (S, m1) \<Rightarrow>
     (case load_user_elf_into elf r slot m1 of
        (Inl _, _) \<Rightarrow> True
      | (Inr li, m2) \<Rightarrow>
          let stack_end = user_stack_top slot; layout = startup_layout stack_end name argv
          in if live S r = None \<or> 1000 < slot \<or> 16384 < length layout then True
             else case initialize_process_stack (loaded_stack_pointer li) name argv (switch_address_space r m2) of
               None \<Rightarrow> False
             | Some (sp, m3) \<Rightarrow>
                 sp = stack_end - of_nat (length layout) \<and> holds (\<lambda>a. user_byte r a m3) sp layout \<and>
                 {(r', a). live S r' \<noteq> None \<and> user_range a \<and> user_byte r' a m3 \<noteq> user_byte r' a m2 \<and>
                    (if r' = r then unat a < unat sp \<or> unat stack_end \<le> unat a else True)} = {}))"
proof -
  obtain S m1 where run: "space_run ops (boot_memory regions ranges m) = (S, m1)" by fastforce
  obtain res m2 where e: "load_user_elf_into elf r slot m1 = (res, m2)" by fastforce
  let ?E = "user_stack_top slot" and ?m = "switch_address_space r m2"
  let ?layout = "startup_layout ?E name argv"
  show ?thesis
  proof (cases "\<exists>li. res = Inr li \<and> \<not> (live S r = None \<or> 1000 < slot \<or> 16384 < length ?layout)")
    case False
    then show ?thesis unfolding run prod.case e Let_def by (cases res) auto
  next
    case True
    then obtain li where li: "res = Inr li" and live: "live S r \<noteq> None" and slot: "slot \<le> 1000"
      and len: "length ?layout \<le> 16384" by auto
    let ?R = "dom (live S)"
    have r: "r \<in> ?R" using live by auto
    note L = load_image_effect [OF spaces_invD(1) [OF boot_run_inv [OF run]] r e]
    have fo: "forest ?R m2" and sp: "loaded_stack_pointer li = ?E - 8" and ready: "stack_ready r slot m2"
      using L li by (auto split: sum.splits)
    have sw: "user_byte r' a ?m = user_byte r' a m2" for r' a by simp
    have ok: "user_memory_ok ?R r ?m ?m" using forest_switch [OF fo] r by (simp add: user_memory_ok_def)
    let ?low = "unat ?E - 16384"
    have zero: "user_load ?m a = Some 0" if "?low \<le> unat a" "unat a < unat ?E" for a
      using ready user_stack_cover [OF slot that] by (simp add: stack_ready_def user_load_def sw mapped_as_def)
    have inv: "stack_inv ?R r ?m ?low (unat ?E) (loaded_stack_pointer li + 8, ?m) []"
      unfolding stack_inv_def sp using ok zero unat_u64_lt [of ?E] by (simp add: holds_def)
    have big: "16384 \<le> unat ?E"
    proof -
      have "slot * 5 \<le> 5000" using slot by linarith
      then have "unat (of_nat slot * (of_nat USER_STACK_PAGES + 1) * PAGE_SIZE :: u64) \<le> 5000 * 4096"
        by (simp add: USER_STACK_PAGES_def PAGE_SIZE_def unat_word_ariths unat_of_nat take_bit_nat_eq_self)
      then show ?thesis
        unfolding user_stack_top_def by (subst unat_sub) (simp_all add: USER_SPACE_END_def PAGE_SIZE_def word_le_nat_alt)
    qed
    have e8: "loaded_stack_pointer li + 8 = ?E" by (simp add: sp)
    have "?low + length (startup_layout (loaded_stack_pointer li + 8) name argv) \<le> unat (loaded_stack_pointer li + 8)"
      unfolding e8 using len big by simp
    from process_stack_law [OF inv this] obtain m3 where
      m3: "initialize_process_stack (loaded_stack_pointer li) name argv ?m = Some (?E - of_nat (length ?layout), m3)"
      and inv3: "stack_inv ?R r ?m ?low (unat ?E) (?E - of_nat (length ?layout), m3) ?layout"
      unfolding e8 by blast
    let ?sp = "?E - of_nat (length ?layout)"
    have ok3: "user_memory_ok ?R r ?m m3" using inv3 by (simp add: stack_inv_def)
    then have c3: "cr3 m3 = r" by (simp add: user_memory_ok_def)
    have "holds (user_load m3) ?sp ?layout" using inv3 by (simp add: stack_inv_def)
    then have h: "holds (\<lambda>a. user_byte r a m3) ?sp ?layout"
      unfolding holds_def user_load_def c3 by (metis option.distinct(1))
    have same: "user_byte r' a m3 = user_byte r' a m2"
      if "live S r' \<noteq> None" "user_range a" "r' \<noteq> r \<or> unat a < unat ?sp \<or> unat ?E \<le> unat a" for r' a
    proof (cases "r' = r")
      case False
      then show ?thesis using ok3 that by (auto simp: user_memory_ok_def sw)
    next
      case True
      have "user_load m3 a = user_load ?m a"
      proof (cases "?low \<le> unat a \<and> unat a < unat ?sp")
        case True
        have "unat ?sp \<le> unat ?E" using inv3 by (simp add: stack_inv_def)
        then show ?thesis using True inv3 zero [of a] by (simp add: stack_inv_def)
      next
        case no: False
        then have "unat a < ?low \<or> unat ?E \<le> unat a" using that(3) True by auto
        then show ?thesis using inv3 unfolding stack_inv_def prod.case by blast
      qed
      then show ?thesis using True that(2) c3 by (simp add: user_load_def sw)
    qed
    have "{(r', a). live S r' \<noteq> None \<and> user_range a \<and> user_byte r' a m3 \<noteq> user_byte r' a m2 \<and>
        (if r' = r then unat a < unat ?sp \<or> unat ?E \<le> unat a else True)} = {}" (is "?changed = {}")
    proof -
      have "False" if "(r', a) \<in> ?changed" for r' a
      proof -
        have c: "live S r' \<noteq> None" "user_range a" "user_byte r' a m3 \<noteq> user_byte r' a m2"
          "if r' = r then unat a < unat ?sp \<or> unat ?E \<le> unat a else True" using that by simp_all
        from c(4) have "r' \<noteq> r \<or> unat a < unat ?sp \<or> unat ?E \<le> unat a" by (simp split: if_splits)
        from same [OF c(1,2) this] c(3) show False by contradiction
      qed
      then show ?thesis by fastforce
    qed
    then show ?thesis
      unfolding run prod.case e li sum.case Let_def m3 option.case using h by simp
  qed
qed

lemma push_words_cursor: "push_words ws s = Some s' \<Longrightarrow> fst s' = fst s - of_nat (8 * length ws)"
proof (induction ws arbitrary: s)
  case (Cons w ws)
  obtain s1 where s1: "push_word w s = Some s1" "push_words ws s1 = Some s'"
    using Cons.prems by (auto simp: bind_eq_Some_conv)
  then have "fst s1 = fst s - 8" by (cases s) (auto simp: push_word_def Let_def)
  moreover have "of_nat (8 * length (w # ws)) = 8 + (of_nat (8 * length ws) :: u64)" by simp
  ultimately show ?case using Cons.IH [OF s1(2)] by (simp only: diff_diff_eq)
qed simp

lemma push_arguments_length: "push_arguments texts s = Some (ps, s') \<Longrightarrow> length ps = length texts"
  by (induction texts arbitrary: ps s') (auto simp: bind_eq_Some_conv)

text \<open>
  On entry the stack pointer is 8 modulo 16 when the number of arguments after the program
  name is even, and 0 modulo 16 when it is odd: the padding word gives the alignment of a call
  only for an odd argument count.
\<close>

theorem process_stack_alignment:
  "(case initialize_process_stack sp0 name argv m of
      None \<Rightarrow> True
    | Some (sp, _) \<Rightarrow> unat sp mod 16 = (if even (min 4 (length argv)) then 8 else 0))"
proof (cases "initialize_process_stack sp0 name argv m")
  case (Some s)
  obtain sp m' where s: "s = (sp, m')" by fastforce
  obtain args s1 path_at m2 pwd_at m3 s4 s5 s6 where
    a: "push_arguments (name # take 4 argv) (sp0 + 8, m) = Some (args, s1)"
    and w4: "push_words [0] (pwd_at AND NOT 0xF, m3) = Some s4"
    and w5: "push_words [0, pwd_at, path_at, 0] s4 = Some s5"
    and w6: "push_words (rev args) s5 = Some s6"
    and w7: "push_word (of_nat (length args)) s6 = Some (sp, m')"
    using Some unfolding s initialize_process_stack_def
    by (auto simp: bind_eq_Some_conv Let_def simp del: push_words.simps push_arguments.simps)
  define n where "n = length args"
  define q where "q = pwd_at AND NOT 0xF"
  have n: "n = Suc (min 4 (length argv))" using push_arguments_length [OF a] by (simp add: n_def)
  have "sp = fst s6 - 8" using w7 by (cases s6) (auto simp: push_word_def Let_def)
  then have "sp = q - of_nat 8 - of_nat 32 - of_nat (8 * n) - 8"
    using push_words_cursor [OF w4] push_words_cursor [OF w5] push_words_cursor [OF w6] by (simp add: n_def q_def)
  then have q: "q = sp + of_nat (8 * (n + 6))" by (simp add: algebra_simps)
  have "unat q = (unat sp + unat (of_nat (8 * (n + 6)) :: u64)) mod 2 ^ LENGTH(64)"
    unfolding q by (rule unat_word_ariths(1))
  then have "unat q mod 16 = (unat sp + unat (of_nat (8 * (n + 6)) :: u64)) mod 16" by (simp add: mod_mod_cancel)
  moreover have "unat q mod 16 = 0"
  proof -
    have "unat q + unat pwd_at mod 16 = unat pwd_at" unfolding q_def unat_align16 by simp
    then have "unat q = unat pwd_at div 16 * 16" by (simp add: minus_mod_eq_div_mult [symmetric])
    then show ?thesis by simp
  qed
  moreover have "unat (of_nat (8 * (n + 6)) :: u64) = 8 * (n + 6)"
  proof -
    have "n \<le> 5" by (simp add: n)
    then have "8 * (n + 6) < 2 ^ LENGTH(64)" by simp
    then show ?thesis unfolding unat_of_nat by (rule mod_less)
  qed
  ultimately have "(unat sp + 8 * (n + 6)) mod 16 = 0" by simp
  then have "unat sp mod 16 = (if even (min 4 (length argv)) then 8 else 0)"
    using n by presburger
  then show ?thesis by (simp add: Some s)
qed simp

end
