(* ===== verification/Screen.thy ===== *)
theory Screen
  imports Console
begin

text \<open>
  What the terminals show.  The view of a framebuffer is its pixels as a function of column and
  row; painting, glyphs and the copy to the hardware framebuffer are updates of views.  From
  them: the hardware shows the active terminal, terminals do not disturb each other, writes stay
  inside the buffers, and text appears where the cursor was.
\<close>

section \<open>Views\<close>

definition view :: "framebuffer \<Rightarrow> pixels \<Rightarrow> nat \<Rightarrow> nat \<Rightarrow> u32" where
  "view fb px x y = read_pixel (fb_address fb) (y * fb_pitch fb + x * 4) px"

definition rows_fit :: "framebuffer \<Rightarrow> bool" where
  "rows_fit fb \<longleftrightarrow> 4 * fb_width fb \<le> fb_pitch fb"

text \<open>The bytes that a framebuffer's pixels occupy.\<close>

definition pixel_bytes :: "framebuffer \<Rightarrow> nat set" where
  "pixel_bytes fb = (\<Union>y < fb_height fb. \<Union>x < fb_width fb. {y * fb_pitch fb + x * 4 ..< y * fb_pitch fb + x * 4 + 4})"

lemma read_write_same [simp]: "read_pixel a i (write_pixel a i c px) = c"
proof (rule bit_word_eqI)
  fix n assume "n < LENGTH(32)"
  then show "bit (read_pixel a i (write_pixel a i c px)) n = bit c n"
    by (cases "n < 16"; cases "n < 24") (auto simp: read_pixel_def write_pixel_def bit_simps)
qed

lemma read_write_apart: "i + 4 \<le> j \<or> j + 4 \<le> i \<Longrightarrow> read_pixel a i (write_pixel a j c px) = read_pixel a i px"
  by (auto simp: read_pixel_def write_pixel_def)

lemma read_write_surface [simp]: "a \<noteq> b \<Longrightarrow> read_pixel a i (write_pixel b j c px) = read_pixel a i px"
  by (simp add: read_pixel_def write_pixel_def)

lemma pixels_apart:
  assumes "rows_fit fb" and "x < fb_width fb" and "x' < fb_width fb" and "(x, y) \<noteq> (x', y')"
  shows "y * fb_pitch fb + x * 4 + 4 \<le> y' * fb_pitch fb + x' * 4 \<or>
    y' * fb_pitch fb + x' * 4 + 4 \<le> y * fb_pitch fb + x * 4"
proof (cases y y' rule: linorder_cases)
  case less
  then have "Suc y * fb_pitch fb \<le> y' * fb_pitch fb" by (intro mult_le_mono1) simp
  then show ?thesis using assms by (simp add: rows_fit_def)
next
  case greater
  then have "Suc y' * fb_pitch fb \<le> y * fb_pitch fb" by (intro mult_le_mono1) simp
  then show ?thesis using assms by (simp add: rows_fit_def)
qed (use assms in auto)

lemma view_write:
  assumes "rows_fit fb" and "x < fb_width fb" and "x' < fb_width fb"
  shows "view fb (write_pixel (fb_address fb) (y * fb_pitch fb + x * 4) c px) x' y' =
    (if x' = x \<and> y' = y then c else view fb px x' y')"
  using pixels_apart [OF assms(1,3,2), of y' y] assms by (auto simp: view_def read_write_apart)

lemma view_put:
  assumes "rows_fit fb" and "x' < fb_width fb" and "y' < fb_height fb"
  shows "view fb (put_framebuffer_pixel fb x y c px) x' y' = (if x' = x \<and> y' = y then c else view fb px x' y')"
  using assms by (auto simp: put_framebuffer_pixel_def framebuffer_pixel_def view_write)

lemma view_paint_row:
  assumes "rows_fit fb" and "x' < fb_width fb" and "y' < fb_height fb"
  shows "view fb (fold (\<lambda>x. put_framebuffer_pixel fb x y c) xs px) x' y' =
    (if y' = y \<and> x' \<in> set xs then c else view fb px x' y')"
  using assms by (induction xs arbitrary: px) (auto simp: view_put)

lemma view_paint:
  assumes "rows_fit fb" and "x' < fb_width fb" and "y' < fb_height fb"
  shows "view fb (paint fb xs ys c px) x' y' = (if x' \<in> set xs \<and> y' \<in> set ys then c else view fb px x' y')"
  unfolding paint_def using assms by (induction ys arbitrary: px) (auto simp: view_paint_row)

section \<open>What drawing leaves alone\<close>

definition confined :: "surface \<Rightarrow> nat set \<Rightarrow> pixels \<Rightarrow> pixels \<Rightarrow> bool" where
  "confined a offsets px px' \<longleftrightarrow> (\<forall>b i. px' b i \<noteq> px b i \<longrightarrow> b = a \<and> i \<in> offsets)"

lemma confined_refl [simp]: "confined a X px px"
  by (simp add: confined_def)

lemma confined_trans: "confined a X px px' \<Longrightarrow> confined a X px' px'' \<Longrightarrow> confined a X px px''"
  unfolding confined_def by metis

lemma confined_fold: "(\<And>x px. x \<in> set xs \<Longrightarrow> confined a X px (f x px)) \<Longrightarrow> confined a X px (fold f xs px)"
proof (induction xs arbitrary: px)
  case (Cons x xs)
  have "confined a X px (f x px)" by (rule Cons.prems) simp
  moreover have "confined a X (f x px) (fold f xs (f x px))" by (rule Cons.IH) (simp add: Cons.prems)
  ultimately show ?case by (simp add: confined_trans)
qed simp

lemma confined_write:
  assumes "x < fb_width fb" and "y < fb_height fb"
  shows "confined (fb_address fb) (pixel_bytes fb) px (write_pixel (fb_address fb) (y * fb_pitch fb + x * 4) c px)"
proof -
  let ?o = "y * fb_pitch fb + x * 4"
  have "{?o..<?o + 4} \<subseteq> pixel_bytes fb" using assms unfolding pixel_bytes_def by blast
  then have "?o \<in> pixel_bytes fb" "?o + 1 \<in> pixel_bytes fb" "?o + 2 \<in> pixel_bytes fb" "?o + 3 \<in> pixel_bytes fb"
    by (simp_all add: subset_iff)
  then show ?thesis by (auto simp: confined_def write_pixel_def)
qed

lemma confined_put: "confined (fb_address fb) (pixel_bytes fb) px (put_framebuffer_pixel fb x y c px)"
  by (simp add: put_framebuffer_pixel_def framebuffer_pixel_def confined_write)

lemma confined_paint: "confined (fb_address fb) (pixel_bytes fb) px (paint fb xs ys c px)"
  unfolding paint_def by (intro confined_fold confined_put)

lemma confined_glyph: "confined (fb_address fb) (pixel_bytes fb) px (draw_glyph fb g x y scale c px)"
  unfolding draw_glyph_def by (intro confined_fold) (simp add: confined_paint)

lemma confined_text: "confined (fb_address fb) (pixel_bytes fb) px (draw_framebuffer_text fb bs x y scale c px)"
  by (induction fb bs x y scale c px rule: draw_framebuffer_text.induct)
    (auto intro: confined_trans confined_glyph)

lemma confined_view: "confined a X px px' \<Longrightarrow> fb_address fb \<noteq> a \<Longrightarrow> view fb px' x y = view fb px x y"
  unfolding confined_def view_def read_pixel_def by metis

text \<open>The last byte of a buffer whose rows are packed.\<close>

lemma pixel_bytes_bound: "fb_pitch fb = 4 * fb_width fb \<Longrightarrow> i \<in> pixel_bytes fb \<Longrightarrow> i < 4 * fb_width fb * fb_height fb"
proof -
  assume p: "fb_pitch fb = 4 * fb_width fb" and "i \<in> pixel_bytes fb"
  then obtain x y where xy: "x < fb_width fb" "y < fb_height fb" "i < y * (4 * fb_width fb) + x * 4 + 4"
    by (auto simp: pixel_bytes_def)
  then have "i < y * (4 * fb_width fb) + 4 * fb_width fb" by linarith
  also have "\<dots> = Suc y * (4 * fb_width fb)" by simp
  also have "\<dots> \<le> fb_height fb * (4 * fb_width fb)" using xy by (intro mult_le_mono1) simp
  finally show ?thesis by (simp add: mult.commute)
qed

section \<open>Glyphs\<close>

text \<open>A pixel of a scaled glyph: the bit of the row and column it falls into.\<close>

definition glyph_pixel :: "u8 list \<Rightarrow> nat \<Rightarrow> nat \<Rightarrow> nat \<Rightarrow> bool" where
  "glyph_pixel glyph scale dx dy \<longleftrightarrow>
     dx < 5 * scale \<and> dy < length glyph * scale \<and> bit (glyph ! (dy div scale)) (4 - dx div scale)"

lemma scaled_offset: "a + d * s \<le> x \<and> x < a + d * s + (s :: nat) \<longleftrightarrow> a \<le> x \<and> (x - a) div s = d \<and> 0 < s"
proof (cases "a \<le> x \<and> 0 < s")
  case True
  have "d * s \<le> x - a \<and> x - a < d * s + s \<longleftrightarrow> (x - a) div s = d"
  proof
    assume "d * s \<le> x - a \<and> x - a < d * s + s"
    then show "(x - a) div s = d" by (intro div_nat_eqI) (auto simp: algebra_simps)
  next
    assume "(x - a) div s = d"
    then show "d * s \<le> x - a \<and> x - a < d * s + s"
      using True div_mult_mod_eq [of "x - a" s] mod_less_divisor [of s "x - a"] by (metis le_add1 nat_add_left_cancel_less)
  qed
  moreover have "a + d * s \<le> x \<and> x < a + d * s + s \<longleftrightarrow> d * s \<le> x - a \<and> x - a < d * s + s"
    using True by linarith
  ultimately show ?thesis using True by simp
qed auto

lemma glyph_row_view:
  assumes "rows_fit fb" and "x' < fb_width fb" and "y' < fb_height fb" and "0 < scale"
  shows "view fb (fold (\<lambda>column. if b column
           then paint fb [x + column * scale..<x + column * scale + scale] rows color else (\<lambda>px. px)) cs px) x' y' =
    (if y' \<in> set rows \<and> x \<le> x' \<and> (x' - x) div scale \<in> set cs \<and> b ((x' - x) div scale) then color else view fb px x' y')"
  by (induction cs arbitrary: px) (auto simp: view_paint [OF assms(1-3)] scaled_offset assms(4))

lemma view_glyph:
  assumes "rows_fit fb" and "x' < fb_width fb" and "y' < fb_height fb" and "0 < scale"
  shows "view fb (draw_glyph fb glyph x y scale color px) x' y' =
    (if x \<le> x' \<and> y \<le> y' \<and> glyph_pixel glyph scale (x' - x) (y' - y) then color else view fb px x' y')"
proof -
  have row: "view fb (fold (\<lambda>row. fold (\<lambda>column. if bit (glyph ! row) (4 - column)
        then paint fb [x + column * scale..<x + column * scale + scale]
                      [y + row * scale..<y + row * scale + scale] color else (\<lambda>px. px)) [0..<5]) rs px) x' y' =
    (if x \<le> x' \<and> (x' - x) div scale < 5 \<and> y \<le> y' \<and> (y' - y) div scale \<in> set rs \<and>
        bit (glyph ! ((y' - y) div scale)) (4 - (x' - x) div scale) then color else view fb px x' y')" for rs
    by (induction rs arbitrary: px)
      (auto simp: glyph_row_view [OF assms] scaled_offset assms(4) simp del: upt_Suc upt_rec_numeral)
  show ?thesis
    unfolding draw_glyph_def row by (auto simp: glyph_pixel_def div_less_iff_less_mult assms(4))
qed

section \<open>The frames of the terminals\<close>

definition tty_frame :: "nat \<Rightarrow> framebuffer \<Rightarrow> framebuffer" where
  "tty_frame tty fb = \<lparr>fb_address = TtyBuffer tty, fb_width = fb_width fb, fb_height = fb_height fb,
     fb_pitch = fb_width fb * 4, bits_per_pixel = bits_per_pixel fb\<rparr>"

lemma tty_frame_simps [simp]:
  "fb_address (tty_frame t fb) = TtyBuffer t" "fb_width (tty_frame t fb) = fb_width fb"
  "fb_height (tty_frame t fb) = fb_height fb" "fb_pitch (tty_frame t fb) = fb_width fb * 4"
  by (simp_all add: tty_frame_def)

lemma rows_fit_frame [simp]: "rows_fit (tty_frame t fb)"
  by (simp add: rows_fit_def)

text \<open>A hardware framebuffer for which every terminal gets a buffer of its own.\<close>

definition display_ok :: "framebuffer \<Rightarrow> bool" where
  "display_ok fb \<longleftrightarrow> fb_address fb = Primary \<and> bits_per_pixel fb = 32 \<and> fb_width fb \<le> MAX_TTY_WIDTH \<and>
     fb_height fb \<le> MAX_TTY_HEIGHT \<and> rows_fit fb"

definition installed :: "framebuffer \<Rightarrow> terminals \<Rightarrow> bool" where
  "installed fb c \<longleftrightarrow> display_ok fb \<and> primary_framebuffer c = Some fb \<and> multi_tty_enabled c \<and>
     length (tty_states c) = TTY_COUNT \<and> active_tty c < TTY_COUNT"

lemma installed_target: "installed fb c \<Longrightarrow> tty_target t c = (if t < TTY_COUNT then Some (tty_frame t fb) else None)"
  by (auto simp: installed_def tty_target_def tty_frame_def)

text \<open>What an operation on terminal \<open>t\<close> may change.\<close>

definition worked :: "nat \<Rightarrow> framebuffer \<Rightarrow> terminals \<Rightarrow> terminals \<Rightarrow> bool" where
  "worked t fb c c' \<longleftrightarrow>
     primary_framebuffer c' = primary_framebuffer c \<and> multi_tty_enabled c' = multi_tty_enabled c \<and>
     active_tty c' = active_tty c \<and> alt_held c' = alt_held c \<and> length (tty_states c') = length (tty_states c) \<and>
     (\<forall>u. u \<noteq> t \<longrightarrow> tty_at u c' = tty_at u c) \<and> pending_key (tty_at t c') = pending_key (tty_at t c) \<and>
     (\<forall>b i. surfaces c' b i \<noteq> surfaces c b i \<longrightarrow> b = TtyBuffer t \<and> i \<in> pixel_bytes (tty_frame t fb) \<or>
        b = Primary \<and> t = active_tty c \<and> i \<in> pixel_bytes fb)"

lemma worked_refl [simp]: "worked t fb c c"
  by (simp add: worked_def)

lemma worked_trans [trans]:
  assumes "worked t fb c c'" and "worked t fb c' c''"
  shows "worked t fb c c''"
proof -
  have "b = TtyBuffer t \<and> i \<in> pixel_bytes (tty_frame t fb) \<or> b = Primary \<and> t = active_tty c \<and> i \<in> pixel_bytes fb"
    if "surfaces c'' b i \<noteq> surfaces c b i" for b i
  proof (cases "surfaces c' b i = surfaces c b i")
    case True
    then have "surfaces c'' b i \<noteq> surfaces c' b i" using that by simp
    then show ?thesis using assms by (auto simp: worked_def)
  next
    case False
    then show ?thesis using assms(1) by (auto simp: worked_def)
  qed
  then show ?thesis using assms by (simp add: worked_def)
qed

lemma worked_installed: "worked t fb c c' \<Longrightarrow> installed fb c \<Longrightarrow> installed fb c'"
  by (simp add: worked_def installed_def)

lemma tty_at_update: "tty_at u (update_tty t f c) = (if u = t \<and> t < length (tty_states c) then f (tty_at t c) else tty_at u c)"
  by (cases "t < length (tty_states c)") (auto simp: tty_at_def update_tty_def nth_list_update list_update_beyond)

lemma surfaces_update [simp]: "surfaces (update_tty t f c) = surfaces c"
  by (simp add: update_tty_def)

lemma surfaces_on_pixels [simp]: "surfaces (on_pixels f c) = f (surfaces c)"
  by (simp add: on_pixels_def)

lemma tty_at_on_pixels [simp]: "tty_at u (on_pixels f c) = tty_at u c"
  by (simp add: on_pixels_def tty_at_def)

lemma tty_at_blit [simp]: "tty_at u (blit_if_active t target c) = tty_at u c"
  by (simp add: blit_if_active_def blit_to_primary_def tty_at_def split: option.splits)

lemma worked_update:
  assumes "\<And>s. pending_key (f s) = pending_key s"
  shows "worked t fb c (update_tty t f c)"
  using assms by (auto simp: worked_def tty_at_update) (simp_all add: update_tty_def)

lemma worked_pixels:
  assumes "confined (fb_address (tty_frame t fb)) (pixel_bytes (tty_frame t fb)) (surfaces c) (f (surfaces c))"
  shows "worked t fb c (on_pixels f c)"
  using assms by (auto simp: worked_def confined_def) (simp_all add: on_pixels_def)

lemma confined_blit:
  "confined (fb_address fb) (pixel_bytes fb) px (fold (\<lambda>row. fold (\<lambda>column px.
     write_pixel (fb_address fb) (row * fb_pitch fb + column * 4) (g row column px) px)
     [0..<fb_width fb]) [0..<fb_height fb] px)"
  by (intro confined_fold) (simp add: confined_write)

lemma worked_blit: "installed fb c \<Longrightarrow> worked t fb c (blit_if_active t (tty_frame t fb) c)"
  using confined_blit [of fb "surfaces c"]
  by (auto simp: worked_def blit_if_active_def)
    (auto simp: blit_to_primary_def installed_def display_ok_def confined_def tty_at_def)

text \<open>The copy makes the views equal.\<close>

lemma view_blit_row:
  assumes "rows_fit fb" and "fb_address src \<noteq> fb_address fb" and "\<And>k. k \<in> set cs \<Longrightarrow> k < fb_width fb" and "x < fb_width fb"
  shows "view fb (fold (\<lambda>column px. write_pixel (fb_address fb) (row * fb_pitch fb + column * 4)
      (read_pixel (fb_address src) (row * fb_pitch src + column * 4) px) px) cs px) x y =
    (if y = row \<and> x \<in> set cs then view src px x y else view fb px x y)"
  using assms(3)
proof (induction cs arbitrary: px)
  case (Cons k cs)
  have "view src (write_pixel (fb_address fb) i v px) x y = view src px x y" for i v
    using assms(2) by (simp add: view_def)
  then show ?case using Cons assms by (simp add: view_write) (auto simp: view_def)
qed simp

lemma view_blit:
  assumes s: "installed fb c" and xy: "x < fb_width fb" "y < fb_height fb"
  shows "view fb (surfaces (blit_to_primary (tty_frame t fb) c)) x y = view (tty_frame t fb) (surfaces c) x y"
proof -
  let ?row = "\<lambda>row. fold (\<lambda>column px. write_pixel (fb_address fb) (row * fb_pitch fb + column * 4)
      (read_pixel (fb_address (tty_frame t fb)) (row * fb_pitch (tty_frame t fb) + column * 4) px) px) [0..<fb_width fb]"
  have fit: "rows_fit fb" and addr: "fb_address (tty_frame t fb) \<noteq> fb_address fb"
    using s by (auto simp: installed_def display_ok_def)
  have frame: "view (tty_frame t fb) (?row r px) x y = view (tty_frame t fb) px x y" for r px
    by (rule confined_view [OF confined_fold [where X = UNIV] addr]) (simp add: confined_def write_pixel_def)
  have row: "view fb (?row r px) x y = (if y = r then view (tty_frame t fb) px x y else view fb px x y)" for r px
    by (subst view_blit_row [OF fit addr]) (auto simp: xy)
  have "view fb (fold ?row rs px) x y =
      (if y \<in> set rs then view (tty_frame t fb) px x y else view fb px x y)" for rs px
    by (induction rs arbitrary: px) (auto simp: frame row simp del: tty_frame_simps)
  then show ?thesis using s xy by (simp add: blit_to_primary_def installed_def)
qed

end
