(* ===== verification/Terminals.thy ===== *)
theory Terminals
  imports Screen
begin

text \<open>
  The terminals as text.  A terminal is specified by its lines of characters, the set of cells
  with an underline, and the state of the blinking cursor; the keyboard by one pending key per
  terminal.  The operations of \<open>console.rs\<close> refine this specification: the buffer of every
  terminal is the rendering of its text, and the hardware shows the active one.
\<close>

section \<open>Operations touch only their terminal\<close>

lemma worked_paint: "worked t fb c (on_pixels (paint (tty_frame t fb) xs ys color) c)"
  by (rule worked_pixels) (rule confined_paint)

lemma worked_cursor: "worked t fb c (on_pixels (paint_cursor (tty_frame t fb) x y color) c)"
  unfolding paint_cursor_def by (rule worked_paint)

lemma worked_show: "worked t fb c (show_cursor t (tty_frame t fb) c)"
  unfolding show_cursor_def Let_def by (rule worked_trans [OF worked_cursor worked_update]) simp

lemma worked_hide: "worked t fb c (hide_cursor t (tty_frame t fb) c)"
  using worked_trans [OF worked_cursor worked_update] by (simp add: hide_cursor_def Let_def)

lemma worked_clear:
  assumes s: "installed fb c"
  shows "worked t fb c (clear_tty t c)"
proof (cases "t < TTY_COUNT")
  case True
  let ?c1 = "on_pixels (paint (tty_frame t fb) [0..<fb_width fb] [0..<fb_height fb] USER_CONSOLE_BACKGROUND) c"
  let ?c2 = "update_tty t (\<lambda>t. t\<lparr>cursor_x := USER_CONSOLE_MARGIN, cursor_y := USER_CONSOLE_MARGIN,
       cursor_visible := False\<rparr>) ?c1"
  have w: "worked t fb c (show_cursor t (tty_frame t fb) ?c2)"
    by (rule worked_trans [OF worked_trans [OF worked_paint worked_update] worked_show]) simp
  from worked_trans [OF w worked_blit [OF worked_installed [OF w s]]] show ?thesis
    using True by (simp add: clear_tty_def installed_target [OF s] Let_def)
qed (simp add: clear_tty_def installed_target [OF s])

lemma worked_newline: "installed fb c \<Longrightarrow> worked t fb c (newline t (tty_frame t fb) c)"
  by (auto simp: newline_def Let_def intro: worked_clear worked_update)

lemma worked_put: 
  assumes "installed fb c"
  shows "worked t fb c (put_character t (tty_frame t fb) b c)"
proof -
  have w: "worked t fb c (update_tty t (\<lambda>t. t\<lparr>cursor_x := v\<rparr>)
      (on_pixels (draw_framebuffer_text (tty_frame t fb) [b] x y sc color) c'))" if "worked t fb c c'" for c' v x y sc color
    by (rule worked_trans [OF that worked_trans [OF worked_pixels worked_update]]) (rule confined_text, simp)
  show ?thesis
    using worked_newline [OF assms, of t] w by (simp add: put_character_def Let_def)
qed

lemma worked_puts: "installed fb c \<Longrightarrow> worked t fb c (fold (put_character t (tty_frame t fb)) bs c)"
  by (induction bs arbitrary: c) (auto intro: worked_trans worked_put worked_installed)

lemma worked_write:
  assumes s: "installed fb c"
  shows "worked t fb c (user_console_write t bs c)"
proof -
  let ?c1 = "hide_cursor t (tty_frame t fb) c"
  let ?c3 = "show_cursor t (tty_frame t fb) (fold (put_character t (tty_frame t fb)) bs ?c1)"
  have "worked t fb c ?c3"
    by (rule worked_trans [OF worked_hide worked_trans [OF worked_puts worked_show]])
      (rule worked_installed [OF worked_hide s])
  from worked_trans [OF this worked_blit [OF worked_installed [OF this s]]] show ?thesis
    by (simp add: user_console_write_def installed_target [OF s] Let_def)
qed

lemma worked_tick:
  assumes s: "installed fb c"
  shows "worked t fb c (tick_tty t c)"
proof -
  let ?c1 = "update_tty t (\<lambda>t. t\<lparr>blink_ticks := blink_ticks t + 1\<rparr>) c"
  let ?c2 = "update_tty t (\<lambda>t. t\<lparr>blink_ticks := 0\<rparr>) ?c1"
  have w1: "worked t fb c ?c1" by (rule worked_update) simp
  have w2: "worked t fb c ?c2" by (rule worked_trans [OF w1 worked_update]) simp
  have w3: "worked t fb c (show_cursor t (tty_frame t fb) ?c2)" "worked t fb c (hide_cursor t (tty_frame t fb) ?c2)"
    by (rule worked_trans [OF w2 worked_show], rule worked_trans [OF w2 worked_hide])
  note b = worked_trans [OF w3(1) worked_blit [OF worked_installed [OF w3(1) s]]]
    worked_trans [OF w3(2) worked_blit [OF worked_installed [OF w3(2) s]]]
  show ?thesis using b w1 by (simp add: tick_tty_def installed_target [OF s] Let_def)
qed

lemma worked_backspace:
  assumes s: "installed fb c"
  shows "worked t fb c (user_console_backspace t c)"
proof -
  let ?f = "tty_frame t fb"
  let ?c1 = "hide_cursor t ?f c"
  have w1: "worked t fb c ?c1" by (rule worked_hide)
  have w2: "worked t fb c (show_cursor t ?f (update_tty t (\<lambda>t. t\<lparr>cursor_x := x\<rparr>)
      (on_pixels (paint ?f xs ys color) ?c1)))" for x xs ys color
    by (rule worked_trans [OF w1 worked_trans [OF worked_paint worked_trans [OF worked_update worked_show]]]) simp
  show ?thesis
    using worked_trans [OF w2 worked_blit [OF worked_installed [OF w2 s]]] worked_trans [OF w1 worked_show]
    by (simp add: user_console_backspace_def installed_target [OF s] Let_def)
qed

section \<open>The specification\<close>

record text_screen =
  text_lines :: "u8 list list"
  marks :: "(nat \<times> nat) set"
  shown :: bool
  blink :: u8

definition cursor_cell :: "text_screen \<Rightarrow> nat \<times> nat" where
  "cursor_cell s = (length (text_lines s) - 1, length (last (text_lines s)))"

definition spec_show :: "text_screen \<Rightarrow> text_screen" where
  "spec_show s = s\<lparr>marks := insert (cursor_cell s) (marks s), shown := True\<rparr>"

definition spec_hide :: "text_screen \<Rightarrow> text_screen" where
  "spec_hide s = (if shown s then s\<lparr>marks := marks s - {cursor_cell s}, shown := False\<rparr> else s)"

definition spec_clear :: "text_screen \<Rightarrow> text_screen" where
  "spec_clear s = spec_show (s\<lparr>text_lines := [[]], marks := {}\<rparr>)"

text \<open>\<open>rows\<close> and \<open>columns\<close> are how many lines and characters fit the framebuffer.\<close>

definition spec_newline :: "nat \<Rightarrow> text_screen \<Rightarrow> text_screen" where
  "spec_newline rows s =
     (if rows \<le> length (text_lines s) then spec_clear s else s\<lparr>text_lines := text_lines s @ [[]]\<rparr>)"

definition spec_put :: "nat \<Rightarrow> nat \<Rightarrow> u8 \<Rightarrow> text_screen \<Rightarrow> text_screen" where
  "spec_put rows columns b s =
     (if b = 13 then s
      else if b = 10 then spec_newline rows s
      else let s = (if columns \<le> length (last (text_lines s)) then spec_newline rows s else s)
           in s\<lparr>text_lines := butlast (text_lines s) @ [last (text_lines s) @ [b]]\<rparr>)"

definition spec_write :: "nat \<Rightarrow> nat \<Rightarrow> u8 list \<Rightarrow> text_screen \<Rightarrow> text_screen" where
  "spec_write rows columns bs s = spec_show (fold (spec_put rows columns) bs (spec_hide s))"

definition spec_backspace :: "text_screen \<Rightarrow> text_screen" where
  "spec_backspace s =
     (let s = spec_hide s
      in if last (text_lines s) = [] then spec_show s
         else let s = s\<lparr>text_lines := butlast (text_lines s) @ [butlast (last (text_lines s))]\<rparr>
              in spec_show (s\<lparr>marks := marks s - {cursor_cell s}\<rparr>))"

definition spec_tick :: "text_screen \<Rightarrow> text_screen" where
  "spec_tick s =
     (let s = s\<lparr>blink := blink s + 1\<rparr>
      in if blink s < 50 then s
         else let s = s\<lparr>blink := 0\<rparr> in if shown s then spec_hide s else spec_show s)"

text \<open>How many lines and characters fit, and the pixels of a text screen.\<close>

definition fit_rows :: "nat \<Rightarrow> nat" where
  "fit_rows height = (height - 32) div 16"

definition fit_columns :: "nat \<Rightarrow> nat" where
  "fit_columns width = (width - 32) div 12"

definition lit :: "text_screen \<Rightarrow> nat \<Rightarrow> nat \<Rightarrow> nat \<Rightarrow> nat \<Rightarrow> bool" where
  "lit s row column dx dy \<longleftrightarrow>
     row < length (text_lines s) \<and> column < length (text_lines s ! row) \<and>
       glyph_pixel (framebuffer_glyph (to_ascii_uppercase (text_lines s ! row ! column))) 2 dx dy \<or>
     (row, column) \<in> marks s \<and> 14 \<le> dy"

definition text_row :: "nat \<Rightarrow> nat" where "text_row y = (y - 32) div 16"
definition text_column :: "nat \<Rightarrow> nat" where "text_column x = (x - 32) div 12"
definition cell_x :: "nat \<Rightarrow> nat" where "cell_x c = 32 + 12 * c"
definition cell_y :: "nat \<Rightarrow> nat" where "cell_y r = 32 + 16 * r"
definition dot_row :: "nat \<Rightarrow> nat" where "dot_row y = (y - 32) mod 16"
definition dot_column :: "nat \<Rightarrow> nat" where "dot_column x = (x - 32) mod 12"

definition render_with :: "(nat \<Rightarrow> nat \<Rightarrow> nat \<Rightarrow> nat \<Rightarrow> bool) \<Rightarrow> nat \<Rightarrow> nat \<Rightarrow> u32" where
  "render_with L x y =
     (if 32 \<le> x \<and> 32 \<le> y \<and> L (text_row y) (text_column x) (dot_column x) (dot_row y)
      then USER_CONSOLE_FOREGROUND else USER_CONSOLE_BACKGROUND)"

definition render :: "text_screen \<Rightarrow> nat \<Rightarrow> nat \<Rightarrow> u32" where
  "render s = render_with (lit s)"

section \<open>Cells\<close>

lemma cell_offset:
  fixes m k c n x :: nat
  assumes "n \<le> k"
  shows "m + k * c \<le> x \<and> x - (m + k * c) < n \<longleftrightarrow> m \<le> x \<and> (x - m) div k = c \<and> (x - m) mod k < n"
proof
  assume a: "m + k * c \<le> x \<and> x - (m + k * c) < n"
  define d where "d = x - (m + k * c)"
  have "x - m = k * c + d" and "d < k" and "d < n" and "m \<le> x" using a assms by (auto simp: d_def)
  then show "m \<le> x \<and> (x - m) div k = c \<and> (x - m) mod k < n" by simp
next
  assume a: "m \<le> x \<and> (x - m) div k = c \<and> (x - m) mod k < n"
  then have "x - m = k * c + (x - m) mod k" using mult_div_mod_eq [of k "x - m"] by auto
  then show "m + k * c \<le> x \<and> x - (m + k * c) < n" using a by linarith
qed

lemma cell_rest: "(x - m) div k = c \<Longrightarrow> m \<le> x \<Longrightarrow> x - (m + k * c) = (x - m) mod (k :: nat)"
  by (metis diff_diff_left minus_div_mult_eq_mod mult.commute)

lemma cell_range:
  fixes m k c j x :: nat
  assumes "0 < k"
  shows "m + k * c + j \<le> x \<and> x < m + k * c + k \<longleftrightarrow> m \<le> x \<and> (x - m) div k = c \<and> j \<le> (x - m) mod k"
proof
  assume a: "m + k * c + j \<le> x \<and> x < m + k * c + k"
  then have "m + k * c \<le> x \<and> x - (m + k * c) < k" by linarith
  then have "m \<le> x \<and> (x - m) div k = c" using cell_offset [of k k m c x] by simp
  then show "m \<le> x \<and> (x - m) div k = c \<and> j \<le> (x - m) mod k" using cell_rest [of x m k c] a by linarith
next
  assume a: "m \<le> x \<and> (x - m) div k = c \<and> j \<le> (x - m) mod k"
  then have "m + k * c \<le> x \<and> x - (m + k * c) < k" using cell_offset [of k k m c x] assms by simp
  then show "m + k * c + j \<le> x \<and> x < m + k * c + k" using cell_rest [of x m k c] a by linarith
qed

lemma set_columns: "x \<in> set [cell_x c..<cell_x c + 12] \<longleftrightarrow> 32 \<le> x \<and> text_column x = c"
  using cell_range [of 12 32 c 0 x] unfolding set_upt atLeastLessThan_iff text_column_def cell_x_def
  by (simp only: add_0_right le0 simp_thms zero_less_numeral)

lemma set_rows: "y \<in> set [cell_y r..<cell_y r + 16] \<longleftrightarrow> 32 \<le> y \<and> text_row y = r"
  using cell_range [of 16 32 r 0 y] unfolding set_upt atLeastLessThan_iff text_row_def cell_y_def
  by (simp only: add_0_right le0 simp_thms zero_less_numeral)

lemma set_underline:
  "y \<in> set [14 + cell_y r..<cell_y r + 16] \<longleftrightarrow> 32 \<le> y \<and> text_row y = r \<and> 14 \<le> dot_row y"
  using cell_range [of 16 32 r 14 y] unfolding set_upt atLeastLessThan_iff text_row_def dot_row_def cell_y_def
  by (simp only: zero_less_numeral simp_thms add.commute [of 14])

lemma glyph_length: "length (framebuffer_glyph b) = 7"
  by (auto simp: framebuffer_glyph_def GLYPHS_def)

lemma glyph_bounds: "glyph_pixel (framebuffer_glyph b) 2 dx dy \<longleftrightarrow>
    dx < 10 \<and> dy < 14 \<and> bit (framebuffer_glyph b ! (dy div 2)) (4 - dx div 2)"
  by (simp add: glyph_pixel_def glyph_length)

lemma glyph_cell:
  "cell_x c \<le> x \<and> cell_y r \<le> y \<and> glyph_pixel (framebuffer_glyph b) 2 (x - (cell_x c)) (y - (cell_y r)) \<longleftrightarrow>
   32 \<le> x \<and> 32 \<le> y \<and> text_column x = c \<and> text_row y = r \<and>
     glyph_pixel (framebuffer_glyph b) 2 (dot_column x) (dot_row y)"
proof -
  have x: "cell_x c \<le> x \<and> x - (cell_x c) < n \<longleftrightarrow> 32 \<le> x \<and> text_column x = c \<and> dot_column x < n" if "n \<le> 12" for n
    unfolding text_column_def dot_column_def cell_x_def by (rule cell_offset [OF that])
  have y: "cell_y r \<le> y \<and> y - (cell_y r) < n \<longleftrightarrow> 32 \<le> y \<and> text_row y = r \<and> dot_row y < n" if "n \<le> 16" for n
    unfolding text_row_def dot_row_def cell_y_def by (rule cell_offset [OF that])
  have "x - (cell_x c) = dot_column x" if "text_column x = c" "32 \<le> x"
    unfolding dot_column_def cell_x_def by (rule cell_rest) (use that text_column_def in simp_all)
  moreover have "y - (cell_y r) = dot_row y" if "text_row y = r" "32 \<le> y"
    unfolding dot_row_def cell_y_def by (rule cell_rest) (use that text_row_def in simp_all)
  ultimately show ?thesis using x [of 10] y [of 14] unfolding glyph_bounds by (simp only: numeral_le_iff semiring_norm simp_thms) metis
qed

section \<open>Drawing cells\<close>

definition depicts :: "framebuffer \<Rightarrow> nat \<Rightarrow> pixels \<Rightarrow> (nat \<Rightarrow> nat \<Rightarrow> nat \<Rightarrow> nat \<Rightarrow> bool) \<Rightarrow> bool" where
  "depicts fb t px L \<longleftrightarrow>
     (\<forall>x y. x < fb_width fb \<longrightarrow> y < fb_height fb \<longrightarrow> view (tty_frame t fb) px x y = render_with L x y)"

lemma depicts_erase:
  assumes "depicts fb t px L"
  shows "depicts fb t (paint (tty_frame t fb) [cell_x c..<cell_x c + 12] [cell_y r..<cell_y r + 16]
           USER_CONSOLE_BACKGROUND px) (\<lambda>r' c' dx dy. L r' c' dx dy \<and> (r', c') \<noteq> (r, c))"
  using assms unfolding depicts_def
  by (simp add: view_paint set_columns set_rows del: set_upt) (auto simp: render_with_def)

lemma underline_start: "cell_y r + USER_CONSOLE_LINE_HEIGHT - 2 = cell_y r + 14"
  by (simp add: USER_CONSOLE_LINE_HEIGHT_def)

lemma view_cursor:
  assumes "x < fb_width fb" and "y < fb_height fb"
  shows "view (tty_frame t fb) (paint_cursor (tty_frame t fb) (cell_x c) (cell_y r) color px) x y =
    (if 32 \<le> x \<and> 32 \<le> y \<and> text_column x = c \<and> text_row y = r \<and> 14 \<le> dot_row y then color
     else view (tty_frame t fb) px x y)"
  using assms unfolding paint_cursor_def underline_start USER_CONSOLE_CHARACTER_WIDTH_def USER_CONSOLE_LINE_HEIGHT_def
  by (auto simp: view_paint set_columns set_underline simp del: set_upt)

lemma depicts_cursor:
  assumes "depicts fb t px L"
  shows "depicts fb t (paint_cursor (tty_frame t fb) (cell_x c) (cell_y r) USER_CONSOLE_FOREGROUND px)
      (\<lambda>r' c' dx dy. L r' c' dx dy \<or> (r', c') = (r, c) \<and> 14 \<le> dy)"
  unfolding depicts_def
proof (intro allI impI)
  fix x y assume "x < fb_width fb" "y < fb_height fb"
  then show "view (tty_frame t fb) (paint_cursor (tty_frame t fb) (cell_x c) (cell_y r) USER_CONSOLE_FOREGROUND px) x y =
      render_with (\<lambda>r' c' dx dy. L r' c' dx dy \<or> (r', c') = (r, c) \<and> 14 \<le> dy) x y"
    using assms unfolding depicts_def by (auto simp: view_cursor render_with_def)
qed

lemma depicts_no_cursor:
  assumes "depicts fb t px L"
  shows "depicts fb t (paint_cursor (tty_frame t fb) (cell_x c) (cell_y r) USER_CONSOLE_BACKGROUND px)
      (\<lambda>r' c' dx dy. L r' c' dx dy \<and> \<not> ((r', c') = (r, c) \<and> 14 \<le> dy))"
  unfolding depicts_def
proof (intro allI impI)
  fix x y assume "x < fb_width fb" "y < fb_height fb"
  then show "view (tty_frame t fb) (paint_cursor (tty_frame t fb) (cell_x c) (cell_y r) USER_CONSOLE_BACKGROUND px) x y =
      render_with (\<lambda>r' c' dx dy. L r' c' dx dy \<and> \<not> ((r', c') = (r, c) \<and> 14 \<le> dy)) x y"
    using assms unfolding depicts_def by (auto simp: view_cursor render_with_def)
qed

lemma depicts_glyph:
  assumes "depicts fb t px L"
  shows "depicts fb t (draw_framebuffer_text (tty_frame t fb) [b] (cell_x c) (cell_y r) USER_CONSOLE_SCALE
      USER_CONSOLE_FOREGROUND px)
    (\<lambda>r' c' dx dy. L r' c' dx dy \<or>
       (r', c') = (r, c) \<and> glyph_pixel (framebuffer_glyph (to_ascii_uppercase b)) 2 dx dy)"
  using assms unfolding depicts_def
  by (simp add: view_glyph glyph_cell USER_CONSOLE_SCALE_def) (auto simp: render_with_def)

lemma depicts_clear:
  "depicts fb t (paint (tty_frame t fb) [0..<fb_width fb] [0..<fb_height fb] USER_CONSOLE_BACKGROUND px)
     (\<lambda>_ _ _ _. False)"
  unfolding depicts_def by (simp add: view_paint render_with_def)

section \<open>Refinement of the operations\<close>

definition represents :: "framebuffer \<Rightarrow> nat \<Rightarrow> text_screen \<Rightarrow> terminals \<Rightarrow> bool" where
  "represents fb t s c \<longleftrightarrow> installed fb c \<and> t < TTY_COUNT \<and> text_lines s \<noteq> [] \<and>
     cursor_x (tty_at t c) = cell_x (length (last (text_lines s))) \<and>
     cursor_y (tty_at t c) = cell_y (length (text_lines s) - 1) \<and>
     cursor_visible (tty_at t c) = shown s \<and> blink_ticks (tty_at t c) = blink s \<and>
     depicts fb t (surfaces c) (lit s)"

lemma representsI:
  assumes "represents fb t s c" and "worked t fb c c'" and "text_lines s' \<noteq> []"
    and "cursor_x (tty_at t c') = cell_x (length (last (text_lines s')))"
    and "cursor_y (tty_at t c') = cell_y (length (text_lines s') - 1)"
    and "cursor_visible (tty_at t c') = shown s'" and "blink_ticks (tty_at t c') = blink s'"
    and "depicts fb t (surfaces c') L" and "lit s' = L"
  shows "represents fb t s' c'"
  using assms worked_installed [OF assms(2)] by (simp add: represents_def)

lemma states_length: "represents fb t s c \<Longrightarrow> t < length (tty_states c)"
  by (simp add: represents_def installed_def)

lemma states_length_pixels [simp]: "tty_states (on_pixels f c) = tty_states c"
  by (simp add: on_pixels_def)

lemma represents_elsewhere:
  assumes r: "represents fb u s c" and w: "worked t fb c c'" and "u \<noteq> t"
  shows "represents fb u s c'"
proof -
  have "surfaces c' (TtyBuffer u) i = surfaces c (TtyBuffer u) i" for i
    using w \<open>u \<noteq> t\<close> unfolding worked_def by (metis surface.distinct(1) surface.inject)
  then have "view (tty_frame u fb) (surfaces c') x y = view (tty_frame u fb) (surfaces c) x y" for x y
    by (simp add: view_def read_pixel_def)
  moreover have "tty_at u c' = tty_at u c" using w \<open>u \<noteq> t\<close> by (simp add: worked_def)
  ultimately show ?thesis using r worked_installed [OF w] by (simp add: represents_def depicts_def)
qed

lemma represents_blit:
  assumes r: "represents fb t s c"
  shows "represents fb t s (blit_if_active t (tty_frame t fb) c)"
proof -
  have i: "installed fb c" using r by (simp add: represents_def)
  have "confined (fb_address fb) (pixel_bytes fb) (surfaces c) (surfaces (blit_if_active t (tty_frame t fb) c))"
    using confined_blit [of fb "surfaces c"] i by (simp add: blit_if_active_def blit_to_primary_def installed_def)
  moreover have "fb_address (tty_frame t fb) \<noteq> fb_address fb" using i by (simp add: installed_def display_ok_def)
  ultimately have "view (tty_frame t fb) (surfaces (blit_if_active t (tty_frame t fb) c)) x y =
      view (tty_frame t fb) (surfaces c) x y" for x y
    by (rule confined_view)
  then show ?thesis using r worked_installed [OF worked_blit [OF i] i] by (simp add: represents_def depicts_def)
qed

text \<open>The hardware framebuffer shows a text screen, but for the blinking cursor.\<close>

definition under_cursor :: "text_screen \<Rightarrow> nat \<Rightarrow> nat \<Rightarrow> bool" where
  "under_cursor s x y \<longleftrightarrow> 32 \<le> x \<and> 32 \<le> y \<and> (text_row y, text_column x) = cursor_cell s \<and> 14 \<le> dot_row y"

definition mirrors :: "framebuffer \<Rightarrow> text_screen \<Rightarrow> terminals \<Rightarrow> bool" where
  "mirrors fb s c \<longleftrightarrow> (\<forall>x y. x < fb_width fb \<longrightarrow> y < fb_height fb \<longrightarrow> \<not> under_cursor s x y \<longrightarrow>
     view fb (surfaces c) x y = render s x y)"

lemma mirrors_blit:
  assumes "represents fb t s c"
  shows "mirrors fb s (blit_to_primary (tty_frame t fb) c)"
  using assms view_blit [of fb c] by (simp add: mirrors_def represents_def depicts_def render_def)

definition presents :: "framebuffer \<Rightarrow> nat \<Rightarrow> text_screen \<Rightarrow> terminals \<Rightarrow> bool" where
  "presents fb t s c \<longleftrightarrow> represents fb t s c \<and> (t = active_tty c \<longrightarrow> mirrors fb s c)"

lemma presents_represents: "presents fb t s c \<Longrightarrow> represents fb t s c"
  by (simp add: presents_def)

lemma presents_blit:
  assumes r: "represents fb t s c"
  shows "presents fb t s (blit_if_active t (tty_frame t fb) c)"
proof -
  let ?c = "blit_if_active t (tty_frame t fb) c"
  have "active_tty ?c = active_tty c" by (simp add: blit_if_active_def blit_to_primary_def split: option.splits)
  moreover have "mirrors fb s ?c" if "t = active_tty c"
    using that r mirrors_blit [OF r] by (simp add: blit_if_active_def represents_def installed_def)
  ultimately show ?thesis using represents_blit [OF r] by (simp add: presents_def)
qed

text \<open>What leaves the hardware alone and draws under the cursor only is still mirrored.\<close>

lemma mirrors_same:
  assumes "mirrors fb s c" and "surfaces c' Primary = surfaces c Primary" and "fb_address fb = Primary"
    and "\<And>x y. \<not> under_cursor s' x y \<Longrightarrow> render s' x y = render s x y \<and> \<not> under_cursor s x y"
  shows "mirrors fb s' c'"
  using assms by (simp add: mirrors_def view_def read_pixel_def)

lemma lit_show: "lit (spec_show s) = (\<lambda>r c dx dy. lit s r c dx dy \<or> (r, c) = cursor_cell s \<and> 14 \<le> dy)"
  by (auto simp: fun_eq_iff lit_def spec_show_def)

lemma lit_hide: "text_lines s \<noteq> [] \<Longrightarrow> shown s \<Longrightarrow>
    lit (spec_hide s) = (\<lambda>r c dx dy. lit s r c dx dy \<and> \<not> ((r, c) = cursor_cell s \<and> 14 \<le> dy))"
  by (auto simp: fun_eq_iff lit_def spec_hide_def cursor_cell_def last_conv_nth)

lemma represents_show:
  assumes r: "represents fb t s c"
  shows "represents fb t (spec_show s) (show_cursor t (tty_frame t fb) c)"
proof (rule representsI [OF r worked_show])
  show "depicts fb t (surfaces (show_cursor t (tty_frame t fb) c))
      (\<lambda>r' c' dx dy. lit s r' c' dx dy \<or> (r', c') = cursor_cell s \<and> 14 \<le> dy)"
    using r depicts_cursor by (simp add: show_cursor_def Let_def represents_def cursor_cell_def)
qed (rule lit_show | use r in \<open>simp add: spec_show_def show_cursor_def Let_def represents_def tty_at_update states_length [OF r]\<close>)+

lemma represents_hide:
  assumes r: "represents fb t s c"
  shows "represents fb t (spec_hide s) (hide_cursor t (tty_frame t fb) c)"
proof (cases "shown s")
  case True
  have n: "text_lines s \<noteq> []" using r by (simp add: represents_def)
  show ?thesis
  proof (rule representsI [OF r worked_hide])
    show "depicts fb t (surfaces (hide_cursor t (tty_frame t fb) c))
        (\<lambda>r' c' dx dy. lit s r' c' dx dy \<and> \<not> ((r', c') = cursor_cell s \<and> 14 \<le> dy))"
      using r True depicts_no_cursor by (simp add: hide_cursor_def Let_def represents_def cursor_cell_def)
  qed (rule lit_hide [OF n True] | use r True in \<open>simp add: spec_hide_def hide_cursor_def Let_def represents_def
      tty_at_update states_length [OF r]\<close>)+
next
  case False
  then show ?thesis using r by (simp add: spec_hide_def hide_cursor_def represents_def)
qed

lemma presents_cleared:
  assumes i: "installed fb c" and t: "t < TTY_COUNT" and b: "blink_ticks (tty_at t c) = blink s"
  shows "presents fb t (spec_clear s) (clear_tty t c)"
proof -
  let ?c1 = "on_pixels (paint (tty_frame t fb) [0..<fb_width fb] [0..<fb_height fb] USER_CONSOLE_BACKGROUND) c"
  let ?c2 = "update_tty t (\<lambda>t. t\<lparr>cursor_x := USER_CONSOLE_MARGIN, cursor_y := USER_CONSOLE_MARGIN,
       cursor_visible := False\<rparr>) ?c1"
  let ?s = "s\<lparr>text_lines := [[]], marks := {}, shown := False\<rparr>"
  have w: "worked t fb c ?c2" by (rule worked_trans [OF worked_paint worked_update]) simp
  have l: "lit ?s = (\<lambda>_ _ _ _. False)" by (auto simp: fun_eq_iff lit_def nth_Cons')
  have "depicts fb t (surfaces ?c2) (lit ?s)" unfolding l by (simp add: depicts_clear)
  then have "represents fb t ?s ?c2"
    using worked_installed [OF w i] t b i
    by (simp add: represents_def tty_at_update USER_CONSOLE_MARGIN_def cell_x_def cell_y_def installed_def)
  from presents_blit [OF represents_show [OF this]] show ?thesis
    using t by (simp add: clear_tty_def installed_target [OF i] Let_def spec_clear_def spec_show_def cursor_cell_def)
qed

lemma represents_clear: "represents fb t s c \<Longrightarrow> represents fb t (spec_clear s) (clear_tty t c)"
  by (rule presents_represents, rule presents_cleared) (simp_all add: represents_def)

lemma rows_full: "fit_rows h \<le> n \<longleftrightarrow> h < cell_y (n - 1) + USER_CONSOLE_LINE_HEIGHT + USER_CONSOLE_LINE_HEIGHT" if "0 < n"
proof -
  have "fit_rows h \<le> n \<longleftrightarrow> h - 32 < Suc n * 16"
    unfolding fit_rows_def less_Suc_eq_le [symmetric] by (rule div_less_iff_less_mult) simp
  then show ?thesis using that by (simp add: cell_y_def USER_CONSOLE_LINE_HEIGHT_def) linarith
qed

lemma columns_full: "fit_columns w \<le> n \<longleftrightarrow> w < cell_x n + USER_CONSOLE_CHARACTER_WIDTH"
proof -
  have "fit_columns w \<le> n \<longleftrightarrow> w - 32 < Suc n * 12"
    unfolding fit_columns_def less_Suc_eq_le [symmetric] by (rule div_less_iff_less_mult) simp
  then show ?thesis by (simp add: cell_x_def USER_CONSOLE_CHARACTER_WIDTH_def) linarith
qed

lemma lit_new_line: "lit (s\<lparr>text_lines := text_lines s @ [[]]\<rparr>) = lit s"
  by (auto simp: fun_eq_iff lit_def nth_append less_Suc_eq)

lemma represents_newline:
  assumes r: "represents fb t s c"
  shows "represents fb t (spec_newline (fit_rows (fb_height fb)) s) (newline t (tty_frame t fb) c)"
proof -
  let ?n = "length (text_lines s)"
  have n: "0 < ?n" and y: "cursor_y (tty_at t c) = cell_y (?n - 1)" using r by (auto simp: represents_def)
  show ?thesis
  proof (cases "fit_rows (fb_height fb) \<le> ?n")
    case True
    then show ?thesis using represents_clear [OF r] rows_full [OF n, of "fb_height fb"]
      by (simp add: spec_newline_def newline_def Let_def y)
  next
    case False
    let ?c = "update_tty t (\<lambda>t. t\<lparr>cursor_x := USER_CONSOLE_MARGIN, cursor_y := cell_y (?n - 1) + USER_CONSOLE_LINE_HEIGHT\<rparr>) c"
    have "represents fb t (s\<lparr>text_lines := text_lines s @ [[]]\<rparr>) ?c"
    proof (rule representsI [OF r worked_update, where L = "lit s"])
      show "cursor_y (tty_at t ?c) = cell_y (length (text_lines (s\<lparr>text_lines := text_lines s @ [[]]\<rparr>)) - 1)"
        using n by (cases "text_lines s") (simp_all add: tty_at_update states_length [OF r] cell_y_def
          USER_CONSOLE_LINE_HEIGHT_def)
    qed (rule lit_new_line | use r in \<open>simp add: tty_at_update states_length [OF r] represents_def cell_x_def USER_CONSOLE_MARGIN_def\<close>)+
    then show ?thesis using False rows_full [OF n, of "fb_height fb"]
      by (simp add: spec_newline_def newline_def Let_def y)
  qed
qed

lemma lit_append:
  assumes "text_lines s \<noteq> []"
  shows "lit (s\<lparr>text_lines := butlast (text_lines s) @ [last (text_lines s) @ [b]]\<rparr>) =
    (\<lambda>r c dx dy. lit s r c dx dy \<or> (r, c) = cursor_cell s \<and>
       glyph_pixel (framebuffer_glyph (to_ascii_uppercase b)) 2 dx dy)"
proof -
  obtain ls l where "text_lines s = ls @ [l]" using assms by (metis append_butlast_last_id)
  then show ?thesis by (auto simp: fun_eq_iff lit_def cursor_cell_def nth_append less_Suc_eq)
qed

lemma represents_append:
  assumes r: "represents fb t s c"
  shows "represents fb t (s\<lparr>text_lines := butlast (text_lines s) @ [last (text_lines s) @ [b]]\<rparr>)
    (update_tty t (\<lambda>u. u\<lparr>cursor_x := cursor_x (tty_at t c) + USER_CONSOLE_CHARACTER_WIDTH\<rparr>)
      (on_pixels (draw_framebuffer_text (tty_frame t fb) [b] (cursor_x (tty_at t c)) (cursor_y (tty_at t c))
         USER_CONSOLE_SCALE USER_CONSOLE_FOREGROUND) c))" (is "represents fb t ?s ?c")
proof (rule representsI [OF r])
  show "worked t fb c ?c" by (rule worked_trans [OF worked_pixels worked_update]) (rule confined_text, simp)
  have n: "text_lines s \<noteq> []" using r by (simp add: represents_def)
  then show "lit ?s = (\<lambda>r c dx dy. lit s r c dx dy \<or> (r, c) = cursor_cell s \<and>
       glyph_pixel (framebuffer_glyph (to_ascii_uppercase b)) 2 dx dy)" by (rule lit_append)
  show "depicts fb t (surfaces ?c) (\<lambda>r c dx dy. lit s r c dx dy \<or> (r, c) = cursor_cell s \<and>
       glyph_pixel (framebuffer_glyph (to_ascii_uppercase b)) 2 dx dy)"
    using r depicts_glyph [of fb t "surfaces c" "lit s" b] by (simp add: represents_def cursor_cell_def)
  show "cursor_x (tty_at t ?c) = cell_x (length (last (text_lines ?s)))"
    using r by (simp add: tty_at_update states_length [OF r] represents_def cell_x_def USER_CONSOLE_CHARACTER_WIDTH_def)
qed (use r in \<open>simp_all add: tty_at_update states_length [OF r] represents_def\<close>)

lemma represents_put:
  assumes r: "represents fb t s c"
  shows "represents fb t (spec_put (fit_rows (fb_height fb)) (fit_columns (fb_width fb)) b s)
    (put_character t (tty_frame t fb) b c)"
proof -
  have x: "cursor_x (tty_at t c) = cell_x (length (last (text_lines s)))" using r by (simp add: represents_def)
  show ?thesis
    using r represents_newline [OF r] represents_append [OF r] represents_append [OF represents_newline [OF r]]
    by (simp add: spec_put_def put_character_def Let_def x columns_full)
qed

lemma represents_puts:
  "represents fb t s c \<Longrightarrow>
   represents fb t (fold (spec_put (fit_rows (fb_height fb)) (fit_columns (fb_width fb))) bs s)
     (fold (put_character t (tty_frame t fb)) bs c)"
  by (induction bs arbitrary: s c) (simp_all add: represents_put)

lemma presents_write:
  assumes r: "represents fb t s c"
  shows "presents fb t (spec_write (fit_rows (fb_height fb)) (fit_columns (fb_width fb)) bs s)
    (user_console_write t bs c)"
proof -
  have i: "installed fb c" and t: "t < TTY_COUNT" using r by (simp_all add: represents_def)
  from presents_blit [OF represents_show [OF represents_puts [OF represents_hide [OF r]]]] show ?thesis
    by (simp add: user_console_write_def spec_write_def installed_target [OF i] t Let_def)
qed

lemma lit_drop:
  assumes "text_lines s \<noteq> []" and "last (text_lines s) \<noteq> []"
    and s': "s' = s\<lparr>text_lines := butlast (text_lines s) @ [butlast (last (text_lines s))]\<rparr>"
  shows "lit (s'\<lparr>marks := marks s' - {cursor_cell s'}\<rparr>) = (\<lambda>r c dx dy. lit s r c dx dy \<and> (r, c) \<noteq> cursor_cell s')"
proof -
  obtain ls l b where e: "text_lines s = ls @ [l @ [b]]" using assms(1,2) by (metis append_butlast_last_id)
  show ?thesis unfolding s'
    by (auto simp: e fun_eq_iff lit_def cursor_cell_def nth_append less_Suc_eq)
qed

lemma represents_erase:
  assumes r: "represents fb t s c" and l: "last (text_lines s) \<noteq> []"
    and s': "s' = s\<lparr>text_lines := butlast (text_lines s) @ [butlast (last (text_lines s))]\<rparr>"
    and x: "x = cursor_x (tty_at t c) - USER_CONSOLE_CHARACTER_WIDTH" and y: "y = cursor_y (tty_at t c)"
  shows "represents fb t (s'\<lparr>marks := marks s' - {cursor_cell s'}\<rparr>)
    (update_tty t (\<lambda>u. u\<lparr>cursor_x := x\<rparr>)
      (on_pixels (paint (tty_frame t fb) [x..<x + USER_CONSOLE_CHARACTER_WIDTH] [y..<y + USER_CONSOLE_LINE_HEIGHT]
         USER_CONSOLE_BACKGROUND) c))" (is "represents fb t ?s ?c")
proof (rule representsI [OF r])
  show "worked t fb c ?c" by (rule worked_trans [OF worked_paint worked_update]) simp
  have n: "text_lines s \<noteq> []" using r by (simp add: represents_def)
  show "lit ?s = (\<lambda>r c dx dy. lit s r c dx dy \<and> (r, c) \<noteq> cursor_cell s')" by (rule lit_drop [OF n l s'])
  have len: "length (last (text_lines s')) = length (last (text_lines s)) - 1" "length (text_lines s') = length (text_lines s)"
    using n by (simp_all add: s')
  have xc: "x = cell_x (length (last (text_lines s')))"
    using r l by (cases "last (text_lines s)") (simp_all add: x len represents_def cell_x_def USER_CONSOLE_CHARACTER_WIDTH_def)
  have yc: "y = cell_y (length (text_lines s') - 1)" using r by (simp add: y len represents_def)
  show "depicts fb t (surfaces ?c) (\<lambda>r c dx dy. lit s r c dx dy \<and> (r, c) \<noteq> cursor_cell s')"
    unfolding surfaces_update surfaces_on_pixels xc yc cursor_cell_def USER_CONSOLE_CHARACTER_WIDTH_def USER_CONSOLE_LINE_HEIGHT_def
    by (rule depicts_erase) (use r in \<open>simp add: represents_def\<close>)
  show "cursor_x (tty_at t ?c) = cell_x (length (last (text_lines ?s)))"
    using xc by (simp add: tty_at_update states_length [OF r])
  show "cursor_y (tty_at t ?c) = cell_y (length (text_lines ?s) - 1)"
    using r by (simp add: tty_at_update states_length [OF r] len represents_def)
qed (use r in \<open>simp_all add: tty_at_update states_length [OF r] represents_def s'\<close>)

lemma hidden_lines [simp]: "text_lines (spec_hide s) = text_lines s" "text_lines (spec_show s) = text_lines s"
  "blink (spec_hide s) = blink s" "blink (spec_show s) = blink s"
  by (simp_all add: spec_hide_def spec_show_def)

lemma cursor_cell_hidden [simp]: "cursor_cell (spec_hide s) = cursor_cell s" "cursor_cell (spec_show s) = cursor_cell s"
  by (simp_all add: cursor_cell_def)

lemma render_outside_cursor:
  assumes "text_lines s \<noteq> []" and "\<not> under_cursor s x y"
  shows "render (spec_show (spec_hide s)) x y = render s x y"
proof (cases "shown s")
  case True
  then show ?thesis using assms by (auto simp: under_cursor_def render_def render_with_def lit_show lit_hide)
next
  case False
  then have "spec_hide s = s" by (simp add: spec_hide_def)
  then show ?thesis using assms(2) by (auto simp: under_cursor_def render_def render_with_def lit_show)
qed

lemma paint_primary: "paint (tty_frame t fb) xs ys color px Primary = px Primary"
  using confined_paint [of "tty_frame t fb" px xs ys color] by (auto simp: confined_def fun_eq_iff)

lemma presents_backspace:
  assumes p: "presents fb t s c"
  shows "presents fb t (spec_backspace s) (user_console_backspace t c)"
proof -
  have r: "represents fb t s c" using p by (rule presents_represents)
  then have i: "installed fb c" and t: "t < TTY_COUNT" and n: "text_lines s \<noteq> []" by (simp_all add: represents_def)
  note h = represents_hide [OF r]
  have x: "cursor_x (tty_at t (hide_cursor t (tty_frame t fb) c)) = cell_x (length (last (text_lines s)))"
    using h by (simp add: represents_def)
  have margin: "cell_x n \<le> USER_CONSOLE_MARGIN \<longleftrightarrow> n = 0" for n by (simp add: cell_x_def USER_CONSOLE_MARGIN_def)
  show ?thesis
  proof (cases "last (text_lines s) = []")
    case True
    let ?c = "show_cursor t (tty_frame t fb) (hide_cursor t (tty_frame t fb) c)"
    have same: "surfaces ?c Primary = surfaces c Primary"
      by (simp add: show_cursor_def hide_cursor_def paint_cursor_def paint_primary Let_def)
    have "active_tty ?c = active_tty c" using worked_trans [OF worked_hide worked_show] by (simp add: worked_def)
    moreover have "mirrors fb (spec_show (spec_hide s)) ?c" if "mirrors fb s c"
      by (rule mirrors_same [OF that same])
        (use i render_outside_cursor [OF n] in \<open>auto simp: installed_def display_ok_def under_cursor_def\<close>)
    ultimately have "presents fb t (spec_show (spec_hide s)) ?c"
      using p represents_show [OF h] by (auto simp: presents_def)
    then show ?thesis using True
      by (simp add: user_console_backspace_def installed_target [OF i] t Let_def x margin spec_backspace_def)
  next
    case False
    note e = represents_erase [OF h _ refl refl refl, unfolded hidden_lines, OF False]
    from presents_blit [OF represents_show [OF e]] show ?thesis using False
      by (simp add: user_console_backspace_def installed_target [OF i] t Let_def margin spec_backspace_def x)
  qed
qed

lemma represents_blink:
  assumes r: "represents fb t s c" and f: "\<And>u. f u = u\<lparr>blink_ticks := g (blink_ticks u)\<rparr>"
  shows "represents fb t (s\<lparr>blink := g (blink s)\<rparr>) (update_tty t f c)"
  by (rule representsI [OF r worked_update, where L = "lit s"])
    (use r in \<open>auto simp: f tty_at_update states_length [OF r] represents_def fun_eq_iff lit_def\<close>)

lemma active_update: "active_tty (update_tty t f c) = active_tty c"
  by (simp add: update_tty_def)

lemma presents_tick:
  assumes p: "presents fb t s c"
  shows "presents fb t (spec_tick s) (tick_tty t c)"
proof -
  have r: "represents fb t s c" using p by (rule presents_represents)
  then have i: "installed fb c" and t: "t < TTY_COUNT" by (simp_all add: represents_def)
  note r1 = represents_blink [OF r, where g = "\<lambda>b. b + 1", OF refl]
  note r2 = represents_blink [OF r1, where g = "\<lambda>_. 0", OF refl]
  have b: "blink_ticks (tty_at t c) = blink s" "cursor_visible (tty_at t c) = shown s" using r by (simp_all add: represents_def)
  have "mirrors fb (s\<lparr>blink := v\<rparr>) (update_tty t f c)" if "mirrors fb s c" for v f
    by (rule mirrors_same [OF that])
      (use i in \<open>auto simp: installed_def display_ok_def under_cursor_def cursor_cell_def render_def render_with_def lit_def\<close>)
  then have p1: "presents fb t (s\<lparr>blink := blink s + 1\<rparr>) (update_tty t (\<lambda>u. u\<lparr>blink_ticks := blink_ticks u + 1\<rparr>) c)"
    using p r1 by (auto simp: presents_def active_update)
  show ?thesis
    using p1 presents_blit [OF represents_show [OF r2]] presents_blit [OF represents_hide [OF r2]]
    by (simp add: tick_tty_def installed_target [OF i] t Let_def spec_tick_def tty_at_update states_length [OF r] b)
qed

end
