(* ===== verification/Displays.thy ===== *)
theory Displays
  imports Terminals
begin

text \<open>
  Runs of the console: any sequence of writes, clears, backspaces, timer ticks, scancodes and
  polls after the console was enabled.  The abstract console is a desk of text screens with a
  selected one, the state of the Alt key and one pending scancode per terminal.
\<close>

section \<open>Runs\<close>

datatype console_op = ConsoleWrite nat "u8 list" | ConsoleClear nat | ConsoleBackspace nat
  | ConsoleTick | Scancode u8 | ConsolePoll nat

fun console_step :: "console_op \<Rightarrow> terminals \<Rightarrow> u8 option \<times> terminals" where
  "console_step (ConsoleWrite t bs) c = (None, user_console_write t bs c)"
| "console_step (ConsoleClear t) c = (None, user_console_clear t c)"
| "console_step (ConsoleBackspace t) c = (None, user_console_backspace t c)"
| "console_step ConsoleTick c = (None, user_console_tick c)"
| "console_step (Scancode b) c = (None, handle_scancode b c)"
| "console_step (ConsolePoll t) c = poll_user_key t c"

fun console_run :: "console_op list \<Rightarrow> terminals \<Rightarrow> u8 option list \<times> terminals" where
  "console_run [] c = ([], c)"
| "console_run (op # ops) c =
     (case console_step op c of (a, c) \<Rightarrow> case console_run ops c of (as, c) \<Rightarrow> (a # as, c))"

section \<open>The abstract console\<close>

record desk =
  screens :: "nat \<Rightarrow> text_screen"
  pending :: "nat \<Rightarrow> u8"
  selected :: nat
  alt :: bool

definition on_screen :: "nat \<Rightarrow> (text_screen \<Rightarrow> text_screen) \<Rightarrow> desk \<Rightarrow> desk" where
  "on_screen t f d = (if t < TTY_COUNT then d\<lparr>screens := (screens d)(t := f (screens d t))\<rparr> else d)"

definition spec_scancode :: "u8 \<Rightarrow> desk \<Rightarrow> desk" where
  "spec_scancode b d =
     (if b = SCANCODE_ALT_MAKE then d\<lparr>alt := True\<rparr>
      else if b = SCANCODE_ALT_BREAK then d\<lparr>alt := False\<rparr>
      else if alt d \<and> SCANCODE_F1 \<le> b \<and> b < SCANCODE_F1 + of_nat TTY_COUNT
      then d\<lparr>selected := unat (b - SCANCODE_F1)\<rparr>
      else if b AND 0x80 = 0 then d\<lparr>pending := (pending d)(selected d := b)\<rparr> else d)"

fun desk_step :: "nat \<Rightarrow> nat \<Rightarrow> console_op \<Rightarrow> desk \<Rightarrow> u8 option \<times> desk" where
  "desk_step rows columns (ConsoleWrite t bs) d = (None, on_screen t (spec_write rows columns bs) d)"
| "desk_step rows columns (ConsoleClear t) d = (None, on_screen t spec_clear d)"
| "desk_step rows columns (ConsoleBackspace t) d = (None, on_screen t spec_backspace d)"
| "desk_step rows columns ConsoleTick d = (None, fold (\<lambda>t. on_screen t spec_tick) [0..<TTY_COUNT] d)"
| "desk_step rows columns (Scancode b) d = (None, spec_scancode b d)"
| "desk_step rows columns (ConsolePoll t) d =
     (if TTY_COUNT \<le> t then (None, d)
      else (if pending d t = 0 then None else decode_scancode (pending d t), d\<lparr>pending := (pending d)(t := 0)\<rparr>))"

fun desk_run :: "nat \<Rightarrow> nat \<Rightarrow> console_op list \<Rightarrow> desk \<Rightarrow> u8 option list \<times> desk" where
  "desk_run rows columns [] d = ([], d)"
| "desk_run rows columns (op # ops) d =
     (case desk_step rows columns op d of (a, d) \<Rightarrow>
        case desk_run rows columns ops d of (as, d) \<Rightarrow> (a # as, d))"

definition text_empty :: text_screen where
  "text_empty = \<lparr>text_lines = [[]], marks = {(0, 0)}, shown = True, blink = 0\<rparr>"

definition desk_initial :: desk where
  "desk_initial = \<lparr>screens = (\<lambda>_. text_empty), pending = (\<lambda>_. 0), selected = 0, alt = False\<rparr>"

section \<open>Refinement\<close>

definition consistent :: "framebuffer \<Rightarrow> desk \<Rightarrow> terminals \<Rightarrow> bool" where
  "consistent fb d c \<longleftrightarrow> installed fb c \<and>
     (\<forall>t < TTY_COUNT. presents fb t (screens d t) c \<and> pending_key (tty_at t c) = pending d t) \<and>
     active_tty c = selected d \<and> alt_held c = alt d"

lemma mirrors_kept:
  assumes w: "worked t fb c c'" and i: "installed fb c" and t: "t \<noteq> active_tty c" and m: "mirrors fb s c"
  shows "mirrors fb s c'"
proof (rule mirrors_same [OF m])
  have "surfaces c' Primary i = surfaces c Primary i" for i
    using w t unfolding worked_def by (metis surface.distinct(1))
  then show "surfaces c' Primary = surfaces c Primary" by (rule ext)
qed (use i in \<open>simp_all add: installed_def display_ok_def\<close>)

lemma presents_elsewhere:
  assumes p: "presents fb u s c" and w: "worked t fb c c'" and ut: "u \<noteq> t"
  shows "presents fb u s c'"
proof -
  have r: "represents fb u s c" and i: "installed fb c" using p by (simp_all add: presents_def represents_def)
  have "active_tty c' = active_tty c" using w by (simp add: worked_def)
  then show ?thesis
    using p represents_elsewhere [OF r w ut] mirrors_kept [OF w i] ut by (auto simp: presents_def)
qed

text \<open>An operation on one terminal.\<close>

lemma consistent_on_screen:
  assumes d: "consistent fb d c" and w: "worked t fb c c'" and t: "t < TTY_COUNT"
    and p: "presents fb t (f (screens d t)) c'"
  shows "consistent fb (on_screen t f d) c'"
proof -
  have "presents fb u (screens (on_screen t f d) u) c' \<and> pending_key (tty_at u c') = pending (on_screen t f d) u"
    if u: "u < TTY_COUNT" for u
  proof (cases "u = t")
    case True
    then show ?thesis using p d w t by (simp add: on_screen_def consistent_def worked_def)
  next
    case False
    then have "presents fb u (screens d u) c'" using d w u presents_elsewhere by (auto simp: consistent_def)
    then show ?thesis using False d w u t by (simp add: on_screen_def consistent_def worked_def)
  qed
  then show ?thesis
    using d t w worked_installed [OF w] by (simp add: consistent_def on_screen_def) (simp add: worked_def)
qed

lemma beyond_terminals:
  assumes "installed fb c" and "\<not> t < TTY_COUNT"
  shows "user_console_write t bs c = c" "clear_tty t c = c" "user_console_backspace t c = c" "tick_tty t c = c"
  using assms by (simp_all add: user_console_write_def clear_tty_def user_console_backspace_def tick_tty_def installed_target)

lemma consistent_screen_ops:
  assumes d: "consistent fb d c"
  shows "consistent fb (on_screen t (spec_write (fit_rows (fb_height fb)) (fit_columns (fb_width fb)) bs) d) (user_console_write t bs c)"
    and "consistent fb (on_screen t spec_clear d) (clear_tty t c)"
    and "consistent fb (on_screen t spec_backspace d) (user_console_backspace t c)"
    and "consistent fb (on_screen t spec_tick d) (tick_tty t c)"
proof -
  have i: "installed fb c" using d by (simp add: consistent_def)
  have p: "presents fb t (screens d t) c" if "t < TTY_COUNT" using d that by (simp add: consistent_def)
  note r = presents_represents [OF p]
  have clear: "presents fb t (spec_clear (screens d t)) (clear_tty t c)" if "t < TTY_COUNT"
    by (rule presents_cleared [OF i that]) (use r [OF that] in \<open>simp add: represents_def\<close>)
  have on: "consistent fb (on_screen t f d) c'"
    if "worked t fb c c'" "t < TTY_COUNT \<Longrightarrow> presents fb t (f (screens d t)) c'" "\<not> t < TTY_COUNT \<Longrightarrow> c' = c" for f c'
    using consistent_on_screen [where f = f, OF d that(1)] that(2,3) d
    by (cases "t < TTY_COUNT") (simp_all add: on_screen_def)
  show "consistent fb (on_screen t (spec_write (fit_rows (fb_height fb)) (fit_columns (fb_width fb)) bs) d) (user_console_write t bs c)"
    by (rule on [OF worked_write [OF i]]) (simp_all add: presents_write [OF r] beyond_terminals [OF i])
  show "consistent fb (on_screen t spec_clear d) (clear_tty t c)"
    by (rule on [OF worked_clear [OF i]]) (simp_all add: clear beyond_terminals [OF i])
  show "consistent fb (on_screen t spec_backspace d) (user_console_backspace t c)"
    by (rule on [OF worked_backspace [OF i]]) (simp_all add: presents_backspace [OF p] beyond_terminals [OF i])
  show "consistent fb (on_screen t spec_tick d) (tick_tty t c)"
    by (rule on [OF worked_tick [OF i]]) (simp_all add: presents_tick [OF p] beyond_terminals [OF i])
qed

lemma consistent_ticks:
  "consistent fb d c \<Longrightarrow> consistent fb (fold (\<lambda>t. on_screen t spec_tick) ts d) (fold tick_tty ts c)"
  by (induction ts arbitrary: d c) (simp_all add: consistent_screen_ops)

section \<open>The keyboard\<close>

text \<open>The pending key of a terminal is independent of what it shows.\<close>

lemma presents_pending:
  assumes "presents fb u s c"
  shows "presents fb u s (update_tty t (\<lambda>s. s\<lparr>pending_key := k\<rparr>) c)"
  using assms
  by (auto simp: presents_def represents_def installed_def mirrors_def tty_at_update active_update) (simp_all add: update_tty_def)

lemma installed_pending: "installed fb c \<Longrightarrow> installed fb (update_tty t f c)"
  by (simp add: installed_def update_tty_def)

lemma consistent_pending:
  assumes d: "consistent fb d c"
  shows "consistent fb (d\<lparr>pending := (pending d)(t := k)\<rparr>) (update_tty t (\<lambda>s. s\<lparr>pending_key := k\<rparr>) c)"
proof -
  have "length (tty_states c) = TTY_COUNT" using d by (simp add: consistent_def installed_def)
  then show ?thesis
    using d presents_pending installed_pending
    by (simp add: consistent_def tty_at_update active_update) (simp add: update_tty_def)
qed

lemma consistent_alt: "consistent fb d c \<Longrightarrow> consistent fb (d\<lparr>alt := b\<rparr>) (c\<lparr>alt_held := b\<rparr>)"
  by (simp add: consistent_def presents_def represents_def installed_def mirrors_def tty_at_def)

lemma consistent_switch:
  assumes d: "consistent fb d c" and t: "t < TTY_COUNT"
  shows "consistent fb (d\<lparr>selected := t\<rparr>) (switch_tty t c)"
proof -
  let ?c = "c\<lparr>active_tty := t\<rparr>"
  have i: "installed fb ?c" using d t by (simp add: consistent_def installed_def)
  have r: "represents fb u (screens d u) ?c" if "u < TTY_COUNT" for u
    using d i that by (simp add: consistent_def presents_def represents_def tty_at_def)
  have e: "switch_tty t c = blit_if_active t (tty_frame t fb) ?c"
    using t installed_target [OF i, of t] i by (simp add: switch_tty_def blit_if_active_def installed_def)
  note w = worked_blit [OF i, of t]
  have "presents fb u (screens d u) (switch_tty t c)" if "u < TTY_COUNT" for u
  proof (cases "u = t")
    case True
    then show ?thesis unfolding e using presents_blit [OF r [OF that]] by simp
  next
    case False
    have "active_tty (switch_tty t c) = t" unfolding e using w by (simp add: worked_def)
    then show ?thesis unfolding e using represents_elsewhere [OF r [OF that] w False] False by (simp add: presents_def)
  qed
  then show ?thesis
    using d w worked_installed [OF w i] unfolding e by (simp add: consistent_def) (simp add: worked_def tty_at_def)
qed

lemma function_key: "SCANCODE_F1 \<le> b \<Longrightarrow> b < SCANCODE_F1 + of_nat TTY_COUNT \<Longrightarrow> unat (b - SCANCODE_F1) < TTY_COUNT"
  by (simp add: SCANCODE_F1_def TTY_COUNT_def unat_sub word_le_nat_alt word_less_nat_alt)

lemma consistent_step:
  assumes d: "consistent fb d c"
  shows "fst (console_step op c) = fst (desk_step (fit_rows (fb_height fb)) (fit_columns (fb_width fb)) op d)"
    and "consistent fb (snd (desk_step (fit_rows (fb_height fb)) (fit_columns (fb_width fb)) op d)) (snd (console_step op c))"
proof -
  note ops = consistent_screen_ops [OF d] consistent_ticks [OF d] consistent_pending [OF d] consistent_alt [OF d]
  have sel: "active_tty c = selected d" "alt_held c = alt d" using d by (simp_all add: consistent_def)
  have pend: "pending_key (tty_at t c) = pending d t" if "t < TTY_COUNT" for t using d that by (simp add: consistent_def)
  show "fst (console_step op c) = fst (desk_step (fit_rows (fb_height fb)) (fit_columns (fb_width fb)) op d)"
    using pend by (cases op) (simp_all add: poll_user_key_def Let_def)
  show "consistent fb (snd (desk_step (fit_rows (fb_height fb)) (fit_columns (fb_width fb)) op d)) (snd (console_step op c))"
  proof (cases op)
    case (Scancode b)
    then show ?thesis
      using ops(6-7) consistent_switch [OF d function_key] d by (simp add: handle_scancode_def spec_scancode_def sel)
  next
    case (ConsolePoll t)
    then show ?thesis using ops(6) [of t 0] d by (simp add: poll_user_key_def Let_def)
  qed (simp_all add: ops user_console_clear_def user_console_tick_def)
qed

lemma consistent_run:
  assumes "consistent fb d c"
  shows "fst (console_run ops c) = fst (desk_run (fit_rows (fb_height fb)) (fit_columns (fb_width fb)) ops d) \<and>
    consistent fb (snd (desk_run (fit_rows (fb_height fb)) (fit_columns (fb_width fb)) ops d)) (snd (console_run ops c))"
  using assms
proof (induction ops arbitrary: c d)
  case (Cons op ops)
  from Cons.IH [OF consistent_step(2) [OF Cons.prems, of op]] consistent_step(1) [OF Cons.prems, of op]
  show ?case by (simp add: split_beta)
qed simp

section \<open>The console after start-up\<close>

definition console_boot :: "framebuffer \<Rightarrow> (nat \<Rightarrow> u8) \<Rightarrow> terminals" where
  "console_boot fb hardware = enable_user_console fb (terminals_initial hardware)"



lemma spec_clear_empty: "spec_clear text_empty = text_empty"
  by (simp add: spec_clear_def spec_show_def text_empty_def cursor_cell_def)

lemma boot_consistent:
  assumes fb: "display_ok fb"
  shows "consistent fb desk_initial (console_boot fb hardware)"
proof -
  define c0 where "c0 = (terminals_initial hardware)\<lparr>primary_framebuffer := Some fb, multi_tty_enabled := True\<rparr>"
  define c1 where "c1 = clear_tty 0 c0"
  define c2 where "c2 = clear_tty 1 c1"
  define c3 where "c3 = clear_tty 2 c2"
  have i0: "installed fb c0" using fb by (simp add: c0_def installed_def terminals_initial_def TTY_COUNT_def)
  note w1 = worked_clear [OF i0, of 0, folded c1_def] note i1 = worked_installed [OF w1 i0]
  note w2 = worked_clear [OF i1, of 1, folded c2_def] note i2 = worked_installed [OF w2 i1]
  note w3 = worked_clear [OF i2, of 2, folded c3_def] note i3 = worked_installed [OF w3 i2]
  have at0: "tty_at t c0 = tty_state_empty" if "t < TTY_COUNT" for t
    using that by (simp add: c0_def terminals_initial_def tty_at_def)
  have other: "tty_at 1 c1 = tty_at 1 c0" "tty_at 2 c2 = tty_at 2 c0"
    using w1 w2 by (simp_all add: worked_def)
  have fresh: "presents fb t text_empty (clear_tty t c)" if "installed fb c" "t < TTY_COUNT" "tty_at t c = tty_state_empty" for t c
    using presents_cleared [OF that(1,2), of text_empty] that(3)
    by (simp add: spec_clear_empty) (simp add: text_empty_def tty_state_empty_def)
  have "presents fb 0 text_empty c1" "presents fb 1 text_empty c2" "presents fb 2 text_empty c3"
    using fresh [OF i0, of 0, folded c1_def] fresh [OF i1, of 1, folded c2_def] fresh [OF i2, of 2, folded c3_def]
    by (simp_all add: at0 other TTY_COUNT_def del: One_nat_def)
  then have p: "presents fb 0 text_empty c3" "presents fb 1 text_empty c3" "presents fb 2 text_empty c3"
    using presents_elsewhere [OF presents_elsewhere [OF _ w2] w3] presents_elsewhere [OF _ w3] by simp_all
  have k: "pending_key (tty_at t c3) = 0" if "t < TTY_COUNT" for t
  proof -
    have "pending_key (tty_at t c') = pending_key (tty_at t c)" if "worked u fb c c'" for u c c'
      using that by (cases "u = t") (simp_all add: worked_def)
    then show ?thesis using w1 w2 w3 at0 [OF that] by (simp add: tty_state_empty_def)
  qed
  have "t = 0 \<or> t = 1 \<or> t = 2" if "t < TTY_COUNT" for t using that by (auto simp: TTY_COUNT_def)
  moreover have "active_tty c3 = 0 \<and> \<not> alt_held c3"
    using w1 w2 w3 by (simp add: worked_def) (simp add: c0_def terminals_initial_def)
  ultimately have "consistent fb desk_initial c3" using p k i3 by (auto simp: consistent_def desk_initial_def)
  moreover have "console_boot fb hardware = c3"
    using fb by (simp add: console_boot_def enable_user_console_def c3_def c2_def c1_def c0_def display_ok_def
      TTY_COUNT_def numeral_3_eq_3 numeral_2_eq_2)
  ultimately show ?thesis by simp
qed

section \<open>Properties\<close>

text \<open>
  C23: after any run of writes, clears, backspaces, ticks, scancodes and polls, the buffer of every
  terminal is the rendering of its text, and every poll answered what the abstract console answers.
\<close>

theorem console_renders_text:
  assumes "display_ok fb"
  shows "case (console_run ops (console_boot fb hardware),
               desk_run (fit_rows (fb_height fb)) (fit_columns (fb_width fb)) ops desk_initial) of
     ((answers, c), (answers', d)) \<Rightarrow>
       answers = answers' \<and>
       {(t, x, y). t < TTY_COUNT \<and> x < fb_width fb \<and> y < fb_height fb \<and>
          view (tty_frame t fb) (surfaces c) x y \<noteq> render (screens d t) x y} = {}"
  using consistent_run [OF boot_consistent [OF assms, of hardware], of ops]
  by (auto simp: consistent_def presents_def represents_def depicts_def render_def split: prod.splits)

theorem console_renders_text_witness:
  "case (console_run [ConsoleWrite 0 (ascii ''A''), Scancode 0x1E, ConsolePoll 0]
           (console_boot \<lparr>fb_address = Primary, fb_width = 100, fb_height = 90, fb_pitch = 512, bits_per_pixel = 32\<rparr> (\<lambda>_. 7)),
         desk_run (fit_rows 90) (fit_columns 100) [ConsoleWrite 0 (ascii ''A''), Scancode 0x1E, ConsolePoll 0] desk_initial) of
     ((answers, c), (answers', d)) \<Rightarrow>
       answers = answers' \<and>
       {(t, x, y). t < TTY_COUNT \<and> x < 100 \<and> y < 90 \<and>
          view (tty_frame t \<lparr>fb_address = Primary, fb_width = 100, fb_height = 90, fb_pitch = 512, bits_per_pixel = 32\<rparr>)
            (surfaces c) x y \<noteq> render (screens d t) x y} = {}"
  using console_renders_text [of "\<lparr>fb_address = Primary, fb_width = 100, fb_height = 90, fb_pitch = 512, bits_per_pixel = 32\<rparr>"
      "[ConsoleWrite 0 (ascii ''A''), Scancode 0x1E, ConsolePoll 0]" "\<lambda>_. 7"]
  by (simp add: display_ok_def rows_fit_def MAX_TTY_WIDTH_def MAX_TTY_HEIGHT_def)



text \<open>
  Two things the specification shows.  A clear in the middle of a write draws the cursor, and the
  characters after it leave that underline behind; and the key of the digit zero decodes to a colon.
\<close>

lemma scroll_leaves_underline:
  "let s = spec_write 1 8 (ascii ''A'' @ [10] @ ascii ''B'') text_empty
   in (0, 0) \<in> marks s \<and> cursor_cell s = (0, 1)"
  by (simp add: spec_write_def spec_put_def spec_newline_def spec_clear_def spec_show_def spec_hide_def
      text_empty_def cursor_cell_def ascii_def Let_def)

lemma zero_key_is_colon: "decode_scancode 0x0B = Some (of_char CHR '':'')"
  by (simp add: decode_scancode_def)

end
