(* ===== verification/ConsoleSafety.thy ===== *)
theory ConsoleSafety
  imports Displays
begin

text \<open>
  Memory safety of the console for every framebuffer, also one that is too large or of another
  pixel size, where the first terminal draws on the hardware itself: whatever is run, only the
  pixels of the hardware framebuffer and the bytes of the three terminal buffers are written.
\<close>

section \<open>Writes stay inside\<close>

definition writable :: "framebuffer \<Rightarrow> surface \<Rightarrow> nat \<Rightarrow> bool" where
  "writable fb a i \<longleftrightarrow>
     (case a of Primary \<Rightarrow> i \<in> pixel_bytes fb | TtyBuffer t \<Rightarrow> t < TTY_COUNT \<and> i < TTY_BUFFER_BYTES)"


definition safe :: "framebuffer \<Rightarrow> terminals \<Rightarrow> terminals \<Rightarrow> bool" where
  "safe fb c c' \<longleftrightarrow> primary_framebuffer c' = primary_framebuffer c \<and> multi_tty_enabled c' = multi_tty_enabled c \<and>
     (\<forall>a i. surfaces c' a i \<noteq> surfaces c a i \<longrightarrow> writable fb a i)"


lemma safe_refl [simp]: "safe fb c c"
  by (simp add: safe_def)
























end
