(* ===== verification/Timers.thy ===== *)
theory Timers
  imports Threads
begin

text \<open>
  Time in \<open>kernel-core/src/arch.rs\<close>: the tick counter of the timer interrupt, the table of
  sleeping threads, the table of futex waiters, and the system calls on them.  The tables have
  eight slots each; a deadline is compared modulo the wrap-around of the counter.
\<close>

section \<open>Data\<close>

definition PIT_HZ :: u64 where "PIT_HZ = 100"
definition MAX_SLEEPERS :: nat where "MAX_SLEEPERS = 8"
definition MAX_FUTEX_WAITERS :: nat where "MAX_FUTEX_WAITERS = 8"

record sleeper =
  sleeper_thread :: nat
  sleeper_deadline :: u64

record futex_waiter =
  waiter_address :: u64
  waiter_thread :: nat
  waiter_deadline :: "u64 option"

record timers =
  timer_ticks :: u64
  sleepers :: "sleeper option list"
  futex_waiters :: "futex_waiter option list"

definition timers_initial :: timers where
  "timers_initial = \<lparr>timer_ticks = 0, sleepers = replicate MAX_SLEEPERS None,
     futex_waiters = replicate MAX_FUTEX_WAITERS None\<rparr>"

section \<open>The clock\<close>

definition saturating_mul :: "u64 \<Rightarrow> u64 \<Rightarrow> u64" where
  "saturating_mul a b = (if unat a * unat b < 2 ^ 64 then a * b else - 1)"

definition monotonic_milliseconds :: "timers \<Rightarrow> u64" where
  "monotonic_milliseconds t = saturating_mul (timer_ticks t) (1000 div PIT_HZ)"

text \<open>The duration in ticks, rounded up and at least one; and the deadline.\<close>

definition duration_ticks :: "u64 \<Rightarrow> u64" where
  "duration_ticks milliseconds = max (saturating_add milliseconds 9 div 10) 1"

definition deadline_after :: "u64 \<Rightarrow> timers \<Rightarrow> u64" where
  "deadline_after milliseconds t = timer_ticks t + duration_ticks milliseconds"

definition expired :: "u64 \<Rightarrow> u64 \<Rightarrow> bool" where
  "expired ticks deadline \<longleftrightarrow> ticks - deadline < 2 ^ 63"

section \<open>Sleeping\<close>

definition syscall_sleep :: "u64 \<Rightarrow> timers \<Rightarrow> kernel \<Rightarrow> u64 \<times> timers \<times> kernel" where
  "syscall_sleep milliseconds t k =
     (if milliseconds = 0 then (0, t, k)
      else case current_id k of
        None \<Rightarrow> (u64_max, t, k)
      | Some thread \<Rightarrow>
          (case find_index (\<lambda>slot. slot = None) (sleepers t) of
             None \<Rightarrow> (u64_max, t, k)
           | Some i \<Rightarrow>
               (0, t\<lparr>sleepers := (sleepers t)[i := Some \<lparr>sleeper_thread = thread,
                       sleeper_deadline = deadline_after milliseconds t\<rparr>]\<rparr>, block_current k)))"

fun wake_expired_sleepers :: "u64 \<Rightarrow> sleeper option list \<Rightarrow> kernel \<Rightarrow> sleeper option list \<times> kernel" where
  "wake_expired_sleepers ticks [] k = ([], k)"
| "wake_expired_sleepers ticks (slot # slots) k =
     (let (slot, k) = (case slot of
          None \<Rightarrow> (None, k)
        | Some entry \<Rightarrow>
            if expired ticks (sleeper_deadline entry) then (None, snd (wake (sleeper_thread entry) k))
            else (Some entry, k))
      in case wake_expired_sleepers ticks slots k of (slots, k) \<Rightarrow> (slot # slots, k))"

section \<open>Futexes\<close>

text \<open>\<open>actual\<close> is the word at the address; the range check of the address is made by the caller.\<close>

definition futex_wait :: "u64 \<Rightarrow> u32 \<Rightarrow> u32 \<Rightarrow> u64 \<Rightarrow> timers \<Rightarrow> kernel \<Rightarrow> u64 \<times> timers \<times> kernel" where
  "futex_wait address actual expected timeout_milliseconds t k =
     (if actual \<noteq> expected then (1, t, k)
      else case current_id k of
        None \<Rightarrow> (u64_max, t, k)
      | Some thread \<Rightarrow>
          (case find_index (\<lambda>slot. slot = None) (futex_waiters t) of
             None \<Rightarrow> (u64_max, t, k)
           | Some i \<Rightarrow>
               (0, t\<lparr>futex_waiters := (futex_waiters t)[i := Some \<lparr>waiter_address = address,
                       waiter_thread = thread,
                       waiter_deadline = (if timeout_milliseconds = u64_max then None
                                          else Some (deadline_after timeout_milliseconds t))\<rparr>]\<rparr>,
                block_current k)))"

text \<open>The loop of \<open>syscall_futex_wake\<close>: \<open>woken\<close> counts the threads made ready so far.\<close>

fun wake_futexes :: "u64 \<Rightarrow> u64 \<Rightarrow> u64 \<Rightarrow> futex_waiter option list \<Rightarrow> kernel \<Rightarrow>
    u64 \<times> futex_waiter option list \<times> kernel" where
  "wake_futexes address count woken [] k = (woken, [], k)"
| "wake_futexes address count woken (slot # slots) k =
     (let (woken, slot, k) = (case slot of
          None \<Rightarrow> (woken, None, k)
        | Some entry \<Rightarrow>
            if waiter_address entry = address \<and> woken < count
            then (case wake (waiter_thread entry) k of
                    (True, k) \<Rightarrow> (woken + 1, None, k)
                  | (False, k) \<Rightarrow> (woken, None, k))
            else (woken, Some entry, k))
      in case wake_futexes address count woken slots k of
           (woken, slots, k) \<Rightarrow> (woken, slot # slots, k))"

definition futex_wake :: "u64 \<Rightarrow> u64 \<Rightarrow> timers \<Rightarrow> kernel \<Rightarrow> u64 \<times> timers \<times> kernel" where
  "futex_wake address count t k =
     (case wake_futexes address count 0 (futex_waiters t) k of
        (woken, slots, k) \<Rightarrow> (woken, t\<lparr>futex_waiters := slots\<rparr>, k))"

fun wake_expired_futexes :: "u64 \<Rightarrow> futex_waiter option list \<Rightarrow> kernel \<Rightarrow> futex_waiter option list \<times> kernel" where
  "wake_expired_futexes ticks [] k = ([], k)"
| "wake_expired_futexes ticks (slot # slots) k =
     (let (slot, k) = (case slot of
          None \<Rightarrow> (None, k)
        | Some entry \<Rightarrow>
            if (case waiter_deadline entry of None \<Rightarrow> False | Some deadline \<Rightarrow> expired ticks deadline)
            then (None, snd (wake (waiter_thread entry) k)) else (Some entry, k))
      in case wake_expired_futexes ticks slots k of (slots, k) \<Rightarrow> (slot # slots, k))"

section \<open>The timer interrupt\<close>

definition timer_interrupt :: "timers \<Rightarrow> kernel \<Rightarrow> timers \<times> kernel" where
  "timer_interrupt t k =
     (let next_ticks = timer_ticks t + 1;
          (slots, k) = wake_expired_sleepers next_ticks (sleepers t) k;
          (waiters, k) = wake_expired_futexes next_ticks (futex_waiters t) k
      in (\<lparr>timer_ticks = next_ticks, sleepers = slots, futex_waiters = waiters\<rparr>, k))"

end
