(* ===== verification/Deadlines.thy ===== *)
theory Deadlines
  imports Timers Scheduling
begin

text \<open>
  The timers against a specification with countdowns: instead of a deadline a slot holds the number
  of ticks that remain.  The tables refine it from every value of the tick counter, so the
  wrap-around of the counter is invisible.  From the specification: a sleep lasts exactly its
  number of ticks, and a futex wake reaches the waiters it should.
\<close>

section \<open>Runs of the timers\<close>

datatype timer_op = TimerTick | SleepFor u64 | WaitOn u64 u32 u32 u64 | WakeOn u64 u64 | Scheduled sched_op

fun timer_step :: "timer_op \<Rightarrow> timers \<Rightarrow> kernel \<Rightarrow> u64 \<times> timers \<times> kernel" where
  "timer_step TimerTick t k = (0, timer_interrupt t k)"
| "timer_step (SleepFor ms) t k = syscall_sleep ms t k"
| "timer_step (WaitOn address actual expected timeout) t k = futex_wait address actual expected timeout t k"
| "timer_step (WakeOn address count) t k = futex_wake address count t k"
| "timer_step (Scheduled op) t k = (0, t, sched_step op k)"

fun timer_run :: "timer_op list \<Rightarrow> timers \<Rightarrow> kernel \<Rightarrow> u64 list \<times> timers \<times> kernel" where
  "timer_run [] t k = ([], t, k)"
| "timer_run (op # ops) t k =
     (case timer_step op t k of (a, t, k) \<Rightarrow> case timer_run ops t k of (as, t, k) \<Rightarrow> (a # as, t, k))"

section \<open>The specification\<close>

record countdowns =
  sleeping :: "(nat \<times> nat) option list"
  waiting :: "(u64 \<times> nat \<times> nat option) option list"

definition countdowns_initial :: countdowns where
  "countdowns_initial = \<lparr>sleeping = replicate MAX_SLEEPERS None, waiting = replicate MAX_FUTEX_WAITERS None\<rparr>"

text \<open>Milliseconds in ticks of ten, rounded up, at least one.\<close>

definition ticks_for :: "u64 \<Rightarrow> nat" where
  "ticks_for milliseconds = max 1 (min (unat milliseconds + 9) (2 ^ 64 - 1) div 10)"

fun count_down_sleepers :: "(nat \<times> nat) option list \<Rightarrow> kernel \<Rightarrow> (nat \<times> nat) option list \<times> kernel" where
  "count_down_sleepers [] k = ([], k)"
| "count_down_sleepers (None # slots) k = (case count_down_sleepers slots k of (slots, k) \<Rightarrow> (None # slots, k))"
| "count_down_sleepers (Some (thread, n) # slots) k =
     (if n = 1 then (case count_down_sleepers slots (snd (wake thread k)) of (slots, k) \<Rightarrow> (None # slots, k))
      else (case count_down_sleepers slots k of (slots, k) \<Rightarrow> (Some (thread, n - 1) # slots, k)))"

fun count_down_waiters ::
  "(u64 \<times> nat \<times> nat option) option list \<Rightarrow> kernel \<Rightarrow> (u64 \<times> nat \<times> nat option) option list \<times> kernel" where
  "count_down_waiters [] k = ([], k)"
| "count_down_waiters (None # slots) k = (case count_down_waiters slots k of (slots, k) \<Rightarrow> (None # slots, k))"
| "count_down_waiters (Some (a, thread, n) # slots) k =
     (if n = Some 1 then (case count_down_waiters slots (snd (wake thread k)) of (slots, k) \<Rightarrow> (None # slots, k))
      else (case count_down_waiters slots k of (slots, k) \<Rightarrow> (Some (a, thread, map_option (\<lambda>n. n - 1) n) # slots, k)))"

text \<open>Waking in slot order: the count of threads made ready is bounded, stale entries are dropped.\<close>

fun spec_wake :: "u64 \<Rightarrow> nat \<Rightarrow> (u64 \<times> nat \<times> nat option) option list \<Rightarrow> kernel \<Rightarrow>
    nat \<times> (u64 \<times> nat \<times> nat option) option list \<times> kernel" where
  "spec_wake address room [] k = (0, [], k)"
| "spec_wake address room (slot # slots) k =
     (case slot of
        None \<Rightarrow> (case spec_wake address room slots k of (n, slots, k) \<Rightarrow> (n, None # slots, k))
      | Some (a, thread, timeout) \<Rightarrow>
          if a = address \<and> 0 < room then
            (case wake thread k of
               (True, k) \<Rightarrow> (case spec_wake address (room - 1) slots k of (n, slots, k) \<Rightarrow> (Suc n, None # slots, k))
             | (False, k) \<Rightarrow> (case spec_wake address room slots k of (n, slots, k) \<Rightarrow> (n, None # slots, k)))
          else (case spec_wake address room slots k of (n, slots, k) \<Rightarrow> (n, Some (a, thread, timeout) # slots, k)))"

fun spec_timer_step :: "timer_op \<Rightarrow> countdowns \<Rightarrow> kernel \<Rightarrow> u64 \<times> countdowns \<times> kernel" where
  "spec_timer_step TimerTick s k =
     (case count_down_sleepers (sleeping s) k of (slots, k) \<Rightarrow>
        case count_down_waiters (waiting s) k of (waiters, k) \<Rightarrow>
          (0, \<lparr>sleeping = slots, waiting = waiters\<rparr>, k))"
| "spec_timer_step (SleepFor ms) s k =
     (if ms = 0 then (0, s, k)
      else case (current_id k, find_index (\<lambda>slot. slot = None) (sleeping s)) of
             (Some thread, Some i) \<Rightarrow> (0, s\<lparr>sleeping := (sleeping s)[i := Some (thread, ticks_for ms)]\<rparr>, block_current k)
           | _ \<Rightarrow> (u64_max, s, k))"
| "spec_timer_step (WaitOn address actual expected timeout) s k =
     (if actual \<noteq> expected then (1, s, k)
      else case (current_id k, find_index (\<lambda>slot. slot = None) (waiting s)) of
             (Some thread, Some i) \<Rightarrow>
               (0, s\<lparr>waiting := (waiting s)[i := Some (address, thread,
                      if timeout = u64_max then None else Some (ticks_for timeout))]\<rparr>, block_current k)
           | _ \<Rightarrow> (u64_max, s, k))"
| "spec_timer_step (WakeOn address count) s k =
     (case spec_wake address (unat count) (waiting s) k of (n, waiters, k) \<Rightarrow> (of_nat n, s\<lparr>waiting := waiters\<rparr>, k))"
| "spec_timer_step (Scheduled op) s k = (0, s, sched_step op k)"

fun spec_timer_run :: "timer_op list \<Rightarrow> countdowns \<Rightarrow> kernel \<Rightarrow> u64 list \<times> countdowns \<times> kernel" where
  "spec_timer_run [] s k = ([], s, k)"
| "spec_timer_run (op # ops) s k =
     (case spec_timer_step op s k of (a, s, k) \<Rightarrow> case spec_timer_run ops s k of (as, s, k) \<Rightarrow> (a # as, s, k))"

section \<open>Deadlines as countdowns\<close>

definition remaining :: "u64 \<Rightarrow> u64 \<Rightarrow> nat" where
  "remaining ticks deadline = unat (deadline - ticks)"

definition ahead :: "u64 \<Rightarrow> u64 \<Rightarrow> bool" where
  "ahead ticks deadline \<longleftrightarrow> 1 \<le> remaining ticks deadline \<and> remaining ticks deadline < 2 ^ 63"

lemma remaining_Suc: "ahead ticks deadline \<Longrightarrow> remaining (ticks + 1) deadline = remaining ticks deadline - 1"
proof -
  assume l: "ahead ticks deadline"
  have e: "deadline - (ticks + 1) = (deadline - ticks) - 1" by simp
  have "1 \<le> deadline - ticks" using l by (simp add: ahead_def remaining_def word_le_nat_alt)
  then show ?thesis unfolding remaining_def e by (simp add: unat_sub)
qed

lemma expired_iff: "ahead ticks deadline \<Longrightarrow> expired (ticks + 1) deadline \<longleftrightarrow> remaining ticks deadline = 1"
proof -
  assume l: "ahead ticks deadline"
  define d where "d = deadline - (ticks + 1)"
  have n: "ticks + 1 - deadline = - d" by (simp add: d_def)
  have d: "unat d = remaining ticks deadline - 1" using remaining_Suc [OF l] by (simp add: remaining_def d_def)
  have r: "1 \<le> remaining ticks deadline" "remaining ticks deadline < 2 ^ 63" using l by (simp_all add: ahead_def)
  show ?thesis
  proof (cases "d = 0")
    case True
    have "expired (ticks + 1) deadline" by (simp add: expired_def n True)
    moreover have "remaining ticks deadline = 1" using d r True by simp
    ultimately show ?thesis by blast
  next
    case False
    then have pos: "0 < unat d" by (simp add: unat_gt_0)
    have "(unat (- d) + unat d) mod 2 ^ 64 = 0" using unat_word_ariths(1) [of "- d" d] by simp
    then obtain c where c: "unat (- d) + unat d = 2 ^ 64 * c" by (meson dvdE mod_0_imp_dvd)
    then have "c = 1" using pos unat_u64_lt [of d] unat_u64_lt [of "- d"] by (cases c; cases "c - 1") simp_all
    then have "unat (- d) = 2 ^ 64 - unat d" using c by simp
    then have "\<not> - d < 2 ^ 63" using d r by (simp add: word_less_nat_alt)
    moreover have "remaining ticks deadline \<noteq> 1" using False d by (simp add: unat_eq_0 [symmetric])
    ultimately show ?thesis by (simp add: expired_def n)
  qed
qed

lemma unat_duration: "unat (duration_ticks ms) = ticks_for ms"
proof -
  have "unat (saturating_add ms 9 div 10) = min (unat ms + 9) (2 ^ 64 - 1) div 10"
    by (simp add: unat_div unat_saturating_add)
  then show ?thesis by (auto simp: duration_ticks_def ticks_for_def max_def word_le_nat_alt)
qed

lemma remaining_fresh: "remaining (timer_ticks t) (deadline_after ms t) = ticks_for ms"
  by (simp add: remaining_def deadline_after_def unat_duration)

lemma ahead_fresh: "ahead (timer_ticks t) (deadline_after ms t)"
proof -
  have "ticks_for ms \<le> max 1 ((2 ^ 64 - 1) div 10)"
    unfolding ticks_for_def by (intro max.mono div_le_mono) auto
  then show ?thesis by (simp add: ahead_def remaining_fresh) (simp add: ticks_for_def)
qed

section \<open>Refinement\<close>

definition abs_sleeper :: "u64 \<Rightarrow> sleeper \<Rightarrow> nat \<times> nat" where
  "abs_sleeper ticks e = (sleeper_thread e, remaining ticks (sleeper_deadline e))"

definition abs_waiter :: "u64 \<Rightarrow> futex_waiter \<Rightarrow> u64 \<times> nat \<times> nat option" where
  "abs_waiter ticks e = (waiter_address e, waiter_thread e, map_option (remaining ticks) (waiter_deadline e))"

definition abs_timers :: "timers \<Rightarrow> countdowns" where
  "abs_timers t = \<lparr>sleeping = map (map_option (abs_sleeper (timer_ticks t))) (sleepers t),
     waiting = map (map_option (abs_waiter (timer_ticks t))) (futex_waiters t)\<rparr>"

definition live_sleepers :: "u64 \<Rightarrow> sleeper option list \<Rightarrow> bool" where
  "live_sleepers ticks slots \<longleftrightarrow> (\<forall>e. Some e \<in> set slots \<longrightarrow> ahead ticks (sleeper_deadline e))"

definition live_waiters :: "u64 \<Rightarrow> futex_waiter option list \<Rightarrow> bool" where
  "live_waiters ticks slots \<longleftrightarrow> (\<forall>e d. Some e \<in> set slots \<longrightarrow> waiter_deadline e = Some d \<longrightarrow> ahead ticks d)"

definition timers_inv :: "timers \<Rightarrow> bool" where
  "timers_inv t \<longleftrightarrow> live_sleepers (timer_ticks t) (sleepers t) \<and> live_waiters (timer_ticks t) (futex_waiters t) \<and>
     length (sleepers t) = MAX_SLEEPERS \<and> length (futex_waiters t) = MAX_FUTEX_WAITERS"

lemma ahead_Suc: "ahead ticks d \<Longrightarrow> remaining ticks d \<noteq> 1 \<Longrightarrow> ahead (ticks + 1) d"
  using remaining_Suc [of ticks d] by (auto simp: ahead_def)

lemma expire_sleepers:
  assumes "live_sleepers ticks slots" and "wake_expired_sleepers (ticks + 1) slots k = (slots', k')"
  shows "count_down_sleepers (map (map_option (abs_sleeper ticks)) slots) k =
      (map (map_option (abs_sleeper (ticks + 1))) slots', k') \<and>
    live_sleepers (ticks + 1) slots' \<and> length slots' = length slots"
  using assms
proof (induction slots arbitrary: k slots' k')
  case (Cons slot slots)
  have l: "live_sleepers ticks slots" using Cons.prems(1) by (simp add: live_sleepers_def)
  show ?case
  proof (cases slot)
    case None
    then show ?thesis using Cons.prems(2) Cons.IH [OF l, of k]
      by (auto simp: live_sleepers_def split: prod.splits)
  next
    case (Some e)
    have le: "ahead ticks (sleeper_deadline e)" using Cons.prems(1) Some by (simp add: live_sleepers_def)
    show ?thesis
    proof (cases "remaining ticks (sleeper_deadline e) = 1")
      case True
      then show ?thesis using Cons.prems(2) Cons.IH [OF l, of "snd (wake (sleeper_thread e) k)"] Some expired_iff [OF le]
        by (auto simp: abs_sleeper_def live_sleepers_def split: prod.splits)
    next
      case False
      then show ?thesis
        using Cons.prems(2) Cons.IH [OF l, of k] Some expired_iff [OF le] remaining_Suc [OF le] ahead_Suc [OF le False]
        by (auto simp: abs_sleeper_def live_sleepers_def split: prod.splits)
    qed
  qed
qed (auto simp: live_sleepers_def)

lemma expire_waiters:
  assumes "live_waiters ticks slots" and "wake_expired_futexes (ticks + 1) slots k = (slots', k')"
  shows "count_down_waiters (map (map_option (abs_waiter ticks)) slots) k =
      (map (map_option (abs_waiter (ticks + 1))) slots', k') \<and>
    live_waiters (ticks + 1) slots' \<and> length slots' = length slots"
  using assms
proof (induction slots arbitrary: k slots' k')
  case (Cons slot slots)
  have l: "live_waiters ticks slots" using Cons.prems(1) unfolding live_waiters_def by (meson list.set_intros(2))
  show ?case
  proof (cases slot)
    case None
    then show ?thesis using Cons.prems(2) Cons.IH [OF l, of k]
      by (auto simp: live_waiters_def split: prod.splits)
  next
    case (Some e)
    show ?thesis
    proof (cases "waiter_deadline e")
      case None
      then show ?thesis using Cons.prems(2) Cons.IH [OF l, of k] Some
        by (auto simp: abs_waiter_def live_waiters_def split: prod.splits)
    next
      case d: (Some d)
      have ld: "ahead ticks d" using Cons.prems(1) Some d by (simp add: live_waiters_def)
      show ?thesis
        using Cons.prems(2) Cons.IH [OF l, of "snd (wake (waiter_thread e) k)"] Cons.IH [OF l, of k] Some d expired_iff [OF ld]
          remaining_Suc [OF ld] ahead_Suc [OF ld]
        by (cases "remaining ticks d = 1") (auto simp: abs_waiter_def live_waiters_def split: prod.splits)
    qed
  qed
qed (auto simp: live_waiters_def)

lemma wake_refines:
  assumes "wake_futexes address count woken slots k = (woken', slots', k')"
  shows "\<exists>n. spec_wake address (unat count - unat woken) (map (map_option (abs_waiter ticks)) slots) k =
      (n, map (map_option (abs_waiter ticks)) slots', k') \<and> woken' = woken + of_nat n \<and>
      n \<le> unat count - unat woken \<and> (\<forall>e. Some e \<in> set slots' \<longrightarrow> Some e \<in> set slots) \<and> length slots' = length slots"
  using assms
proof (induction slots arbitrary: woken k woken' slots' k')
  case (Cons slot slots)
  have ae: "abs_waiter ticks e = (waiter_address e, waiter_thread e, map_option (remaining ticks) (waiter_deadline e))" for e
    by (simp add: abs_waiter_def)
  show ?case
  proof (cases slot)
    case None
    obtain w s q where r: "wake_futexes address count woken slots k = (w, s, q)" by (metis prod_cases3)
    then show ?thesis using None Cons.prems Cons.IH [OF r] by auto
  next
    case (Some e)
    show ?thesis
    proof (cases "waiter_address e = address \<and> woken < count")
      case False
      obtain w s q where r: "wake_futexes address count woken slots k = (w, s, q)" by (metis prod_cases3)
      then show ?thesis using Some False Cons.prems Cons.IH [OF r] by (auto simp: ae [of e] word_less_nat_alt)
    next
      case True
      then have room: "0 < unat count - unat woken" by (simp add: word_less_nat_alt)
      obtain b k1 where w: "wake (waiter_thread e) k = (b, k1)" by fastforce
      show ?thesis
      proof (cases b)
        case False
        obtain w' s q where r: "wake_futexes address count woken slots k1 = (w', s, q)" by (metis prod_cases3)
        then show ?thesis using Some False True w room Cons.prems Cons.IH [OF r] by (auto simp: ae [of e])
      next
        case b: True
        obtain w' s q where r: "wake_futexes address count (woken + 1) slots k1 = (w', s, q)" by (metis prod_cases3)
        have "unat (woken + 1) = unat woken + 1"
          using True unat_u64_lt [of count] by (simp add: unat_word_ariths word_less_nat_alt)
        then have c: "unat count - unat (woken + 1) = unat count - unat woken - 1" by simp
        from Cons.IH [OF r, unfolded c] obtain n where
          n: "spec_wake address (unat count - unat woken - 1) (map (map_option (abs_waiter ticks)) slots) k1 =
             (n, map (map_option (abs_waiter ticks)) s, q)" "w' = woken + 1 + of_nat n"
            "n \<le> unat count - unat woken - 1" "\<forall>e. Some e \<in> set s \<longrightarrow> Some e \<in> set slots" "length s = length slots" by blast
        have "woken' = w'" "slots' = None # s" "k' = q" using Some True w b r Cons.prems by simp_all
        then show ?thesis
          using Some b True w room n by (intro exI [of _ "Suc n"]) (auto simp: ae [of e])
      qed
    qed
  qed
qed simp

lemma abs_waiter_inj: "abs_waiter ticks a = abs_waiter ticks b \<longleftrightarrow> a = b"
proof
  assume e: "abs_waiter ticks a = abs_waiter ticks b"
  have "inj (remaining ticks)"
    by (rule injI) (metis remaining_def word_unat_eq_iff diff_add_cancel)
  then have "waiter_deadline a = waiter_deadline b"
    using e option.inj_map [of "remaining ticks"] by (auto simp: abs_waiter_def dest: injD)
  then show "a = b" using e by (simp add: abs_waiter_def)
qed simp

lemma find_free_map: "find_index (\<lambda>slot. slot = None) (map (map_option f) xs) = find_index (\<lambda>slot. slot = None) xs"
  by (induction xs) auto

lemma live_sleepers_update:
  "live_sleepers ticks slots \<Longrightarrow> ahead ticks (sleeper_deadline e) \<Longrightarrow> live_sleepers ticks (slots[i := Some e])"
  unfolding live_sleepers_def by (metis insert_iff option.inject set_update_subset_insert subsetD)

lemma live_waiters_update:
  "live_waiters ticks slots \<Longrightarrow> (\<And>d. waiter_deadline e = Some d \<Longrightarrow> ahead ticks d) \<Longrightarrow> live_waiters ticks (slots[i := Some e])"
  unfolding live_waiters_def by (metis insert_iff option.inject set_update_subset_insert subsetD)

lemma tick_refines:
  assumes i: "timers_inv t" and e: "timer_interrupt t k = (t', k')"
  shows "spec_timer_step TimerTick (abs_timers t) k = (0, abs_timers t', k') \<and> timers_inv t' \<and> timer_ticks t' = timer_ticks t + 1"
proof -
  obtain ss k1 where s: "wake_expired_sleepers (timer_ticks t + 1) (sleepers t) k = (ss, k1)" by fastforce
  obtain ws k2 where w: "wake_expired_futexes (timer_ticks t + 1) (futex_waiters t) k1 = (ws, k2)" by fastforce
  have t': "t' = \<lparr>timer_ticks = timer_ticks t + 1, sleepers = ss, futex_waiters = ws\<rparr>" "k' = k2"
    using e s w by (simp_all add: timer_interrupt_def)
  show ?thesis
    using expire_sleepers [OF _ s] expire_waiters [OF _ w] i by (simp add: t' abs_timers_def timers_inv_def)
qed

lemma sleep_refines:
  assumes i: "timers_inv t" and e: "syscall_sleep ms t k = (a, t', k')"
  shows "spec_timer_step (SleepFor ms) (abs_timers t) k = (a, abs_timers t', k') \<and> timers_inv t' \<and> timer_ticks t' = timer_ticks t"
  using e i ahead_fresh [of t ms]
  by (auto simp: syscall_sleep_def abs_timers_def timers_inv_def find_free_map abs_sleeper_def map_update remaining_fresh
      split: if_splits option.splits intro!: live_sleepers_update)

lemma futex_wait_refines:
  assumes i: "timers_inv t" and e: "futex_wait address actual expected timeout t k = (a, t', k')"
  shows "spec_timer_step (WaitOn address actual expected timeout) (abs_timers t) k = (a, abs_timers t', k') \<and>
    timers_inv t' \<and> timer_ticks t' = timer_ticks t"
  using e i ahead_fresh [of t timeout]
  by (auto simp: futex_wait_def abs_timers_def timers_inv_def find_free_map abs_waiter_def map_update remaining_fresh
      split: if_splits option.splits intro!: live_waiters_update)

lemma futex_wake_refines:
  assumes i: "timers_inv t" and e: "futex_wake address count t k = (a, t', k')"
  shows "spec_timer_step (WakeOn address count) (abs_timers t) k = (a, abs_timers t', k') \<and>
    timers_inv t' \<and> timer_ticks t' = timer_ticks t"
proof -
  obtain ws where w: "wake_futexes address count 0 (futex_waiters t) k = (a, ws, k')" and t': "t' = t\<lparr>futex_waiters := ws\<rparr>"
    using e by (auto simp: futex_wake_def split: prod.splits)
  from wake_refines [OF w, of "timer_ticks t"] obtain n where
    n: "spec_wake address (unat count) (map (map_option (abs_waiter (timer_ticks t))) (futex_waiters t)) k =
       (n, map (map_option (abs_waiter (timer_ticks t))) ws, k')" "a = of_nat n"
      "\<forall>e. Some e \<in> set ws \<longrightarrow> Some e \<in> set (futex_waiters t)" "length ws = length (futex_waiters t)" by auto
  have "timers_inv t'" using i n(3,4) unfolding t' timers_inv_def live_waiters_def by auto
  then show ?thesis using n by (simp add: t' abs_timers_def)
qed

lemma timer_step_refines:
  assumes "timers_inv t" and "timer_step op t k = (a, t', k')"
  shows "spec_timer_step op (abs_timers t) k = (a, abs_timers t', k') \<and> timers_inv t' \<and>
    timer_ticks t' = timer_ticks t + (if op = TimerTick then 1 else 0)"
proof (cases op)
  case TimerTick
  obtain t1 k1 where e: "timer_interrupt t k = (t1, k1)" by fastforce
  then show ?thesis using tick_refines [OF assms(1) e] assms(2) TimerTick by simp
next
  case (SleepFor ms)
  then show ?thesis using sleep_refines [OF assms(1), of ms k] assms(2) by simp
next
  case (WaitOn address actual expected timeout)
  then show ?thesis using futex_wait_refines [OF assms(1), of address actual expected timeout k] assms(2) by simp
next
  case (WakeOn address count)
  then show ?thesis using futex_wake_refines [OF assms(1), of address count k] assms(2) by simp
qed (use assms in simp)

definition tick_count :: "timer_op list \<Rightarrow> nat" where
  "tick_count ops = length (filter (\<lambda>op. op = TimerTick) ops)"

lemma timer_run_refines:
  assumes "timers_inv t" and "timer_run ops t k = (as, t', k')"
  shows "spec_timer_run ops (abs_timers t) k = (as, abs_timers t', k') \<and> timers_inv t' \<and>
    timer_ticks t' = timer_ticks t + of_nat (tick_count ops)"
  using assms
proof (induction ops arbitrary: t k as)
  case (Cons op ops)
  obtain a t1 k1 where s: "timer_step op t k = (a, t1, k1)" by (metis prod_cases3)
  obtain bs t2 k2 where r: "timer_run ops t1 k1 = (bs, t2, k2)" by (metis prod_cases3)
  from timer_step_refines [OF Cons.prems(1) s] Cons.IH [of t1 k1 bs] r s Cons.prems(2)
  show ?case by (auto simp: tick_count_def)
qed (simp add: tick_count_def)

text \<open>The timers at any value of the tick counter, with nobody waiting.\<close>

definition timers_at :: "u64 \<Rightarrow> timers" where
  "timers_at ticks = timers_initial\<lparr>timer_ticks := ticks\<rparr>"

lemma timers_at_inv [simp]: "timers_inv (timers_at ticks)"
  by (simp add: timers_at_def timers_initial_def timers_inv_def live_sleepers_def live_waiters_def)

lemma timers_at_abs [simp]: "abs_timers (timers_at ticks) = countdowns_initial" "timer_ticks (timers_at ticks) = ticks"
  by (simp_all add: timers_at_def timers_initial_def abs_timers_def countdowns_initial_def)

text \<open>
  C26: from any value of the tick counter, also across its wrap-around, every sequence of timer ticks,
  sleeps, futex calls and scheduler steps gives the answers and the kernel of the countdown
  specification, the tables hold the remaining ticks, and the clock has advanced by the ticks.
\<close>

theorem timer_run_observes_spec:
  "case (timer_run ops (timers_at ticks) k, spec_timer_run ops countdowns_initial k) of
     ((answers, t, k1), (answers', s, k2)) \<Rightarrow>
       answers = answers' \<and> k1 = k2 \<and> abs_timers t = s \<and> timer_ticks t = ticks + of_nat (tick_count ops)"
proof -
  obtain as t k1 where r: "timer_run ops (timers_at ticks) k = (as, t, k1)" by (metis prod_cases3)
  from timer_run_refines [OF timers_at_inv r] show ?thesis by (simp add: r)
qed

section \<open>The kernel under the timers\<close>

lemma sleepers_inv: "sched_inv k \<Longrightarrow> sched_inv (snd (count_down_sleepers slots k))"
  by (induction slots k rule: count_down_sleepers.induct) (simp_all add: result_inv split_beta)

lemma waiters_inv: "sched_inv k \<Longrightarrow> sched_inv (snd (count_down_waiters ws k))"
  by (induction ws k rule: count_down_waiters.induct) (simp_all add: result_inv split_beta)

lemma spec_wake_inv: "sched_inv k \<Longrightarrow> sched_inv (snd (snd (spec_wake address room ws k)))"
  by (induction ws arbitrary: room k) (auto simp: result_inv split_beta split: option.splits bool.splits)

lemma spec_step_inv: "sched_inv k \<Longrightarrow> spec_timer_step op s k = (a, s', k') \<Longrightarrow> sched_inv k'"
proof (cases op)
  case TimerTick
  assume "sched_inv k" "spec_timer_step op s k = (a, s', k')"
  then show ?thesis using TimerTick waiters_inv [OF sleepers_inv, of k "waiting s" "sleeping s"] by (auto simp: split_beta)
next
  case (WakeOn address count)
  assume "sched_inv k" "spec_timer_step op s k = (a, s', k')"
  then show ?thesis using WakeOn spec_wake_inv [of k] by (auto simp: split_beta)
qed (auto simp: step_inv block_inv split: option.splits if_splits)

lemma spec_run_inv: "sched_inv k \<Longrightarrow> spec_timer_run ops s k = (as, s', k') \<Longrightarrow> sched_inv k'"
proof (induction ops arbitrary: as s k)
  case (Cons op ops)
  obtain a s1 k1 where st: "spec_timer_step op s k = (a, s1, k1)" by (metis prod_cases3)
  obtain bs where "spec_timer_run ops s1 k1 = (bs, s', k')" using Cons.prems(2) st by (auto split: prod.splits)
  from Cons.IH [OF spec_step_inv [OF Cons.prems(1) st] this] show ?case .
qed simp






lemma sched_inv_length: "sched_inv k \<Longrightarrow> length (threads k) = MAX_THREADS"
  by (simp add: sched_inv_def table_inv_def)







section \<open>Who a futex wake reaches\<close>

lemma wake_cases:
  assumes "length (threads k) = MAX_THREADS" and "wake u k = (b, k')"
  shows "length (threads k') = MAX_THREADS"
    and "b \<longleftrightarrow> u < MAX_THREADS \<and> st u k = Blocked"
    and "st v k' = (if b \<and> v = u then Ready else st v k)"
  using assms
  by (auto simp: wake_def thread_at_def set_state_def update_thread_def enqueue_def nth_list_update split: if_splits)

definition reached :: "u64 \<Rightarrow> (u64 \<times> nat \<times> nat option) option list \<Rightarrow> kernel \<Rightarrow> kernel \<Rightarrow> nat set \<Rightarrow> bool" where
  "reached address ws k k' R \<longleftrightarrow>
     (\<forall>u \<in> R. u < MAX_THREADS \<and> st u k = Blocked \<and> st u k' = Ready \<and> (\<exists>n. Some (address, u, n) \<in> set ws)) \<and>
     (\<forall>u. u \<notin> R \<longrightarrow> st u k' = st u k)"

definition dropped :: "u64 \<Rightarrow> (u64 \<times> nat \<times> nat option) option list \<Rightarrow> (u64 \<times> nat \<times> nat option) option list \<Rightarrow> bool" where
  "dropped address ws ws' \<longleftrightarrow> length ws' = length ws \<and>
     (\<forall>i < length ws. ws' ! i = ws ! i \<or> ws' ! i = None \<and> (\<exists>u n. ws ! i = Some (address, u, n)))"

lemma dropped_Cons:
  "dropped address ws ws' \<Longrightarrow> x' = x \<or> x' = None \<and> (\<exists>u n. x = Some (address, u, n)) \<Longrightarrow> dropped address (x # ws) (x' # ws')"
  by (auto simp: dropped_def nth_Cons split: nat.splits)

lemma reached_later:
  "reached address ws k k' R \<Longrightarrow> reached address (x # ws) k k' R"
  by (auto simp: reached_def)

lemma reached_woken:
  assumes r: "reached address ws k1 k' R" and w: "wake u k = (True, k1)" and l: "length (threads k) = MAX_THREADS"
  shows "reached address (Some (address, u, n) # ws) k k' (insert u R)" and "u \<notin> R"
proof -
  note W = wake_cases [OF l w]
  show "u \<notin> R" using r W(3) [of u] by (auto simp: reached_def)
  then show "reached address (Some (address, u, n) # ws) k k' (insert u R)"
    using r W(2,3) unfolding reached_def by (auto split: if_splits)
qed

lemma spec_wake_exact:
  assumes "length (threads k) = MAX_THREADS" and "spec_wake address room ws k = (n, ws', k')"
  shows "\<exists>R. finite R \<and> card R = n \<and> n \<le> room \<and> reached address ws k k' R \<and> dropped address ws ws' \<and>
    (n < room \<longrightarrow> (\<forall>u m. Some (address, u, m) \<notin> set ws'))"
  using assms
proof (induction ws arbitrary: room k n ws' k')
  case Nil
  then show ?case by (intro exI [of _ "{}"]) (auto simp: reached_def dropped_def)
next
  case (Cons slot ws)
  have keep: ?case if r: "spec_wake address room ws k = (n, vs, k')" and e: "ws' = slot # vs"
    and o: "\<And>u m. slot = Some (address, u, m) \<Longrightarrow> room = 0" for vs
  proof -
    from Cons.IH [OF Cons.prems(1) r] obtain R where
      R: "finite R" "card R = n" "n \<le> room" "reached address ws k k' R" "dropped address ws vs"
        "n < room \<longrightarrow> (\<forall>u m. Some (address, u, m) \<notin> set vs)" by blast
    have d: "dropped address (slot # ws) ws'" unfolding e by (rule dropped_Cons [OF R(5)]) simp
    have "Some (address, u, m) \<notin> set ws'" if "n < room" for u m
    proof -
      have "slot \<noteq> Some (address, u, m)" using o [of u m] that by auto
      then show ?thesis using R(6) that unfolding e by simp
    qed
    with R(1-3) reached_later [OF R(4)] d show ?thesis by blast
  qed
  show ?case
  proof (cases slot)
    case None
    then show ?thesis using Cons.prems(2) keep by (auto split: prod.splits)
  next
    case (Some x)
    obtain a u m where x: "slot = Some (a, u, m)" using Some by (cases x) auto
    show ?thesis
    proof (cases "a = address \<and> 0 < room")
      case False
      obtain n1 vs k2 where r: "spec_wake address room ws k = (n1, vs, k2)" by (metis prod_cases3)
      then have "n = n1" "ws' = slot # vs" "k' = k2" using Cons.prems(2) x False by auto
      then show ?thesis using keep [of vs] r x False by simp
    next
      case True
      obtain b k1 where w: "wake u k = (b, k1)" by fastforce
      note W = wake_cases [OF Cons.prems(1) w]
      show ?thesis
      proof (cases b)
        case b: True
        obtain n1 vs k2 where r: "spec_wake address (room - 1) ws k1 = (n1, vs, k2)" by (metis prod_cases3)
        then have e: "n = Suc n1" "ws' = None # vs" "k' = k2" using Cons.prems(2) x True w b by auto
        from Cons.IH [OF W(1) r] obtain R where
          R: "finite R" "card R = n1" "n1 \<le> room - 1" "reached address ws k1 k2 R" "dropped address ws vs"
            "n1 < room - 1 \<longrightarrow> (\<forall>u m. Some (address, u, m) \<notin> set vs)" by blast
        note woken = R(4) w [unfolded eqTrueI [OF b]] Cons.prems(1)
        note ins = reached_woken(1) [where n = m, OF woken] reached_woken(2) [OF woken]
        have d: "dropped address (slot # ws) ws'" unfolding e by (rule dropped_Cons [OF R(5)]) (use x True in simp)
        have "finite (insert u R)" "card (insert u R) = n" "n \<le> room" using R(1-3) ins(2) True by (auto simp: e)
        moreover have "n < room \<longrightarrow> (\<forall>u m. Some (address, u, m) \<notin> set ws')" using R(6) True unfolding e by auto
        moreover have "reached address (slot # ws) k k' (insert u R)" using ins(1) x True e by simp
        ultimately show ?thesis using d by blast
      next
        case b: False
        then have same: "st v k1 = st v k" for v using W(3) by simp
        obtain n1 vs k2 where r: "spec_wake address room ws k1 = (n1, vs, k2)" by (metis prod_cases3)
        then have e: "n = n1" "ws' = None # vs" "k' = k2" using Cons.prems(2) x True w b by auto
        from Cons.IH [OF W(1) r] obtain R where
          R: "finite R" "card R = n1" "n1 \<le> room" "reached address ws k1 k2 R" "dropped address ws vs"
            "n1 < room \<longrightarrow> (\<forall>u m. Some (address, u, m) \<notin> set vs)" by blast
        have d: "dropped address (slot # ws) ws'" unfolding e by (rule dropped_Cons [OF R(5)]) (use x True in simp)
        have "reached address (slot # ws) k k' R" using R(4) unfolding reached_def same e(3) by auto
        moreover have "n < room \<longrightarrow> (\<forall>u m. Some (address, u, m) \<notin> set ws')" using R(6) unfolding e by auto
        ultimately show ?thesis using R(1-3) d e(1) by blast
      qed
    qed
  qed
qed

text \<open>
  A futex wake makes ready exactly as many threads as it answers, never more than asked for;
  each was blocked and registered at the address.  Slots of other addresses are untouched, and when
  fewer threads than asked for were woken no waiter of the address is left.
\<close>

theorem futex_wake_exact:
  "case timer_run before (timers_at ticks) (kernel_initial c m) of (_, t, k) \<Rightarrow>
   case futex_wake address count t k of (woken, t', k') \<Rightarrow>
     (let ready = {u. thread_state (threads k' ! u) \<noteq> thread_state (threads k ! u)};
          at = (\<lambda>slots i. case slots ! i of None \<Rightarrow> False | Some e \<Rightarrow> waiter_address e = address)
      in finite ready \<and> card ready = unat woken \<and> woken \<le> count \<and>
         ready \<subseteq> {u. u < MAX_THREADS \<and> thread_state (threads k ! u) = Blocked \<and> thread_state (threads k' ! u) = Ready} \<and>
         ready \<subseteq> {waiter_thread e | e. Some e \<in> set (futex_waiters t) \<and> waiter_address e = address} \<and>
         {i. i < MAX_FUTEX_WAITERS \<and> futex_waiters t' ! i \<noteq> futex_waiters t ! i} \<subseteq>
           {i. at (futex_waiters t) i \<and> futex_waiters t' ! i = None} \<and>
         (if woken < count then {i. i < MAX_FUTEX_WAITERS \<and> at (futex_waiters t') i} = {} else True) \<and>
         sleepers t' = sleepers t)"
proof -
  obtain as t k where r0: "timer_run before (timers_at ticks) (kernel_initial c m) = (as, t, k)" by (metis prod_cases3)
  obtain woken t' k' where w: "futex_wake address count t k = (woken, t', k')" by (metis prod_cases3)
  note R0 = timer_run_refines [OF timers_at_inv r0]
  note inv = spec_run_inv [OF initial_inv conjunct1 [OF R0]]
  have len: "length (futex_waiters t) = MAX_FUTEX_WAITERS" using R0 by (simp add: timers_inv_def)
  obtain ws where f: "wake_futexes address count 0 (futex_waiters t) k = (woken, ws, k')" and t': "t' = t\<lparr>futex_waiters := ws\<rparr>"
    using w by (auto simp: futex_wake_def split: prod.splits)
  from wake_refines [OF f, of "timer_ticks t"] obtain n where
    n: "spec_wake address (unat count) (map (map_option (abs_waiter (timer_ticks t))) (futex_waiters t)) k =
       (n, map (map_option (abs_waiter (timer_ticks t))) ws, k')" "woken = of_nat n" "n \<le> unat count"
      "\<forall>e. Some e \<in> set ws \<longrightarrow> Some e \<in> set (futex_waiters t)" "length ws = length (futex_waiters t)" by auto
  from spec_wake_exact [OF sched_inv_length [OF inv] n(1)] obtain R where
    R: "finite R" "card R = n" "reached address (map (map_option (abs_waiter (timer_ticks t))) (futex_waiters t)) k k' R"
      "dropped address (map (map_option (abs_waiter (timer_ticks t))) (futex_waiters t)) (map (map_option (abs_waiter (timer_ticks t))) ws)"
      "n < unat count \<longrightarrow> (\<forall>u m. Some (address, u, m) \<notin> set (map (map_option (abs_waiter (timer_ticks t))) ws))" by blast
  have un: "unat woken = n" using n(2,3) unat_u64_lt [of count] by (simp add: unat_of_nat take_bit_nat_eq_self)
  have RR: "{u. thread_state (threads k' ! u) \<noteq> thread_state (threads k ! u)} = R"
    using R(3) unfolding reached_def by force
  have slot: "map_option (abs_waiter (timer_ticks t)) x = map_option (abs_waiter (timer_ticks t)) y \<longleftrightarrow> x = y" for x y
    by (cases x; cases y) (simp_all add: abs_waiter_inj)
  have entry: "map_option (abs_waiter (timer_ticks t)) x = Some (address, u, m) \<Longrightarrow>
      \<exists>e. x = Some e \<and> waiter_address e = address \<and> waiter_thread e = u" for x u m
    by (cases x) (auto simp: abs_waiter_def)
  have "R \<subseteq> {u. u < MAX_THREADS \<and> thread_state (threads k ! u) = Blocked \<and> thread_state (threads k' ! u) = Ready}"
    "R \<subseteq> {waiter_thread e | e. Some e \<in> set (futex_waiters t) \<and> waiter_address e = address}"
  proof -
    show "R \<subseteq> {u. u < MAX_THREADS \<and> thread_state (threads k ! u) = Blocked \<and> thread_state (threads k' ! u) = Ready}"
      using R(3) unfolding reached_def by blast
    show "R \<subseteq> {waiter_thread e | e. Some e \<in> set (futex_waiters t) \<and> waiter_address e = address}"
    proof
      fix u assume "u \<in> R"
      then obtain m where "Some (address, u, m) \<in> set (map (map_option (abs_waiter (timer_ticks t))) (futex_waiters t))"
        using R(3) unfolding reached_def by blast
      then obtain x where "x \<in> set (futex_waiters t)" "map_option (abs_waiter (timer_ticks t)) x = Some (address, u, m)"
        unfolding set_map by (metis imageE)
      then show "u \<in> {waiter_thread e | e. Some e \<in> set (futex_waiters t) \<and> waiter_address e = address}"
        using entry [of x u m] by blast
    qed
  qed
  moreover have "{i. i < MAX_FUTEX_WAITERS \<and> futex_waiters t' ! i \<noteq> futex_waiters t ! i} \<subseteq>
      {i. (case futex_waiters t ! i of None \<Rightarrow> False | Some e \<Rightarrow> waiter_address e = address) \<and> futex_waiters t' ! i = None}"
  proof clarify
    fix i assume i: "i < MAX_FUTEX_WAITERS" "futex_waiters t' ! i \<noteq> futex_waiters t ! i"
    have "map_option (abs_waiter (timer_ticks t)) (ws ! i) = None \<and>
        (\<exists>u m. map_option (abs_waiter (timer_ticks t)) (futex_waiters t ! i) = Some (address, u, m))"
      using R(4) i n(5) len unfolding dropped_def t' by (simp add: slot) blast
    then show "(case futex_waiters t ! i of None \<Rightarrow> False | Some e \<Rightarrow> waiter_address e = address) \<and> futex_waiters t' ! i = None"
      by (auto simp: t' abs_waiter_def)
  qed
  moreover have "{i. i < MAX_FUTEX_WAITERS \<and> (case futex_waiters t' ! i of None \<Rightarrow> False | Some e \<Rightarrow> waiter_address e = address)} = {}"
    if "n < unat count"
  proof -
    have "waiter_address e \<noteq> address" if "Some e \<in> set ws" for e
      using R(5) \<open>n < unat count\<close> that by (force simp: abs_waiter_def)
    then show ?thesis using n(5) len by (auto simp: t' split: option.splits) (metis nth_mem)
  qed
  ultimately show ?thesis
    unfolding r0 w prod.case Let_def RR using R(1,2) un n(3) by (simp add: t' word_le_nat_alt word_less_nat_alt)
qed

end
