(* ===== verification/Hardware.thy ===== *)
theory Hardware
  imports Paging "HOL-Library.State_Monad"
begin

text \<open>
  The hardware as the drivers reach it: port instructions, device registers in the device window,
  and the entropy instructions of the processor.  What they answer is not fixed by the sources, so
  it is a parameter, a record of functions on the state of the devices and the bytes of physical
  memory, which a device may change when it is accessed.  The drivers are programs of the state
  monad over that state.  \<open>serial.rs\<close> and \<open>pci.rs\<close> are the first two of them.
\<close>

section \<open>The parameter\<close>

type_synonym 'd bus = "'d \<times> (nat \<Rightarrow> u8)"

record 'd hardware =
  in_byte :: "u16 \<Rightarrow> 'd bus \<Rightarrow> u8 \<times> 'd bus"
  in_word :: "u16 \<Rightarrow> 'd bus \<Rightarrow> u16 \<times> 'd bus"
  in_long :: "u16 \<Rightarrow> 'd bus \<Rightarrow> u32 \<times> 'd bus"
  out_byte :: "u16 \<Rightarrow> u8 \<Rightarrow> 'd bus \<Rightarrow> 'd bus"
  out_word :: "u16 \<Rightarrow> u16 \<Rightarrow> 'd bus \<Rightarrow> 'd bus"
  out_long :: "u16 \<Rightarrow> u32 \<Rightarrow> 'd bus \<Rightarrow> 'd bus"
  load_register :: "u64 \<Rightarrow> 'd bus \<Rightarrow> u32 \<times> 'd bus"
  store_register :: "u64 \<Rightarrow> u32 \<Rightarrow> 'd bus \<Rightarrow> 'd bus"
  cpuid_ecx_1 :: u32
  cpuid_ebx_7 :: u32
  rdseed :: "'d bus \<Rightarrow> (u64 \<times> bool) \<times> 'd bus"
  rdrand :: "'d bus \<Rightarrow> (u64 \<times> bool) \<times> 'd bus"

text \<open>The state of a driver: the devices and the memory of the kernel.\<close>

record 'd io =
  io_device :: 'd
  io_memory :: memory

section \<open>Access\<close>

definition on_bus :: "('d bus \<Rightarrow> 'a \<times> 'd bus) \<Rightarrow> (('d, 'm) io_scheme, 'a) state" where
  "on_bus f = State (\<lambda>s. case f (io_device s, phys (io_memory s)) of
     (v, d, p) \<Rightarrow> (v, s\<lparr>io_device := d, io_memory := (io_memory s)\<lparr>phys := p\<rparr>\<rparr>))"

definition inb :: "'d hardware \<Rightarrow> u16 \<Rightarrow> (('d, 'm) io_scheme, u8) state" where
  "inb hw port = on_bus (in_byte hw port)"

definition inw :: "'d hardware \<Rightarrow> u16 \<Rightarrow> (('d, 'm) io_scheme, u16) state" where
  "inw hw port = on_bus (in_word hw port)"

definition inl :: "'d hardware \<Rightarrow> u16 \<Rightarrow> (('d, 'm) io_scheme, u32) state" where
  "inl hw port = on_bus (in_long hw port)"

definition outb :: "'d hardware \<Rightarrow> u16 \<Rightarrow> u8 \<Rightarrow> (('d, 'm) io_scheme, unit) state" where
  "outb hw port v = on_bus (\<lambda>b. ((), out_byte hw port v b))"

definition outw :: "'d hardware \<Rightarrow> u16 \<Rightarrow> u16 \<Rightarrow> (('d, 'm) io_scheme, unit) state" where
  "outw hw port v = on_bus (\<lambda>b. ((), out_word hw port v b))"

definition outl :: "'d hardware \<Rightarrow> u16 \<Rightarrow> u32 \<Rightarrow> (('d, 'm) io_scheme, unit) state" where
  "outl hw port v = on_bus (\<lambda>b. ((), out_long hw port v b))"

definition read_register :: "'d hardware \<Rightarrow> u64 \<Rightarrow> (('d, 'm) io_scheme, u32) state" where
  "read_register hw address = on_bus (load_register hw address)"

definition write_register :: "'d hardware \<Rightarrow> u64 \<Rightarrow> u32 \<Rightarrow> (('d, 'm) io_scheme, unit) state" where
  "write_register hw address v = on_bus (\<lambda>b. ((), store_register hw address v b))"

definition with_memory :: "(memory \<Rightarrow> 'a \<times> memory) \<Rightarrow> (('d, 'm) io_scheme, 'a) state" where
  "with_memory f = State (\<lambda>s. case f (io_memory s) of (v, m) \<Rightarrow> (v, s\<lparr>io_memory := m\<rparr>))"

text \<open>\<open>write_volatile\<close> and \<open>read_volatile\<close> at a physical address, in the byte order of the machine.\<close>

definition little_endian :: "nat \<Rightarrow> 'a::len word \<Rightarrow> u8 list" where
  "little_endian n w = map (\<lambda>i. ucast (drop_bit (8 * i) w)) [0..<n]"

definition poke :: "u64 \<Rightarrow> u8 list \<Rightarrow> (('d, 'm) io_scheme, unit) state" where
  "poke address bytes = with_memory (\<lambda>m. ((), write_physical_frame address bytes m))"

definition peek :: "u64 \<Rightarrow> (('d, 'm) io_scheme, u8) state" where
  "peek address = State (\<lambda>s. (phys (io_memory s) (unat address), s))"

section \<open>Control\<close>

primrec fold_state :: "('b \<Rightarrow> 'a \<Rightarrow> ('s, 'a) state) \<Rightarrow> 'b list \<Rightarrow> 'a \<Rightarrow> ('s, 'a) state" where
  "fold_state f [] a = State_Monad.return a"
| "fold_state f (x # xs) a = do { a \<leftarrow> f x a; fold_state f xs a }"

definition each :: "('b \<Rightarrow> ('s, unit) state) \<Rightarrow> 'b list \<Rightarrow> ('s, unit) state" where
  "each f xs = fold_state (\<lambda>x _. f x) xs ()"

text \<open>A loop of at most \<open>n\<close> rounds that ends as soon as the condition holds.\<close>

primrec wait_rounds :: "nat \<Rightarrow> ('s, bool) state \<Rightarrow> ('s, bool) state" where
  "wait_rounds 0 ready = State_Monad.return False"
| "wait_rounds (Suc n) ready =
     do { r \<leftarrow> ready; if r then State_Monad.return True else wait_rounds n ready }"

text \<open>The question mark of Rust.\<close>

definition attempt ::
  "('s, 'e + 'a) state \<Rightarrow> ('a \<Rightarrow> ('s, 'e + 'b) state) \<Rightarrow> ('s, 'e + 'b) state" where
  "attempt m f = do { r \<leftarrow> m; case r of Inl e \<Rightarrow> State_Monad.return (Inl e) | Inr v \<Rightarrow> f v }"

lemma run_fold_state_Nil [simp]: "run_state (fold_state f [] a) s = (a, s)"
  by simp

lemma run_fold_state_Cons [simp]:
  "run_state (fold_state f (x # xs) a) s =
     (case run_state (f x a) s of (a, s) \<Rightarrow> run_state (fold_state f xs a) s)"
  by simp

declare fold_state.simps [simp del]

lemma run_attempt [simp]:
  "run_state (attempt m f) s =
     (case run_state m s of (Inl e, s) \<Rightarrow> (Inl e, s) | (Inr v, s) \<Rightarrow> run_state (f v) s)"
  by (simp add: attempt_def split: prod.split sum.split)

section \<open>The serial port\<close>

definition serial_write :: "'d hardware \<Rightarrow> u8 list \<Rightarrow> (('d, 'm) io_scheme, unit) state" where
  "serial_write hw bytes = each (outb hw 0x3F8) bytes"

text \<open>
  The first loop of \<open>write_usize\<close> fills the array of twenty digits from the least significant one;
  a number of more digits would panic on the array's bound.
\<close>

fun digits_reversed :: "nat \<Rightarrow> u8 list" where
  "digits_reversed value = (if value = 0 then [] else (48 + of_nat (value mod 10)) # digits_reversed (value div 10))"

declare digits_reversed.simps [simp del]

definition write_usize :: "'d hardware \<Rightarrow> nat \<Rightarrow> (('d, 'm) io_scheme, unit) state" where
  "write_usize hw value =
     (if value = 0 then serial_write hw [48]
      else each (\<lambda>digit. serial_write hw [digit]) (rev (digits_reversed value)))"

definition hex_digit :: "u8 \<Rightarrow> u8" where
  "hex_digit value = (if value \<le> 9 then 48 + value else 65 + value - 10)"

section \<open>PCI\<close>

definition CONFIG_ADDRESS :: u16 where "CONFIG_ADDRESS = 0xCF8"
definition CONFIG_DATA :: u16 where "CONFIG_DATA = 0xCFC"

record pci_device =
  pci_bus :: u8
  pci_slot :: u8
  pci_function :: u8
  vendor_id :: u16
  device_id :: u16
  pci_class :: u8
  pci_subclass :: u8
  programming_interface :: u8

record ahci_controller =
  ahci_device :: pci_device
  abar :: u64

record virtio_rng_device =
  rng_device :: pci_device
  io_base :: u16

definition config_address :: "u8 \<Rightarrow> u8 \<Rightarrow> u8 \<Rightarrow> u8 \<Rightarrow> u32" where
  "config_address bus device function offset =
     0x80000000 OR push_bit 16 (ucast bus) OR push_bit 11 (ucast device) OR
     push_bit 8 (ucast function) OR ucast (offset AND 0xFC)"

definition read_config :: "'d hardware \<Rightarrow> u8 \<Rightarrow> u8 \<Rightarrow> u8 \<Rightarrow> u8 \<Rightarrow> (('d, 'm) io_scheme, u32) state" where
  "read_config hw bus device function offset = do {
     outl hw CONFIG_ADDRESS (config_address bus device function offset);
     inl hw CONFIG_DATA
   }"

definition write_config ::
  "'d hardware \<Rightarrow> u8 \<Rightarrow> u8 \<Rightarrow> u8 \<Rightarrow> u8 \<Rightarrow> u32 \<Rightarrow> (('d, 'm) io_scheme, unit) state" where
  "write_config hw bus device function offset v = do {
     outl hw CONFIG_ADDRESS (config_address bus device function offset);
     outl hw CONFIG_DATA v
   }"

definition read_device :: "'d hardware \<Rightarrow> u8 \<Rightarrow> u8 \<Rightarrow> u8 \<Rightarrow> (('d, 'm) io_scheme, pci_device option) state" where
  "read_device hw bus device function = do {
     identification \<leftarrow> read_config hw bus device function 0;
     if (ucast identification :: u16) = 0xFFFF then State_Monad.return None
     else do {
       cls \<leftarrow> read_config hw bus device function 8;
       State_Monad.return (Some \<lparr>pci_bus = bus, pci_slot = device, pci_function = function,
         vendor_id = ucast identification, device_id = ucast (drop_bit 16 identification),
         pci_class = ucast (drop_bit 24 cls), pci_subclass = ucast (drop_bit 16 cls),
         programming_interface = ucast (drop_bit 8 cls)\<rparr>)
     }
   }"

definition is_multifunction :: "'d hardware \<Rightarrow> u8 \<Rightarrow> u8 \<Rightarrow> (('d, 'm) io_scheme, bool) state" where
  "is_multifunction hw bus device = do {
     header \<leftarrow> read_config hw bus device 0 0x0C;
     State_Monad.return (header AND push_bit 23 1 \<noteq> 0)
   }"

text \<open>The closure \<open>visit\<close> threads what it captures.\<close>

definition enumerate_slot ::
  "'d hardware \<Rightarrow> (pci_device \<Rightarrow> 'a \<Rightarrow> (('d, 'm) io_scheme, 'a) state) \<Rightarrow> u8 \<Rightarrow> u8 \<Rightarrow> 'a \<Rightarrow>
    (('d, 'm) io_scheme, 'a) state" where
  "enumerate_slot hw visit bus device a = do {
     r \<leftarrow> read_device hw bus device 0;
     case r of
       None \<Rightarrow> State_Monad.return a
     | Some function_zero \<Rightarrow> do {
         a \<leftarrow> visit function_zero a;
         multifunction \<leftarrow> is_multifunction hw bus device;
         if \<not> multifunction then State_Monad.return a
         else fold_state (\<lambda>function a. do {
                r \<leftarrow> read_device hw bus device function;
                case r of None \<Rightarrow> State_Monad.return a | Some d \<Rightarrow> visit d a
              }) (map of_nat [1..<8]) a
       }
   }"

definition enumerate_pci ::
  "'d hardware \<Rightarrow> (pci_device \<Rightarrow> 'a \<Rightarrow> (('d, 'm) io_scheme, 'a) state) \<Rightarrow> 'a \<Rightarrow>
    (('d, 'm) io_scheme, 'a) state" where
  "enumerate_pci hw visit a =
     fold_state (\<lambda>bus. fold_state (enumerate_slot hw visit bus) (map of_nat [0..<32]))
       (map of_nat [0..<256]) a"

definition pci_device_count :: "'d hardware \<Rightarrow> (('d, 'm) io_scheme, nat) state" where
  "pci_device_count hw = enumerate_pci hw (\<lambda>_ count. State_Monad.return (count + 1)) 0"

definition visit_ahci ::
  "'d hardware \<Rightarrow> pci_device \<Rightarrow> ahci_controller option \<Rightarrow> (('d, 'm) io_scheme, ahci_controller option) state" where
  "visit_ahci hw d controller =
     (if controller = None \<and> (pci_class d, pci_subclass d) = (0x01, 0x06)
      then do {
        bar \<leftarrow> read_config hw (pci_bus d) (pci_slot d) (pci_function d) 0x24;
        let bar = bar AND NOT 0xF;
        State_Monad.return (if bar \<noteq> 0 then Some \<lparr>ahci_device = d, abar = ucast bar\<rparr> else controller)
      }
      else State_Monad.return controller)"

definition find_ahci_controller :: "'d hardware \<Rightarrow> (('d, 'm) io_scheme, ahci_controller option) state" where
  "find_ahci_controller hw = enumerate_pci hw (visit_ahci hw) None"

definition visit_rng ::
  "'d hardware \<Rightarrow> pci_device \<Rightarrow> virtio_rng_device option \<Rightarrow> (('d, 'm) io_scheme, virtio_rng_device option) state" where
  "visit_rng hw d result =
     (if result \<noteq> None \<or> vendor_id d \<noteq> 0x1AF4 \<or> device_id d \<noteq> 0x1005 then State_Monad.return result
      else do {
        bar \<leftarrow> read_config hw (pci_bus d) (pci_slot d) (pci_function d) 0x10;
        State_Monad.return (if bar AND 1 \<noteq> 0 then Some \<lparr>rng_device = d, io_base = ucast (bar AND NOT 3)\<rparr> else result)
      })"

definition find_virtio_rng :: "'d hardware \<Rightarrow> (('d, 'm) io_scheme, virtio_rng_device option) state" where
  "find_virtio_rng hw = enumerate_pci hw (visit_rng hw) None"

definition enable_memory_and_bus_master :: "'d hardware \<Rightarrow> pci_device \<Rightarrow> (('d, 'm) io_scheme, unit) state" where
  "enable_memory_and_bus_master hw d = do {
     command \<leftarrow> read_config hw (pci_bus d) (pci_slot d) (pci_function d) 0x04;
     write_config hw (pci_bus d) (pci_slot d) (pci_function d) 0x04 (command OR push_bit 1 1 OR push_bit 2 1)
   }"

end
