(* ===== verification/Sata.thy ===== *)
theory Sata
  imports Hardware
begin

text \<open>
  The disk driver \<open>kernel-core/src/sata.rs\<close>: one AHCI port with a command list, a command table
  and a data buffer in frames of their own, and commands issued one at a time and polled for.
  Registers are reached at their virtual addresses in the device window.
\<close>

section \<open>Data\<close>

definition HBA_GHC :: u64 where "HBA_GHC = 0x04"
definition HBA_PI :: u64 where "HBA_PI = 0x0C"
definition HBA_GHC_AE :: u32 where "HBA_GHC_AE = push_bit 31 1"
definition PORT_BASE :: u64 where "PORT_BASE = 0x100"
definition PORT_SIZE :: u64 where "PORT_SIZE = 0x80"
definition PORT_CLB :: u64 where "PORT_CLB = 0x00"
definition PORT_FB :: u64 where "PORT_FB = 0x08"
definition PORT_CMD :: u64 where "PORT_CMD = 0x18"
definition PORT_TFD :: u64 where "PORT_TFD = 0x20"
definition PORT_SIG :: u64 where "PORT_SIG = 0x24"
definition PORT_SSTS :: u64 where "PORT_SSTS = 0x28"
definition PORT_IS :: u64 where "PORT_IS = 0x10"
definition PORT_CI :: u64 where "PORT_CI = 0x38"
definition PORT_CMD_ST :: u32 where "PORT_CMD_ST = 1"
definition PORT_CMD_FRE :: u32 where "PORT_CMD_FRE = push_bit 4 1"
definition PORT_CMD_FR :: u32 where "PORT_CMD_FR = push_bit 14 1"
definition PORT_CMD_CR :: u32 where "PORT_CMD_CR = push_bit 15 1"
definition SATA_SIGNATURE :: u32 where "SATA_SIGNATURE = 0x00000101"
definition ATA_IDENTIFY :: u8 where "ATA_IDENTIFY = 0xEC"
definition ATA_READ_DMA_EXT :: u8 where "ATA_READ_DMA_EXT = 0x25"
definition AHCI_MMIO_BASE :: u64 where "AHCI_MMIO_BASE = DEVICE_WINDOW_BASE + PAGE_SIZE * 16"

lemmas port_registers = PORT_CLB_def PORT_FB_def PORT_CMD_def PORT_TFD_def PORT_SIG_def PORT_SSTS_def
  PORT_IS_def PORT_CI_def

datatype sata_error = NotFound | NoDevice | Timeout | DeviceError | AllocationFailed

record controller =
  mmio :: u64
  port :: nat
  command_list :: u64
  received_fis :: u64
  command_table :: u64
  data_buffer :: u64

record 'd sata_io = "'d io" +
  sata_controller :: "controller option"
  identify_model :: "u8 list"
  identify_sector_count :: u64

section \<open>Registers\<close>

definition write_register_u64 :: "'d hardware \<Rightarrow> u64 \<Rightarrow> u64 \<Rightarrow> (('d, 'm) io_scheme, unit) state" where
  "write_register_u64 hw offset v = do {
     write_register hw offset (ucast v);
     write_register hw (offset + 4) (ucast (drop_bit 32 v))
   }"

definition wait_for :: "(('d, 'm) io_scheme, bool) state \<Rightarrow> (('d, 'm) io_scheme, bool) state" where
  "wait_for ready = wait_rounds 1000000 ready"

text \<open>A register as the condition of a wait.\<close>

definition register_ready :: "'d hardware \<Rightarrow> u64 \<Rightarrow> (u32 \<Rightarrow> bool) \<Rightarrow> (('d, 'm) io_scheme, bool) state" where
  "register_ready hw address p = do { v \<leftarrow> read_register hw address; State_Monad.return (p v) }"

definition link_up :: "u32 \<Rightarrow> bool" where
  "link_up status \<longleftrightarrow> status AND 0xF = 3 \<and> drop_bit 8 status AND 0xF \<noteq> 0"

section \<open>Initialisation\<close>

definition stop_port :: "'d hardware \<Rightarrow> u64 \<Rightarrow> (('d, 'm) io_scheme, sata_error + unit) state" where
  "stop_port hw base = do {
     v \<leftarrow> read_register hw (base + PORT_CMD);
     write_register hw (base + PORT_CMD) (v AND NOT (PORT_CMD_ST OR PORT_CMD_FRE));
     stopped \<leftarrow> wait_for (register_ready hw (base + PORT_CMD) (\<lambda>v. v AND (PORT_CMD_CR OR PORT_CMD_FR) = 0));
     State_Monad.return (if stopped then Inr () else Inl Timeout)
   }"

definition frame_or_fail :: "(('d, 'm) io_scheme, sata_error + u64) state" where
  "frame_or_fail = do {
     r \<leftarrow> with_memory allocate_physical_frame;
     State_Monad.return (case r of None \<Rightarrow> Inl AllocationFailed | Some frame \<Rightarrow> Inr frame)
   }"

definition setup_port :: "'d hardware \<Rightarrow> u64 \<Rightarrow> nat \<Rightarrow> (('d, 'm) io_scheme, sata_error + controller) state" where
  "setup_port hw base_address number =
     (let base = base_address + PORT_BASE + of_nat number * PORT_SIZE
      in attempt frame_or_fail (\<lambda>list_frame.
         attempt frame_or_fail (\<lambda>fis_frame.
         attempt frame_or_fail (\<lambda>table_frame.
         attempt frame_or_fail (\<lambda>buffer_frame. do {
           each (\<lambda>frame. with_memory (\<lambda>m. ((), zero_physical_frame frame m)))
             [list_frame, fis_frame, table_frame, buffer_frame];
           attempt (stop_port hw base) (\<lambda>_. do {
             write_register_u64 hw (base + PORT_CLB) list_frame;
             write_register_u64 hw (base + PORT_FB) fis_frame;
             write_register hw (base + PORT_IS) 0xFFFFFFFF;
             v \<leftarrow> read_register hw (base + PORT_CMD);
             write_register hw (base + PORT_CMD) (v OR PORT_CMD_FRE OR PORT_CMD_ST);
             State_Monad.return (Inr \<lparr>mmio = base_address, port = number, command_list = list_frame,
               received_fis = fis_frame, command_table = table_frame, data_buffer = buffer_frame\<rparr>)
           })
         })))))"

text \<open>The loop over the ports; each \<open>continue\<close> of the code goes on with the remaining ports.\<close>

fun scan_ports :: "'d hardware \<Rightarrow> u64 \<Rightarrow> u32 \<Rightarrow> nat list \<Rightarrow> (('d, 'm) io_scheme, sata_error + controller) state" where
  "scan_ports hw base_address implemented [] = State_Monad.return (Inl NoDevice)"
| "scan_ports hw base_address implemented (number # numbers) =
     (let base = base_address + PORT_BASE + of_nat number * PORT_SIZE
      in if implemented AND push_bit number 1 = 0 then scan_ports hw base_address implemented numbers
         else do {
           linked \<leftarrow> wait_for (register_ready hw (base + PORT_SSTS) link_up);
           if \<not> linked then scan_ports hw base_address implemented numbers
           else do {
             status \<leftarrow> read_register hw (base + PORT_SSTS);
             if \<not> link_up status then scan_ports hw base_address implemented numbers
             else do {
               signature \<leftarrow> read_register hw (base + PORT_SIG);
               if signature \<noteq> SATA_SIGNATURE then scan_ports hw base_address implemented numbers
               else setup_port hw base_address number
             }
           }
         })"

definition initialize_controller :: "'d hardware \<Rightarrow> u64 \<Rightarrow> (('d, 'm) io_scheme, sata_error + controller) state" where
  "initialize_controller hw base_address = do {
     ghc \<leftarrow> read_register hw (base_address + HBA_GHC);
     write_register hw (base_address + HBA_GHC) (ghc OR HBA_GHC_AE);
     implemented \<leftarrow> read_register hw (base_address + HBA_PI);
     scan_ports hw base_address implemented [0..<32]
   }"

definition map_registers :: "u64 \<Rightarrow> u64 \<Rightarrow> (('d, 'm) io_scheme, sata_error + unit) state" where
  "map_registers virtual_address physical_address = do {
     r \<leftarrow> with_memory (map_device_page virtual_address physical_address);
     State_Monad.return (case r of Inl _ \<Rightarrow> Inl AllocationFailed | Inr _ \<Rightarrow> Inr ())
   }"

definition sata_initialize :: "'d hardware \<Rightarrow> (('d, 'm) sata_io_scheme, sata_error + unit) state" where
  "sata_initialize hw = do {
     r \<leftarrow> find_ahci_controller hw;
     case r of
       None \<Rightarrow> State_Monad.return (Inl NotFound)
     | Some ahci \<Rightarrow> do {
         enable_memory_and_bus_master hw (ahci_device ahci);
         attempt (map_registers AHCI_MMIO_BASE (abar ahci)) (\<lambda>_.
         attempt (map_registers (AHCI_MMIO_BASE + PAGE_SIZE) (abar ahci + PAGE_SIZE)) (\<lambda>_.
         attempt (initialize_controller hw AHCI_MMIO_BASE) (\<lambda>c. do {
           State_Monad.update (\<lambda>s. s\<lparr>sata_controller := Some c\<rparr>);
           State_Monad.return (Inr ())
         })))
       }
   }"

definition sata_available :: "('d, 'm) sata_io_scheme \<Rightarrow> bool" where
  "sata_available s \<longleftrightarrow> sata_controller s \<noteq> None"

section \<open>Commands\<close>

text \<open>The command header in slot 0, and the frame information structure with its one region.\<close>

definition write_command :: "controller \<Rightarrow> u8 \<Rightarrow> u64 \<Rightarrow> (('d, 'm) io_scheme, unit) state" where
  "write_command c command lba =
     (let header = command_list c; table = command_table c in do {
        with_memory (\<lambda>m. ((), zero_physical_frame (command_table c) m));
        with_memory (\<lambda>m. ((), zero_physical_frame (data_buffer c) m));
        poke header (little_endian 2 (5 :: u16));
        poke (header + 2) (little_endian 2 (1 :: u16));
        poke (header + 8) (little_endian 4 (ucast (command_table c) :: u32));
        poke (header + 12) (little_endian 4 (ucast (drop_bit 32 (command_table c)) :: u32));
        poke table [0x27];
        poke (table + 1) [0x80];
        poke (table + 2) [command];
        poke (table + 4) [ucast lba];
        poke (table + 5) [ucast (drop_bit 8 lba)];
        poke (table + 6) [ucast (drop_bit 16 lba)];
        poke (table + 7) [push_bit 6 1];
        poke (table + 8) [ucast (drop_bit 24 lba)];
        poke (table + 9) [ucast (drop_bit 32 lba)];
        poke (table + 10) [ucast (drop_bit 40 lba)];
        poke (table + 12) [1];
        poke (table + 128) (little_endian 4 (ucast (data_buffer c) :: u32));
        poke (table + 132) (little_endian 4 (ucast (drop_bit 32 (data_buffer c)) :: u32));
        poke (table + 140) (little_endian 4 (511 OR push_bit 31 1 :: u32))
      })"

definition issue_command :: "'d hardware \<Rightarrow> controller \<Rightarrow> u8 \<Rightarrow> u64 \<Rightarrow> (('d, 'm) io_scheme, sata_error + unit) state" where
  "issue_command hw c command lba =
     (let base = mmio c + PORT_BASE + of_nat (port c) * PORT_SIZE in do {
        idle \<leftarrow> wait_for (register_ready hw (base + PORT_TFD) (\<lambda>v. v AND 0x88 = 0));
        if \<not> idle then State_Monad.return (Inl Timeout)
        else do {
          write_command c command lba;
          write_register hw (base + PORT_IS) 0xFFFFFFFF;
          write_register hw (base + PORT_CI) 1;
          completed \<leftarrow> wait_for (register_ready hw (base + PORT_CI) (\<lambda>v. v AND 1 = 0));
          if \<not> completed then State_Monad.return (Inl Timeout)
          else do {
            v \<leftarrow> read_register hw (base + PORT_TFD);
            State_Monad.return (if v AND 1 \<noteq> 0 then Inl DeviceError else Inr ())
          }
        }
      })"

text \<open>The bytes of the data buffer.\<close>

definition buffer_bytes :: "controller \<Rightarrow> nat \<Rightarrow> nat \<Rightarrow> (('d, 'm) io_scheme, u8 list) state" where
  "buffer_bytes c first n =
     State (\<lambda>s. (map (\<lambda>i. phys (io_memory s) (unat (data_buffer c) + first + i)) [0..<n], s))"

definition sata_identify :: "'d hardware \<Rightarrow> (('d, 'm) sata_io_scheme, sata_error + unit) state" where
  "sata_identify hw = do {
     s \<leftarrow> State_Monad.get;
     case sata_controller s of
       None \<Rightarrow> State_Monad.return (Inl NotFound)
     | Some c \<Rightarrow> attempt (issue_command hw c ATA_IDENTIFY 0) (\<lambda>_. do {
         model \<leftarrow> buffer_bytes c 54 40;
         sectors \<leftarrow> buffer_bytes c 200 8;
         State_Monad.update (\<lambda>s. s\<lparr>
           identify_model := concat (map (\<lambda>i. [model ! (i * 2 + 1), model ! (i * 2)]) [0..<20]),
           identify_sector_count := fold (\<lambda>i w. w OR push_bit (i * 8) (ucast (sectors ! i))) [0..<8] 0\<rparr>);
         State_Monad.return (Inr ())
       })
   }"

definition identify_model_byte :: "nat \<Rightarrow> ('d, 'm) sata_io_scheme \<Rightarrow> u8" where
  "identify_model_byte index s = (if 40 \<le> index then 32 else identify_model s ! index)"

definition read_first_sector :: "'d hardware \<Rightarrow> (('d, 'm) sata_io_scheme, sata_error + u8 list) state" where
  "read_first_sector hw = do {
     s \<leftarrow> State_Monad.get;
     case sata_controller s of
       None \<Rightarrow> State_Monad.return (Inl NotFound)
     | Some c \<Rightarrow> attempt (issue_command hw c ATA_READ_DMA_EXT 0) (\<lambda>_. do {
         bytes \<leftarrow> buffer_bytes c 0 16;
         State_Monad.return (Inr bytes)
       })
   }"

text \<open>The answer and the caller's buffer.\<close>

definition read_sector ::
  "'d hardware \<Rightarrow> u64 \<Rightarrow> u8 list \<Rightarrow> (('d, 'm) sata_io_scheme, sata_error + u8 list) state" where
  "read_sector hw lba buffer =
     (if length buffer < 512 then State_Monad.return (Inl DeviceError)
      else do {
        s \<leftarrow> State_Monad.get;
        case sata_controller s of
          None \<Rightarrow> State_Monad.return (Inl NotFound)
        | Some c \<Rightarrow> attempt (issue_command hw c ATA_READ_DMA_EXT lba) (\<lambda>_. do {
            bytes \<leftarrow> buffer_bytes c 0 512;
            State_Monad.return (Inr (store_bytes buffer 0 bytes))
          })
      })"

section \<open>The block device\<close>

datatype driver_error = Unsupported | NotReady | BufferTooSmall

datatype block_device_error = BlockNotReady | BlockDeviceError | BlockBufferTooSmall

definition sata_driver_initialize :: "'d hardware \<Rightarrow> (('d, 'm) sata_io_scheme, driver_error + unit) state" where
  "sata_driver_initialize hw = do {
     s \<leftarrow> State_Monad.get;
     if sata_available s then State_Monad.return (Inr ())
     else do {
       r \<leftarrow> sata_initialize hw;
       State_Monad.return (case r of
           Inr _ \<Rightarrow> Inr ()
         | Inl error \<Rightarrow> Inl (if error = NotFound \<or> error = NoDevice then Unsupported else NotReady))
     }
   }"

definition SECTOR_SIZE :: nat where "SECTOR_SIZE = 512"

definition block_read_sector ::
  "'d hardware \<Rightarrow> u64 \<Rightarrow> u8 list \<Rightarrow> (('d, 'm) sata_io_scheme, block_device_error + u8 list) state" where
  "block_read_sector hw lba buffer =
     (if length buffer < SECTOR_SIZE then State_Monad.return (Inl BlockBufferTooSmall)
      else do {
        r \<leftarrow> read_sector hw lba (take SECTOR_SIZE buffer);
        State_Monad.return (case r of
            Inr bytes \<Rightarrow> Inr (bytes @ drop SECTOR_SIZE buffer)
          | Inl error \<Rightarrow> Inl (if error = NotFound \<or> error = NoDevice then BlockNotReady else BlockDeviceError))
      })"

end
