(* ===== verification/Peripherals.thy ===== *)
theory Peripherals
  imports Sata
begin

text \<open>
  The small drivers: the mouse of \<open>mouse.rs\<close>, the loopback network driver of \<open>drivers.rs\<close> and the
  start of the USB host controller of \<open>xhci.rs\<close>.
\<close>

section \<open>The mouse\<close>

text \<open>The position is two signed words of 32 bits.\<close>

type_synonym i32 = "32 word"

record mouse =
  mouse_x :: i32
  mouse_y :: i32
  packet :: "u8 list"
  packet_index :: nat

definition mouse_initial :: mouse where
  "mouse_initial = \<lparr>mouse_x = 64, mouse_y = 64, packet = replicate 3 0, packet_index = 0\<rparr>"

definition saturate_i32 :: "int \<Rightarrow> i32" where
  "saturate_i32 i = word_of_int (max (- (2 ^ 31)) (min i (2 ^ 31 - 1)))"

definition max_zero :: "i32 \<Rightarrow> i32" where
  "max_zero w = (if sint w < 0 then 0 else w)"

definition handle_byte :: "u8 \<Rightarrow> mouse \<Rightarrow> bool \<times> mouse" where
  "handle_byte byte s =
     (if packet_index s = 0 \<and> byte AND 0x08 = 0 then (False, s)
      else let s = s\<lparr>packet := (packet s)[packet_index s := byte], packet_index := packet_index s + 1\<rparr>
           in if packet_index s \<noteq> 3 then (False, s)
              else let s = s\<lparr>packet_index := 0\<rparr>
                   in if packet s ! 0 AND 0xC0 \<noteq> 0 then (False, s)
                      else let delta_x = sint (packet s ! 1); delta_y = sint (packet s ! 2)
                           in (delta_x \<noteq> 0 \<or> delta_y \<noteq> 0,
                               s\<lparr>mouse_x := max_zero (saturate_i32 (sint (mouse_x s) + delta_x)),
                                 mouse_y := max_zero (saturate_i32 (sint (mouse_y s) - delta_y))\<rparr>))"

definition mouse_position :: "mouse \<Rightarrow> nat \<times> nat" where
  "mouse_position s = (nat (sint (mouse_x s) mod 2 ^ 64), nat (sint (mouse_y s) mod 2 ^ 64))"

record 'd mouse_io = "'d io" +
  mouse_state :: mouse

text \<open>At most sixteen bytes of the auxiliary device.\<close>

fun poll_rounds :: "nat \<Rightarrow> 'd hardware \<Rightarrow> bool \<Rightarrow> (('d, 'm) mouse_io_scheme, bool) state" where
  "poll_rounds 0 hw moved = State_Monad.return moved"
| "poll_rounds (Suc n) hw moved = do {
     status \<leftarrow> inb hw 0x64;
     if status AND 0x21 \<noteq> 0x21 then State_Monad.return moved
     else do {
       byte \<leftarrow> inb hw 0x60;
       s \<leftarrow> State_Monad.get;
       let r = handle_byte byte (mouse_state s);
       State_Monad.set (s\<lparr>mouse_state := snd r\<rparr>);
       poll_rounds n hw (moved \<or> fst r)
     }
   }"

definition mouse_poll :: "'d hardware \<Rightarrow> (('d, 'm) mouse_io_scheme, bool) state" where
  "mouse_poll hw = poll_rounds 16 hw False"

definition wait_for_input_buffer_empty :: "'d hardware \<Rightarrow> (('d, 'm) io_scheme, bool) state" where
  "wait_for_input_buffer_empty hw =
     wait_rounds 100000 (do { status \<leftarrow> inb hw 0x64; State_Monad.return (status AND 0x02 = 0) })"

definition read_data :: "'d hardware \<Rightarrow> (('d, 'm) io_scheme, u8 option) state" where
  "read_data hw = do {
     full \<leftarrow> wait_rounds 100000 (do { status \<leftarrow> inb hw 0x64; State_Monad.return (status AND 0x01 \<noteq> 0) });
     if full then do { byte \<leftarrow> inb hw 0x60; State_Monad.return (Some byte) }
     else State_Monad.return None
   }"

definition mouse_command :: "'d hardware \<Rightarrow> u8 \<Rightarrow> (('d, 'm) io_scheme, bool) state" where
  "mouse_command hw command = do {
     empty \<leftarrow> wait_for_input_buffer_empty hw;
     if \<not> empty then State_Monad.return False
     else do {
       outb hw 0x64 0xD4;
       empty \<leftarrow> wait_for_input_buffer_empty hw;
       if \<not> empty then State_Monad.return False
       else do {
         outb hw 0x60 command;
         r \<leftarrow> read_data hw;
         State_Monad.return (r = Some 0xFA)
       }
     }
   }"

definition initialize_mouse :: "'d hardware \<Rightarrow> (('d, 'm) io_scheme, unit) state" where
  "initialize_mouse hw = do {
     empty \<leftarrow> wait_for_input_buffer_empty hw;
     if \<not> empty then State_Monad.return ()
     else do {
       outb hw 0x64 0xA8;
       defaults \<leftarrow> mouse_command hw 0xF6;
       if \<not> defaults then State_Monad.return ()
       else do { mouse_command hw 0xF4; State_Monad.return () }
     }
   }"

section \<open>The loopback network driver\<close>

record loopback =
  loopback_frame :: "u8 list"
  loopback_length :: nat
  initialized :: bool

definition loopback_new :: loopback where
  "loopback_new = \<lparr>loopback_frame = replicate 1536 0, loopback_length = 0, initialized = False\<rparr>"

definition loopback_initialize :: "loopback \<Rightarrow> (driver_error + unit) \<times> loopback" where
  "loopback_initialize s = (Inr (), s\<lparr>initialized := True\<rparr>)"

definition mac_address :: "u8 list" where
  "mac_address = [0x02, 0, 0, 0, 0, 1]"

definition transmit :: "u8 list \<Rightarrow> loopback \<Rightarrow> (driver_error + unit) \<times> loopback" where
  "transmit frame s =
     (if \<not> initialized s then (Inl NotReady, s)
      else if length (loopback_frame s) < length frame then (Inl BufferTooSmall, s)
      else (Inr (), s\<lparr>loopback_frame := store_bytes (loopback_frame s) 0 frame, loopback_length := length frame\<rparr>))"

text \<open>The number of bytes received and the caller's buffer.\<close>

definition receive :: "u8 list \<Rightarrow> loopback \<Rightarrow> (driver_error + nat option) \<times> u8 list \<times> loopback" where
  "receive buffer s =
     (if \<not> initialized s then (Inl NotReady, buffer, s)
      else if loopback_length s = 0 then (Inr None, buffer, s)
      else if length buffer < loopback_length s then (Inl BufferTooSmall, buffer, s)
      else (Inr (Some (loopback_length s)),
            store_bytes buffer 0 (take (loopback_length s) (loopback_frame s)), s\<lparr>loopback_length := 0\<rparr>))"

text \<open>A received frame is the last transmitted one, and it is received once.\<close>

lemma loopback_roundtrip:
  assumes "initialized s" and "length (loopback_frame s) = 1536"
    and "frame \<noteq> []" and "length frame \<le> 1536" and "length frame \<le> length buffer"
  shows "\<exists>s' s''. transmit frame s = (Inr (), s') \<and>
    receive buffer s' = (Inr (Some (length frame)), store_bytes buffer 0 frame, s'') \<and>
    receive other s'' = (Inr None, other, s'')"
  using assms by (simp add: transmit_def receive_def)

section \<open>The USB host controller\<close>

definition USBCMD :: u64 where "USBCMD = 0x00"
definition USBSTS :: u64 where "USBSTS = 0x04"
definition USBCMD_RUN :: u32 where "USBCMD_RUN = 1"
definition USBSTS_HALTED :: u32 where "USBSTS_HALTED = 1"
definition USBCMD_RESET :: u32 where "USBCMD_RESET = push_bit 1 1"

record xhci_controller =
  xhci_mmio :: u64
  operational_offset :: nat
  xhci_initialized :: bool

definition xhci_new :: "u64 \<Rightarrow> xhci_controller" where
  "xhci_new mmio_base = \<lparr>xhci_mmio = mmio_base, operational_offset = 0, xhci_initialized = False\<rparr>"

definition xhci_register :: "xhci_controller \<Rightarrow> u64 \<Rightarrow> u64" where
  "xhci_register c offset = xhci_mmio c + of_nat (operational_offset c) + offset"

definition xhci_read :: "'d hardware \<Rightarrow> xhci_controller \<Rightarrow> u64 \<Rightarrow> (('d, 'm) io_scheme, u32) state" where
  "xhci_read hw c offset = read_register hw (xhci_register c offset)"

definition xhci_write :: "'d hardware \<Rightarrow> xhci_controller \<Rightarrow> u64 \<Rightarrow> u32 \<Rightarrow> (('d, 'm) io_scheme, unit) state" where
  "xhci_write hw c offset v = write_register hw (xhci_register c offset) v"

definition xhci_wait_for ::
  "'d hardware \<Rightarrow> xhci_controller \<Rightarrow> u64 \<Rightarrow> u32 \<Rightarrow> bool \<Rightarrow> (('d, 'm) io_scheme, bool) state" where
  "xhci_wait_for hw c offset bits expected =
     wait_rounds 1000000 (do { v \<leftarrow> xhci_read hw c offset; State_Monad.return ((v AND bits \<noteq> 0) = expected) })"

text \<open>The capability length is the low byte of the first register.\<close>

definition xhci_initialize ::
  "'d hardware \<Rightarrow> xhci_controller \<Rightarrow> (('d, 'm) io_scheme, (driver_error + unit) \<times> xhci_controller) state" where
  "xhci_initialize hw c =
     (if xhci_mmio c = 0 then State_Monad.return (Inl Unsupported, c)
      else do {
        first \<leftarrow> read_register hw (xhci_mmio c);
        let capability_length = unat (ucast first :: u8);
        if capability_length < 0x20 then State_Monad.return (Inl Unsupported, c)
        else do {
          let c = c\<lparr>operational_offset := capability_length\<rparr>;
          v \<leftarrow> xhci_read hw c USBCMD;
          xhci_write hw c USBCMD (v AND NOT USBCMD_RUN);
          halted \<leftarrow> xhci_wait_for hw c USBSTS USBSTS_HALTED True;
          if \<not> halted then State_Monad.return (Inl NotReady, c)
          else do {
            v \<leftarrow> xhci_read hw c USBCMD;
            xhci_write hw c USBCMD (v OR USBCMD_RESET);
            reset_done \<leftarrow> xhci_wait_for hw c USBCMD USBCMD_RESET False;
            if \<not> reset_done then State_Monad.return (Inl NotReady, c)
            else do {
              v \<leftarrow> xhci_read hw c USBCMD;
              xhci_write hw c USBCMD (v OR USBCMD_RUN);
              State_Monad.return (Inr (), c\<lparr>xhci_initialized := True\<rparr>)
            }
          }
        }
      })"

end
