(* ===== verification/Entropy.thy ===== *)
theory Entropy
  imports Sata
begin

text \<open>
  Random numbers, \<open>kernel-core/src/random.rs\<close>: a legacy virtio entropy device with a queue of two
  frames and a buffer of one, and the entropy instructions of the processor as the fallback.
\<close>

section \<open>Data\<close>

definition VIRTIO_STATUS :: u16 where "VIRTIO_STATUS = 0x12"
definition VIRTIO_QUEUE_ADDRESS :: u16 where "VIRTIO_QUEUE_ADDRESS = 0x08"
definition VIRTIO_QUEUE_SIZE :: u16 where "VIRTIO_QUEUE_SIZE = 0x0C"
definition VIRTIO_QUEUE_SELECT :: u16 where "VIRTIO_QUEUE_SELECT = 0x0E"
definition VIRTIO_QUEUE_NOTIFY :: u16 where "VIRTIO_QUEUE_NOTIFY = 0x10"
definition VIRTIO_ACKNOWLEDGE :: u8 where "VIRTIO_ACKNOWLEDGE = 1"
definition VIRTIO_DRIVER :: u8 where "VIRTIO_DRIVER = 2"
definition VIRTIO_DRIVER_OK :: u8 where "VIRTIO_DRIVER_OK = 4"
definition VIRTIO_QUEUE :: u16 where "VIRTIO_QUEUE = 0"

datatype random_error = Unavailable | RandomTimeout

record 'd drivers = "'d sata_io" +
  virtio_port :: u16
  virtio_queue_frame :: u64
  virtio_buffer_frame :: u64
  virtio_ring_size :: nat
  virtio_available_index :: u16
  virtio_used_index :: u16

definition drivers_initial :: "'d \<Rightarrow> memory \<Rightarrow> 'd drivers" where
  "drivers_initial d m = \<lparr>io_device = d, io_memory = m, sata_controller = None,
     identify_model = replicate 40 32, identify_sector_count = 0, virtio_port = 0,
     virtio_queue_frame = 0, virtio_buffer_frame = 0, virtio_ring_size = 0,
     virtio_available_index = 0, virtio_used_index = 0\<rparr>"

section \<open>Initialisation\<close>

definition free_frame :: "u64 \<Rightarrow> (('d, 'm) io_scheme, unit) state" where
  "free_frame frame = with_memory (\<lambda>m. ((), free_physical_frame frame m))"

definition zero_page :: "u64 \<Rightarrow> (('d, 'm) io_scheme, unit) state" where
  "zero_page frame = with_memory (\<lambda>m. ((), zero_physical_frame frame m))"

definition setup_queue :: "'d hardware \<Rightarrow> u16 \<Rightarrow> nat \<Rightarrow> (('d, 'm) drivers_scheme, unit) state" where
  "setup_queue hw base queue_size = do {
     r \<leftarrow> with_memory allocate_physical_frame;
     case r of
       None \<Rightarrow> State_Monad.return ()
     | Some queue \<Rightarrow> do {
         r \<leftarrow> with_memory allocate_physical_frame;
         case r of
           None \<Rightarrow> free_frame queue
         | Some queue_next \<Rightarrow>
             if queue_next \<noteq> queue + PAGE_SIZE then do { free_frame queue; free_frame queue_next }
             else do {
               r \<leftarrow> with_memory allocate_physical_frame;
               case r of
                 None \<Rightarrow> do { free_frame queue; free_frame queue_next }
               | Some buffer \<Rightarrow> do {
                   zero_page queue;
                   zero_page queue_next;
                   outl hw (base + VIRTIO_QUEUE_ADDRESS) (ucast (queue div PAGE_SIZE));
                   outb hw (base + VIRTIO_STATUS) (VIRTIO_ACKNOWLEDGE OR VIRTIO_DRIVER OR VIRTIO_DRIVER_OK);
                   State_Monad.update (\<lambda>s. s\<lparr>virtio_port := base, virtio_queue_frame := queue,
                     virtio_buffer_frame := buffer, virtio_ring_size := queue_size,
                     virtio_available_index := 0, virtio_used_index := 0\<rparr>)
                 }
             }
       }
   }"

definition initialize_random :: "'d hardware \<Rightarrow> (('d, 'm) drivers_scheme, unit) state" where
  "initialize_random hw = do {
     r \<leftarrow> find_virtio_rng hw;
     case r of
       None \<Rightarrow> State_Monad.return ()
     | Some d \<Rightarrow> do {
         enable_memory_and_bus_master hw (rng_device d);
         outb hw (io_base d + VIRTIO_STATUS) 0;
         outb hw (io_base d + VIRTIO_STATUS) (VIRTIO_ACKNOWLEDGE OR VIRTIO_DRIVER);
         outw hw (io_base d + VIRTIO_QUEUE_SELECT) VIRTIO_QUEUE;
         queue_size \<leftarrow> inw hw (io_base d + VIRTIO_QUEUE_SIZE);
         if queue_size = 0 \<or> 128 < unat queue_size then State_Monad.return ()
         else setup_queue hw (io_base d) (unat queue_size)
       }
   }"

section \<open>Filling a buffer\<close>

definition peek_u16 :: "u64 \<Rightarrow> (('d, 'm) io_scheme, u16) state" where
  "peek_u16 address = do {
     low \<leftarrow> peek address; high \<leftarrow> peek (address + 1);
     State_Monad.return (ucast low OR push_bit 8 (ucast high))
   }"

definition peek_u32 :: "u64 \<Rightarrow> (('d, 'm) io_scheme, u32) state" where
  "peek_u32 address = do {
     low \<leftarrow> peek_u16 address; high \<leftarrow> peek_u16 (address + 2);
     State_Monad.return (ucast low OR push_bit 16 (ucast high))
   }"

definition peek_bytes :: "u64 \<Rightarrow> nat \<Rightarrow> (('d, 'm) io_scheme, u8 list) state" where
  "peek_bytes address n =
     State (\<lambda>s. (map (\<lambda>i. phys (io_memory s) (unat address + i)) [0..<n], s))"

text \<open>The answer of a filling call goes with the buffer, also when it fails.\<close>

definition collect_virtio ::
  "u64 \<Rightarrow> nat \<Rightarrow> u16 \<Rightarrow> u8 list \<Rightarrow> (('d, 'm) drivers_scheme, (random_error + unit) \<times> u8 list) state" where
  "collect_virtio used queue_size used_index output = do {
     reported \<leftarrow> peek_u32 (used + of_nat (8 + unat used_index mod queue_size * 8));
     let filled = unat (min reported (of_nat (length output)));
     State_Monad.update (\<lambda>s. s\<lparr>virtio_used_index := used_index + 1\<rparr>);
     s \<leftarrow> State_Monad.get;
     bytes \<leftarrow> peek_bytes (virtio_buffer_frame s) filled;
     State_Monad.return (if filled = length output then Inr () else Inl Unavailable, store_bytes output 0 bytes)
   }"

definition fill_virtio ::
  "'d hardware \<Rightarrow> u8 list \<Rightarrow> (('d, 'm) drivers_scheme, (random_error + unit) \<times> u8 list) state" where
  "fill_virtio hw output = do {
     s \<leftarrow> State_Monad.get;
     let queue = virtio_queue_frame s;
     let queue_size = virtio_ring_size s;
     let available_index = virtio_available_index s;
     let used_index = virtio_used_index s;
     let available = queue + of_nat (queue_size * 16);
     let used = queue + PAGE_SIZE;
     poke queue (little_endian 8 (virtio_buffer_frame s));
     poke (queue + 8) (little_endian 4 (of_nat (length output) :: u32));
     poke (queue + 12) (little_endian 2 (2 :: u16));
     poke (queue + 14) (little_endian 2 (0 :: u16));
     poke available (little_endian 2 (0 :: u16));
     poke (available + of_nat (4 + unat available_index mod queue_size * 2)) (little_endian 2 (0 :: u16));
     poke (available + 2) (little_endian 2 (available_index + 1));
     State_Monad.update (\<lambda>s. s\<lparr>virtio_available_index := available_index + 1\<rparr>);
     outw hw (virtio_port s + VIRTIO_QUEUE_NOTIFY) VIRTIO_QUEUE;
     completed \<leftarrow> wait_rounds 1000000 (do { index \<leftarrow> peek_u16 (used + 2); State_Monad.return (index \<noteq> used_index) });
     if completed then collect_virtio used queue_size used_index output
     else State_Monad.return (Inl RandomTimeout, output)
   }"

text \<open>At most ten attempts of the instruction the processor has.\<close>

primrec try_word :: "nat \<Rightarrow> 'd hardware \<Rightarrow> (('d, 'm) io_scheme, u64 option) state" where
  "try_word 0 hw = State_Monad.return None"
| "try_word (Suc n) hw =
     (if cpuid_ebx_7 hw AND push_bit 18 1 \<noteq> 0 then do {
        r \<leftarrow> on_bus (rdseed hw);
        if snd r then State_Monad.return (Some (fst r)) else try_word n hw
      }
      else if cpuid_ecx_1 hw AND push_bit 30 1 \<noteq> 0 then do {
        r \<leftarrow> on_bus (rdrand hw);
        if snd r then State_Monad.return (Some (fst r)) else try_word n hw
      }
      else State_Monad.return None)"

definition hardware_word :: "'d hardware \<Rightarrow> (('d, 'm) io_scheme, u64 option) state" where
  "hardware_word hw = try_word 10 hw"

text \<open>The loop of \<open>fill_hardware\<close> from an offset on; it moves at least one byte in each round.\<close>

function fill_from :: "'d hardware \<Rightarrow> nat \<Rightarrow> u8 list \<Rightarrow>
    (('d, 'm) io_scheme, (random_error + unit) \<times> u8 list) state" where
  "fill_from hw offset output =
     (if length output \<le> offset then State_Monad.return (Inr (), output)
      else do {
        r \<leftarrow> hardware_word hw;
        case r of
          None \<Rightarrow> State_Monad.return (Inl Unavailable, output)
        | Some value \<Rightarrow>
            (let bytes = take (length output - offset) (little_endian 8 value)
             in fill_from hw (offset + length bytes) (store_bytes output offset bytes))
      })"
  by pat_completeness auto
termination
  by (relation "measure (\<lambda>(hw, offset, output). length output - offset)")
    (auto simp: little_endian_def)

declare fill_from.simps [simp del]

definition fill_hardware ::
  "'d hardware \<Rightarrow> u8 list \<Rightarrow> (('d, 'm) io_scheme, (random_error + unit) \<times> u8 list) state" where
  "fill_hardware hw output = fill_from hw 0 output"

definition fill_random ::
  "'d hardware \<Rightarrow> u8 list \<Rightarrow> (('d, 'm) drivers_scheme, (random_error + unit) \<times> u8 list) state" where
  "fill_random hw output =
     (if output = [] then State_Monad.return (Inr (), output)
      else do {
        s \<leftarrow> State_Monad.get;
        r \<leftarrow> (if virtio_port s \<noteq> 0 \<and> length output \<le> unat PAGE_SIZE then fill_virtio hw output
              else State_Monad.return (Inl Unavailable, output));
        if fst r = Inr () then State_Monad.return r else fill_hardware hw (snd r)
      })"

end
