(* ===== verification/Machine.thy ===== *)
theory Machine
  imports UserMemory Timers Pty Entropy
begin

text \<open>
  The whole machine as \<open>kernel-core/src/arch.rs\<close> sees it: the kernel with its file system and
  processes, pseudo-terminals, timers, virtual terminals, drivers, and the statics of the module.
  A system call is a program of the state monad over it.  A buffer of the caller is read and
  written through the active page tables; an unmapped byte is a page fault of the kernel.
\<close>

section \<open>State\<close>

text \<open>A gate of the interrupt descriptor table, as its packed fields.\<close>

record idt_entry =
  offset_low :: u16
  selector :: u16
  ist :: u8
  attributes :: u8
  offset_middle :: u16
  offset_high :: u32
  gate_reserved :: u32

record 'd machine =
  mach_system :: system
  mach_ptys :: "pty list"
  mach_timers :: timers
  mach_terminals :: terminals
  mach_drivers :: "'d drivers"
  power_event :: u8
  syscall_count :: u64
  tss_rsp0 :: u64
  fs_base_register :: u64
  gdt :: "u64 list"
  idt :: "idt_entry list"

abbreviation mach_kernel :: "('d, 'm) machine_scheme \<Rightarrow> kernel" where
  "mach_kernel m \<equiv> sys_kernel (mach_system m)"

abbreviation mach_memory :: "('d, 'm) machine_scheme \<Rightarrow> memory" where
  "mach_memory m \<equiv> kmem (mach_kernel m)"

section \<open>The parts as programs\<close>

definition on_system :: "(system \<Rightarrow> 'a \<times> system) \<Rightarrow> ('d machine, 'a) state" where
  "on_system f = State (\<lambda>m. case f (mach_system m) of (v, s) \<Rightarrow> (v, m\<lparr>mach_system := s\<rparr>))"

definition on_kernel :: "(kernel \<Rightarrow> 'a \<times> kernel) \<Rightarrow> ('d machine, 'a) state" where
  "on_kernel f = on_system (\<lambda>s. case f (sys_kernel s) of (v, k) \<Rightarrow> (v, s\<lparr>sys_kernel := k\<rparr>))"

definition on_timers :: "(timers \<Rightarrow> kernel \<Rightarrow> 'a \<times> timers \<times> kernel) \<Rightarrow> ('d machine, 'a) state" where
  "on_timers f = State (\<lambda>m. case f (mach_timers m) (mach_kernel m) of
     (v, t, k) \<Rightarrow> (v, m\<lparr>mach_timers := t, mach_system := (mach_system m)\<lparr>sys_kernel := k\<rparr>\<rparr>))"

text \<open>The operations of \<open>pty.rs\<close> ask for the process of the caller.\<close>

definition on_ptys :: "(nat option \<Rightarrow> pty list \<Rightarrow> 'a \<times> pty list) \<Rightarrow> ('d machine, 'a) state" where
  "on_ptys f = State (\<lambda>m. case f (current_process (mach_kernel m)) (mach_ptys m) of
     (v, p) \<Rightarrow> (v, m\<lparr>mach_ptys := p\<rparr>))"

definition on_terminals :: "(terminals \<Rightarrow> 'a \<times> terminals) \<Rightarrow> ('d machine, 'a) state" where
  "on_terminals f = State (\<lambda>m. case f (mach_terminals m) of (v, c) \<Rightarrow> (v, m\<lparr>mach_terminals := c\<rparr>))"

text \<open>A driver runs on the memory of the kernel.\<close>

definition drive :: "('d drivers, 'a) state \<Rightarrow> ('d machine, 'a) state" where
  "drive act = State (\<lambda>m. case run_state act ((mach_drivers m)\<lparr>io_memory := mach_memory m\<rparr>) of
     (v, d) \<Rightarrow> (v, m\<lparr>mach_drivers := d, mach_system := set_memory (io_memory d) (mach_system m)\<rparr>))"

definition looking :: "('d machine \<Rightarrow> 'a) \<Rightarrow> ('d machine, 'a) state" where
  "looking f = State (\<lambda>m. (f m, m))"

section \<open>Outcomes\<close>

text \<open>
  A call answers its caller; or suspends it until another thread exits, to be resumed with
  \<open>join_resume\<close> or \<open>wait_process_resume\<close>; or ends the calling thread; or the machine stops, by a
  power call or by a page fault of the kernel (\<open>exception_halt\<close>).
\<close>

datatype suspension = JoinOf nat | WaitOf nat nat

datatype outcome = Answer u64 | Suspended suspension | Gone | Halted | Fault

definition opt_answer :: "nat option \<Rightarrow> u64" where
  "opt_answer r = (case r of None \<Rightarrow> u64_max | Some n \<Rightarrow> of_nat n)"

section \<open>Buffers of the caller\<close>

text \<open>The test of \<open>user_bytes\<close> and \<open>user_bytes_mut\<close>.\<close>

definition user_bytes :: "u64 \<Rightarrow> u64 \<Rightarrow> u64 \<Rightarrow> bool" where
  "user_bytes pointer len maximum =
     (case checked_add pointer len of
        None \<Rightarrow> False
      | Some end' \<Rightarrow> \<not> (pointer < FUTURE_USER_SPACE_BASE \<or> USER_SPACE_END < end' \<or> maximum < len))"

definition valid_user_word :: "u64 \<Rightarrow> bool" where
  "valid_user_word address \<longleftrightarrow> address mod 4 = 0 \<and> FUTURE_USER_SPACE_BASE \<le> address \<and>
     (case checked_add address 4 of None \<Rightarrow> False | Some end' \<Rightarrow> end' \<le> USER_SPACE_END)"

definition load_user_byte :: "memory \<Rightarrow> u64 \<Rightarrow> u8 option" where
  "load_user_byte m a = user_byte (active_address_space m) a m"

fun load_user_bytes :: "memory \<Rightarrow> u64 \<Rightarrow> nat \<Rightarrow> u8 list option" where
  "load_user_bytes m a 0 = Some []"
| "load_user_bytes m a (Suc n) =
     Option.bind (load_user_byte m a) (\<lambda>b. map_option (Cons b) (load_user_bytes m (a + 1) n))"

text \<open>
  A call with an input buffer.  The bytes are read before the operation runs, so a call that would
  refuse its other arguments before it touches an unmapped buffer is a fault here.
\<close>

definition with_input :: "u64 \<Rightarrow> u64 \<Rightarrow> u64 \<Rightarrow> (u8 list \<Rightarrow> ('d machine, outcome) state) \<Rightarrow> ('d machine, outcome) state" where
  "with_input pointer len maximum f =
     (if \<not> user_bytes pointer len maximum then State_Monad.return (Answer u64_max)
      else do {
        input \<leftarrow> looking (\<lambda>m. load_user_bytes (mach_memory m) pointer (unat len));
        case input of None \<Rightarrow> State_Monad.return Fault | Some bytes \<Rightarrow> f bytes
      })"

text \<open>
  A call with an output buffer: \<open>f\<close> gets the buffer as it is (a byte that is not mapped counts as 0),
  and answers how many bytes at its start it touches; those go back to the memory of the caller.
\<close>

definition buffer_of :: "memory \<Rightarrow> u64 \<Rightarrow> nat \<Rightarrow> u8 list" where
  "buffer_of m a n = map (\<lambda>i. case load_user_byte m (a + of_nat i) of None \<Rightarrow> 0 | Some b \<Rightarrow> b) [0..<n]"

definition with_output :: "u64 \<Rightarrow> u64 \<Rightarrow> u64 \<Rightarrow> (u8 list \<Rightarrow> ('d machine, u64 \<times> nat \<times> u8 list) state) \<Rightarrow>
    ('d machine, outcome) state" where
  "with_output pointer len maximum f =
     (if \<not> user_bytes pointer len maximum then State_Monad.return (Answer u64_max)
      else do {
        output \<leftarrow> looking (\<lambda>m. buffer_of (mach_memory m) pointer (unat len));
        r \<leftarrow> f output;
        case r of (answer, count, bytes) \<Rightarrow> do {
          stored \<leftarrow> looking (\<lambda>m. write_user_bytes pointer (take count bytes) (mach_memory m));
          case stored of
            None \<Rightarrow> State_Monad.return Fault
          | Some memory \<Rightarrow> do {
              on_system (\<lambda>s. ((), set_memory memory s));
              State_Monad.return (Answer answer)
            }
        }
      })"

section \<open>Console output\<close>

definition com1_write :: "'d hardware \<Rightarrow> u8 list \<Rightarrow> ('d machine, unit) state" where
  "com1_write hw bytes = drive (serial_write hw bytes)"

definition com1_write_usize :: "'d hardware \<Rightarrow> nat \<Rightarrow> ('d machine, unit) state" where
  "com1_write_usize hw value = drive (write_usize hw value)"

definition CRLF :: "u8 list" where "CRLF = [13, 10]"

definition console_write :: "u8 list \<Rightarrow> ('d machine, unit) state" where
  "console_write bytes = do {
     target \<leftarrow> looking (\<lambda>m. console_target (mach_system m));
     case target of
       TtyTarget tty \<Rightarrow> on_terminals (\<lambda>c. ((), user_console_write tty bytes c))
     | PtyTarget pty \<Rightarrow> on_ptys (\<lambda>_ ptys. ((), pty_slave_write pty bytes ptys))
   }"

definition console_output :: "'d hardware \<Rightarrow> u8 list \<Rightarrow> ('d machine, unit) state" where
  "console_output hw bytes = do { com1_write hw bytes; console_write bytes }"

definition console_output_decimal :: "'d hardware \<Rightarrow> nat \<Rightarrow> ('d machine, unit) state" where
  "console_output_decimal hw value =
     (if value = 0 then console_output hw [48]
      else each (\<lambda>digit. console_output hw [digit]) (rev (digits_reversed value)))"

end
