(* ===== verification/Syscalls.thy ===== *)
theory Syscalls
  imports Machine
begin

text \<open>
  The system calls of \<open>kernel-core/src/arch.rs\<close>: the dispatch on the call number, every call, the
  entry and the return to user mode, and the interrupts.
\<close>

section \<open>Console calls\<close>

definition syscall_write :: "'d hardware \<Rightarrow> u64 \<Rightarrow> u64 \<Rightarrow> ('d machine, outcome) state" where
  "syscall_write hw pointer len = with_input pointer len 256 (\<lambda>bytes. do {
     com1_write hw bytes;
     console_write bytes;
     State_Monad.return (Answer len)
   })"

definition syscall_poll_key :: "('d machine, outcome) state" where
  "syscall_poll_key = do {
     target \<leftarrow> looking (\<lambda>m. console_target (mach_system m));
     key \<leftarrow> (case target of
         TtyTarget tty \<Rightarrow> on_terminals (poll_user_key tty)
       | PtyTarget pty \<Rightarrow> on_ptys (\<lambda>_. pty_slave_poll_key pty));
     State_Monad.return (Answer (case key of None \<Rightarrow> 0 | Some byte \<Rightarrow> ucast byte))
   }"

text \<open>Calls 7 and 8, which only reach a virtual terminal.\<close>

definition syscall_on_terminal :: "(nat \<Rightarrow> terminals \<Rightarrow> terminals) \<Rightarrow> ('d machine, outcome) state" where
  "syscall_on_terminal f = do {
     target \<leftarrow> looking (\<lambda>m. console_target (mach_system m));
     (case target of
        TtyTarget tty \<Rightarrow> on_terminals (\<lambda>c. ((), f tty c))
      | PtyTarget _ \<Rightarrow> State_Monad.return ());
     State_Monad.return (Answer 0)
   }"

section \<open>Device calls\<close>

definition syscall_sata_status :: "'d hardware \<Rightarrow> ('d machine, outcome) state" where
  "syscall_sata_status hw = do {
     available \<leftarrow> looking (\<lambda>m. sata_available (mach_drivers m));
     if available then do {
       console_output hw (ascii ''SATA: AHCI DEVICE READY'' @ CRLF);
       State_Monad.return (Answer 0)
     } else do {
       console_output hw (ascii ''SATA: NO AHCI DEVICE'' @ CRLF);
       State_Monad.return (Answer u64_max)
     }
   }"

definition syscall_pci_status :: "'d hardware \<Rightarrow> ('d machine, outcome) state" where
  "syscall_pci_status hw = do {
     count \<leftarrow> drive (pci_device_count hw);
     console_output hw (ascii ''PCI DEVICES: '');
     console_output hw (if count = 0 then [48] else rev (digits_reversed count));
     console_output hw CRLF;
     controller \<leftarrow> drive (find_ahci_controller hw);
     console_output hw ((if controller \<noteq> None then ascii ''PCI AHCI CONTROLLER FOUND''
                         else ascii ''PCI AHCI CONTROLLER NOT FOUND'') @ CRLF);
     State_Monad.return (Answer (of_nat count))
   }"

definition syscall_lsblk :: "'d hardware \<Rightarrow> ('d machine, outcome) state" where
  "syscall_lsblk hw = do {
     r \<leftarrow> drive (sata_identify hw);
     case r of
       Inl _ \<Rightarrow> do {
         console_output hw (ascii ''NAME   TYPE  SECTORS'' @ CRLF @ ascii ''(no block devices)'' @ CRLF);
         State_Monad.return (Answer u64_max)
       }
     | Inr _ \<Rightarrow> do {
         console_output hw (ascii ''NAME   TYPE  SECTORS'' @ CRLF @ ascii ''sata0  disk  '');
         sectors \<leftarrow> looking (\<lambda>m. identify_sector_count (mach_drivers m));
         console_output_decimal hw (unat sectors);
         console_output hw CRLF;
         State_Monad.return (Answer 0)
       }
   }"

definition syscall_sata_identify :: "'d hardware \<Rightarrow> ('d machine, outcome) state" where
  "syscall_sata_identify hw = do {
     r \<leftarrow> drive (sata_identify hw);
     case r of
       Inr _ \<Rightarrow> do {
         console_output hw (ascii ''SATA MODEL: '');
         each (\<lambda>index. do {
           byte \<leftarrow> looking (\<lambda>m. identify_model_byte index (mach_drivers m));
           console_output hw [byte]
         }) [0..<40];
         console_output hw CRLF;
         State_Monad.return (Answer 0)
       }
     | Inl _ \<Rightarrow> do {
         console_output hw (ascii ''SATA IDENTIFY FAILED'' @ CRLF);
         State_Monad.return (Answer u64_max)
       }
   }"

text \<open>The line of the preview in its array of 64 bytes.\<close>

definition preview_line :: "u8 list \<Rightarrow> u8 list" where
  "preview_line bytes =
     fold (\<lambda>byte line.
         let line = line @ [hex_digit (drop_bit 4 byte), hex_digit (byte AND 0xF)]
         in if length line < 64 - 2 then line @ [32] else line)
       bytes (ascii ''LBA 0: '') @ CRLF"

definition syscall_sata_read :: "'d hardware \<Rightarrow> ('d machine, outcome) state" where
  "syscall_sata_read hw = do {
     r \<leftarrow> drive (read_first_sector hw);
     case r of
       Inr bytes \<Rightarrow> do {
         console_output hw (preview_line bytes);
         State_Monad.return (Answer 0)
       }
     | Inl _ \<Rightarrow> do {
         console_output hw (ascii ''SATA READ FAILED'' @ CRLF);
         State_Monad.return (Answer u64_max)
       }
   }"

text \<open>A call that fails counts as touching the whole buffer; what it did not fill goes back unchanged.\<close>

definition syscall_getrandom :: "'d hardware \<Rightarrow> u64 \<Rightarrow> u64 \<Rightarrow> ('d machine, outcome) state" where
  "syscall_getrandom hw buffer len = with_output buffer len 4096 (\<lambda>output. do {
     r \<leftarrow> drive (fill_random hw output);
     State_Monad.return (if fst r = Inr () then len else u64_max, length output, snd r)
   })"

section \<open>Power\<close>

definition POWER_EVENT_SHUTDOWN :: u64 where "POWER_EVENT_SHUTDOWN = 1"
definition POWER_EVENT_REBOOT :: u64 where "POWER_EVENT_REBOOT = 2"

definition shutdown :: "'d hardware \<Rightarrow> ('d machine, outcome) state" where
  "shutdown hw = do { drive (outw hw 0x604 0x2000); State_Monad.return Halted }"

definition reboot :: "'d hardware \<Rightarrow> ('d machine, outcome) state" where
  "reboot hw = do {
     drive (wait_rounds 100000 (do { status \<leftarrow> inb hw 0x64; State_Monad.return (status AND 0x02 = 0) }));
     drive (outb hw 0x64 0xFE);
     State_Monad.return Halted
   }"

definition syscall_request_power_event :: "u64 \<Rightarrow> ('d machine, outcome) state" where
  "syscall_request_power_event kind =
     (if kind \<noteq> POWER_EVENT_SHUTDOWN \<and> kind \<noteq> POWER_EVENT_REBOOT then State_Monad.return (Answer u64_max)
      else do {
        State_Monad.update (\<lambda>m. m\<lparr>power_event := ucast kind\<rparr>);
        State_Monad.return (Answer 0)
      })"

definition syscall_poll_power_event :: "('d machine, outcome) state" where
  "syscall_poll_power_event = do {
     value \<leftarrow> looking power_event;
     State_Monad.update (\<lambda>m. m\<lparr>power_event := 0\<rparr>);
     State_Monad.return (Answer (ucast value))
   }"

section \<open>Threads, processes and time\<close>

definition syscall_thread_create :: "u64 \<Rightarrow> u64 \<Rightarrow> u64 \<Rightarrow> ('d machine, outcome) state" where
  "syscall_thread_create entry argument fs = do {
     thread \<leftarrow> on_kernel (spawn_user entry argument fs None);
     State_Monad.return (Answer (opt_answer thread))
   }"

definition status_answer :: "u64 option \<Rightarrow> outcome" where
  "status_answer r = Answer (case r of None \<Rightarrow> u64_max | Some status \<Rightarrow> status)"

definition syscall_join :: "u64 \<Rightarrow> ('d machine, outcome) state" where
  "syscall_join thread = do {
     r \<leftarrow> on_kernel (join_enter (unat thread));
     State_Monad.return (case r of None \<Rightarrow> Suspended (JoinOf (unat thread)) | Some status \<Rightarrow> status_answer status)
   }"

definition syscall_wait_process :: "u64 \<Rightarrow> ('d machine, outcome) state" where
  "syscall_wait_process process = do {
     main_thread \<leftarrow> looking (\<lambda>m. Option.bind (current_process (mach_kernel m))
       (\<lambda>parent. child_main_thread (unat process) parent (mach_kernel m)));
     r \<leftarrow> on_kernel (wait_process_enter (unat process));
     State_Monad.return (case r of
         None \<Rightarrow> Suspended (WaitOf (unat process) (the main_thread))
       | Some status \<Rightarrow> status_answer status)
   }"

text \<open>The rest of a suspended call, run when its thread is scheduled again.\<close>

fun syscall_resume :: "suspension \<Rightarrow> ('d machine, outcome) state" where
  "syscall_resume (JoinOf thread) = do {
     r \<leftarrow> on_kernel (join_resume thread); State_Monad.return (status_answer r) }"
| "syscall_resume (WaitOf process main_thread) = do {
     r \<leftarrow> on_kernel (wait_process_resume process main_thread); State_Monad.return (status_answer r) }"

definition syscall_reap_any_child :: "u64 \<Rightarrow> ('d machine, outcome) state" where
  "syscall_reap_any_child status_pointer = do {
     r \<leftarrow> on_kernel reap_any_child;
     case r of
       None \<Rightarrow> State_Monad.return (Answer u64_max)
     | Some (process, status) \<Rightarrow>
         if status_pointer \<noteq> 0 \<and> user_bytes status_pointer 8 8 then do {
           stored \<leftarrow> looking (\<lambda>m. write_user_bytes status_pointer (le_bytes status) (mach_memory m));
           case stored of
             None \<Rightarrow> State_Monad.return Fault
           | Some memory \<Rightarrow> do {
               on_system (\<lambda>s. ((), set_memory memory s));
               State_Monad.return (Answer (of_nat process))
             }
         }
         else State_Monad.return (Answer (of_nat process))
   }"

definition syscall_futex_wait :: "'d hardware \<Rightarrow> u64 \<Rightarrow> u32 \<Rightarrow> u64 \<Rightarrow> ('d machine, outcome) state" where
  "syscall_futex_wait hw address expected_value timeout_milliseconds =
     (if \<not> valid_user_word address then State_Monad.return (Answer u64_max)
      else do {
        bytes \<leftarrow> looking (\<lambda>m. load_user_bytes (mach_memory m) address 4);
        case bytes of
          None \<Rightarrow> State_Monad.return Fault
        | Some bytes \<Rightarrow>
            (let actual = from_le_bytes bytes in do {
              com1_write hw (ascii ''debug: futex_wait address='');
              com1_write_usize hw (unat address);
              com1_write hw (ascii '' expected='');
              com1_write_usize hw (unat expected_value);
              com1_write hw (ascii '' actual='');
              com1_write_usize hw (unat actual);
              com1_write hw CRLF;
              answer \<leftarrow> on_timers (futex_wait address actual expected_value timeout_milliseconds);
              State_Monad.return (Answer answer)
            })
      })"

definition syscall_futex_wake :: "u64 \<Rightarrow> u64 \<Rightarrow> ('d machine, outcome) state" where
  "syscall_futex_wake address count =
     (if \<not> valid_user_word address then State_Monad.return (Answer u64_max)
      else do { woken \<leftarrow> on_timers (futex_wake address count); State_Monad.return (Answer woken) })"

definition syscall_set_tls_base :: "u64 \<Rightarrow> ('d machine, outcome) state" where
  "syscall_set_tls_base base = do {
     accepted \<leftarrow> on_kernel (set_current_user_fs_base base);
     State_Monad.return (Answer (if accepted then 0 else u64_max))
   }"

section \<open>Files\<close>

definition syscall_vfs_open :: "u64 \<Rightarrow> u64 \<Rightarrow> u64 \<Rightarrow> ('d machine, outcome) state" where
  "syscall_vfs_open path len flags = with_input path len 64 (\<lambda>bytes. do {
     r \<leftarrow> on_system (user_open bytes flags); State_Monad.return (Answer r) })"

text \<open>The bytes a call has written into its buffer: as many as it answers, unless it refuses.\<close>

definition written_count :: "u64 \<Rightarrow> nat" where
  "written_count answer = (if answer = u64_max then 0 else unat answer)"

definition syscall_vfs_read :: "u64 \<Rightarrow> u64 \<Rightarrow> u64 \<Rightarrow> ('d machine, outcome) state" where
  "syscall_vfs_read fd buffer len = with_output buffer len 4096 (\<lambda>output. do {
     r \<leftarrow> on_system (\<lambda>s. case user_read fd output s of (answer, bytes, s) \<Rightarrow> ((answer, bytes), s));
     State_Monad.return (fst r, written_count (fst r), snd r)
   })"

definition syscall_vfs_write :: "u64 \<Rightarrow> u64 \<Rightarrow> u64 \<Rightarrow> ('d machine, outcome) state" where
  "syscall_vfs_write fd buffer len = with_input buffer len 4096 (\<lambda>bytes. do {
     r \<leftarrow> on_system (user_write fd bytes); State_Monad.return (Answer r) })"

definition syscall_chdir :: "u64 \<Rightarrow> u64 \<Rightarrow> ('d machine, outcome) state" where
  "syscall_chdir path len = with_input path len 64 (\<lambda>bytes. do {
     r \<leftarrow> on_system (user_chdir bytes); State_Monad.return (Answer r) })"

definition syscall_getcwd :: "u64 \<Rightarrow> u64 \<Rightarrow> ('d machine, outcome) state" where
  "syscall_getcwd buffer len = with_output buffer len 64 (\<lambda>output. do {
     r \<leftarrow> looking (\<lambda>m. user_getcwd output (mach_system m));
     State_Monad.return (fst r, if fst r = u64_max then 0 else unat (fst r) + 1, snd r)
   })"

definition syscall_executable_info :: "u64 \<Rightarrow> u64 \<Rightarrow> ('d machine, outcome) state" where
  "syscall_executable_info buffer len = with_output buffer len 64 (\<lambda>output. do {
     r \<leftarrow> looking (\<lambda>m. executable_info output (mach_system m));
     State_Monad.return (fst r,
       if length output < length EXECUTABLE_PATH + 1 then 0 else length EXECUTABLE_PATH + 1, snd r)
   })"

definition syscall_vfs_stat :: "u64 \<Rightarrow> u64 \<Rightarrow> u64 \<Rightarrow> ('d machine, outcome) state" where
  "syscall_vfs_stat fd buffer len = with_output buffer len 16 (\<lambda>output. do {
     r \<leftarrow> looking (\<lambda>m. user_stat fd output (mach_system m));
     State_Monad.return (fst r, if fst r = u64_max then 0 else 16, snd r)
   })"

text \<open>
  \<open>user::spawn\<close> gets its arguments as copies: up to four pointers until a zero, each to a string of
  fewer than 64 bytes.  The answer None is a page fault, Some None a refusal.
\<close>

fun scan_string :: "memory \<Rightarrow> u64 \<Rightarrow> nat \<Rightarrow> u8 list option option" where
  "scan_string m a 0 = Some None"
| "scan_string m a (Suc n) =
     (case load_user_byte m a of
        None \<Rightarrow> None
      | Some b \<Rightarrow> if b = 0 then Some (Some []) else map_option (map_option (Cons b)) (scan_string m (a + 1) n))"

fun read_arguments :: "memory \<Rightarrow> u64 \<Rightarrow> nat \<Rightarrow> u8 list list option option" where
  "read_arguments m argv 0 = Some (Some [])"
| "read_arguments m argv (Suc n) =
     (if \<not> user_bytes argv 8 8 then Some None
      else Option.bind (load_user_bytes m argv 8) (\<lambda>raw.
        let pointer = from_le_bytes raw
        in if pointer = 0 then Some (Some [])
           else if \<not> user_bytes pointer 64 64 then Some None
           else Option.bind (scan_string m pointer 64) (\<lambda>text.
             case text of
               None \<Rightarrow> Some None
             | Some text \<Rightarrow> map_option (map_option (Cons text)) (read_arguments m (argv + 8) n))))"

definition syscall_process_spawn :: "u64 \<Rightarrow> u64 \<Rightarrow> u64 \<Rightarrow> ('d machine, outcome) state" where
  "syscall_process_spawn path len argv = with_input path len 64 (\<lambda>bytes. do {
     arguments \<leftarrow> looking (\<lambda>m. if argv = 0 then Some (Some []) else read_arguments (mach_memory m) argv 4);
     case arguments of
       None \<Rightarrow> State_Monad.return Fault
     | Some None \<Rightarrow> State_Monad.return (Answer u64_max)
     | Some (Some arguments) \<Rightarrow> do {
         r \<leftarrow> looking (\<lambda>m. user_spawn bytes arguments (mach_system m));
         case r of
           None \<Rightarrow> State_Monad.return Fault
         | Some (answer, s) \<Rightarrow> do {
             on_system (\<lambda>_. ((), s));
             State_Monad.return (Answer answer)
           }
       }
   })"

section \<open>Pseudo-terminals\<close>

definition syscall_pty_read_master :: "u64 \<Rightarrow> u64 \<Rightarrow> u64 \<Rightarrow> ('d machine, outcome) state" where
  "syscall_pty_read_master pty_id buffer len = with_output buffer len 256 (\<lambda>output. do {
     r \<leftarrow> on_ptys (\<lambda>owner. pty_read_master owner (unat pty_id) output);
     State_Monad.return (case r of None \<Rightarrow> (u64_max, 0, output) | Some (count, bytes) \<Rightarrow> (of_nat count, count, bytes))
   })"

definition syscall_pty_write_master :: "u64 \<Rightarrow> u64 \<Rightarrow> u64 \<Rightarrow> ('d machine, outcome) state" where
  "syscall_pty_write_master pty_id buffer len = with_input buffer len 256 (\<lambda>bytes. do {
     r \<leftarrow> on_ptys (\<lambda>owner. pty_write_master owner (unat pty_id) bytes);
     State_Monad.return (Answer (opt_answer r))
   })"

definition syscall_pty_attach_slave :: "u64 \<Rightarrow> ('d machine, outcome) state" where
  "syscall_pty_attach_slave pty_id = do {
     exists \<leftarrow> looking (\<lambda>m. pty_exists (unat pty_id) (mach_ptys m));
     if \<not> exists then State_Monad.return (Answer u64_max)
     else do {
       on_system (\<lambda>s. ((), bind_pty (unat pty_id) s));
       State_Monad.return (Answer 0)
     }
   }"

section \<open>Dispatch\<close>

definition answering :: "('d machine, u64) state \<Rightarrow> ('d machine, outcome) state" where
  "answering act = do { v \<leftarrow> act; State_Monad.return (Answer v) }"

text \<open>The first forty calls are reported on the serial port.\<close>

definition trace_call :: "'d hardware \<Rightarrow> u64 \<Rightarrow> u64 \<Rightarrow> u64 \<Rightarrow> ('d machine, unit) state" where
  "trace_call hw number pointer len = do {
     State_Monad.update (\<lambda>m. m\<lparr>syscall_count := syscall_count m + 1\<rparr>);
     count \<leftarrow> looking syscall_count;
     if count \<le> 40 then do {
       com1_write hw (ascii ''debug: syscall #'');
       com1_write_usize hw (unat count);
       com1_write hw (ascii '' number='');
       com1_write_usize hw (unat number);
       com1_write hw (ascii '' pointer='');
       com1_write_usize hw (unat pointer);
       com1_write hw (ascii '' length='');
       com1_write_usize hw (unat len);
       com1_write hw CRLF
     } else State_Monad.return ()
   }"

definition syscall_body :: "'d hardware \<Rightarrow> u64 \<Rightarrow> u64 \<Rightarrow> u64 \<Rightarrow> u64 \<Rightarrow> ('d machine, outcome) state" where
  "syscall_body hw number pointer len argument =
     (if number = 1 then syscall_write hw pointer len
      else if number = 2 then answering (on_kernel (\<lambda>k. (0, yield_now k)))
      else if number = 3 then do {
        com1_write hw (ascii ''open-kernel: user process exited'' @ CRLF);
        on_kernel (\<lambda>k. ((), exit_current k));
        State_Monad.return Gone
      }
      else if number = 4 then State_Monad.return (Answer u64_max)
      else if number = 5 then answering (on_timers (syscall_sleep pointer))
      else if number = 6 then syscall_poll_key
      else if number = 7 then syscall_on_terminal user_console_clear
      else if number = 8 then syscall_on_terminal user_console_backspace
      else if number = 9 then shutdown hw
      else if number = 10 then syscall_sata_status hw
      else if number = 11 then syscall_sata_identify hw
      else if number = 12 then syscall_sata_read hw
      else if number = 13 then syscall_pci_status hw
      else if number = 14 then syscall_lsblk hw
      else if number = 15 then syscall_thread_create pointer len argument
      else if number = 16 then do {
        on_kernel (\<lambda>k. ((), exit_current_with_status pointer k));
        State_Monad.return Gone
      }
      else if number = 17 then syscall_join pointer
      else if number = 18 then answering (on_system (brk pointer))
      else if number = 19 then syscall_vfs_open pointer len argument
      else if number = 20 then syscall_vfs_read pointer len argument
      else if number = 21 then syscall_vfs_write pointer len argument
      else if number = 22 then answering (on_system (user_close pointer))
      else if number = 23 then answering (on_system (user_seek pointer len argument))
      else if number = 24 then syscall_chdir pointer len
      else if number = 25 then syscall_getcwd pointer len
      else if number = 26 then syscall_executable_info pointer len
      else if number = 27 then answering (looking (\<lambda>m. monotonic_milliseconds (mach_timers m)))
      else if number = 28 then syscall_futex_wait hw pointer (ucast len) argument
      else if number = 29 then syscall_futex_wake pointer len
      else if number = 30 then syscall_set_tls_base pointer
      else if number = 31 then syscall_getrandom hw pointer len
      else if number = 32 then syscall_vfs_stat pointer len argument
      else if number = 33 then syscall_process_spawn pointer len argument
      else if number = 34 then syscall_wait_process pointer
      else if number = 35 then do {
        r \<leftarrow> on_kernel (try_wait_process (unat pointer)); State_Monad.return (status_answer r) }
      else if number = 36 then reboot hw
      else if number = 37 then syscall_request_power_event pointer
      else if number = 38 then syscall_poll_power_event
      else if number = 39 then do {
        r \<leftarrow> on_kernel (terminate_process (unat pointer)); State_Monad.return (Answer (of_bool r)) }
      else if number = 40 then syscall_reap_any_child pointer
      else if number = 41 then answering (on_system (\<lambda>s. (0, bind_tty (unat pointer) s)))
      else if number = 42 then do {
        r \<leftarrow> on_ptys pty_open; State_Monad.return (Answer (opt_answer r)) }
      else if number = 43 then syscall_pty_read_master pointer len argument
      else if number = 44 then syscall_pty_write_master pointer len argument
      else if number = 45 then syscall_pty_attach_slave pointer
      else if number = 46 then do {
        r \<leftarrow> on_ptys (\<lambda>owner. pty_close owner (unat pointer)); State_Monad.return (Answer (of_bool r)) }
      else State_Monad.return (Answer u64_max))"

definition syscall_dispatch :: "'d hardware \<Rightarrow> u64 \<Rightarrow> u64 \<Rightarrow> u64 \<Rightarrow> u64 \<Rightarrow> ('d machine, outcome) state" where
  "syscall_dispatch hw number pointer len argument = do {
     trace_call hw number pointer len;
     syscall_body hw number pointer len argument
   }"

end
