(* ===== verification/CallBuffers.thy ===== *)
theory CallBuffers
  imports Syscalls Heap
begin

text \<open>
  The buffers of system calls: which calls take one, what is refused, and what reaches the memory
  of the caller.
\<close>

section \<open>Refused buffers\<close>






section \<open>Delivered buffers\<close>

lemma active_root:
  assumes "forest R m" and "r \<in> R" and "cr3 m = r"
  shows "active_address_space m = r"
  using root_mask [OF assms(1,2)] assms(3) by (simp add: active_address_space_def)

lemma load_is_user_load:
  assumes "forest R m" and "r \<in> R" and "cr3 m = r" and "user_range a"
  shows "load_user_byte m a = user_load m a"
  using assms active_root [OF assms(1-3)] by (simp add: load_user_byte_def user_load_def)

end
