(* ===== verification/Traps.thy ===== *)
theory Traps
  imports Syscalls
begin

text \<open>
  Entering and leaving the kernel, \<open>kernel-core/src/arch.rs\<close>: descriptor tables, the saved state of
  a system call and the frame it returns through, interrupts and exceptions; and the start of the
  machine, \<open>boot\<close> of \<open>kernel-core/src/console.rs\<close>.
\<close>

section \<open>Descriptor tables\<close>

definition KERNEL_CODE :: u64 where "KERNEL_CODE = 0x08"
definition USER_DATA :: u64 where "USER_DATA = 0x1B"
definition USER_CODE :: u64 where "USER_CODE = 0x23"
definition SYSCALL_STACK_SIZE :: u64 where "SYSCALL_STACK_SIZE = 16 * 1024"

definition GDT_INITIAL :: "u64 list" where
  "GDT_INITIAL = [0, 0x00AF9B000000FFFF, 0x00CF93000000FFFF, 0x00CFF3000000FFFF, 0x00AFFB000000FFFF, 0, 0]"

definition idt_missing :: idt_entry where
  "idt_missing = \<lparr>offset_low = 0, selector = 0, ist = 0, attributes = 0, offset_middle = 0,
     offset_high = 0, gate_reserved = 0\<rparr>"

definition set_handler :: "u64 \<Rightarrow> idt_entry \<Rightarrow> idt_entry" where
  "set_handler handler e = e\<lparr>offset_low := ucast handler, selector := ucast KERNEL_CODE, ist := 0,
     attributes := 0x8E, offset_middle := ucast (drop_bit 16 handler),
     offset_high := ucast (drop_bit 32 handler), gate_reserved := 0\<rparr>"

text \<open>The addresses that the linker gives to the stubs, the task state segment and its first stack.\<close>

record trap_code =
  exception_stub :: u64
  timer_stub :: u64
  keyboard_stub :: u64
  serial_stub :: u64
  tss_address :: u64
  syscall_stack :: u64

definition TSS_SIZE :: u64 where "TSS_SIZE = 104"

definition tss_descriptor :: "u64 \<Rightarrow> u64 \<times> u64" where
  "tss_descriptor base =
     (let limit = TSS_SIZE - 1
      in ((limit AND 0xFFFF) OR push_bit 16 (base AND 0x00FFFFFF) OR push_bit 40 0x89 OR
          push_bit 48 (drop_bit 16 limit AND 0xF) OR push_bit 56 (drop_bit 24 base AND 0xFF),
          drop_bit 32 base))"

definition initialize_tss :: "trap_code \<Rightarrow> 'd machine \<Rightarrow> 'd machine" where
  "initialize_tss tc m =
     (case tss_descriptor (tss_address tc) of (low, high) \<Rightarrow>
        m\<lparr>tss_rsp0 := syscall_stack tc + SYSCALL_STACK_SIZE, gdt := (gdt m)[5 := low, 6 := high]\<rparr>)"

definition install_handlers :: "trap_code \<Rightarrow> idt_entry list \<Rightarrow> idt_entry list" where
  "install_handlers tc table =
     (let table = map (set_handler (exception_stub tc)) (take 32 table) @ drop 32 table
      in table[32 := set_handler (timer_stub tc) (table ! 32),
               33 := set_handler (keyboard_stub tc) (table ! 33),
               36 := set_handler (serial_stub tc) (table ! 36)])"

definition IRQ_SETUP :: "(u16 \<times> u8) list" where
  "IRQ_SETUP = [(0x20, 0x11), (0xA0, 0x11), (0x21, 0x20), (0xA1, 0x28), (0x21, 0x04), (0xA1, 0x02),
     (0x21, 0x01), (0xA1, 0x01), (0x21, 0xEC), (0xA1, 0xFF)]"

definition initialize_irq_controller :: "'d hardware \<Rightarrow> (('d, 'm) io_scheme, unit) state" where
  "initialize_irq_controller hw = do {
     each (\<lambda>(port, value). outb hw port value) IRQ_SETUP;
     let divisor = (ucast (1193182 div 100 :: u32) :: u16);
     outb hw 0x43 0x36;
     outb hw 0x40 (ucast divisor);
     outb hw 0x40 (ucast (drop_bit 8 divisor));
     outb hw 0x3F9 0x01
   }"

text \<open>The control registers and model specific registers are not part of the state.\<close>

definition x86_initialize :: "'d hardware \<Rightarrow> trap_code \<Rightarrow> ('d machine, unit) state" where
  "x86_initialize hw tc = do {
     State_Monad.update (initialize_tss tc);
     on_kernel (\<lambda>k. ((), request_preemption k));
     State_Monad.update (\<lambda>m. m\<lparr>idt := install_handlers tc (idt m)\<rparr>);
     drive (initialize_irq_controller hw);
     com1_write hw (ascii ''open-kernel: x86_64 interrupts initialized'' @ CRLF)
   }"

section \<open>System call entry and return\<close>

text \<open>
  The registers of the caller as the stub finds them: the return address in \<open>rcx\<close> and the flags in
  \<open>r11\<close>, where the instruction \<open>syscall\<close> has put them.
\<close>

definition syscall_entry :: "user_context \<Rightarrow> ('d machine, unit) state" where
  "syscall_entry regs = do {
     on_kernel (\<lambda>k. ((), save_syscall_state \<lparr>ss_stack_pointer = uc_rsp regs,
       ss_instruction_pointer = uc_rcx regs, ss_flags = uc_r11 regs\<rparr> k));
     fs \<leftarrow> looking fs_base_register;
     on_kernel (\<lambda>k. ((), save_user_context
       (regs\<lparr>uc_rip := uc_rcx regs, uc_rflags := uc_r11 regs, uc_fs_base := fs\<rparr>) k))
   }"

record user_frame =
  frame_rip :: u64
  frame_cs :: u64
  frame_rflags :: u64
  frame_rsp :: u64
  frame_ss :: u64
  frame_rax :: u64

definition set_user_kernel_stack :: "u64 \<Rightarrow> 'd machine \<Rightarrow> 'd machine" where
  "set_user_kernel_stack stack m = m\<lparr>tss_rsp0 := stack\<rparr>"

text \<open>Only with a current thread; the stub would read through a null pointer otherwise.\<close>

definition syscall_return :: "u64 \<Rightarrow> ('d machine, user_frame option) state" where
  "syscall_return answer = do {
     saved \<leftarrow> looking (\<lambda>m. current_syscall_state (mach_kernel m));
     State_Monad.update (\<lambda>m. (set_user_kernel_stack (current_kernel_stack_top (mach_kernel m)) m)\<lparr>
       fs_base_register := current_user_fs_base (mach_kernel m)\<rparr>);
     State_Monad.return (map_option (\<lambda>s. \<lparr>frame_rip = ss_instruction_pointer s, frame_cs = USER_CODE,
       frame_rflags = (ss_flags s AND 0xED7) OR 0x202, frame_rsp = ss_stack_pointer s,
       frame_ss = USER_DATA, frame_rax = answer\<rparr>) saved)
   }"

text \<open>
  The first entry of a thread into user mode: the frame of \<open>iretq\<close> and the other registers, all
  from its context.
\<close>

definition resume_user_context :: "user_context \<Rightarrow> ('d machine, user_frame \<times> user_context) state" where
  "resume_user_context ctx = do {
     State_Monad.update (\<lambda>m. (set_user_kernel_stack (current_kernel_stack_top (mach_kernel m)) m)\<lparr>
       fs_base_register := uc_fs_base ctx\<rparr>);
     State_Monad.return (\<lparr>frame_rip = uc_rip ctx, frame_cs = USER_CODE, frame_rflags = uc_rflags ctx,
       frame_rsp = uc_rsp ctx, frame_ss = USER_DATA, frame_rax = uc_rax ctx\<rparr>, ctx)
   }"

text \<open>\<open>user_thread_trampoline\<close> of \<open>threads.rs\<close>, as a whole.\<close>

definition enter_user_thread :: "'d hardware \<Rightarrow> ('d machine, (user_frame \<times> user_context) option) state" where
  "enter_user_thread hw = do {
     context \<leftarrow> on_kernel user_thread_enter;
     case context of
       None \<Rightarrow> State_Monad.return None
     | Some ctx \<Rightarrow> do {
         com1_write hw (ascii ''debug: user_thread_trampoline resuming rip='');
         com1_write_usize hw (unat (uc_rip ctx));
         com1_write hw (ascii '' rsp='');
         com1_write_usize hw (unat (uc_rsp ctx));
         com1_write hw CRLF;
         r \<leftarrow> resume_user_context ctx;
         State_Monad.return (Some r)
       }
   }"

text \<open>The number of the call is in \<open>rax\<close>, its arguments in \<open>rdi\<close>, \<open>rsi\<close> and \<open>rdx\<close>.\<close>

definition system_call :: "'d hardware \<Rightarrow> user_context \<Rightarrow> ('d machine, outcome) state" where
  "system_call hw regs = do {
     syscall_entry regs;
     syscall_dispatch hw (uc_rax regs) (uc_rdi regs) (uc_rsi regs) (uc_rdx regs)
   }"

section \<open>Interrupts and exceptions\<close>

definition keyboard_interrupt :: "'d hardware \<Rightarrow> ('d machine, unit) state" where
  "keyboard_interrupt hw = do {
     byte \<leftarrow> drive (inb hw 0x60);
     on_terminals (\<lambda>c. ((), handle_scancode byte c))
   }"

definition irq_dispatch :: "'d hardware \<Rightarrow> u64 \<Rightarrow> ('d machine, unit) state" where
  "irq_dispatch hw vector = do {
     (if vector = 32 then do {
        on_timers (\<lambda>t k. ((), timer_interrupt t k));
        on_terminals (\<lambda>c. ((), user_console_tick c))
      }
      else if vector = 33 then keyboard_interrupt hw
      else if vector = 36 then drive (do {
        status \<leftarrow> inb hw 0x3FD;
        if status AND 1 \<noteq> 0 then do { inb hw 0x3F8; State_Monad.return () } else State_Monad.return ()
      })
      else State_Monad.return ());
     (if 40 \<le> vector then drive (outb hw 0xA0 0x20) else State_Monad.return ());
     drive (outb hw 0x20 0x20)
   }"

definition write_hex :: "'d hardware \<Rightarrow> u64 \<Rightarrow> ('d machine, unit) state" where
  "write_hex hw value =
     each (\<lambda>shift. com1_write hw [hex_digit (ucast (drop_bit (shift * 4) value AND 0xF))]) (rev [0..<16])"

text \<open>
  The argument is the words from the stack pointer upwards, at least the five that the processor
  has pushed.  The second of them is the instruction pointer when the exception has an error code.
\<close>

definition exception_halt :: "'d hardware \<Rightarrow> u64 list \<Rightarrow> ('d machine, outcome) state" where
  "exception_halt hw frame = do {
     let instruction_pointer = frame ! 1;
     com1_write hw (ascii ''open-kernel: CPU exception at 0x'');
     write_hex hw instruction_pointer;
     com1_write hw CRLF;
     State_Monad.return Halted
   }"

section \<open>The start of the machine\<close>

datatype display = DisplayNone | VgaText | DisplayFramebuffer framebuffer

datatype boot_status = BootReady | InvalidBootInfo

record boot_info =
  display :: display
  bootloader :: "u8 list"
  boot_status :: boot_status

definition VGA_TEXT_BUFFER :: u64 where "VGA_TEXT_BUFFER = 0xB8000"
definition VGA_COLOR :: u16 where "VGA_COLOR = 0x0F00"

definition write_vga_text :: "u8 list \<Rightarrow> nat \<Rightarrow> (('d, 'm) io_scheme, unit) state" where
  "write_vga_text text_bytes row =
     each (\<lambda>(column, character). poke (VGA_TEXT_BUFFER + of_nat (2 * (row * 80 + column)))
         (little_endian 2 (VGA_COLOR OR ucast character)))
       (zip [0..<80] (take 80 text_bytes))"

definition paint_vga :: "u8 list \<Rightarrow> boot_status \<Rightarrow> (('d, 'm) io_scheme, unit) state" where
  "paint_vga loader status = do {
     each (\<lambda>index. poke (VGA_TEXT_BUFFER + of_nat (2 * index)) (little_endian 2 (VGA_COLOR OR 32))) [0..<80 * 25];
     write_vga_text (ascii ''open-kernel is running'') 0;
     write_vga_text loader 1;
     if status = InvalidBootInfo then write_vga_text (ascii ''Invalid boot information'') 2
     else State_Monad.return ()
   }"

fun elf_error_message :: "elf_error \<Rightarrow> u8 list" where
  "elf_error_message InvalidHeader = ascii ''missing /init or invalid ELF header''"
| "elf_error_message UnsupportedExecutable = ascii ''unsupported executable format''"
| "elf_error_message InvalidProgramHeader = ascii ''invalid ELF program header''"
| "elf_error_message InvalidSegment = ascii ''invalid ELF load segment''"
| "elf_error_message NoExecutableSegment = ascii ''no executable ELF segment''"
| "elf_error_message (PagingFailed FrameAllocationFailed) = ascii ''out of physical frames''"
| "elf_error_message (PagingFailed HugePageConflict) = ascii ''page-table huge-page conflict''"
| "elf_error_message (PagingFailed AlreadyMapped) = ascii ''user page already mapped''"
| "elf_error_message (PagingFailed InvalidUserAddress) = ascii ''invalid user virtual address''"

definition report_startup_failure :: "'d hardware \<Rightarrow> elf_error \<Rightarrow> ('d machine, unit) state" where
  "report_startup_failure hw error = do {
     com1_write hw (ascii ''open-kernel: could not start user process: '');
     com1_write hw (elf_error_message error);
     com1_write hw CRLF
   }"

text \<open>\<open>run_demo\<close> with its continuation; a failure there halts.\<close>

definition start_init :: "'d hardware \<Rightarrow> ('d machine, outcome) state" where
  "start_init hw = do {
     r \<leftarrow> on_system run_demo;
     case r of
       Inl error \<Rightarrow> do { report_startup_failure hw error; State_Monad.return Halted }
     | Inr _ \<Rightarrow> do {
         continued \<leftarrow> looking (\<lambda>m. continue_after_stack_switch (mach_system m));
         case continued of
           None \<Rightarrow> State_Monad.return Halted
         | Some s \<Rightarrow> do { on_system (\<lambda>_. ((), s)); State_Monad.return Gone }
       }
   }"

fun sata_message :: "sata_error + unit \<Rightarrow> u8 list" where
  "sata_message (Inr _) = ascii ''open-kernel: SATA initialized''"
| "sata_message (Inl NotFound) = ascii ''open-kernel: AHCI not found''"
| "sata_message (Inl NoDevice) = ascii ''open-kernel: SATA port not found''"
| "sata_message (Inl Timeout) = ascii ''open-kernel: SATA reset timed out''"
| "sata_message (Inl _) = ascii ''open-kernel: SATA unavailable''"

text \<open>The part of \<open>boot\<close> that sets up the display.\<close>

definition boot_display :: "'d hardware \<Rightarrow> boot_info \<Rightarrow> ('d machine, unit) state" where
  "boot_display hw info =
     (case display info of
        DisplayFramebuffer fb \<Rightarrow> do {
          com1_write hw (ascii ''open-kernel: framebuffer '');
          com1_write_usize hw (fb_width fb);
          com1_write hw (ascii ''x'');
          com1_write_usize hw (fb_height fb);
          com1_write hw CRLF;
          on_terminals (\<lambda>c. ((), enable_user_console fb c))
        }
      | VgaText \<Rightarrow> drive (paint_vga (bootloader info) (boot_status info))
      | DisplayNone \<Rightarrow> State_Monad.return ())"

definition boot :: "'d hardware \<Rightarrow> trap_code \<Rightarrow> boot_info \<Rightarrow> ('d machine, outcome) state" where
  "boot hw tc info = do {
     mounted \<leftarrow> on_system (\<lambda>s. case mount_initramfs (sys_vfs s) of (r, v) \<Rightarrow> (r, s\<lparr>sys_vfs := v\<rparr>));
     (case mounted of
        Inr _ \<Rightarrow> com1_write hw (ascii ''open-kernel: initramfs mounted at /'' @ CRLF)
      | Inl error \<Rightarrow> if error = AlreadyMounted then State_Monad.return ()
                     else com1_write hw (ascii ''open-kernel: initramfs mount failed'' @ CRLF));
     x86_initialize hw tc;
     sata \<leftarrow> drive (sata_initialize hw);
     com1_write hw (sata_message sata @ CRLF);
     drive (initialize_random hw);
     com1_write hw (ascii ''open-kernel: '');
     com1_write hw (bootloader info);
     com1_write hw (ascii '' entry reached'' @ CRLF);
     stats \<leftarrow> looking (\<lambda>m. frames_stats (mem_frames (mach_memory m)));
     com1_write hw (ascii ''open-kernel: physical frames free '');
     com1_write_usize hw (free_frames stats);
     com1_write hw (ascii '' of '');
     com1_write_usize hw (tracked_frames stats);
     com1_write hw CRLF;
     boot_display hw info;
     if boot_status info = BootReady then start_init hw else State_Monad.return Halted
   }"

text \<open>The statics before \<open>boot\<close>, with the files the boot loader has registered.\<close>

definition machine_initial ::
  "'d \<Rightarrow> memory \<Rightarrow> code_addresses \<Rightarrow> (u8 list \<times> u8 list) list \<Rightarrow> (nat \<Rightarrow> u8) \<Rightarrow> 'd machine" where
  "machine_initial d mem c files hardware_pixels =
     \<lparr>mach_system = \<lparr>sys_kernel = kernel_initial c mem,
        sys_vfs = vfs_initial\<lparr>vfs_storage := register_all files storage_initial\<rparr>, sys_user = user_initial\<rparr>,
      mach_ptys = ptys_initial, mach_timers = timers_initial, mach_terminals = terminals_initial hardware_pixels,
      mach_drivers = drivers_initial d mem, power_event = 0, syscall_count = 0, tss_rsp0 = 0,
      fs_base_register = 0, gdt = GDT_INITIAL, idt = replicate 256 idt_missing\<rparr>"

end
