(* ===== verification/Composition.thy ===== *)
theory Composition
  imports Traps Displays Deadlines Files Processes
begin

text \<open>
  How the system calls and interrupts compose the operations of the components: everything the
  machine does is a sequence of steps, each one operation of one component.  What every such step
  keeps holds after any run of calls.
\<close>

section \<open>Steps\<close>

text \<open>The fields of a process that the file calls do not read.\<close>

definition personal :: "(process_user_state \<Rightarrow> process_user_state) \<Rightarrow> bool" where
  "personal f \<longleftrightarrow> (\<forall>u. cwd (f u) = cwd u \<and> cwd_length (f u) = cwd_length u \<and> descriptors (f u) = descriptors u)"

definition set_kernel :: "kernel \<Rightarrow> 'd machine \<Rightarrow> 'd machine" where
  "set_kernel k m = m\<lparr>mach_system := (mach_system m)\<lparr>sys_kernel := k\<rparr>\<rparr>"

definition parts :: "'d machine \<Rightarrow> system \<times> pty list \<times> timers \<times> terminals" where
  "parts m = (mach_system m, mach_ptys m, mach_timers m, mach_terminals m)"

inductive mach_step :: "'d machine \<Rightarrow> 'd machine \<Rightarrow> bool" where
  scheduled: "mach_step m (set_kernel (sched_step op (mach_kernel m)) m)"
| file_call: "mach_step m (m\<lparr>mach_system := snd (user_call c (mach_system m))\<rparr>)"
| process_reset: "mach_step m (m\<lparr>mach_system := update_state (state_slot process) (reset_state entry) (mach_system m)\<rparr>)"
| path_resolved: "mach_step m (m\<lparr>mach_system := snd (resolve_path path (mach_system m))\<rparr>)"
| state_changed: "personal f \<Longrightarrow> mach_step m (m\<lparr>mach_system := update_state slot f (mach_system m)\<rparr>)"
| image_changed: "mach_step m (m\<lparr>mach_system := (mach_system m)\<lparr>sys_user := (sys_user (mach_system m))\<lparr>
     user_image := img, pending_address_space := space\<rparr>\<rparr>\<rparr>)"
| pty_used: "mach_step m (m\<lparr>mach_ptys := snd (pty_exec process op (mach_ptys m))\<rparr>)"
| timed: "timer_step op (mach_timers m) (mach_kernel m) = (a, t, k) \<Longrightarrow> mach_step m (set_kernel k (m\<lparr>mach_timers := t\<rparr>))"
| console_used: "mach_step m (m\<lparr>mach_terminals := snd (console_step cop (mach_terminals m))\<rparr>)"
| elsewhere: "parts m' = parts m \<Longrightarrow> mach_step m m'"

definition by_steps :: "('d machine \<Rightarrow> 'd machine \<Rightarrow> bool) \<Rightarrow> ('d machine, 'a) state \<Rightarrow> bool" where
  "by_steps R act \<longleftrightarrow> (\<forall>m. R\<^sup>*\<^sup>* m (snd (run_state act m)))"

named_theorems steps_intros \<open>programs that only make steps\<close>

lemma steps_return [steps_intros]: "by_steps R (State_Monad.return v)"
  by (simp add: by_steps_def)

lemma steps_bind [steps_intros]:
  assumes "by_steps R act" and "\<And>v. by_steps R (f v)"
  shows "by_steps R (State_Monad.bind act f)"
  unfolding by_steps_def
proof
  fix m
  obtain v m' where r: "run_state act m = (v, m')" by fastforce
  have "R\<^sup>*\<^sup>* m m'" "R\<^sup>*\<^sup>* m' (snd (run_state (f v) m'))"
    using assms r by (auto simp: by_steps_def) (metis snd_conv)
  then show "R\<^sup>*\<^sup>* m (snd (run_state (State_Monad.bind act f) m))"
    by (simp add: r)
qed

lemma steps_looking [steps_intros]: "by_steps R (looking f)"
  by (simp add: by_steps_def looking_def)

lemma steps_fold [steps_intros]:
  "(\<And>x a. by_steps R (f x a)) \<Longrightarrow> by_steps R (fold_state f xs a)"
  by (induction xs arbitrary: a) (simp_all add: fold_state.simps steps_return steps_bind)

lemma steps_each [steps_intros]: "(\<And>x. by_steps R (f x)) \<Longrightarrow> by_steps R (each f xs)"
  by (simp add: each_def steps_fold)

lemma steps_one:
  "(\<And>m. R m (snd (run_state act m))) \<Longrightarrow> by_steps R act"
  unfolding by_steps_def by blast

lemma steps_update [steps_intros]:
  "(\<And>m. parts (f m) = parts m) \<Longrightarrow> by_steps mach_step (State_Monad.update f)"
  by (rule steps_one) (simp add: State_Monad.update_def elsewhere)

lemma steps_if [steps_intros]: "(c \<Longrightarrow> by_steps R a) \<Longrightarrow> (\<not> c \<Longrightarrow> by_steps R b) \<Longrightarrow> by_steps R (if c then a else b)"
  by simp

lemma steps_case_option [steps_intros]:
  "by_steps R a \<Longrightarrow> (\<And>v. by_steps R (f v)) \<Longrightarrow> by_steps R (case r of None \<Rightarrow> a | Some v \<Rightarrow> f v)"
  by (cases r) simp_all

lemma steps_case_sum [steps_intros]:
  "(\<And>v. by_steps R (f v)) \<Longrightarrow> (\<And>v. by_steps R (g v)) \<Longrightarrow> by_steps R (case r of Inl v \<Rightarrow> f v | Inr v \<Rightarrow> g v)"
  by (cases r) simp_all

lemma steps_case_prod [steps_intros]: "(\<And>v w. by_steps R (f v w)) \<Longrightarrow> by_steps R (case r of (v, w) \<Rightarrow> f v w)"
  by (cases r) simp

lemma steps_case_target [steps_intros]:
  "(\<And>v. by_steps R (f v)) \<Longrightarrow> (\<And>v. by_steps R (g v)) \<Longrightarrow> by_steps R (case r of TtyTarget v \<Rightarrow> f v | PtyTarget v \<Rightarrow> g v)"
  by (cases r) simp_all

lemma steps_let [steps_intros]: "(\<And>v. by_steps R (f v)) \<Longrightarrow> by_steps R (Let v f)"
  by (simp add: Let_def)

section \<open>Steps of the components\<close>

text \<open>Operations on the kernel that are steps of the scheduler.\<close>

definition scheduling :: "(kernel \<Rightarrow> kernel) \<Rightarrow> bool" where
  "scheduling f \<longleftrightarrow> (\<forall>k. \<exists>ops. f k = sched_run ops k)"

lemma sched_run_append: "sched_run (ops @ ops') k = sched_run ops' (sched_run ops k)"
  by (simp add: sched_run_def)

lemma scheduling_op: "(\<And>k. f k = sched_step op k) \<Longrightarrow> scheduling f"
  unfolding scheduling_def by (metis sched_run_def fold_simps)

lemma set_kernel_steps: "mach_step\<^sup>*\<^sup>* m (set_kernel (sched_run ops (mach_kernel m)) m)"
proof (induction ops rule: rev_induct)
  case Nil
  then show ?case by (simp add: sched_run_def set_kernel_def)
next
  case (snoc op ops)
  let ?m = "set_kernel (sched_run ops (mach_kernel m)) m"
  have "mach_step ?m (set_kernel (sched_step op (mach_kernel ?m)) ?m)" by (rule scheduled)
  moreover have "set_kernel (sched_step op (mach_kernel ?m)) ?m = set_kernel (sched_run (ops @ [op]) (mach_kernel m)) m"
    by (simp add: set_kernel_def sched_run_def)
  ultimately show ?case using snoc by simp
qed

lemma steps_on_kernel:
  assumes "scheduling (\<lambda>k. snd (f k))"
  shows "by_steps mach_step (on_kernel f)"
  unfolding by_steps_def
proof
  fix m :: "'d machine"
  obtain ops where "snd (f (mach_kernel m)) = sched_run ops (mach_kernel m)"
    using assms by (auto simp: scheduling_def)
  then show "mach_step\<^sup>*\<^sup>* m (snd (run_state (on_kernel f) m))"
    using set_kernel_steps [of m ops]
    by (simp add: on_kernel_def on_system_def set_kernel_def case_prod_beta)
qed

lemma compute_memory: "k\<lparr>kmem := m\<rparr> = sched_step (Compute (cpu k) (kernel_words k) m) k"
  by (simp add: sched_step_def)

lemma spawn_user_step:
  "\<exists>ops. snd (spawn_user entry argument fs stack k) = sched_run ops k"
proof (cases "\<not> is_user_executable entry (kmem k) \<or> (fs \<noteq> 0 \<and> \<not> is_user_mapped fs (kmem k))")
  case True
  then have "snd (spawn_user entry argument fs stack k) = sched_run [] k" by (simp add: spawn_user_def sched_run_def)
  then show ?thesis ..
next
  case False
  then have "snd (spawn_user entry argument fs stack k) = sched_run [SpawnUser USER_PROCESS_ID entry argument fs stack] k"
    by (auto simp: spawn_user_def sched_run_def sched_step_def)
  then show ?thesis ..
qed

lemma scheduling_ops [steps_intros]:
  "scheduling yield_now" "scheduling exit_current" "scheduling (exit_current_with_status status)"
  "scheduling (\<lambda>k. snd (spawn_user entry argument fs stack k))" "scheduling (\<lambda>k. snd (join_enter t k))"
  "scheduling (\<lambda>k. snd (wait_process_enter p k))" "scheduling (\<lambda>k. snd (try_wait_process p k))"
  "scheduling (\<lambda>k. snd (reap_any_child k))" "scheduling (\<lambda>k. snd (set_current_user_fs_base fs k))"
  "scheduling (save_syscall_state x)" "scheduling (save_user_context ctx)" "scheduling request_preemption"
  "t < MAX_THREADS \<Longrightarrow> scheduling (\<lambda>k. snd (join_resume t k))"
  "t < MAX_THREADS \<Longrightarrow> scheduling (\<lambda>k. snd (wait_process_resume p t k))"
  using scheduling_op [of yield_now Yield] scheduling_op [of exit_current "Exit 0"]
    scheduling_op [of "exit_current_with_status status" "Exit status"]
    scheduling_op [of "\<lambda>k. snd (join_enter t k)" "JoinEnter t"]
    scheduling_op [of "\<lambda>k. snd (wait_process_enter p k)" "WaitEnter p"]
    scheduling_op [of "\<lambda>k. snd (try_wait_process p k)" "TryWait p"]
    scheduling_op [of "\<lambda>k. snd (reap_any_child k)" ReapAnyChild]
    scheduling_op [of "\<lambda>k. snd (set_current_user_fs_base fs k)" "SetFsBase fs"]
    scheduling_op [of "save_syscall_state x" "SaveSyscallState x"]
    scheduling_op [of "save_user_context ctx" "SaveUserContext ctx"] scheduling_op [of request_preemption RequestPreemption]
    scheduling_op [of "\<lambda>k. snd (join_resume t k)" "JoinResume t"]
    scheduling_op [of "\<lambda>k. snd (wait_process_resume p t k)" "WaitResume p t"] spawn_user_step
  by (simp_all add: sched_step_def exit_current_def scheduling_def)

lemma steps_kernel_call [steps_intros]: "scheduling f \<Longrightarrow> by_steps mach_step (on_kernel (\<lambda>k. (v, f k)))"
  by (rule steps_on_kernel) simp

lemmas steps_kernel_result [steps_intros] = steps_on_kernel

lemma steps_on_timers:
  assumes "\<And>t k. \<exists>op. snd (f t k) = snd (timer_step op t k)"
  shows "by_steps mach_step (on_timers f)"
proof (rule steps_one)
  fix m :: "'d machine"
  obtain op where "snd (f (mach_timers m) (mach_kernel m)) = snd (timer_step op (mach_timers m) (mach_kernel m))"
    using assms by blast
  moreover obtain a t k where "timer_step op (mach_timers m) (mach_kernel m) = (a, t, k)" by (metis prod_cases3)
  ultimately show "mach_step m (snd (run_state (on_timers f) m))"
    using timed [of op m a t k] by (auto simp: on_timers_def set_kernel_def case_prod_beta)
qed

lemma steps_timer_calls [steps_intros]:
  "by_steps mach_step (on_timers (syscall_sleep ms))" "by_steps mach_step (on_timers (futex_wait address actual expected timeout))"
  "by_steps mach_step (on_timers (futex_wake address count))" "by_steps mach_step (on_timers (\<lambda>t k. ((), timer_interrupt t k)))"
proof -
  show "by_steps mach_step (on_timers (syscall_sleep ms))"
    by (rule steps_on_timers) (metis timer_step.simps(2))
  show "by_steps mach_step (on_timers (futex_wait address actual expected timeout))"
    by (rule steps_on_timers) (metis timer_step.simps(3))
  show "by_steps mach_step (on_timers (futex_wake address count))"
    by (rule steps_on_timers) (metis timer_step.simps(4))
  show "by_steps mach_step (on_timers (\<lambda>t k. ((), timer_interrupt t k)))"
    by (rule steps_on_timers) (metis timer_step.simps(1) snd_conv)
qed

lemma steps_on_ptys:
  assumes "\<And>p ptys. \<exists>op. snd (f p ptys) = snd (pty_exec p op ptys)"
  shows "by_steps mach_step (on_ptys f)"
proof (rule steps_one)
  fix m :: "'d machine"
  obtain op where "snd (f (current_process (mach_kernel m)) (mach_ptys m)) =
      snd (pty_exec (current_process (mach_kernel m)) op (mach_ptys m))" using assms by blast
  then show "mach_step m (snd (run_state (on_ptys f) m))"
    using pty_used [of m "current_process (mach_kernel m)" op] by (simp add: on_ptys_def case_prod_beta)
qed

lemma steps_pty_calls [steps_intros]:
  "by_steps mach_step (on_ptys pty_open)" "by_steps mach_step (on_ptys (\<lambda>owner. pty_close owner i))"
  "by_steps mach_step (on_ptys (\<lambda>owner. pty_read_master owner i out))" "by_steps mach_step (on_ptys (\<lambda>owner. pty_write_master owner i bytes))"
  "by_steps mach_step (on_ptys (\<lambda>_ ptys. ((), pty_slave_write i bytes ptys)))" "by_steps mach_step (on_ptys (\<lambda>_. pty_slave_poll_key i))"
proof -
  have e: "snd (pty_open p ptys) = snd (pty_exec p PtyOpen ptys)"
    "snd (pty_close p i ptys) = snd (pty_exec p (PtyClose i) ptys)"
    "snd (pty_read_master p i out ptys) = snd (pty_exec p (PtyRead i out) ptys)"
    "snd (pty_write_master p i bytes ptys) = snd (pty_exec p (PtyWrite i bytes) ptys)"
    "snd ((), pty_slave_write i bytes ptys) = snd (pty_exec p (SlaveWrite i bytes) ptys)"
    "snd (pty_slave_poll_key i ptys) = snd (pty_exec p (SlavePoll i) ptys)" for p ptys
    by (simp_all split: prod.split)
  show "by_steps mach_step (on_ptys pty_open)" by (rule steps_on_ptys) (metis e(1))
  show "by_steps mach_step (on_ptys (\<lambda>owner. pty_close owner i))" by (rule steps_on_ptys) (metis e(2))
  show "by_steps mach_step (on_ptys (\<lambda>owner. pty_read_master owner i out))" by (rule steps_on_ptys) (metis e(3))
  show "by_steps mach_step (on_ptys (\<lambda>owner. pty_write_master owner i bytes))" by (rule steps_on_ptys) (metis e(4))
  show "by_steps mach_step (on_ptys (\<lambda>_ ptys. ((), pty_slave_write i bytes ptys)))" by (rule steps_on_ptys) (metis e(5))
  show "by_steps mach_step (on_ptys (\<lambda>_. pty_slave_poll_key i))" by (rule steps_on_ptys) (metis e(6))
qed

lemma steps_on_terminals:
  assumes "\<And>c. \<exists>op. snd (f c) = snd (console_step op c)"
  shows "by_steps mach_step (on_terminals f)"
proof (rule steps_one)
  fix m :: "'d machine"
  obtain op where "snd (f (mach_terminals m)) = snd (console_step op (mach_terminals m))" using assms by blast
  then show "mach_step m (snd (run_state (on_terminals f) m))"
    using console_used [of m op] by (simp add: on_terminals_def case_prod_beta)
qed

lemma steps_terminal_calls [steps_intros]:
  "by_steps mach_step (on_terminals (\<lambda>c. ((), user_console_write tty bytes c)))" "by_steps mach_step (on_terminals (\<lambda>c. ((), user_console_clear tty c)))"
  "by_steps mach_step (on_terminals (\<lambda>c. ((), user_console_backspace tty c)))" "by_steps mach_step (on_terminals (\<lambda>c. ((), user_console_tick c)))"
  "by_steps mach_step (on_terminals (\<lambda>c. ((), handle_scancode byte c)))" "by_steps mach_step (on_terminals (poll_user_key tty))"
proof -
  note s = console_step.simps
  show "by_steps mach_step (on_terminals (\<lambda>c. ((), user_console_write tty bytes c)))" by (rule steps_on_terminals) (metis s(1) snd_conv)
  show "by_steps mach_step (on_terminals (\<lambda>c. ((), user_console_clear tty c)))" by (rule steps_on_terminals) (metis s(2) snd_conv)
  show "by_steps mach_step (on_terminals (\<lambda>c. ((), user_console_backspace tty c)))" by (rule steps_on_terminals) (metis s(3) snd_conv)
  show "by_steps mach_step (on_terminals (\<lambda>c. ((), user_console_tick c)))" by (rule steps_on_terminals) (metis s(4) snd_conv)
  show "by_steps mach_step (on_terminals (\<lambda>c. ((), handle_scancode byte c)))" by (rule steps_on_terminals) (metis s(5) snd_conv)
  show "by_steps mach_step (on_terminals (poll_user_key tty))" by (rule steps_on_terminals) (metis s(6))
qed

section \<open>Steps of the system\<close>

text \<open>A change of the kernel, the file system and the processes that is made of steps.\<close>

definition sys_steps :: "'d itself \<Rightarrow> system \<Rightarrow> system \<Rightarrow> bool" where
  "sys_steps T s s' \<longleftrightarrow> (\<forall>m :: 'd machine. mach_system m = s \<longrightarrow> mach_step\<^sup>*\<^sup>* m (m\<lparr>mach_system := s'\<rparr>))"

lemma sys_steps_refl: "sys_steps T s s"
  by (auto simp: sys_steps_def)

lemma sys_steps_trans: "sys_steps T s s1 \<Longrightarrow> sys_steps T s1 s2 \<Longrightarrow> sys_steps T s s2"
  unfolding sys_steps_def
proof (intro allI impI)
  fix m :: "'a machine"
  assume a: "\<forall>m :: 'a machine. mach_system m = s \<longrightarrow> mach_step\<^sup>*\<^sup>* m (m\<lparr>mach_system := s1\<rparr>)"
    and b: "\<forall>m :: 'a machine. mach_system m = s1 \<longrightarrow> mach_step\<^sup>*\<^sup>* m (m\<lparr>mach_system := s2\<rparr>)" and m: "mach_system m = s"
  have "mach_step\<^sup>*\<^sup>* m (m\<lparr>mach_system := s1\<rparr>)" using a m by blast
  moreover have "mach_step\<^sup>*\<^sup>* (m\<lparr>mach_system := s1\<rparr>) ((m\<lparr>mach_system := s1\<rparr>)\<lparr>mach_system := s2\<rparr>)"
    using b by (metis (no_types) machine.select_convs(1) machine.surjective machine.update_convs(1))
  ultimately show "mach_step\<^sup>*\<^sup>* m (m\<lparr>mach_system := s2\<rparr>)" by simp
qed

lemma sys_steps_kernel:
  "sys_steps T s (s\<lparr>sys_kernel := sched_run ops (sys_kernel s)\<rparr>)"
  using set_kernel_steps by (auto simp: sys_steps_def set_kernel_def)

lemma sys_steps_op: "sys_steps T s (s\<lparr>sys_kernel := sched_step op (sys_kernel s)\<rparr>)"
  using sys_steps_kernel [of T s "[op]"] by (simp add: sched_run_def)

lemma sys_steps_memory: "sys_steps T s (set_memory mem s)"
proof -
  have "set_memory mem s = s\<lparr>sys_kernel := sched_step (Compute (cpu (sys_kernel s)) (kernel_words (sys_kernel s)) mem) (sys_kernel s)\<rparr>"
    by (simp add: set_memory_def compute_memory [symmetric])
  then show ?thesis using sys_steps_op by metis
qed

lemma sys_steps_on_memory: "on_system_memory f s = (r, s') \<Longrightarrow> sys_steps T s s'"
  using sys_steps_memory [of T s] by (auto simp: on_system_memory_def set_memory_def split: prod.splits)

lemma sys_steps_single:
  "sys_steps T s (snd (user_call c s))" "sys_steps T s (update_state (state_slot process) (reset_state entry) s)"
  "sys_steps T s (snd (resolve_path path s))" "personal f \<Longrightarrow> sys_steps T s (update_state slot f s)"
  "sys_steps T s (s\<lparr>sys_user := (sys_user s)\<lparr>user_image := img, pending_address_space := space\<rparr>\<rparr>)"
  unfolding sys_steps_def
  by (auto intro: mach_step.intros r_into_rtranclp)

lemma steps_on_system:
  assumes "\<And>s. sys_steps TYPE('d) s (snd (f s))"
  shows "by_steps mach_step (on_system f :: ('d machine, 'a) state)"
  using assms by (simp add: by_steps_def on_system_def case_prod_beta sys_steps_def)

lemma run_drive:
  "run_state (drive act) m = (case run_state act ((mach_drivers m)\<lparr>io_memory := mach_memory m\<rparr>) of
     (v, d) \<Rightarrow> (v, m\<lparr>mach_drivers := d, mach_system := set_memory (io_memory d) (mach_system m)\<rparr>))"
  by (simp add: drive_def)

lemma steps_drive [steps_intros]: "by_steps mach_step (drive act)"
  unfolding by_steps_def
proof
  fix m :: "'a machine"
  obtain v d where r: "run_state act ((mach_drivers m)\<lparr>io_memory := mach_memory m\<rparr>) = (v, d)" by fastforce
  let ?m = "m\<lparr>mach_drivers := d\<rparr>"
  have "mach_step m ?m" by (rule elsewhere) (simp add: parts_def)
  moreover have "mach_step\<^sup>*\<^sup>* ?m (?m\<lparr>mach_system := set_memory (io_memory d) (mach_system ?m)\<rparr>)"
    using sys_steps_memory [of "TYPE('a)" "mach_system ?m" "io_memory d"] by (simp add: sys_steps_def)
  ultimately show "mach_step\<^sup>*\<^sup>* m (snd (run_state (drive act) m))"
    by (simp add: run_drive r converse_rtranclp_into_rtranclp)
qed

lemma steps_set_memory [steps_intros]: "by_steps mach_step (on_system (\<lambda>s. (v, set_memory mem s)))"
  by (rule steps_on_system) (simp add: sys_steps_memory)

lemma steps_file_calls [steps_intros]:
  "by_steps mach_step (on_system (user_open path flags))" "by_steps mach_step (on_system (user_write fd bytes))"
  "by_steps mach_step (on_system (user_close fd))" "by_steps mach_step (on_system (user_seek fd offset whence))"
  "by_steps mach_step (on_system (user_chdir path))"
  "by_steps mach_step (on_system (\<lambda>s. case user_read fd out s of (answer, bytes, s) \<Rightarrow> ((answer, bytes), s)))"
proof -
  have e: "snd (user_open path flags s) = snd (user_call (Open path flags) s)"
    "snd (user_write fd bytes s) = snd (user_call (Write fd bytes) s)"
    "snd (user_close fd s) = snd (user_call (Close fd) s)"
    "snd (user_seek fd offset whence s) = snd (user_call (Seek fd offset whence) s)"
    "snd (user_chdir path s) = snd (user_call (Chdir path) s)"
    "snd (case user_read fd out s of (answer, bytes, s) \<Rightarrow> ((answer, bytes), s)) = snd (user_call (Read fd out) s)" for s
    by (simp_all split: prod.split)
  show "by_steps mach_step (on_system (user_open path flags))" "by_steps mach_step (on_system (user_write fd bytes))"
    "by_steps mach_step (on_system (user_close fd))" "by_steps mach_step (on_system (user_seek fd offset whence))"
    "by_steps mach_step (on_system (user_chdir path))"
    "by_steps mach_step (on_system (\<lambda>s. case user_read fd out s of (answer, bytes, s) \<Rightarrow> ((answer, bytes), s)))"
    by (rule steps_on_system, simp only: e, rule sys_steps_single)+
qed

lemma steps_bindings [steps_intros]:
  "by_steps mach_step (on_system (\<lambda>s. (v, bind_tty tty s)))" "by_steps mach_step (on_system (\<lambda>s. (v, bind_pty pty s)))"
proof -
  have "personal (\<lambda>u. u\<lparr>console := x\<rparr>)" for x by (simp add: personal_def)
  then show "by_steps mach_step (on_system (\<lambda>s. (v, bind_tty tty s)))" "by_steps mach_step (on_system (\<lambda>s. (v, bind_pty pty s)))"
    by (auto intro!: steps_on_system sys_steps_single(4) simp: bind_tty_def bind_pty_def update_user_state_def)
qed

lemma steps_brk [steps_intros]: "by_steps mach_step (on_system (brk requested))"
proof (rule steps_on_system)
  fix s
  let ?f = "\<lambda>m. case heap_brk requested (heap_break (user_state s), heap_mapped_end (user_state s), m) of
      (answer, break, mapped_end, m) \<Rightarrow> ((answer, break, mapped_end), m)"
  obtain x s1 where x: "on_system_memory ?f s = (x, s1)" by (rule prod.exhaust)
  obtain answer break mapped_end where "x = (answer, break, mapped_end)" by (rule prod_cases3)
  then have o: "on_system_memory ?f s = ((answer, break, mapped_end), s1)" using x by simp
  have "personal (\<lambda>u. u\<lparr>heap_break := break, heap_mapped_end := mapped_end\<rparr>)" by (simp add: personal_def)
  then have "sys_steps T s (update_user_state (\<lambda>u. u\<lparr>heap_break := break, heap_mapped_end := mapped_end\<rparr>) s1)" for T :: "'a itself"
    unfolding update_user_state_def
    by (rule sys_steps_trans [OF sys_steps_on_memory [OF o] sys_steps_single(4)])
  then show "sys_steps TYPE('a) s (snd (brk requested s))"
    by (simp only: brk_def Let_def o prod.case snd_conv)
qed

lemma reset_to_console:
  "update_state slot (\<lambda>u. (reset_state entry u)\<lparr>console := x\<rparr>) s =
     update_state slot (\<lambda>u. u\<lparr>console := x\<rparr>) (update_state slot (reset_state entry) s)"
  by (cases "slot < length (process_state (sys_user s))") (simp_all add: update_state_def list_update_beyond)

lemma spawn_user_sys:
  "spawn_user_for_process p entry argument fs stack (sys_kernel s) = (r, k) \<Longrightarrow> sys_steps T s (s\<lparr>sys_kernel := k\<rparr>)"
  using sys_steps_op [of T s "SpawnUser p entry argument fs stack"] by (simp add: sched_step_def)

lemma create_process_sys:
  "create_process space (sys_kernel s) = (r, k) \<Longrightarrow> sys_steps T s (s\<lparr>sys_kernel := k\<rparr>)"
  using sys_steps_op [of T s "CreateProcess space"] by (simp add: sched_step_def)

lemma sys_steps_spawn_loaded:
  assumes "spawn_loaded path argv space process loaded s = Some (answer, s')"
  shows "sys_steps T s s'"
proof -
  let ?s1 = "update_state (state_slot process) (\<lambda>u. u\<lparr>executable_entry := loaded_entry loaded\<rparr>) s"
  have p: "personal (\<lambda>u. u\<lparr>executable_entry := loaded_entry loaded\<rparr>)" by (simp add: personal_def)
  obtain q where "prepare_image loaded path argv (switch_address_space space (kmem (sys_kernel ?s1))) = Some q"
    and q: "(\<lambda>(sp, m). let s = set_memory (switch_address_space (active_address_space (kmem (sys_kernel ?s1))) m) ?s1
           in case spawn_user_for_process process (loaded_entry loaded) 0 (loaded_fs_base loaded) (Some sp) (sys_kernel s) of
                (None, k) \<Rightarrow> (u64_max, s\<lparr>sys_kernel := k\<rparr>)
              | (Some thread, k) \<Rightarrow> (of_nat process, s\<lparr>sys_kernel := set_process_main_thread process thread k\<rparr>)) q = (answer, s')"
    using assms unfolding spawn_loaded_def Let_def map_option_eq_Some by blast
  obtain sp m0 where sp: "q = (sp, m0)" by fastforce
  define m where "m = switch_address_space (active_address_space (kmem (sys_kernel s))) m0"
  let ?s2 = "set_memory m ?s1"
  obtain r k where k: "spawn_user_for_process process (loaded_entry loaded) 0 (loaded_fs_base loaded) (Some sp)
      (sys_kernel ?s2) = (r, k)" by fastforce
  have a: "sys_steps T s (?s2\<lparr>sys_kernel := k\<rparr>)"
    by (rule sys_steps_trans [OF sys_steps_single(4) [OF p] sys_steps_trans [OF sys_steps_memory spawn_user_sys [OF k]]])
  show ?thesis
  proof (cases r)
    case None
    then show ?thesis using a q k unfolding sp by (simp add: m_def [symmetric] Let_def)
  next
    case (Some thread)
    have "sys_steps T (?s2\<lparr>sys_kernel := k\<rparr>) (?s2\<lparr>sys_kernel := set_process_main_thread process thread k\<rparr>)"
      using sys_steps_op [of T "?s2\<lparr>sys_kernel := k\<rparr>" "SetMainThread process thread"] by (simp add: sched_step_def)
    then show ?thesis using sys_steps_trans [OF a] q k Some unfolding sp by (simp add: m_def [symmetric] Let_def)
  qed
qed

end
