(* ===== verification/Invariants.thy ===== *)
theory Invariants
  imports Composition
begin

text \<open>
  Every system call, interrupt and the start of the machine is a sequence of component steps; runs
  of the whole machine and what holds in all of them.
\<close>

section \<open>The calls are sequences of steps\<close>

lemma sys_steps_user_spawn:
  assumes "user_spawn path argv s = Some (answer, s')"
  shows "sys_steps T s s'"
proof -
  obtain p s1 where r: "resolve_path path s = (p, s1)" by fastforce
  have s1: "sys_steps T s s1" using sys_steps_single(3) [of T s path] r by simp
  show ?thesis
  proof (cases "p = None \<or> vfs_open (the p) (sys_vfs s1) = None")
    case True
    then show ?thesis using assms r s1 by (auto simp: user_spawn_def split: option.splits)
  next
    case False
    then obtain path' elf where p: "p = Some path'" "vfs_open path' (sys_vfs s1) = Some elf" by auto
    obtain c s2 where c: "on_system_memory create_user_address_space s1 = (c, s2)" by fastforce
    have s2: "sys_steps T s s2" by (rule sys_steps_trans [OF s1 sys_steps_on_memory [OF c]])
    show ?thesis
    proof (cases c)
      case (Inl e)
      then show ?thesis using assms r p c s2 by (simp add: user_spawn_def)
    next
      case (Inr space)
      obtain d k where d: "create_process space (sys_kernel s2) = (d, k)" by fastforce
      have s3: "sys_steps T s (s2\<lparr>sys_kernel := k\<rparr>)" by (rule sys_steps_trans [OF s2 create_process_sys [OF d]])
      show ?thesis
      proof (cases d)
        case None
        then show ?thesis using assms r p c d Inr s3 by (simp add: user_spawn_def)
      next
        case (Some process)
        define s4 where "s4 = update_state (state_slot process)
            (\<lambda>u. (reset_state 0 u)\<lparr>console := TtyTarget 0\<rparr>) (s2\<lparr>sys_kernel := k\<rparr>)"
        have p4: "personal (\<lambda>u. u\<lparr>console := TtyTarget 0\<rparr>)" by (simp add: personal_def)
        have s4: "sys_steps T s s4"
          unfolding s4_def reset_to_console
          by (rule sys_steps_trans [OF s3 sys_steps_trans [OF sys_steps_single(2) sys_steps_single(4) [OF p4]]])
        obtain l s5 where l: "on_system_memory (load_user_elf_into elf space process) s4 = (l, s5)" by fastforce
        have s5: "sys_steps T s s5" by (rule sys_steps_trans [OF s4 sys_steps_on_memory [OF l]])
        have u: "user_spawn path argv s = (case l of Inl _ \<Rightarrow> Some (u64_max, s5)
            | Inr loaded \<Rightarrow> spawn_loaded path' argv space process loaded s5)"
          using r p c d l Inr Some by (simp add: user_spawn_def s4_def)
        show ?thesis
        proof (cases l)
          case (Inl e)
          then show ?thesis using assms u s5 by simp
        next
          case (Inr loaded)
          then have "spawn_loaded path' argv space process loaded s5 = Some (answer, s')" using assms u by simp
          then show ?thesis by (rule sys_steps_trans [OF s5 sys_steps_spawn_loaded])
        qed
      qed
    qed
  qed
qed

lemma run_looking [simp]: "run_state (looking f) m = (f m, m)"
  by (simp add: looking_def)

text \<open>A result computed from the state and then stored.\<close>

lemma steps_commit:
  assumes "\<And>s v s'. f s = Some (v, s') \<Longrightarrow> sys_steps TYPE('d) s s'"
    and "by_steps mach_step (g :: ('d machine, 'b) state)" and "\<And>v. by_steps mach_step (h v)"
  shows "by_steps mach_step (do { r \<leftarrow> looking (\<lambda>m. f (mach_system m));
     case r of None \<Rightarrow> g | Some (v, s) \<Rightarrow> do { on_system (\<lambda>_. ((), s)); h v } })"
  unfolding by_steps_def
proof
  fix m :: "'d machine"
  show "mach_step\<^sup>*\<^sup>* m (snd (run_state (do { r \<leftarrow> looking (\<lambda>m. f (mach_system m));
     case r of None \<Rightarrow> g | Some (v, s) \<Rightarrow> do { on_system (\<lambda>_. ((), s)); h v } }) m))"
  proof (cases "f (mach_system m)")
    case None
    then show ?thesis using assms(2) by (simp add: by_steps_def)
  next
    case (Some q)
    obtain v s' where q: "q = (v, s')" by fastforce
    have "mach_step\<^sup>*\<^sup>* m (m\<lparr>mach_system := s'\<rparr>)" using assms(1) Some q by (simp add: sys_steps_def)
    moreover have "mach_step\<^sup>*\<^sup>* (m\<lparr>mach_system := s'\<rparr>) (snd (run_state (h v) (m\<lparr>mach_system := s'\<rparr>)))"
      using assms(3) by (simp add: by_steps_def)
    ultimately show ?thesis using Some q by (simp add: on_system_def)
  qed
qed

lemma steps_com1 [steps_intros]: "by_steps mach_step (com1_write hw bytes)" "by_steps mach_step (com1_write_usize hw n)"
  unfolding com1_write_def com1_write_usize_def by (intro steps_intros)+

lemma steps_console_output [steps_intros]:
  "by_steps mach_step (console_write bytes)" "by_steps mach_step (console_output hw bytes)" "by_steps mach_step (console_output_decimal hw n)"
proof -
  show w: "by_steps mach_step (console_write bytes)" for bytes
    unfolding console_write_def by (intro steps_intros)
  show o: "by_steps mach_step (console_output hw bytes)" for bytes
    unfolding console_output_def by (intro steps_intros w)
  show "by_steps mach_step (console_output_decimal hw n)"
    unfolding console_output_decimal_def by (intro steps_intros o)
qed

lemma steps_with_input [steps_intros]: "(\<And>bytes. by_steps mach_step (f bytes)) \<Longrightarrow> by_steps mach_step (with_input pointer len maximum f)"
  unfolding with_input_def by (intro steps_intros)

lemma steps_with_output [steps_intros]: "(\<And>output. by_steps mach_step (f output)) \<Longrightarrow> by_steps mach_step (with_output pointer len maximum f)"
  unfolding with_output_def by (intro steps_intros)

lemma steps_terminal_only [steps_intros]:
  "by_steps mach_step (syscall_on_terminal user_console_clear)" "by_steps mach_step (syscall_on_terminal user_console_backspace)"
  unfolding syscall_on_terminal_def by (intro steps_intros)+

lemmas call_defs = syscall_write_def syscall_poll_key_def syscall_sata_status_def syscall_pci_status_def
  syscall_lsblk_def syscall_sata_identify_def syscall_sata_read_def syscall_getrandom_def shutdown_def
  reboot_def syscall_thread_create_def syscall_join_def syscall_wait_process_def syscall_reap_any_child_def
  syscall_futex_wait_def syscall_futex_wake_def syscall_set_tls_base_def syscall_vfs_open_def
  syscall_vfs_read_def syscall_vfs_write_def syscall_chdir_def syscall_getcwd_def syscall_executable_info_def
  syscall_vfs_stat_def syscall_pty_read_master_def syscall_pty_write_master_def syscall_pty_attach_slave_def
  answering_def

lemma steps_calls [steps_intros]:
  "by_steps mach_step (syscall_write hw pointer len)" "by_steps mach_step syscall_poll_key" "by_steps mach_step (syscall_sata_status hw)"
  "by_steps mach_step (syscall_pci_status hw)" "by_steps mach_step (syscall_lsblk hw)" "by_steps mach_step (syscall_sata_identify hw)"
  "by_steps mach_step (syscall_sata_read hw)" "by_steps mach_step (syscall_getrandom hw pointer len)" "by_steps mach_step (shutdown hw)"
  "by_steps mach_step (reboot hw)" "by_steps mach_step (syscall_thread_create entry argument fs)" "by_steps mach_step (syscall_join thread)"
  "by_steps mach_step (syscall_wait_process process)" "by_steps mach_step (syscall_reap_any_child status_pointer)"
  "by_steps mach_step (syscall_futex_wait hw address expected_value timeout)" "by_steps mach_step (syscall_futex_wake address count)"
  "by_steps mach_step (syscall_set_tls_base base)" "by_steps mach_step (syscall_vfs_open pointer len flags)"
  "by_steps mach_step (syscall_vfs_read fd pointer len)" "by_steps mach_step (syscall_vfs_write fd pointer len)"
  "by_steps mach_step (syscall_chdir pointer len)" "by_steps mach_step (syscall_getcwd pointer len)"
  "by_steps mach_step (syscall_executable_info pointer len)" "by_steps mach_step (syscall_vfs_stat fd pointer len)"
  "by_steps mach_step (syscall_pty_read_master pty pointer len)" "by_steps mach_step (syscall_pty_write_master pty pointer len)"
  "by_steps mach_step (syscall_pty_attach_slave pty)"
  unfolding call_defs by (intro steps_intros)+

lemma steps_spawn_commit:
  "by_steps mach_step (do { r \<leftarrow> looking (\<lambda>m. user_spawn bytes arguments (mach_system m));
     case r of None \<Rightarrow> State_Monad.return Fault
     | Some (answer, s) \<Rightarrow> do { on_system (\<lambda>_. ((), s)); State_Monad.return (Answer answer) } })"
  by (rule steps_commit) (auto intro: sys_steps_user_spawn steps_intros)

lemma steps_process_spawn [steps_intros]: "by_steps mach_step (syscall_process_spawn pointer len argv)"
  unfolding syscall_process_spawn_def
  by (rule steps_with_input, rule steps_bind, rule steps_looking)
    (rule steps_spawn_commit steps_case_option steps_return)+

lemma steps_power [steps_intros]: "by_steps mach_step (syscall_request_power_event kind)" "by_steps mach_step syscall_poll_power_event"
  unfolding syscall_request_power_event_def syscall_poll_power_event_def
  by (intro steps_intros; simp add: parts_def)+

lemma steps_trace [steps_intros]: "by_steps mach_step (trace_call hw number pointer len)"
  unfolding trace_call_def by (intro steps_intros; simp add: parts_def)

lemma steps_dispatch:
  assumes "number \<noteq> 39"
  shows "by_steps mach_step (syscall_dispatch hw number pointer len argument)"
proof -
  have "by_steps mach_step (syscall_body hw number pointer len argument)"
    unfolding syscall_body_def answering_def using assms by (intro steps_intros) simp_all
  then show ?thesis unfolding syscall_dispatch_def by (intro steps_intros)
qed

lemma steps_system_call: "uc_rax regs \<noteq> 39 \<Longrightarrow> by_steps mach_step (system_call hw regs)"
  unfolding system_call_def syscall_entry_def by (intro steps_intros steps_dispatch)

lemma steps_return_frame [steps_intros]: "by_steps mach_step (syscall_return answer)"
  unfolding syscall_return_def by (intro steps_intros; simp add: parts_def set_user_kernel_stack_def)

lemma scheduling_enter [steps_intros]: "scheduling (\<lambda>k. snd (user_thread_enter k))"
  by (rule scheduling_op [of _ UserThreadEnter]) (simp add: sched_step_def)

lemma steps_trampoline [steps_intros]: "by_steps mach_step (enter_user_thread hw)"
  unfolding enter_user_thread_def resume_user_context_def
  by (intro steps_intros; simp add: parts_def set_user_kernel_stack_def)

lemma steps_irq [steps_intros]: "by_steps mach_step (irq_dispatch hw vector)"
  unfolding irq_dispatch_def keyboard_interrupt_def by (intro steps_intros)

fun suspension_ok :: "suspension \<Rightarrow> bool" where
  "suspension_ok (JoinOf thread) = (thread < MAX_THREADS)"
| "suspension_ok (WaitOf process thread) = (thread < MAX_THREADS)"

lemma steps_resume: "suspension_ok p \<Longrightarrow> by_steps mach_step (syscall_resume p)"
  by (cases p) (auto intro!: steps_intros)

end
