(* ===== verification/MachineRuns.thy ===== *)
theory MachineRuns
  imports Invariants Transfers Heap
begin

text \<open>
  Runs of the whole machine from its start: user code, system calls, the rest of suspended calls,
  returns to user mode and interrupts, in any order and with any hardware.
\<close>

section \<open>Runs\<close>







section \<open>The invariant\<close>













lemma update_state_fields [simp]:
  "sys_kernel (update_state slot f s) = sys_kernel s" "sys_vfs (update_state slot f s) = sys_vfs s"
  by (simp_all add: update_state_def)



section \<open>Every step is a step of the components\<close>









section \<open>The start\<close>




text \<open>Before the first thread runs: nobody is current and the terminals are as they were.\<close>

definition early :: "'d machine \<Rightarrow> 'd machine \<Rightarrow> bool" where
  "early m m' \<longleftrightarrow> mach_step m m' \<and> mach_terminals m' = mach_terminals m \<and>
     current_thread (mach_kernel m') = current_thread (mach_kernel m)"


lemma early_update [steps_intros]: "(\<And>m. parts (f m) = parts m) \<Longrightarrow> by_steps early (State_Monad.update f)"
  by (rule steps_one) (simp add: State_Monad.update_def early_def elsewhere parts_def)

lemma early_drive [steps_intros]: "by_steps early (drive act)"
  unfolding by_steps_def
proof
  fix m :: "'a machine"
  obtain v d where r: "run_state act ((mach_drivers m)\<lparr>io_memory := mach_memory m\<rparr>) = (v, d)" by fastforce
  let ?m = "m\<lparr>mach_drivers := d\<rparr>"
  let ?k = "sched_step (Compute (cpu (mach_kernel m)) (kernel_words (mach_kernel m)) (io_memory d)) (mach_kernel m)"
  have "early m ?m" by (simp add: early_def elsewhere parts_def)
  moreover have "early ?m (set_kernel ?k ?m)"
    using scheduled [of ?m "Compute (cpu (mach_kernel m)) (kernel_words (mach_kernel m)) (io_memory d)"]
    by (simp add: early_def set_kernel_def sched_step_def)
  moreover have "snd (run_state (drive act) m) = set_kernel ?k ?m"
    by (simp add: run_drive r set_kernel_def set_memory_def sched_step_def)
  ultimately show "early\<^sup>*\<^sup>* m (snd (run_state (drive act) m))"
    by (metis converse_rtranclp_into_rtranclp r_into_rtranclp)
qed

lemma early_com1 [steps_intros]: "by_steps early (com1_write hw bytes)" "by_steps early (com1_write_usize hw n)"
  unfolding com1_write_def com1_write_usize_def by (intro steps_intros)+

lemma early_preemption [steps_intros]: "by_steps early (on_kernel (\<lambda>k. ((), request_preemption k)))"
proof (rule steps_one)
  fix m :: "'a machine"
  show "early m (snd (run_state (on_kernel (\<lambda>k. ((), request_preemption k))) m))"
    using scheduled [of m RequestPreemption]
    by (simp add: early_def set_kernel_def sched_step_def on_kernel_def on_system_def request_preemption_def)
qed

lemma early_x86 [steps_intros]: "by_steps early (x86_initialize hw tc)"
  unfolding x86_initialize_def
  by (intro steps_intros) (simp_all add: parts_def initialize_tss_def case_prod_beta)


















end
