(* ===== verification/CallReturns.thy ===== *)
theory CallReturns
  imports MachineRuns
begin

text \<open>
  A system call returns where it was made, whatever the machine has done in between: the state
  the entry saves for the calling thread is changed by no operation of the scheduler other than the
  next entry of that thread and the reuse of its slot after its exit.
\<close>

section \<open>Saved states\<close>

definition saves :: "kernel \<Rightarrow> syscall_state list" where
  "saves k = map thread_syscall_state (threads k)"

lemma saves_update_thread:
  assumes "\<And>x. thread_syscall_state (f x) = thread_syscall_state x"
  shows "saves (update_thread i f k) = saves k"
proof (cases "i < length (threads k)")
  case True
  then show ?thesis by (simp add: saves_def update_thread_def map_update assms list_update_same_conv)
next
  case False
  then show ?thesis by (simp add: saves_def update_thread_def list_update_beyond)
qed

lemma saves_fields [simp]:
  "saves (k\<lparr>queue := q\<rparr>) = saves k" "saves (k\<lparr>current_thread := t\<rparr>) = saves k" "saves (k\<lparr>kmem := mem\<rparr>) = saves k"
  "saves (k\<lparr>cpu := ctx\<rparr>) = saves k" "saves (k\<lparr>cpu_rip := rip\<rparr>) = saves k" "saves (k\<lparr>kernel_words := ws\<rparr>) = saves k"
  "saves (k\<lparr>scheduler_context := ctx\<rparr>) = saves k" "saves (k\<lparr>processes := ps\<rparr>) = saves k"
  "saves (k\<lparr>preempt_requested := b\<rparr>) = saves k" "saves (k\<lparr>idle_created := b\<rparr>) = saves k"
  by (simp_all add: saves_def)

lemma saves_basic [simp]:
  "saves (Threads.set_state i s k) = saves k" "saves (enqueue i k) = saves k"
  "saves (load_context ctx k) = saves k" "saves (switch_threads i j k) = saves k"
  "saves (reparent_children_of_exited_process i k) = saves k" "saves (discard_process p k) = saves k"
  "saves (update_process p g k) = saves k"
  by (simp_all add: Threads.set_state_def enqueue_def load_context_def switch_threads_def Let_def saves_update_thread
      reparent_children_of_exited_process_def discard_process_def update_process_def split: option.split)


lemma saves_next_ready [simp]: "saves (snd (next_ready k)) = saves k"
proof (induction k rule: next_ready.induct)
  case (1 k)
  obtain r k1 where d: "dequeue k = (r, k1)" by fastforce
  then have "saves k1 = saves k" by (auto simp: dequeue_def split: prod.splits)
  then show ?case using 1 d by (subst next_ready.simps) (auto split: option.split)
qed

lemma saves_schedule [simp]:
  "saves (schedule_from_current c k) = saves k" "saves (schedule_from_scheduler k) = saves k"
proof -
  have "saves k' = saves k" if "next_ready k = (r, k')" for r k' using saves_next_ready [of k] that by simp
  then show "saves (schedule_from_current c k) = saves k" "saves (schedule_from_scheduler k) = saves k"
    by (auto simp: schedule_from_current_def schedule_from_scheduler_def Let_def split: prod.splits option.splits)
qed

lemma saves_wake_waiters [simp]: "saves (wake_waiters i k) = saves k"
proof -
  have "saves (fold wake_waiter ws r) = saves r" for ws r
    by (induction ws arbitrary: r) (simp_all add: wake_waiter_def)
  then show ?thesis by (simp add: wake_waiters_def)
qed

lemma saves_switching [simp]:
  "saves (yield_now k) = saves k" "saves (block_current k) = saves k"
  "saves (exit_current_with_status status k) = saves k" "saves (snd (wake t k)) = saves k"
  by (simp_all add: yield_now_def block_current_def exit_current_with_status_def wake_def Let_def saves_update_thread)

lemma saves_joins [simp]:
  "saves (snd (join_enter t k)) = saves k" "saves (snd (join_resume t k)) = saves k" "saves (snd (try_join t k)) = saves k"
  by (simp_all add: join_enter_def join_resume_def try_join_def Let_def saves_update_thread)

lemma saves_waits [simp]:
  "saves (snd (wait_process_enter p k)) = saves k" "saves (snd (wait_process_resume p t k)) = saves k"
  "saves (snd (try_wait_process p k)) = saves k" "saves (snd (reap_any_child k)) = saves k"
proof -
  have j: "saves k' = saves k" if "join_enter t k = (r, k')" for t r k' using saves_joins(1) [of t k] that by simp
  have r: "saves k' = saves k" if "join_resume t k = (r, k')" for t r k' using saves_joins(2) [of t k] that by simp
  have t: "saves k' = saves k" if "try_join t k = (r, k')" for t r k' using saves_joins(3) [of t k] that by simp
  show "saves (snd (wait_process_enter p k)) = saves k"
    by (auto simp: wait_process_enter_def j split: option.split prod.split)
  show "saves (snd (wait_process_resume p t k)) = saves k"
    by (auto simp: wait_process_resume_def r split: option.split prod.split)
  show "saves (snd (try_wait_process p k)) = saves k"
    by (auto simp: try_wait_process_def t split: option.split prod.split)
  show "saves (snd (reap_any_child k)) = saves k"
    by (auto simp: reap_any_child_def Let_def t split: option.split prod.split)
qed

lemma saves_contexts [simp]:
  "saves (save_user_context ctx k) = saves k" "saves (snd (set_current_user_fs_base b k)) = saves k"
  "saves (request_preemption k) = saves k" "saves (snd (user_thread_enter k)) = saves k"
  "saves (initialize_user_process a k) = saves k" "saves (snd (create_process a k)) = saves k"
  "saves (set_process_main_thread p t k) = saves k"
  by (auto simp: save_user_context_def set_current_user_fs_base_def request_preemption_def user_thread_enter_def
      initialize_user_process_def create_process_def set_process_main_thread_def Let_def saves_update_thread
      split: option.split)

section \<open>New threads\<close>

lemma saves_release [simp]: "saves (release_resources slot k) = saves k"
  by (simp add: release_resources_def Let_def saves_update_thread)







section \<open>Steps\<close>



section \<open>Returning\<close>







end
