(* ===== verification/Programs.thy ===== *)
theory Programs
  imports Syscalls
begin

text \<open>
  User programs as programs of the state monad over a kernel they reach by system calls only.  What
  a call answers is a parameter, and so is the standard library's output; the wrappers of
  \<open>init/src/syscall.rs\<close> and \<open>user-program/src/syscall.rs\<close> are translated.
\<close>

section \<open>The parameter\<close>

text \<open>
  The operands of a call: a number; the address and the length of some bytes, or of a buffer the
  kernel may write; the address of a variable the kernel may write; the address of an array of
  pointers, each null or to a buffer.  The kernel returns the answer and the buffer as it leaves it.
\<close>

datatype operand =
    Value u64
  | Bytes "u8 list"
  | Room "u8 list"
  | Variable "u8 list"
  | Pointers "u8 list option list"

record 'w os =
  kernel_call :: "u64 \<Rightarrow> operand list \<Rightarrow> 'w \<Rightarrow> (u64 \<times> u8 list) \<times> 'w"
  output_text :: "u8 list \<Rightarrow> 'w \<Rightarrow> 'w"

definition invoke :: "'w os \<Rightarrow> u64 \<Rightarrow> operand list \<Rightarrow> ('w, u64 \<times> u8 list) state" where
  "invoke os number operands = State (kernel_call os number operands)"

definition call :: "'w os \<Rightarrow> u64 \<Rightarrow> operand list \<Rightarrow> ('w, u64) state" where
  "call os number operands = do { r \<leftarrow> invoke os number operands; State_Monad.return (fst r) }"

definition print :: "'w os \<Rightarrow> u8 list \<Rightarrow> ('w, unit) state" where
  "print os bytes = State (\<lambda>w. ((), output_text os bytes w))"

definition println :: "'w os \<Rightarrow> u8 list \<Rightarrow> ('w, unit) state" where
  "println os bytes = print os (bytes @ [10])"

text \<open>A number in a format string.\<close>

definition decimal :: "u64 \<Rightarrow> u8 list" where
  "decimal n = (if n = 0 then [48] else rev (digits_reversed (unat n)))"

section \<open>Wrappers\<close>

text \<open>\<open>(r != u64::MAX).then_some(r)\<close>\<close>

definition answer_of :: "u64 \<Rightarrow> u64 option" where
  "answer_of r = (if r \<noteq> u64_max then Some r else None)"

definition OPEN_DIRECTORY :: u64 where "OPEN_DIRECTORY = 4"
definition POWER_EVENT_NONE :: u64 where "POWER_EVENT_NONE = 0"

definition clear_screen :: "'w os \<Rightarrow> ('w, unit) state" where
  "clear_screen os = do { call os 7 []; State_Monad.return () }"

definition sata_status :: "'w os \<Rightarrow> ('w, unit) state" where
  "sata_status os = do { call os 10 []; State_Monad.return () }"

definition pci_status :: "'w os \<Rightarrow> ('w, unit) state" where
  "pci_status os = do { call os 13 []; State_Monad.return () }"

definition lsblk :: "'w os \<Rightarrow> ('w, unit) state" where
  "lsblk os = do { call os 14 []; State_Monad.return () }"

definition sleep_ms :: "'w os \<Rightarrow> u64 \<Rightarrow> ('w, bool) state" where
  "sleep_ms os milliseconds = do { r \<leftarrow> call os 5 [Value milliseconds]; State_Monad.return (r = 0) }"

text \<open>An argument in its buffer of 32 bytes, cut after 31.\<close>

definition argument_buffer :: "u8 list \<Rightarrow> u8 list" where
  "argument_buffer argument = store_bytes (replicate 32 0) 0 (take 31 argument)"

definition spawn_process :: "'w os \<Rightarrow> u8 list \<Rightarrow> u8 list list \<Rightarrow> ('w, u64 option) state" where
  "spawn_process os path argv = do {
     let pointers = map (Some \<circ> argument_buffer) (take 4 argv);
     id \<leftarrow> call os 33 [Bytes path, if argv = [] then Value 0
       else Pointers (pointers @ replicate (4 - length pointers) None)];
     State_Monad.return (answer_of id)
   }"

definition wait_process :: "'w os \<Rightarrow> u64 \<Rightarrow> ('w, u64 option) state" where
  "wait_process os pid = do { status \<leftarrow> call os 34 [Value pid]; State_Monad.return (answer_of status) }"

text \<open>\<open>reboot\<close> and \<open>shutdown\<close> do not return; the program hangs after the call.\<close>

definition os_reboot :: "'w os \<Rightarrow> ('w, unit) state" where
  "os_reboot os = do { call os 36 []; State_Monad.return () }"

definition os_shutdown :: "'w os \<Rightarrow> ('w, unit) state" where
  "os_shutdown os = do { call os 9 []; State_Monad.return () }"

definition poll_power_event :: "'w os \<Rightarrow> ('w, u64) state" where
  "poll_power_event os = call os 38 []"

definition terminate_pid :: "'w os \<Rightarrow> u64 \<Rightarrow> ('w, bool) state" where
  "terminate_pid os pid = do { r \<leftarrow> call os 39 [Value pid]; State_Monad.return (r \<noteq> 0) }"

text \<open>\<open>reap_any_child\<close> passes the address of a zeroed status variable.\<close>

definition reap_child :: "'w os \<Rightarrow> ('w, (u64 \<times> u64) option) state" where
  "reap_child os = do {
     r \<leftarrow> invoke os 40 [Variable (replicate 8 0)];
     State_Monad.return (if fst r \<noteq> u64_max then Some (fst r, from_le_bytes (snd r)) else None)
   }"

definition vfs_directory_exists :: "'w os \<Rightarrow> u8 list \<Rightarrow> ('w, bool) state" where
  "vfs_directory_exists os path = do {
     fd \<leftarrow> call os 19 [Bytes path, Value OPEN_DIRECTORY];
     if fd = u64_max then State_Monad.return False
     else do { call os 22 [Value fd]; State_Monad.return True }
   }"

section \<open>Recorded calls\<close>

text \<open>A kernel that keeps a record of the calls it gets, for any kernel.\<close>

type_synonym calls = "(u64 \<times> operand list) list"

definition recorded :: "'w os \<Rightarrow> ('w \<times> calls) os" where
  "recorded os = \<lparr>
     kernel_call = (\<lambda>number operands (w, log). case kernel_call os number operands w of
       (r, w) \<Rightarrow> (r, w, log @ [(number, operands)])),
     output_text = (\<lambda>bytes (w, log). (output_text os bytes w, log))\<rparr>"

lemma run_call:
  "run_state (call os number operands) w = (case kernel_call os number operands w of ((a, b), w) \<Rightarrow> (a, w))"
  by (simp add: call_def invoke_def case_prod_beta)

lemma run_print [simp]: "run_state (print os bytes) w = ((), output_text os bytes w)"
  by (simp add: print_def)

lemma run_println [simp]: "run_state (println os bytes) w = ((), output_text os (bytes @ [10]) w)"
  by (simp add: println_def)

lemma recorded_call:
  "run_state (call (recorded os) number operands) (w, log) =
     (case run_state (call os number operands) w of (a, w) \<Rightarrow> (a, w, log @ [(number, operands)]))"
  by (simp add: run_call recorded_def case_prod_beta)

lemma recorded_output [simp]: "output_text (recorded os) bytes (w, log) = (output_text os bytes w, log)"
  by (simp add: recorded_def)

text \<open>What a program adds to the record.\<close>

definition logs :: "(('w \<times> calls), 'a) state \<Rightarrow> calls set \<Rightarrow> bool" where
  "logs act traces \<longleftrightarrow> (\<forall>w log. \<exists>t \<in> traces. \<exists>v w'. run_state act (w, log) = (v, w', log @ t))"

end
