(* ===== verification/Init.thy ===== *)
theory Init
  imports Programs "HOL-Library.While_Combinator" "HOL-Library.Multiset"
begin

text \<open>
  The first process, \<open>init/src/main.rs\<close>: the service table, the order in which services start,
  one-shot services and daemons, the supervisor loop that reaps children and restarts services,
  and the shutdown.
\<close>

section \<open>Services\<close>

datatype service_kind = Oneshot | Daemon

datatype restart_policy = Never | OnFailure | Always

record service =
  service_name :: "u8 list"
  service_path :: "u8 list"
  service_argv :: "u8 list list"
  depends_on :: "u8 list list"
  service_kind :: service_kind
  restart_policy :: restart_policy

definition SERVICES :: "service list" where
  "SERVICES =
     [\<lparr>service_name = ascii ''selftest'', service_path = ascii ''/std-smoke'', service_argv = [],
       depends_on = [], service_kind = Oneshot, restart_policy = OnFailure\<rparr>,
      \<lparr>service_name = ascii ''console-tty0'', service_path = ascii ''/console'', service_argv = [ascii ''tty:0''],
       depends_on = [ascii ''selftest''], service_kind = Daemon, restart_policy = Always\<rparr>,
      \<lparr>service_name = ascii ''console-tty1'', service_path = ascii ''/console'', service_argv = [ascii ''tty:1''],
       depends_on = [ascii ''selftest''], service_kind = Daemon, restart_policy = Always\<rparr>,
      \<lparr>service_name = ascii ''console-tty2'', service_path = ascii ''/console'', service_argv = [ascii ''tty:2''],
       depends_on = [ascii ''selftest''], service_kind = Daemon, restart_policy = Always\<rparr>]"

section \<open>The start order\<close>

text \<open>
  The state of the loop: the names started, the order so far, and whether the loop was left because
  a pass over the services started none.  The code works on \<open>SERVICES\<close>; the table is an argument
  here.
\<close>

type_synonym order_state = "u8 list list \<times> service list \<times> bool"

definition try_start :: "service \<Rightarrow> order_state \<Rightarrow> order_state" where
  "try_start service = (\<lambda>(started, order, progressed).
     if service_name service \<in> set started then (started, order, progressed)
     else if list_all (\<lambda>dependency. dependency \<in> set started) (depends_on service)
     then (started @ [service_name service], order @ [service], True)
     else (started, order, progressed))"

definition start_pass :: "service list \<Rightarrow> order_state \<Rightarrow> order_state" where
  "start_pass services = (\<lambda>(started, order, _).
     case fold try_start services (started, order, False) of (started, order, progressed) \<Rightarrow>
       if progressed then (started, order, False)
       else (started, order @ filter (\<lambda>service. service_name service \<notin> set started) services, True))"

definition unfinished :: "service list \<Rightarrow> order_state \<Rightarrow> bool" where
  "unfinished services = (\<lambda>(started, order, unresolved). \<not> unresolved \<and> length order < length services)"

definition start_loop :: "service list \<Rightarrow> order_state option" where
  "start_loop services = while_option (unfinished services) (start_pass services) ([], [], False)"

text \<open>With the message; the loop ends for every table.\<close>

definition start_order :: "'w os \<Rightarrow> service list \<Rightarrow> ('w, service list) state" where
  "start_order os services = (case the (start_loop services) of (_, order, unresolved) \<Rightarrow> do {
     (if unresolved
      then println os (ascii ''init: unresolved service dependencies, starting the rest in declared order'')
      else State_Monad.return ());
     State_Monad.return order
   })"

section \<open>Starting\<close>

text \<open>The table of running daemons, in the iteration order of the hash map.\<close>

type_synonym running = "(u8 list \<times> u64) list"

definition table_insert :: "u8 list \<Rightarrow> u64 \<Rightarrow> running \<Rightarrow> running" where
  "table_insert name pid table =
     (if name \<in> fst ` set table then map (\<lambda>(n, p). (n, if n = name then pid else p)) table
      else table @ [(name, pid)])"

definition table_remove :: "u8 list \<Rightarrow> running \<Rightarrow> running" where
  "table_remove name table = filter (\<lambda>(n, _). n \<noteq> name) table"

definition MAX_ATTEMPTS :: nat where "MAX_ATTEMPTS = 3"

text \<open>The loop \<open>for attempt in 1..=MAX_ATTEMPTS\<close>; the first argument counts the attempts left.\<close>

fun attempts :: "nat \<Rightarrow> 'w os \<Rightarrow> service \<Rightarrow> nat \<Rightarrow> ('w, unit) state" where
  "attempts 0 os service trial = State_Monad.return ()"
| "attempts (Suc left) os service trial = do {
     spawned \<leftarrow> spawn_process os (service_path service) (service_argv service);
     case spawned of
       None \<Rightarrow> println os (ascii ''init: failed to start '' @ service_name service)
     | Some pid \<Rightarrow> do {
         waited \<leftarrow> wait_process os pid;
         let status = (case waited of None \<Rightarrow> u64_max | Some status \<Rightarrow> status);
         println os (ascii ''init: '' @ service_name service @ ascii '' finished (status='' @ decimal status @ ascii '')'');
         if \<not> (status \<noteq> 0 \<and> restart_policy service \<in> {OnFailure, Always} \<and> trial < MAX_ATTEMPTS)
         then State_Monad.return ()
         else do {
           println os (ascii ''init: retrying '' @ service_name service @ ascii '' (attempt '' @
             decimal (of_nat (trial + 1)) @ ascii '')'');
           attempts left os service (trial + 1)
         }
       }
   }"

definition run_oneshot :: "'w os \<Rightarrow> service \<Rightarrow> ('w, unit) state" where
  "run_oneshot os service = attempts MAX_ATTEMPTS os service 1"

definition start_daemon :: "'w os \<Rightarrow> service \<Rightarrow> running \<Rightarrow> ('w, running) state" where
  "start_daemon os service running = do {
     spawned \<leftarrow> spawn_process os (service_path service) (service_argv service);
     case spawned of
       None \<Rightarrow> do {
         println os (ascii ''init: failed to start '' @ service_name service);
         State_Monad.return running
       }
     | Some pid \<Rightarrow> do {
         println os (ascii ''init: '' @ service_name service @ ascii '' running (pid='' @ decimal pid @ ascii '')'');
         State_Monad.return (table_insert (service_name service) pid running)
       }
   }"

definition start_service :: "'w os \<Rightarrow> service \<Rightarrow> running \<Rightarrow> ('w, running) state" where
  "start_service os service running = do {
     println os (ascii ''init: starting '' @ service_name service @ ascii '' ('' @ service_path service @ ascii '')'');
     case service_kind service of
       Oneshot \<Rightarrow> do { run_oneshot os service; State_Monad.return running }
     | Daemon \<Rightarrow> start_daemon os service running
   }"

section \<open>Supervision\<close>

text \<open>
  \<open>reap\<close>; None is the panic of \<open>expect\<close> when a running entry names no declared service.
\<close>

definition restarts :: "restart_policy \<Rightarrow> u64 \<Rightarrow> bool" where
  "restarts policy status = (case policy of Always \<Rightarrow> True | OnFailure \<Rightarrow> status \<noteq> 0 | Never \<Rightarrow> False)"

definition reap :: "'w os \<Rightarrow> service list \<Rightarrow> u64 \<Rightarrow> u64 \<Rightarrow> running \<Rightarrow> ('w, running option) state" where
  "reap os services pid status running =
     (case find (\<lambda>(_, p). p = pid) running of
        None \<Rightarrow> do {
          println os (ascii ''init: reaped orphan pid='' @ decimal pid @ ascii '' status='' @ decimal status);
          State_Monad.return (Some running)
        }
      | Some (name, _) \<Rightarrow> do {
          println os (ascii ''init: '' @ name @ ascii '' exited (status='' @ decimal status @ ascii '')'');
          let running = table_remove name running;
          case find (\<lambda>service. service_name service = name) services of
            None \<Rightarrow> State_Monad.return None
          | Some service \<Rightarrow>
              if restarts (restart_policy service) status
              then do { running \<leftarrow> start_service os service running; State_Monad.return (Some running) }
              else State_Monad.return (Some running)
        })"

text \<open>The inner loop of \<open>supervise\<close>, which goes on as long as the kernel has children to reap.\<close>

partial_function (option) reap_children ::
  "'w os \<Rightarrow> service list \<Rightarrow> running \<Rightarrow> 'w \<Rightarrow> (running option \<times> 'w) option" where
  "reap_children os services running w =
     (case run_state (reap_child os) w of (child, w) \<Rightarrow>
        case child of
          None \<Rightarrow> Some (Some running, w)
        | Some (pid, status) \<Rightarrow>
            (case run_state (reap os services pid status running) w of (r, w) \<Rightarrow>
               case r of None \<Rightarrow> Some (None, w) | Some running \<Rightarrow> reap_children os services running w))"

fun stop_services :: "'w os \<Rightarrow> service list \<Rightarrow> running \<Rightarrow> ('w, running) state" where
  "stop_services os [] running = State_Monad.return running"
| "stop_services os (service # order) running =
     (case map_of running (service_name service) of
        None \<Rightarrow> stop_services os order running
      | Some pid \<Rightarrow> do {
          println os (ascii ''init: stopping '' @ service_name service);
          terminate_pid os pid;
          wait_process os pid;
          stop_services os order (table_remove (service_name service) running)
        })"

definition shutdown_sequence :: "'w os \<Rightarrow> service list \<Rightarrow> running \<Rightarrow> u64 \<Rightarrow> ('w, unit) state" where
  "shutdown_sequence os services running event = do {
     println os (ascii ''init: shutdown requested, stopping services'');
     order \<leftarrow> start_order os services;
     stop_services os (rev order) running;
     println os (ascii ''init: all services stopped'');
     if event = POWER_EVENT_REBOOT then do {
       println os (ascii ''init: rebooting'');
       os_reboot os
     } else do {
       println os (ascii ''init: powering off'');
       os_shutdown os
     }
   }"

text \<open>The supervisor loop ends with the shutdown or with the panic of \<open>reap\<close>.\<close>

datatype ending = PowerCut | Panicked

partial_function (option) supervise ::
  "'w os \<Rightarrow> service list \<Rightarrow> running \<Rightarrow> 'w \<Rightarrow> (ending \<times> 'w) option" where
  "supervise os services running w =
     (case run_state (poll_power_event os) w of (event, w) \<Rightarrow>
        if event \<noteq> POWER_EVENT_NONE
        then Some (PowerCut, snd (run_state (shutdown_sequence os services running event) w))
        else (case reap_children os services running w of
                None \<Rightarrow> None
              | Some (r, w) \<Rightarrow>
                  (case r of
                     None \<Rightarrow> Some (Panicked, w)
                   | Some running \<Rightarrow> supervise os services running (snd (run_state (sleep_ms os 200) w)))))"

section \<open>The whole program\<close>

definition prepare_filesystem :: "'w os \<Rightarrow> ('w, unit) state" where
  "prepare_filesystem os = each (\<lambda>path. do {
     present \<leftarrow> vfs_directory_exists os path;
     println os (ascii ''init: filesystem '' @ path @ ascii '' '' @
       (if present then ascii ''ready'' else ascii ''missing''))
   }) [ascii ''/'', ascii ''/tmp'']"

definition discover_devices :: "'w os \<Rightarrow> ('w, unit) state" where
  "discover_devices os = do {
     println os (ascii ''init: discovering devices'');
     sata_status os;
     pci_status os;
     lsblk os
   }"

definition start_all :: "'w os \<Rightarrow> service list \<Rightarrow> ('w, running) state" where
  "start_all os services = do {
     order \<leftarrow> start_order os services;
     fold_state (start_service os) order []
   }"

definition init_main :: "'w os \<Rightarrow> service list \<Rightarrow> 'w \<Rightarrow> (ending \<times> 'w) option" where
  "init_main os services w =
     (case run_state (do {
         clear_screen os;
         println os (ascii ''openkernel init: starting'');
         prepare_filesystem os;
         discover_devices os;
         running \<leftarrow> start_all os services;
         println os (ascii ''init: entering supervisor loop'');
         State_Monad.return running
       }) w of (running, w) \<Rightarrow> supervise os services running w)"

end
