(* ===== verification/StartOrder.thy ===== *)
theory StartOrder
  imports Init
begin

text \<open>
  The start order of init: the loop ends for every service table, cyclic and incomplete ones
  included, every service is started once, and a service comes after everything it depends on unless
  its dependencies cannot be met.
\<close>

section \<open>Rounds of a loop\<close>

lemma while_rounds:
  assumes "\<And>s. P s \<Longrightarrow> b s \<Longrightarrow> P (c s) \<and> f (c s) < (f s :: nat)" and "P s"
  shows "\<exists>k t. k \<le> f s \<and> while_option b c s = Some t \<and> t = (c ^^ k) s \<and> P t \<and> \<not> b t"
  using assms(2)
proof (induction "f s" arbitrary: s rule: less_induct)
  case less
  show ?case
  proof (cases "b s")
    case True
    obtain k t where k: "k \<le> f (c s)" "while_option b c (c s) = Some t" "t = (c ^^ k) (c s)" "P t" "\<not> b t"
      using less(1) [of "c s"] assms(1) [OF less(2) True] by blast
    have "while_option b c s = Some t" using True k(2) by (subst while_option_unfold) simp
    moreover have "t = (c ^^ Suc k) s" using k(3) by (simp add: funpow_swap1)
    moreover have "Suc k \<le> f s" using k(1) assms(1) [OF less(2) True] by simp
    ultimately show ?thesis using k(4,5) by blast
  next
    case False
    then have "while_option b c s = Some s" by (subst while_option_unfold) simp
    then show ?thesis using less(2) False by (intro exI [of _ 0]) simp
  qed
qed

section \<open>Sequences of services\<close>

text \<open>Each service comes after what it depends on.\<close>

fun in_sequence :: "u8 list list \<Rightarrow> service list \<Rightarrow> bool" where
  "in_sequence started [] = True"
| "in_sequence started (service # services) =
     (set (depends_on service) \<subseteq> set started \<and> in_sequence (started @ [service_name service]) services)"

lemma in_sequence_append:
  "in_sequence started (xs @ ys) \<longleftrightarrow> in_sequence started xs \<and> in_sequence (started @ map service_name xs) ys"
  by (induction xs arbitrary: started) auto


section \<open>One pass\<close>

lemma try_start_eq:
  "try_start s (started, order, p) =
     (if service_name s \<notin> set started \<and> set (depends_on s) \<subseteq> set started
      then (started @ [service_name s], order @ [s], True) else (started, order, p))"
  by (auto simp: try_start_def list_all_iff)

lemma try_start_cases:
  obtains "service_name s \<notin> set started" "set (depends_on s) \<subseteq> set started"
      "try_start s (started, order, p) = (started @ [service_name s], order @ [s], True)"
    | "service_name s \<in> set started \<or> \<not> set (depends_on s) \<subseteq> set started"
      "try_start s (started, order, p) = (started, order, p)"
  by (cases "service_name s \<notin> set started \<and> set (depends_on s) \<subseteq> set started") (simp_all add: try_start_eq)

lemma pass_effect:
  assumes "fold try_start services (started, order, p) = (started', order', p')" and "distinct started"
  shows "\<exists>new. started' = started @ map service_name new \<and> order' = order @ new \<and> p' = (p \<or> new \<noteq> []) \<and>
    set new \<subseteq> set services \<and> distinct started' \<and> in_sequence started new"
  using assms
proof (induction services arbitrary: started order p)
  case (Cons s services)
  show ?case
  proof (cases rule: try_start_cases [of s started order p])
    case 1
    then have "fold try_start services (started @ [service_name s], order @ [s], True) = (started', order', p')"
      using Cons.prems(1) by simp
    from Cons.IH [OF this] obtain new where
      "started' = (started @ [service_name s]) @ map service_name new" "order' = (order @ [s]) @ new" "p'"
      "set new \<subseteq> set services" "distinct started'" "in_sequence (started @ [service_name s]) new"
      using Cons.prems(2) 1 by auto
    then show ?thesis using 1 by (intro exI [of _ "s # new"]) auto
  next
    case 2
    then have "fold try_start services (started, order, p) = (started', order', p')" using Cons.prems(1) by simp
    from Cons.IH [OF this Cons.prems(2)] show ?thesis by fastforce
  qed
qed simp

lemma pass_stuck:
  assumes "fold try_start services (started, order, False) = (started', order', False)" and "s \<in> set services"
    and "distinct started"
  shows "service_name s \<in> set started \<or> \<not> set (depends_on s) \<subseteq> set started"
  using assms
proof (induction services arbitrary: order)
  case (Cons x services)
  have stays: "p'" if "fold try_start xs (a, b, True) = (a', b', p')" "distinct a" for xs a b a' b' p'
    using pass_effect [OF that] by auto
  show ?case
  proof (cases rule: try_start_cases [of x started order False])
    case 1
    then have "fold try_start services (started @ [service_name x], order @ [x], True) = (started', order', False)"
      using Cons.prems(1) by simp
    from stays [OF this] 1 Cons.prems(3) show ?thesis by simp
  next
    case 2
    then have "fold try_start services (started, order, False) = (started', order', False)"
      using Cons.prems(1) by simp
    then show ?thesis using Cons.IH Cons.prems(2,3) 2(1) by auto
  qed
qed simp

section \<open>The loop\<close>

definition left_to_do :: "service list \<Rightarrow> order_state \<Rightarrow> nat" where
  "left_to_do services = (\<lambda>(_, order, unresolved). if unresolved then 0 else length services - length order)"

definition order_inv :: "service list \<Rightarrow> order_state \<Rightarrow> bool" where
  "order_inv services = (\<lambda>(started, order, unresolved). \<exists>ready.
     started = map service_name ready \<and> distinct started \<and> set ready \<subseteq> set services \<and> in_sequence [] ready \<and>
     (if unresolved
      then order = ready @ filter (\<lambda>s. service_name s \<notin> set started) services \<and> length ready < length services \<and>
        (\<forall>s \<in> set services. service_name s \<in> set started \<or> \<not> set (depends_on s) \<subseteq> set started)
      else order = ready))"

lemma pass_inv:
  assumes inv: "order_inv services x" and go: "unfinished services x"
  shows "order_inv services (start_pass services x)"
proof -
  obtain started order where x: "x = (started, order, False)"
    using go by (cases x) (auto simp: unfinished_def)
  have I: "started = map service_name order" "distinct started" "set order \<subseteq> set services" "in_sequence [] order"
    and len: "length order < length services"
    using inv go by (auto simp: x order_inv_def unfinished_def)
  obtain started' order' p where f: "fold try_start services (started, order, False) = (started', order', p)"
    by (metis prod_cases3)
  obtain new where n: "started' = started @ map service_name new" "order' = order @ new" "p = (new \<noteq> [])"
    "set new \<subseteq> set services" "distinct started'" "in_sequence started new"
    using pass_effect [OF f I(2)] by auto
  show ?thesis
  proof (cases p)
    case True
    then show ?thesis using I n f by (auto simp: x start_pass_def order_inv_def in_sequence_append)
  next
    case False
    have "\<forall>s \<in> set services. service_name s \<in> set started \<or> \<not> set (depends_on s) \<subseteq> set started"
      using pass_stuck [of services started order started' order'] f False I(2) by simp
    then show ?thesis using I n f False len by (auto simp: x start_pass_def order_inv_def)
  qed
qed

lemma pass_decreases: "unfinished services x \<Longrightarrow> order_inv services x \<Longrightarrow>
    left_to_do services (start_pass services x) < left_to_do services x"
proof -
  assume go: "unfinished services x" and inv: "order_inv services x"
  obtain started order where x: "x = (started, order, False)"
    using go by (cases x) (auto simp: unfinished_def)
  obtain started' order' p where f: "fold try_start services (started, order, False) = (started', order', p)"
    by (metis prod_cases3)
  have "distinct started" using inv by (auto simp: x order_inv_def)
  then obtain new where "order' = order @ new" "p = (new \<noteq> [])" using pass_effect [OF f] by auto
  then show ?thesis using go f by (cases new) (auto simp: x left_to_do_def start_pass_def unfinished_def)
qed

lemma start_loop_rounds:
  "\<exists>k t. k \<le> length services \<and> start_loop services = Some t \<and> t = (start_pass services ^^ k) ([], [], False) \<and>
     order_inv services t \<and> \<not> unfinished services t"
proof -
  have init: "order_inv services ([], [], False)" by (simp add: order_inv_def)
  have "order_inv services (start_pass services x) \<and> left_to_do services (start_pass services x) < left_to_do services x"
    if "order_inv services x" "unfinished services x" for x
    using pass_inv [OF that] pass_decreases [OF that(2,1)] by blast
  from while_rounds [OF this init] show ?thesis by (simp add: start_loop_def left_to_do_def)
qed


text \<open>A list of distinct services that is part of another and no shorter is a rearrangement of it.\<close>

lemma same_services:
  assumes "distinct (map service_name services)" and "distinct (map service_name ready)"
    and "set ready \<subseteq> set services"
  shows "mset (ready @ filter (\<lambda>s. service_name s \<notin> set (map service_name ready)) services) = mset services"
proof -
  have inj: "inj_on service_name (set services)" and d: "distinct services" "distinct ready"
    using assms(1,2) by (simp_all add: distinct_map)
  have "s \<in> set ready \<longleftrightarrow> service_name s \<in> service_name ` set ready" if "s \<in> set services" for s
    using inj assms(3) that by (auto simp: inj_on_def)
  then have "set services = set (ready @ filter (\<lambda>s. service_name s \<notin> set (map service_name ready)) services)"
    using assms(3) by auto
  moreover have "distinct (ready @ filter (\<lambda>s. service_name s \<notin> set (map service_name ready)) services)"
    using d by auto
  ultimately show ?thesis using d(1) by (metis set_eq_iff_mset_eq_distinct)
qed

lemma order_rearranges:
  assumes "start_loop services = Some (started, order, unresolved)" and d: "distinct (map service_name services)"
  shows "mset order = mset services"
proof -
  have i: "order_inv services (started, order, unresolved)" "\<not> unfinished services (started, order, unresolved)"
    using start_loop_rounds [of services] assms(1) by auto
  obtain ready where r: "started = map service_name ready" "distinct started" "set ready \<subseteq> set services"
    and o: "if unresolved then order = ready @ filter (\<lambda>s. service_name s \<notin> set started) services
      else order = ready" using i(1) by (auto simp: order_inv_def split: if_splits)
  have same: "mset (ready @ filter (\<lambda>s. service_name s \<notin> set started) services) = mset services"
    using same_services [OF d _ r(3)] r(1,2) by simp
  show ?thesis
  proof (cases unresolved)
    case False
    then have "order = ready" "length services \<le> length ready" using o i(2) by (auto simp: unfinished_def)
    moreover have "length ready + length (filter (\<lambda>s. service_name s \<notin> set started) services) = length services"
      using same by (metis length_append mset_eq_length)
    ultimately have "length (filter (\<lambda>s. service_name s \<notin> set started) services) = 0" by linarith
    then have "filter (\<lambda>s. service_name s \<notin> set started) services = []" by (rule length_0_conv [THEN iffD1])
    then show ?thesis using same \<open>order = ready\<close> by (metis append_Nil2)
  qed (use o same in simp)
qed

lemma order_complete:
  "start_loop services = Some (started, order, unresolved) \<Longrightarrow> distinct (map service_name services) \<Longrightarrow>
     set order = set services"
  using order_rearranges mset_eq_setD by blast

lemma order_distinct:
  "start_loop services = Some (started, order, unresolved) \<Longrightarrow> distinct (map service_name services) \<Longrightarrow>
     distinct (map service_name order)"
  using order_rearranges by (metis mset_map mset_eq_imp_distinct_iff)

section \<open>Properties\<close>

text \<open>
  C5: the loop of \<open>start_order\<close> ends for every service table, whatever its dependencies: it makes
  at most as many passes as there are services.
\<close>

theorem start_order_terminates:
  "\<exists>passes. passes \<le> length services \<and>
     start_loop services = Some ((start_pass services ^^ passes) ([], [], False))"
  using start_loop_rounds [of services] by blast


text \<open>The table of the sources: the self-test, then the consoles.\<close>

lemma services_in_order: "start_loop SERVICES = Some (map service_name SERVICES, SERVICES, False)"
  unfolding start_loop_def
  by (subst while_option_unfold, subst while_option_unfold)
    (simp add: unfinished_def start_pass_def try_start_def SERVICES_def ascii_def)

end
