(* ===== verification/Supervision.thy ===== *)
theory Supervision
  imports StartOrder
begin

text \<open>
  The supervisor of init: it never loses track of a service, never panics on an exit, restarts what
  its policy asks for, and stops the services in the reverse of the order they started in.
\<close>

section \<open>The table of running daemons\<close>


definition names :: "running \<Rightarrow> u8 list set" where
  "names table = fst ` set table"


lemma names_insert [simp]: "names (table_insert name pid table) = insert name (names table)"
  by (force simp: names_def table_insert_def image_iff)


lemma names_remove [simp]: "names (table_remove name table) = names table - {name}"
  by (force simp: names_def table_remove_def)


section \<open>Starting\<close>

definition always_spawns :: "'w os \<Rightarrow> bool" where
  "always_spawns os \<longleftrightarrow> (\<forall>operands w. fst (fst (kernel_call os 33 operands w)) \<noteq> u64_max)"





section \<open>Exits\<close>

text \<open>No daemon that is always to be restarted leaves the table, if the kernel can start it.\<close>

definition keeps_always :: "'w os \<Rightarrow> service list \<Rightarrow> running \<Rightarrow> running \<Rightarrow> bool" where
  "keeps_always os services running running' \<longleftrightarrow>
     (always_spawns os \<and> distinct (map service_name services) \<longrightarrow>
      (\<forall>s \<in> set services. service_kind s = Daemon \<and> restart_policy s = Always \<and>
        service_name s \<in> names running \<longrightarrow> service_name s \<in> names running'))"

lemma keeps_refl [simp]: "keeps_always os services running running"
  by (simp add: keeps_always_def)







section \<open>Shutting down\<close>

text \<open>The calls that stop the services of a list which are running.\<close>

definition stop_calls :: "service list \<Rightarrow> running \<Rightarrow> calls" where
  "stop_calls order running = concat (map (\<lambda>s. case map_of running (service_name s) of
     None \<Rightarrow> [] | Some pid \<Rightarrow> [(39, [Value pid]), (34, [Value pid])]) order)"

lemma map_of_remove: "n \<noteq> name \<Longrightarrow> map_of (table_remove name table) n = map_of table n"
  by (induction table) (auto simp: table_remove_def)

lemma stop_calls_remove:
  "name \<notin> service_name ` set order \<Longrightarrow> stop_calls order (table_remove name running) = stop_calls order running"
  unfolding stop_calls_def by (intro arg_cong [of _ _ concat] map_cong) (auto simp: map_of_remove image_iff)

lemma recorded_state_call:
  "\<exists>v w'. run_state (call (recorded os) number operands) (w, log) = (v, w', log @ [(number, operands)])"
  by (simp add: recorded_call case_prod_beta)

lemma stop_services_calls:
  assumes "distinct (map service_name order)"
  shows "\<exists>r w'. run_state (stop_services (recorded os) order running) (w, log) = (r, w', log @ stop_calls order running)"
  using assms
proof (induction order arbitrary: running w log)
  case Nil
  then show ?case by (simp add: stop_calls_def)
next
  case (Cons s order)
  show ?case
  proof (cases "map_of running (service_name s)")
    case None
    then show ?thesis using Cons by (simp add: stop_calls_def)
  next
    case (Some pid)
    let ?w0 = "output_text os (ascii ''init: stopping '' @ service_name s @ [10]) w"
    obtain v1 w1 where t: "run_state (call (recorded os) 39 [Value pid]) (?w0, log) = (v1, w1, log @ [(39, [Value pid])])"
      using recorded_state_call [of os 39 "[Value pid]" ?w0 log] by blast
    obtain v2 w2 where p: "run_state (call (recorded os) 34 [Value pid]) (w1, log @ [(39, [Value pid])]) =
        (v2, w2, (log @ [(39, [Value pid])]) @ [(34, [Value pid])])"
      using recorded_state_call [of os 34 "[Value pid]" w1 "log @ [(39, [Value pid])]"] by blast
    have "\<exists>r w'. run_state (stop_services (recorded os) order (table_remove (service_name s) running))
        (w2, log @ [(39, [Value pid]), (34, [Value pid])]) =
        (r, w', (log @ [(39, [Value pid]), (34, [Value pid])]) @ stop_calls order (table_remove (service_name s) running))"
      by (rule Cons.IH) (use Cons.prems in simp)
    moreover have "stop_calls order (table_remove (service_name s) running) = stop_calls order running"
      using Cons.prems by (simp add: stop_calls_remove)
    moreover have "stop_calls (s # order) running = [(39, [Value pid]), (34, [Value pid])] @ stop_calls order running"
      by (simp add: stop_calls_def Some)
    ultimately show ?thesis using Some t p by (simp add: terminate_pid_def wait_process_def)
  qed
qed

text \<open>
  C8: when a poll reports a power event, init ends: it makes no call but those that terminate and
  await the running services, in the reverse of the start order and each once, and then the one
  that cuts the power or reboots, as the event asks.
\<close>

theorem shutdown_stops_in_reverse:
  "case run_state (poll_power_event os) w of (event, _) \<Rightarrow>
     if event \<noteq> POWER_EVENT_NONE \<and> distinct (map service_name services) then
       \<exists>w'. supervise (recorded os) services running (w, log) =
         Some (PowerCut, w', log @ [(38, [])] @ stop_calls (rev (fst (snd (the (start_loop services))))) running @
           [(if event = POWER_EVENT_REBOOT then 36 else 9, [])])
     else True"
proof -
  obtain started order unresolved where t: "start_loop services = Some (started, order, unresolved)"
    using start_loop_rounds [of services] by (metis prod_cases3)
  obtain event w1 where e: "run_state (poll_power_event os) w = (event, w1)" by fastforce
  have p: "run_state (poll_power_event (recorded os)) (w, log) = (event, w1, log @ [(38, [])])"
    using e by (simp add: poll_power_event_def recorded_call)
  have "\<exists>w'. supervise (recorded os) services running (w, log) =
      Some (PowerCut, w', log @ [(38, [])] @ stop_calls (rev order) running @
        [(if event = POWER_EVENT_REBOOT then 36 else 9, [])])"
    if a: "event \<noteq> POWER_EVENT_NONE" and d: "distinct (map service_name services)"
  proof -
    have "distinct (map service_name (rev order))"
      using order_distinct [OF t d] by (simp add: rev_map [symmetric])
    then have stops: "\<exists>r w'. run_state (stop_services (recorded os) (rev order) running) (x, l) =
        (r, w', l @ stop_calls (rev order) running)" for x l
      by (rule stop_services_calls)
    have last: "\<exists>w'. snd (run_state (shutdown_sequence (recorded os) services running event) (x, l)) =
        (w', l @ stop_calls (rev order) running @ [(if event = POWER_EVENT_REBOOT then 36 else 9, [])])" for x l
    proof -
      obtain y where y: "run_state (start_order (recorded os) services)
          (output_text os (ascii ''init: shutdown requested, stopping services'' @ [10]) x, l) = (order, y, l)"
        by (cases unresolved) (simp_all add: start_order_def t)
      obtain r z where z: "run_state (stop_services (recorded os) (rev order) running) (y, l) =
          (r, z, l @ stop_calls (rev order) running)" using stops by blast
      show ?thesis
        by (simp add: shutdown_sequence_def y z os_reboot_def os_shutdown_def recorded_call case_prod_beta)
    qed
    show ?thesis
      using last [of w1 "log @ [(38, [])]"] by (subst supervise.simps) (auto simp: p a)
  qed
  then show ?thesis using e t by simp
qed

end
