(* ===== verification/Disk.thy ===== *)
theory Disk
  imports Sata Transfers
begin

text \<open>
  The disk driver against a disk: what a controller that follows the AHCI protocol makes of the
  command the driver lays out in memory, and what \<open>read_sector\<close> answers with it.
\<close>

section \<open>The device\<close>





section \<open>Bytes of a word\<close>



section \<open>The command in memory\<close>












lemma little_endian_nth: "i < n \<Longrightarrow> little_endian n w ! i = ucast (drop_bit (8 * i) w)"
  by (simp add: little_endian_def)

lemma little_endian_length [simp]: "length (little_endian n w) = n"
  by (simp add: little_endian_def)










section \<open>The driver\<close>













end
