(* ===== verification/Shell.thy ===== *)
theory Shell
  imports Programs
begin

text \<open>
  The console program, \<open>user-program/src\<close>: the line editor with completion, and the commands as
  sequences of system calls.
\<close>

section \<open>System calls\<close>

definition OPEN_WRITE :: u64 where "OPEN_WRITE = 1"
definition OPEN_CREATE :: u64 where "OPEN_CREATE = 2"

text \<open>\<open>syscall\<close> for its effect, and for whether it answers 0.\<close>

definition calling :: "'w os \<Rightarrow> u64 \<Rightarrow> operand list \<Rightarrow> ('w, unit) state" where
  "calling os number operands = do { call os number operands; State_Monad.return () }"

definition succeeds :: "'w os \<Rightarrow> u64 \<Rightarrow> operand list \<Rightarrow> ('w, bool) state" where
  "succeeds os number operands = do { r \<leftarrow> call os number operands; State_Monad.return (r = 0) }"

definition answers :: "'w os \<Rightarrow> u64 \<Rightarrow> operand list \<Rightarrow> ('w, u64 option) state" where
  "answers os number operands = do { r \<leftarrow> call os number operands; State_Monad.return (answer_of r) }"

text \<open>A call that fills a buffer: the answer and the buffer.\<close>

definition fills :: "'w os \<Rightarrow> u64 \<Rightarrow> operand list \<Rightarrow> ('w, nat option \<times> u8 list) state" where
  "fills os number operands = do {
     r \<leftarrow> invoke os number operands;
     State_Monad.return (map_option unat (answer_of (fst r)), snd r)
   }"

definition os_bind_tty :: "'w os \<Rightarrow> u64 \<Rightarrow> ('w, unit) state" where
  "os_bind_tty os tty = calling os 41 [Value tty]"

definition erase_char :: "'w os \<Rightarrow> ('w, unit) state" where
  "erase_char os = calling os 8 []"

definition os_request_power_event :: "'w os \<Rightarrow> u64 \<Rightarrow> ('w, bool) state" where
  "os_request_power_event os kind = succeeds os 37 [Value kind]"

text \<open>\<open>process_exit\<close> and \<open>exit_thread\<close> do not return.\<close>

definition process_exit :: "'w os \<Rightarrow> ('w, unit) state" where
  "process_exit os = calling os 3 []"

definition os_sata_identify :: "'w os \<Rightarrow> ('w, unit) state" where
  "os_sata_identify os = calling os 11 []"

definition os_sata_read :: "'w os \<Rightarrow> ('w, unit) state" where
  "os_sata_read os = calling os 12 []"

definition poll_key :: "'w os \<Rightarrow> ('w, u8 option) state" where
  "poll_key os = do {
     r \<leftarrow> call os 6 [];
     let key = (ucast r :: u8);
     State_Monad.return (if key \<noteq> 0 then Some key else None)
   }"

definition os_yield_now :: "'w os \<Rightarrow> ('w, unit) state" where
  "os_yield_now os = calling os 2 []"

definition now_ms :: "'w os \<Rightarrow> ('w, u64) state" where
  "now_ms os = call os 27 []"

definition spawn_thread :: "'w os \<Rightarrow> u64 \<Rightarrow> u64 \<Rightarrow> u64 \<Rightarrow> ('w, u64 option) state" where
  "spawn_thread os entry argument tls_word = answers os 15 [Value entry, Value argument, Value tls_word]"

definition exit_thread :: "'w os \<Rightarrow> u64 \<Rightarrow> ('w, unit) state" where
  "exit_thread os status = calling os 16 [Value status]"

definition join_thread :: "'w os \<Rightarrow> u64 \<Rightarrow> ('w, u64 option) state" where
  "join_thread os thread = answers os 17 [Value thread]"

text \<open>\<open>spawn_process\<close>; the array of pointers has one element and no terminating zero.\<close>

definition spawn_with_argument :: "'w os \<Rightarrow> u8 list \<Rightarrow> u8 list option \<Rightarrow> ('w, u64 option) state" where
  "spawn_with_argument os path argument = answers os 33 [Bytes path,
     case argument of None \<Rightarrow> Value 0 | Some text \<Rightarrow> Pointers [Some (argument_buffer text)]]"

definition open_pty :: "'w os \<Rightarrow> ('w, u64 option) state" where
  "open_pty os = answers os 42 []"

definition read_pty_master :: "'w os \<Rightarrow> u64 \<Rightarrow> u8 list \<Rightarrow> ('w, nat option \<times> u8 list) state" where
  "read_pty_master os pty buffer = fills os 43 [Value pty, Room buffer]"

definition write_pty_master :: "'w os \<Rightarrow> u64 \<Rightarrow> u8 list \<Rightarrow> ('w, u64 option) state" where
  "write_pty_master os pty bytes = answers os 44 [Value pty, Bytes bytes]"

definition attach_pty :: "'w os \<Rightarrow> u64 \<Rightarrow> ('w, bool) state" where
  "attach_pty os pty = succeeds os 45 [Value pty]"

definition close_pty :: "'w os \<Rightarrow> u64 \<Rightarrow> ('w, bool) state" where
  "close_pty os pty = succeeds os 46 [Value pty]"

definition os_open :: "'w os \<Rightarrow> u8 list \<Rightarrow> u64 \<Rightarrow> ('w, u64 option) state" where
  "os_open os path flags = answers os 19 [Bytes path, Value flags]"

definition os_read :: "'w os \<Rightarrow> u64 \<Rightarrow> u8 list \<Rightarrow> ('w, nat option \<times> u8 list) state" where
  "os_read os fd buffer = fills os 20 [Value fd, Room buffer]"

definition os_write :: "'w os \<Rightarrow> u64 \<Rightarrow> u8 list \<Rightarrow> ('w, u64 option) state" where
  "os_write os fd bytes = answers os 21 [Value fd, Bytes bytes]"

definition os_close :: "'w os \<Rightarrow> u64 \<Rightarrow> ('w, bool) state" where
  "os_close os fd = succeeds os 22 [Value fd]"

definition os_seek :: "'w os \<Rightarrow> u64 \<Rightarrow> u64 \<Rightarrow> u64 \<Rightarrow> ('w, bool) state" where
  "os_seek os fd offset whence = succeeds os 23 [Value fd, Value offset, Value whence]"

definition set_cwd :: "'w os \<Rightarrow> u8 list \<Rightarrow> ('w, bool) state" where
  "set_cwd os path = succeeds os 24 [Bytes path]"

definition get_cwd :: "'w os \<Rightarrow> u8 list \<Rightarrow> ('w, nat option \<times> u8 list) state" where
  "get_cwd os buffer = fills os 25 [Room buffer]"

definition executable_path :: "'w os \<Rightarrow> u8 list \<Rightarrow> ('w, nat option \<times> u8 list) state" where
  "executable_path os buffer = fills os 26 [Room buffer]"

section \<open>Completion\<close>

definition HELP :: "u8 list" where
  "HELP = ascii ''COMMANDS: HELP CLEAR EXIT SHUTDOWN REBOOT SATA IDENTIFY READ PCI LSBLK THREADS HEAP VFS ENV TIME SYNC RUN LS PTY'' @ [13, 10]"

definition COMMANDS :: "u8 list list" where
  "COMMANDS = map ascii [''help'', ''clear'', ''exit'', ''shutdown'', ''reboot'', ''sata'', ''identify'', ''read'',
     ''pci'', ''lsblk'', ''threads'', ''heap'', ''vfs'', ''env'', ''time'', ''sync'', ''run'', ''ls'', ''pty'']"

text \<open>
  The line being edited is a string of characters below 256, since each is a byte read from the
  keyboard; its length in Rust is that of its UTF-8 encoding.
\<close>

definition utf8 :: "u8 list \<Rightarrow> u8 list" where
  "utf8 chars = concat (map (\<lambda>c. if c < 128 then [c] else [0xC0 OR drop_bit 6 c, 0x80 OR (c AND 0x3F)]) chars)"

text \<open>\<open>command.starts_with(input)\<close>; a command has only characters of one byte.\<close>

definition starts_with :: "u8 list \<Rightarrow> u8 list \<Rightarrow> bool" where
  "starts_with command input \<longleftrightarrow> take (length input) command = input"

fun complete_among :: "u8 list list \<Rightarrow> u8 list \<Rightarrow> u8 list option \<Rightarrow> u8 list option" where
  "complete_among [] input matched =
     (case matched of None \<Rightarrow> None | Some command \<Rightarrow> if length (utf8 input) < length command then Some command else None)"
| "complete_among (command # commands) input matched =
     (if starts_with command input
      then (if matched \<noteq> None then None else complete_among commands input (Some command))
      else complete_among commands input matched)"

definition complete :: "u8 list \<Rightarrow> u8 list option" where
  "complete input = complete_among COMMANDS input None"

section \<open>Commands\<close>

definition say :: "'w os \<Rightarrow> string \<Rightarrow> ('w, unit) state" where
  "say os message = print os (ascii message @ [13, 10])"

definition run_std_smoke :: "'w os \<Rightarrow> ('w, unit) state" where
  "run_std_smoke os = do {
     process \<leftarrow> spawn_with_argument os (ascii ''/std-smoke'') None;
     case process of
       None \<Rightarrow> say os ''SPAWN FAILED''
     | Some process \<Rightarrow> do {
         status \<leftarrow> wait_process os process;
         if status = None then say os ''WAIT FAILED'' else say os ''CHILD EXITED''
       }
   }"

text \<open>
  The loop of \<open>list_root\<close> ends when the kernel does; an entry that is answered with its length is
  printed without its terminating zero, as it is when it is valid UTF-8.  The panic of a slice out of range is None.
\<close>

partial_function (option) list_entries :: "'w os \<Rightarrow> u64 \<Rightarrow> u8 list \<Rightarrow> 'w \<Rightarrow> (unit option \<times> 'w) option" where
  "list_entries os directory entry w =
     (case run_state (os_read os directory entry) w of (r, w) \<Rightarrow>
        case fst r of
          None \<Rightarrow> Some (Some (), snd (run_state (say os ''LS FAILED'') w))
        | Some count \<Rightarrow>
            if count = 0 then Some (Some (), w)
            else if length (snd r) < count - 1 then Some (None, w)
            else list_entries os directory (snd r) (snd (run_state (print os (take (count - 1) (snd r) @ [13, 10])) w)))"

definition list_root :: "'w os \<Rightarrow> 'w \<Rightarrow> (unit option \<times> 'w) option" where
  "list_root os w =
     (case run_state (os_open os (ascii ''/'') OPEN_DIRECTORY) w of (r, w) \<Rightarrow>
        case r of
          None \<Rightarrow> Some (Some (), snd (run_state (say os ''LS FAILED'') w))
        | Some directory \<Rightarrow>
            (case list_entries os directory (replicate 64 0) w of
               None \<Rightarrow> None
             | Some (None, w) \<Rightarrow> Some (None, w)
             | Some (Some _, w) \<Rightarrow> Some (Some (), snd (run_state (os_close os directory) w))))"

definition time_test :: "'w os \<Rightarrow> ('w, unit) state" where
  "time_test os = do {
     before \<leftarrow> now_ms os;
     slept \<leftarrow> sleep_ms os 30;
     if \<not> slept then say os ''SLEEP FAILED''
     else do {
       after \<leftarrow> now_ms os;
       if 30 \<le> after - before then say os ''TIME OK'' else say os ''TIME FAILED''
     }
   }"

text \<open>\<open>variables\<close> is the number of environment variables, from the standard library.\<close>

definition environment_test :: "'w os \<Rightarrow> nat \<Rightarrow> ('w, unit) state" where
  "environment_test os variables = do {
     executable \<leftarrow> executable_path os (replicate 16 0);
     if fst executable = None then say os ''ENVIRONMENT FAILED''
     else do {
       first \<leftarrow> get_cwd os (replicate 8 0);
       if fst first \<noteq> Some 1 \<or> take 1 (snd first) \<noteq> ascii ''/'' \<or> take 5 (snd executable) \<noteq> ascii ''/init''
       then say os ''ENVIRONMENT FAILED''
       else do {
         changed \<leftarrow> set_cwd os (ascii ''/tmp'');
         if \<not> changed then say os ''CWD FAILED''
         else do {
           second \<leftarrow> get_cwd os (snd first);
           if fst second \<noteq> Some 4 \<or> take 4 (snd second) \<noteq> ascii ''/tmp'' then say os ''CWD FAILED''
           else print os (ascii ''ENVIRONMENT OK ('' @ decimal (of_nat variables) @ ascii '' env vars)'' @ [13, 10])
         }
       }
     }
   }"

definition vfs_test :: "'w os \<Rightarrow> ('w, unit) state" where
  "vfs_test os = do {
     opened \<leftarrow> os_open os (ascii ''/tmp/demo'') (OPEN_WRITE OR OPEN_CREATE);
     case opened of
       None \<Rightarrow> say os ''VFS WRITE FAILED''
     | Some fd \<Rightarrow> do {
         written \<leftarrow> os_write os fd (ascii ''hello'');
         if written \<noteq> Some 5 then say os ''VFS WRITE FAILED''
         else do {
           sought \<leftarrow> os_seek os fd 0 0;
           if \<not> sought then say os ''VFS SEEK FAILED''
           else do {
             content \<leftarrow> os_read os fd (replicate 5 0);
             if fst content \<noteq> Some 5 \<or> snd content \<noteq> ascii ''hello'' then say os ''VFS READ FAILED''
             else do {
               closed \<leftarrow> os_close os fd;
               if \<not> closed then say os ''VFS CLOSE FAILED''
               else do {
                 directory \<leftarrow> os_open os (ascii ''/tmp'') OPEN_DIRECTORY;
                 case directory of
                   None \<Rightarrow> say os ''VFS DIRECTORY FAILED''
                 | Some directory \<Rightarrow> do {
                     entry \<leftarrow> os_read os directory (replicate 64 0);
                     if fst entry = Some 0 then say os ''VFS DIRECTORY FAILED''
                     else do {
                       os_close os directory;
                       say os ''VFS OK''
                     }
                   }
               }
             }
           }
         }
       }
   }"

text \<open>The vector of \<open>heap_test\<close>.\<close>

definition heap_bytes :: "u8 list" where
  "heap_bytes = map (\<lambda>index. (of_nat index :: u8) XOR 0xA5) [0..<8192]"

definition heap_test :: "'w os \<Rightarrow> ('w, unit) state" where
  "heap_test os =
     (if length heap_bytes = 8192 \<and> heap_bytes ! 0 = 0xA5 \<and> heap_bytes ! 8191 = 0x5A then say os ''ALLOC VEC OK''
      else say os ''ALLOC VEC CORRUPTED'')"

text \<open>The addresses of the functions that threads start at are given by the linker.\<close>

definition user_thread_demo :: "'w os \<Rightarrow> u64 \<Rightarrow> ('w, unit) state" where
  "user_thread_demo os user_thread_worker = do {
     worker \<leftarrow> spawn_thread os user_thread_worker 0 0;
     case worker of
       None \<Rightarrow> say os ''THREAD CREATE FAILED''
     | Some worker \<Rightarrow> do {
         say os ''A'';
         os_yield_now os;
         say os ''A'';
         join_thread os worker;
         State_Monad.return ()
       }
   }"

definition user_thread_worker :: "'w os \<Rightarrow> ('w, unit) state" where
  "user_thread_worker os = do {
     say os ''B'';
     os_yield_now os;
     say os ''B'';
     exit_thread os 0
   }"

text \<open>
  The wait on the condition variable, the store of the flag and the notification are the standard
  library's: they are arguments.  So is the word at \<open>fs:0\<close>.
\<close>

definition TLS_WORD :: u64 where "TLS_WORD = 0x544C535F4F4B0001"

definition synchronization_test :: "'w os \<Rightarrow> u64 \<Rightarrow> u64 \<Rightarrow> ('w, unit) state \<Rightarrow> ('w, unit) state \<Rightarrow> ('w, unit) state" where
  "synchronization_test os synchronization_worker tls_word reset_ready await_ready = do {
     reset_ready;
     worker \<leftarrow> spawn_thread os synchronization_worker 0 tls_word;
     case worker of
       None \<Rightarrow> say os ''SYNC THREAD FAILED''
     | Some worker \<Rightarrow> do {
         await_ready;
         status \<leftarrow> join_thread os worker;
         if status = Some 0 then say os ''SYNC OK'' else say os ''SYNC JOIN FAILED''
       }
   }"

definition synchronization_worker :: "'w os \<Rightarrow> ('w, u64) state \<Rightarrow> ('w, unit) state \<Rightarrow> ('w, unit) state" where
  "synchronization_worker os read_tls_word notify_ready = do {
     first_tls_word \<leftarrow> read_tls_word;
     notify_ready;
     os_yield_now os;
     status \<leftarrow> (if first_tls_word \<noteq> TLS_WORD then State_Monad.return 1
                else do { word \<leftarrow> read_tls_word; State_Monad.return (of_bool (word \<noteq> TLS_WORD)) });
     exit_thread os status
   }"

text \<open>The five reads of \<open>pty_demo\<close>; None of the first component is the panic of a slice out of range.\<close>

fun pty_chunks :: "nat \<Rightarrow> 'w os \<Rightarrow> u64 \<Rightarrow> u8 list \<Rightarrow> u8 list \<Rightarrow> ('w, u8 list option) state" where
  "pty_chunks 0 os pty chunk output = State_Monad.return (Some output)"
| "pty_chunks (Suc n) os pty chunk output = do {
     r \<leftarrow> read_pty_master os pty chunk;
     case fst r of
       None \<Rightarrow> State_Monad.return (Some output)
     | Some count \<Rightarrow>
         if count = 0 then do { sleep_ms os 50; pty_chunks n os pty (snd r) output }
         else if length (snd r) < count then State_Monad.return None
         else pty_chunks n os pty (snd r) (output @ take count (snd r))
   }"

text \<open>\<open>replace('\n', "\r\n")\<close>, on output that is valid UTF-8.\<close>

definition carriage_returns :: "u8 list \<Rightarrow> u8 list" where
  "carriage_returns bytes = concat (map (\<lambda>b. if b = 10 then [13, 10] else [b]) bytes)"

definition pty_demo :: "'w os \<Rightarrow> ('w, unit option) state" where
  "pty_demo os = do {
     opened \<leftarrow> open_pty os;
     case opened of
       None \<Rightarrow> do { say os ''PTY OPEN FAILED''; State_Monad.return (Some ()) }
     | Some pty \<Rightarrow> do {
         child \<leftarrow> spawn_with_argument os (ascii ''/console'') (Some (ascii ''pty:'' @ decimal pty));
         case child of
           None \<Rightarrow> do { say os ''PTY SPAWN FAILED''; close_pty os pty; State_Monad.return (Some ()) }
         | Some child \<Rightarrow> do {
             sleep_ms os 50;
             write_pty_master os pty (ascii ''help'' @ [13, 10]);
             sleep_ms os 50;
             output \<leftarrow> pty_chunks 5 os pty (replicate 256 0) [];
             case output of
               None \<Rightarrow> State_Monad.return None
             | Some output \<Rightarrow> do {
                 terminate_pid os child;
                 wait_process os child;
                 close_pty os pty;
                 print os (ascii ''PTY CHILD SAID:'' @ [13, 10] @ carriage_returns output @ [13, 10]);
                 State_Monad.return (Some ())
               }
           }
       }
   }"

end
