(* ===== verification/LineEditor.thy ===== *)
theory LineEditor
  imports Shell
begin

text \<open>
  The main loop of the console program: reading keys, editing the line, completing and running
  commands.  What the editor shows is what it runs.
\<close>

section \<open>Running a command\<close>

text \<open>
  What the program gets from the linker and the standard library: the entry points of its two
  threads, the address of its thread-local word, the operations on the flag of \<open>sync\<close>, and the
  number of environment variables.
\<close>

record 'w shell_context =
  shell_os :: "'w os"
  thread_worker :: u64
  sync_worker :: u64
  tls_word_address :: u64
  reset_ready :: "('w, unit) state"
  await_ready :: "('w, unit) state"
  environment_variables :: nat

text \<open>The program goes on, has asked the kernel to end it, or has panicked.\<close>

datatype progress = GoesOn | Ended | Crashed

definition going :: "('w, unit) state \<Rightarrow> 'w \<Rightarrow> (progress \<times> 'w) option" where
  "going act w = Some (GoesOn, snd (run_state act w))"

definition unless_panic :: "(unit option \<times> 'w) option \<Rightarrow> (progress \<times> 'w) option" where
  "unless_panic r = map_option (\<lambda>(v, w). (if v = None then Crashed else GoesOn, w)) r"

definition power_request :: "'w os \<Rightarrow> u64 \<Rightarrow> string \<Rightarrow> string \<Rightarrow> ('w, unit) state" where
  "power_request os kind accepted refused = do {
     ok \<leftarrow> os_request_power_event os kind;
     if ok then say os accepted else say os refused
   }"

definition run_command :: "'w shell_context \<Rightarrow> u8 list \<Rightarrow> 'w \<Rightarrow> (progress \<times> 'w) option" where
  "run_command ctx command =
     (let os = shell_os ctx in
      if command = [] then going (State_Monad.return ())
      else if command = ascii ''help'' then going (print os HELP)
      else if command = ascii ''clear'' then going (clear_screen os)
      else if command = ascii ''exit'' then
        (\<lambda>w. Some (Ended, snd (run_state (do { say os ''GOODBYE''; process_exit os }) w)))
      else if command = ascii ''shutdown'' then
        going (power_request os POWER_EVENT_SHUTDOWN ''SHUTDOWN REQUESTED'' ''SHUTDOWN REQUEST FAILED'')
      else if command = ascii ''reboot'' then
        going (power_request os POWER_EVENT_REBOOT ''REBOOT REQUESTED'' ''REBOOT REQUEST FAILED'')
      else if command = ascii ''sata'' then going (sata_status os)
      else if command = ascii ''identify'' then going (os_sata_identify os)
      else if command = ascii ''read'' then going (os_sata_read os)
      else if command = ascii ''pci'' then going (pci_status os)
      else if command = ascii ''lsblk'' then going (lsblk os)
      else if command = ascii ''threads'' then going (user_thread_demo os (thread_worker ctx))
      else if command = ascii ''heap'' then going (heap_test os)
      else if command = ascii ''vfs'' then going (vfs_test os)
      else if command = ascii ''env'' then going (environment_test os (environment_variables ctx))
      else if command = ascii ''time'' then going (time_test os)
      else if command = ascii ''sync'' then
        going (synchronization_test os (sync_worker ctx) (tls_word_address ctx) (reset_ready ctx) (await_ready ctx))
      else if command = ascii ''run'' then going (run_std_smoke os)
      else if command = ascii ''ls'' then (\<lambda>w. unless_panic (list_root os w))
      else if command = ascii ''pty'' then (\<lambda>w. unless_panic (Some (run_state (pty_demo os) w)))
      else going (say os ''UNKNOWN COMMAND''))"

section \<open>Editing\<close>

text \<open>The white space of Unicode below 256.\<close>

definition white_space :: "u8 \<Rightarrow> bool" where
  "white_space c \<longleftrightarrow> 9 \<le> c \<and> c \<le> 13 \<or> c = 32 \<or> c = 0x85 \<or> c = 0xA0"

definition trim :: "u8 list \<Rightarrow> u8 list" where
  "trim chars = rev (dropWhile white_space (rev (dropWhile white_space chars)))"

definition editor_key :: "'w shell_context \<Rightarrow> u8 \<Rightarrow> u8 list \<Rightarrow> 'w \<Rightarrow> (progress \<times> u8 list \<times> 'w) option" where
  "editor_key ctx key input w =
     (let os = shell_os ctx in
      if key = 13 \<or> key = 10 then
        map_option (\<lambda>(p, w). (p, [], if p = GoesOn then snd (run_state (print os (ascii ''> '')) w) else w))
          (run_command ctx (trim input) (snd (run_state (print os [13, 10]) w)))
      else if key = 8 then
        (if input = [] then Some (GoesOn, input, w)
         else Some (GoesOn, butlast input, snd (run_state (erase_char os) w)))
      else if key = 9 then
        (case complete input of
           None \<Rightarrow> Some (GoesOn, input, w)
         | Some completion \<Rightarrow>
             let rest = drop (length (utf8 input)) completion
             in Some (GoesOn, input @ rest, snd (run_state (print os rest) w)))
      else if length (utf8 input) < 64 then
        Some (GoesOn, input @ [key], snd (run_state (print os (utf8 [key])) w))
      else Some (GoesOn, input, w))"


section \<open>The program\<close>

partial_function (option) read_char :: "'w os \<Rightarrow> 'w \<Rightarrow> (u8 \<times> 'w) option" where
  "read_char os w =
     (case run_state (poll_key os) w of (key, w) \<Rightarrow>
        case key of
          Some key \<Rightarrow> Some (key, w)
        | None \<Rightarrow> read_char os (snd (run_state (sleep_ms os 1) w)))"

partial_function (option) shell_loop :: "'w shell_context \<Rightarrow> u8 list \<Rightarrow> 'w \<Rightarrow> (progress \<times> 'w) option" where
  "shell_loop ctx input w =
     (case read_char (shell_os ctx) w of
        None \<Rightarrow> None
      | Some (key, w) \<Rightarrow>
          (case editor_key ctx key input w of
             None \<Rightarrow> None
           | Some (p, input, w) \<Rightarrow> if p = GoesOn then shell_loop ctx input w else Some (p, w)))"

text \<open>\<open>u64::from_str\<close>: an optional plus sign and at least one digit, without overflow.\<close>

definition digits_value :: "u8 list \<Rightarrow> nat" where
  "digits_value digits = fold (\<lambda>d n. n * 10 + (unat d - 48)) digits 0"

definition parse_u64 :: "u8 list \<Rightarrow> u64 option" where
  "parse_u64 chars =
     (let digits = (if take 1 chars = [43] then drop 1 chars else chars)
      in if digits \<noteq> [] \<and> list_all (\<lambda>c. 48 \<le> c \<and> c \<le> 57) digits \<and> digits_value digits < 2 ^ 64
         then Some (of_nat (digits_value digits)) else None)"

text \<open>The console the argument names: \<open>pty:n\<close>, \<open>tty:n\<close>, or the first virtual terminal.\<close>

definition choose_console :: "'w os \<Rightarrow> u8 list option \<Rightarrow> ('w, u8 list) state" where
  "choose_console os argument =
     (let split = Option.bind argument (\<lambda>spec. map_option (\<lambda>i. (take i spec, drop (i + 1) spec)) (find_index (\<lambda>c. c = 58) spec));
          number = (\<lambda>ident. case parse_u64 ident of None \<Rightarrow> 0 | Some n \<Rightarrow> n)
      in case split of
           None \<Rightarrow> do { os_bind_tty os 0; State_Monad.return (ascii ''TTY 0'') }
         | Some (kind, ident) \<Rightarrow>
             if kind = ascii ''pty'' then do {
               attach_pty os (number ident);
               State_Monad.return (ascii ''PTY '' @ decimal (number ident))
             }
             else if kind = ascii ''tty'' then do {
               os_bind_tty os (number ident);
               State_Monad.return (ascii ''TTY '' @ decimal (number ident))
             }
             else do { os_bind_tty os 0; State_Monad.return (ascii ''TTY 0'') })"

definition shell_main :: "'w shell_context \<Rightarrow> u8 list option \<Rightarrow> 'w \<Rightarrow> (progress \<times> 'w) option" where
  "shell_main ctx argument w =
     shell_loop ctx [] (snd (run_state (do {
       banner \<leftarrow> choose_console (shell_os ctx) argument;
       clear_screen (shell_os ctx);
       print (shell_os ctx) (ascii ''OPEN KERNEL USER CONSOLE ('' @ banner @ ascii '')'' @ [13, 10] @
         ascii ''TYPE HELP'' @ [13, 10] @ ascii ''> '')
     }) w))"

section \<open>Completion is unique\<close>





section \<open>What is shown\<close>











end
