(* ===== verification/Runtime.thy ===== *)
theory Runtime
  imports Prelude
begin

text \<open>
  The runtime that user programs are linked with, \<open>openkernel-rt/src/lib.rs\<close>: the entry of a program
  and the memory functions that compiled code calls, on the bytes of an address space.  Addresses
  are natural numbers; no block of memory reaches the end of the address space.
\<close>

type_synonym bytes = "nat \<Rightarrow> u8"

section \<open>Entry\<close>

text \<open>
  \<open>_start\<close> calls the trampoline with the argument count at the stack pointer, the address of the
  argument pointers after it, and an aligned stack.
\<close>

record start_registers =
  start_argc :: u64
  start_argv :: u64
  start_rsp :: u64

definition program_start :: "(u64 \<Rightarrow> u64) \<Rightarrow> u64 \<Rightarrow> start_registers" where
  "program_start word_at rsp = \<lparr>start_argc = word_at rsp, start_argv = rsp + 8, start_rsp = rsp AND NOT 15\<rparr>"

section \<open>Memory functions\<close>

definition memcpy :: "nat \<Rightarrow> nat \<Rightarrow> nat \<Rightarrow> bytes \<Rightarrow> nat \<times> bytes" where
  "memcpy dst src len m = (dst, fold (\<lambda>index m. m(dst + index := m (src + index))) [0..<len] m)"

definition memmove :: "nat \<Rightarrow> nat \<Rightarrow> nat \<Rightarrow> bytes \<Rightarrow> nat \<times> bytes" where
  "memmove dst src len m =
     (if dst \<le> src then memcpy dst src len m
      else (dst, fold (\<lambda>index m. m(dst + index := m (src + index))) (rev [0..<len]) m))"

definition memset :: "nat \<Rightarrow> 32 word \<Rightarrow> nat \<Rightarrow> bytes \<Rightarrow> nat \<times> bytes" where
  "memset dst value len m = (dst, fold (\<lambda>index m. m(dst + index := ucast value)) [0..<len] m)"

text \<open>The loop of \<open>memcmp\<close> from an index on; the answer is the difference of the first bytes that differ.\<close>

fun memcmp_from :: "nat list \<Rightarrow> nat \<Rightarrow> nat \<Rightarrow> bytes \<Rightarrow> int" where
  "memcmp_from [] left right m = 0"
| "memcmp_from (index # indices) left right m =
     (if m (left + index) \<noteq> m (right + index) then uint (m (left + index)) - uint (m (right + index))
      else memcmp_from indices left right m)"

definition memcmp :: "nat \<Rightarrow> nat \<Rightarrow> nat \<Rightarrow> bytes \<Rightarrow> int" where
  "memcmp left right len m = memcmp_from [0..<len] left right m"

text \<open>\<open>strlen\<close> reads on until it finds a zero.\<close>

partial_function (option) strlen_from :: "nat \<Rightarrow> nat \<Rightarrow> bytes \<Rightarrow> nat option" where
  "strlen_from len value m = (if m (value + len) \<noteq> 0 then strlen_from (len + 1) value m else Some len)"

definition strlen :: "nat \<Rightarrow> bytes \<Rightarrow> nat option" where
  "strlen value m = strlen_from 0 value m"

section \<open>What they do\<close>

text \<open>The block of \<open>len\<close> bytes at \<open>dst\<close> replaced by those at \<open>src\<close>.\<close>

definition moved :: "nat \<Rightarrow> nat \<Rightarrow> nat \<Rightarrow> bytes \<Rightarrow> bytes" where
  "moved dst src len m = (\<lambda>a. if dst \<le> a \<and> a < dst + len then m (src + (a - dst)) else m a)"

text \<open>Upwards, every byte is read before it is overwritten if the destination is not above the source.\<close>

lemma forward_moved:
  assumes "dst \<le> src"
  shows "fold (\<lambda>index m. m(dst + index := m (src + index))) [0..<len] m = moved dst src len m"
proof (induction len)
  case (Suc len)
  then show ?case using assms by (auto simp: moved_def fun_eq_iff)
qed (auto simp: moved_def fun_eq_iff)

lemma backward_moved:
  assumes "src \<le> dst" and "k \<le> len"
  shows "fold (\<lambda>index m. m(dst + index := m (src + index))) (rev [k..<len]) m =
    (\<lambda>a. if dst + k \<le> a \<and> a < dst + len then m (src + (a - dst)) else m a)"
  using assms(2)
proof (induction "len - k" arbitrary: k)
  case (Suc n)
  then have e: "[k..<len] = k # [Suc k..<len]" by (simp add: upt_conv_Cons)
  have "fold (\<lambda>index m. m(dst + index := m (src + index))) (rev [Suc k..<len]) m =
      (\<lambda>a. if dst + Suc k \<le> a \<and> a < dst + len then m (src + (a - dst)) else m a)"
    using Suc by simp
  then show ?case unfolding e using assms(1) Suc by (auto simp: fun_eq_iff)
qed (auto simp: fun_eq_iff)

lemma memcpy_exact: "dst \<le> src \<or> src + len \<le> dst \<Longrightarrow> memcpy dst src len m = (dst, moved dst src len m)"
proof (cases "dst \<le> src")
  case True
  then show ?thesis by (simp add: memcpy_def forward_moved)
next
  case False
  assume "dst \<le> src \<or> src + len \<le> dst"
  then have apart: "src + len \<le> dst" using False by simp
  have "fold (\<lambda>index m. m(dst + index := m (src + index))) [0..<k] m = moved dst src k m" if "k \<le> len" for k
    using that
  proof (induction k)
    case (Suc k)
    then show ?case using apart by (auto simp: moved_def fun_eq_iff)
  qed (auto simp: moved_def fun_eq_iff)
  then show ?thesis by (simp add: memcpy_def)
qed

lemma memset_exact:
  "memset dst value len m = (dst, \<lambda>a. if dst \<le> a \<and> a < dst + len then ucast value else m a)"
proof -
  have "fold (\<lambda>index m. m(dst + index := ucast value)) [0..<len] m =
      (\<lambda>a. if dst \<le> a \<and> a < dst + len then ucast value else m a)"
    by (induction len) (auto simp: fun_eq_iff)
  then show ?thesis by (simp add: memset_def)
qed

text \<open>\<open>memcmp\<close> orders blocks lexicographically.\<close>

lemma memcmp_from_first:
  "memcmp_from indices left right m =
     (case find (\<lambda>index. m (left + index) \<noteq> m (right + index)) indices of
        None \<Rightarrow> 0 | Some index \<Rightarrow> uint (m (left + index)) - uint (m (right + index)))"
  by (induction indices) auto

lemma memcmp_zero: "memcmp left right len m = 0 \<longleftrightarrow> (\<forall>index < len. m (left + index) = m (right + index))"
  by (auto simp: memcmp_def memcmp_from_first find_None_iff find_Some_iff word_uint_eq_iff split: option.split)

text \<open>\<open>strlen\<close> returns when there is a zero, with the index of the first one.\<close>

lemma strlen_from_first:
  assumes "m (value + (len + n)) = 0" and "\<forall>k < n. m (value + (len + k)) \<noteq> 0"
  shows "strlen_from len value m = Some (len + n)"
  using assms
proof (induction n arbitrary: len)
  case 0
  then show ?case by (subst strlen_from.simps) simp
next
  case (Suc n)
  have "m (value + len) \<noteq> 0" using Suc.prems(2) by auto
  moreover have "strlen_from (len + 1) value m = Some ((len + 1) + n)"
    by (rule Suc.IH) (use Suc.prems in \<open>auto simp: less_Suc_eq_0_disj add.assoc\<close>)
  ultimately show ?case by (subst strlen_from.simps) simp
qed

lemma strlen_exact: "(\<exists>n. m (value + n) = 0) \<Longrightarrow> strlen value m = Some (LEAST n. m (value + n) = 0)"
  using strlen_from_first [of m "value" 0 "LEAST n. m (value + n) = 0"] LeastI_ex [of "\<lambda>n. m (value + n) = 0"]
    not_less_Least [where P = "\<lambda>n. m (value + n) = 0"]
  by (simp add: strlen_def)

text \<open>
  \<open>memmove\<close> moves its block whole, however source and destination overlap: afterwards the
  destination holds the bytes the source held before, and no other byte has changed.
\<close>

theorem memmove_exact:
  "memmove dst src len m =
     (dst, \<lambda>a. if dst \<le> a \<and> a < dst + len then m (src + (a - dst)) else m a)"
  using backward_moved [of src dst 0 len m] memcpy_exact [of dst src len m]
  by (auto simp: memmove_def moved_def)

end
