(* ===== verification/Bootstrap.thy ===== *)
theory Bootstrap
  imports Hardware
begin

text \<open>
  The code between GRUB and the kernel, \<open>multiboot2-adapter-bootstrap/src/lib.rs\<close>: the Multiboot2
  header, the page tables for long mode, the control registers and the descriptor table, as the
  assembly builds them.  The labels of the tables are given by the linker, one page after another.
\<close>

section \<open>The header\<close>

definition MULTIBOOT_MAGIC :: u32 where "MULTIBOOT_MAGIC = 0xE85250D6"

text \<open>The end of the header is 48 bytes after its start: 16 bytes, a tag of 20 bytes aligned to 8, and the last tag.\<close>

definition multiboot_header_length :: u32 where "multiboot_header_length = 48"

definition multiboot_header :: "u8 list" where
  "multiboot_header =
     little_endian 4 MULTIBOOT_MAGIC @ little_endian 4 (0 :: u32) @ little_endian 4 multiboot_header_length @
     little_endian 4 (- (MULTIBOOT_MAGIC + 0 + multiboot_header_length)) @
     little_endian 2 (5 :: u16) @ little_endian 2 (0 :: u16) @ little_endian 4 (20 :: u32) @
     little_endian 4 (1024 :: u32) @ little_endian 4 (768 :: u32) @ little_endian 4 (32 :: u32) @ replicate 4 0 @
     little_endian 2 (0 :: u16) @ little_endian 2 (0 :: u16) @ little_endian 4 (8 :: u32)"

lemma multiboot_header_length: "length multiboot_header = unat multiboot_header_length"
  by (simp add: multiboot_header_def little_endian_def multiboot_header_length_def)

section \<open>Control registers\<close>

record control =
  control_cr0 :: u64
  control_cr4 :: u64
  control_efer :: u64

text \<open>The writes of \<open>_start\<close> to the control registers, whose upper halves are zero in 32-bit mode.\<close>

definition enter_long_mode :: "control \<Rightarrow> control" where
  "enter_long_mode c =
     (let c = c\<lparr>control_cr4 := control_cr4 c OR 0x620\<rparr>;
          c = c\<lparr>control_efer := control_efer c OR 0x100\<rparr>
      in c\<lparr>control_cr0 := (control_cr0 c AND 0xFFFFFFFB) OR 0x80000002\<rparr>)"

definition gdt64 :: "u64 list" where
  "gdt64 = [0, 0x00AF9A000000FFFF, 0x00AF92000000FFFF]"

section \<open>Page tables\<close>

definition write32 :: "(nat \<Rightarrow> u8) \<Rightarrow> nat \<Rightarrow> u32 \<Rightarrow> (nat \<Rightarrow> u8)" where
  "write32 p a v = (\<lambda>k. if a \<le> k \<and> k < a + 4 then ucast (drop_bit (8 * (k - a)) v) else p k)"

definition p3_table :: "u32 \<Rightarrow> u32" where "p3_table p4_table = p4_table + 4096"
definition p2_tables :: "u32 \<Rightarrow> u32" where "p2_tables p4_table = p4_table + 8192"

text \<open>\<open>rep stosl\<close>\<close>

definition clear_tables :: "u32 \<Rightarrow> (nat \<Rightarrow> u8) \<Rightarrow> (nat \<Rightarrow> u8)" where
  "clear_tables p4_table p = fold (\<lambda>i p. write32 p (unat (p4_table + 4 * of_nat i)) 0) [0..<3072] p"

definition link_tables :: "u32 \<Rightarrow> (nat \<Rightarrow> u8) \<Rightarrow> (nat \<Rightarrow> u8)" where
  "link_tables p4_table p =
     (let p3 = p3_table p4_table;
          p = write32 p (unat p4_table) (p3 OR 3);
          eax = p2_tables p4_table OR 3;
          p = write32 p (unat p3) eax;
          eax = eax + 0x1000;
          p = write32 p (unat (p3 + 8)) eax;
          eax = eax + 0x1000;
          p = write32 p (unat (p3 + 16)) eax;
          eax = eax + 0x1000
      in write32 p (unat (p3 + 24)) eax)"

text \<open>The loop at label 1, with the count in \<open>ecx\<close>.\<close>

fun identity_loop :: "nat \<Rightarrow> u32 \<Rightarrow> u32 \<Rightarrow> (nat \<Rightarrow> u8) \<Rightarrow> (nat \<Rightarrow> u8)" where
  "identity_loop 0 edi eax p = p"
| "identity_loop (Suc ecx) edi eax p = identity_loop ecx (edi + 8) (eax + 0x200000) (write32 p (unat edi) eax)"

definition bootstrap :: "u32 \<Rightarrow> memory \<Rightarrow> memory" where
  "bootstrap p4_table m =
     m\<lparr>phys := identity_loop 2048 (p2_tables p4_table) 0x83 (link_tables p4_table (clear_tables p4_table (phys m))),
       cr3 := ucast p4_table\<rparr>"

section \<open>What the processor makes of page tables\<close>

text \<open>
  The translation of an address by tables of four levels: an entry on the way that is a large page,
  or one of the last level, gives the frame; the remaining bits are those of the address.
\<close>

fun translate_from :: "nat list \<Rightarrow> u64 \<Rightarrow> u64 \<Rightarrow> memory \<Rightarrow> u64 option" where
  "translate_from [] virtual_address table m = None"
| "translate_from (shift # shifts) virtual_address table m =
     (let entry = table_entry table (unat (drop_bit shift virtual_address AND 0x1FF)) m
      in if entry AND PRESENT = 0 then None
         else if shifts = [] \<or> shift < 39 \<and> entry AND HUGE_PAGE \<noteq> 0
         then Some ((entry AND ENTRY_ADDRESS_MASK AND NOT (mask shift)) OR (virtual_address AND mask shift))
         else translate_from shifts virtual_address (entry AND ENTRY_ADDRESS_MASK) m)"

definition translate :: "u64 \<Rightarrow> memory \<Rightarrow> u64 option" where
  "translate virtual_address m = translate_from [39, 30, 21, 12] virtual_address (cr3 m AND ENTRY_ADDRESS_MASK) m"

section \<open>The bytes that are written\<close>

lemma read64_low:
  assumes "\<And>k. k < 4 \<Longrightarrow> p (a + k) = ucast (drop_bit (8 * k) (v :: u32))" and "\<And>k. 4 \<le> k \<Longrightarrow> k < 8 \<Longrightarrow> p (a + k) = 0"
  shows "read64 p a = ucast v"
proof (rule bit_word_eqI)
  fix n assume "n < LENGTH(64)"
  then have n: "n < 64" by simp
  have e: "8 * (n div 8) + n mod 8 = n" by simp
  show "bit (read64 p a) n = bit (ucast v :: u64) n"
  proof (cases "n div 8 < 4")
    case True
    then show ?thesis using n assms(1) [OF True] e by (simp add: bit_read64 bit_simps)
  next
    case False
    then have "32 \<le> n" by simp
    moreover have "p (a + n div 8) = 0" using False n by (intro assms(2)) auto
    moreover have "\<not> bit v n" using \<open>32 \<le> n\<close> bit_imp_le_length [of v n] by auto
    ultimately show ?thesis using n by (simp add: bit_read64 bit_ucast_iff)
  qed
qed

lemma clear_loop:
  fixes t :: u32
  assumes "unat t + 4 * n \<le> 2 ^ 32"
  shows "fold (\<lambda>i p. write32 p (unat (t + 4 * of_nat i)) 0) [0..<n] p k =
    (if unat t \<le> k \<and> k < unat t + 4 * n then 0 else p k)"
  using assms
proof (induction n)
  case (Suc n)
  have "unat (t + 4 * of_nat n) = unat t + 4 * n"
    using Suc.prems by (simp add: unat_word_ariths unat_of_nat)
  then show ?case using Suc by (auto simp: write32_def)
qed auto

lemma identity_loop_bytes:
  assumes "unat edi + 8 * n \<le> 2 ^ 32"
  shows "identity_loop n edi eax p k =
    (if unat edi \<le> k \<and> k < unat edi + 8 * n \<and> (k - unat edi) mod 8 < 4
     then ucast (drop_bit (8 * ((k - unat edi) mod 8)) (eax + of_nat ((k - unat edi) div 8) * 0x200000)) else p k)"
  using assms
proof (induction n arbitrary: edi eax p)
  case (Suc n)
  show ?case
  proof (cases "n = 0")
    case True
    then show ?thesis by (auto simp: write32_def)
  next
    case False
    then have e: "unat (edi + 8) = unat edi + 8" using Suc.prems by (simp add: unat_word_ariths)
    have "unat (edi + 8) + 8 * n \<le> 2 ^ 32" using e Suc.prems by simp
    note IH = Suc.IH [OF this, of "eax + 0x200000" "write32 p (unat edi) eax"]
    consider "k < unat edi" | "unat edi \<le> k" "k < unat edi + 8" | j where "k = unat edi + 8 + j"
      by (metis le_iff_add not_less)
    then show ?thesis
    proof cases
      case 3
      have "(j + 8) div 8 = Suc (j div 8)" by simp
      then show ?thesis using IH e 3 by (simp add: write32_def algebra_simps)
    qed (use IH e in \<open>auto simp: write32_def\<close>)
  qed
qed auto

text \<open>The layout the linker gives: three kinds of tables in pages of their own below 4 GiB.\<close>

definition tables_fit :: "u32 \<Rightarrow> bool" where
  "tables_fit p4_table \<longleftrightarrow> p4_table AND 0xFFF = 0 \<and> unat p4_table + 24576 \<le> 2 ^ 32"

text \<open>The part of \<open>.bss\<close> that \<open>rep stosl\<close> does not clear, as the boot loader leaves it.\<close>

definition bss_clear :: "u32 \<Rightarrow> memory \<Rightarrow> bool" where
  "bss_clear p4_table m \<longleftrightarrow> (\<forall>k. unat p4_table + 12288 \<le> k \<and> k < unat p4_table + 24576 \<longrightarrow> phys m k = 0)"

lemma tables_fitD:
  assumes "tables_fit t"
  shows "unat (p3_table t) = unat t + 4096" "unat (p2_tables t) = unat t + 8192"
    "unat (p3_table t + 8) = unat t + 4104" "unat (p3_table t + 16) = unat t + 4112" "unat (p3_table t + 24) = unat t + 4120"
  using assms by (simp_all add: tables_fit_def p3_table_def p2_tables_def unat_word_ariths)

text \<open>The two upper tables have five entries; everything else in them is zero.\<close>

definition upper_entry :: "u32 \<Rightarrow> nat \<Rightarrow> u32" where
  "upper_entry t offset =
     (if offset = 0 then p3_table t OR 3
      else if offset = 4096 then p2_tables t OR 3
      else if offset = 4104 then (p2_tables t OR 3) + 0x1000
      else if offset = 4112 then (p2_tables t OR 3) + 0x2000
      else if offset = 4120 then (p2_tables t OR 3) + 0x3000 else 0)"

lemma linked_bytes:
  assumes "tables_fit t" and "j mod 8 = 0" and "j < 8192" and "i < 8"
  shows "link_tables t (clear_tables t p) (unat t + (j + i)) =
    (if i < 4 then ucast (drop_bit (8 * i) (upper_entry t j)) else 0)"
proof -
  have c: "clear_tables t p k = (if unat t \<le> k \<and> k < unat t + 12288 then 0 else p k)" for k
    using clear_loop [of t 3072 p k] assms(1) by (simp add: clear_tables_def tables_fit_def)
  have "j = 0 \<or> 8 \<le> j" "j < 4096 \<and> j \<le> 4088 \<or> j = 4096 \<or> j = 4104 \<or> j = 4112 \<or> j = 4120 \<or> 4128 \<le> j"
    using assms(2) by presburger+
  then show ?thesis
    using assms(3,4) unfolding link_tables_def Let_def tables_fitD [OF assms(1)] write32_def c upper_entry_def
    by (elim disjE) (auto simp: add.assoc)
qed

lemma upper_read:
  assumes "tables_fit t" and "j mod 8 = 0" and "j < 8192"
  shows "read64 (phys (bootstrap t m)) (unat t + j) = ucast (upper_entry t j)"
proof (rule read64_low)
  have b: "phys (bootstrap t m) (unat t + (j + i)) = link_tables t (clear_tables t (phys m)) (unat t + (j + i))" if "i < 8" for i
  proof -
    have "unat (p2_tables t) + 8 * 2048 \<le> 2 ^ 32" using assms(1) tables_fitD [OF assms(1)] by (simp add: tables_fit_def)
    moreover have "j \<le> 8184" using assms(2,3) by presburger
    ultimately show ?thesis using that tables_fitD [OF assms(1)]
      by (simp add: bootstrap_def identity_loop_bytes)
  qed
  show "phys (bootstrap t m) (unat t + j + k) = ucast (drop_bit (8 * k) (upper_entry t j))" if "k < 4" for k
    using b [of k] linked_bytes [OF assms, of k] that by (simp add: add.assoc)
  show "phys (bootstrap t m) (unat t + j + k) = 0" if "4 \<le> k" "k < 8" for k
    using b [of k] linked_bytes [OF assms, of k] that by (simp add: add.assoc)
qed

lemma identity_read:
  assumes fit: "tables_fit t" and bss: "bss_clear t m" and n: "n < 2048"
  shows "read64 (phys (bootstrap t m)) (unat t + 8192 + 8 * n) = ucast (0x83 + of_nat n * 0x200000 :: u32)"
proof (rule read64_low)
  have f: "unat (p2_tables t) + 8 * 2048 \<le> 2 ^ 32" "unat (p2_tables t) = unat t + 8192"
    using fit tables_fitD [OF fit] by (simp_all add: tables_fit_def)
  have bytes: "identity_loop 2048 (p2_tables t) 0x83 p (unat t + 8192 + i) =
      (if i < 16384 \<and> i mod 8 < 4 then ucast (drop_bit (8 * (i mod 8)) (0x83 + of_nat (i div 8) * 0x200000 :: u32))
       else p (unat t + 8192 + i))" for p i
    using identity_loop_bytes [OF f(1), where eax = "0x83" and p = p and k = "unat t + 8192 + i"] f(2) by simp
  have d: "(8 * n + k) div 8 = n" "(8 * n + k) mod 8 = k" if "k < 8" for k using that by auto
  show "phys (bootstrap t m) (unat t + 8192 + 8 * n + k) = ucast (drop_bit (8 * k) (0x83 + of_nat n * 0x200000 :: u32))"
    if "k < 4" for k
    using that n d [of k] bytes [of _ "8 * n + k"] by (simp add: bootstrap_def add.assoc)
  show "phys (bootstrap t m) (unat t + 8192 + 8 * n + k) = 0" if "4 \<le> k" "k < 8" for k
  proof -
    have l: "link_tables t p (unat t + 8192 + i) = p (unat t + 8192 + i)" for p i
      unfolding link_tables_def Let_def tables_fitD [OF fit] write32_def by simp
    have c: "clear_tables t p (unat t + 8192 + i) = (if i < 4096 then 0 else p (unat t + 8192 + i))" for p i
      using clear_loop [of t 3072 p "unat t + 8192 + i"] fit by (simp add: clear_tables_def tables_fit_def)
    have "phys m (unat t + 8192 + i) = 0" if "4096 \<le> i" "i < 16384" for i
      using bss that by (simp add: bss_clear_def)
    then show ?thesis
      using that n d [of k] l [of "clear_tables t (phys m)" "8 * n + k"] c [of "phys m" "8 * n + k"]
        bytes [of _ "8 * n + k"]
      by (simp add: bootstrap_def add.assoc)
  qed
qed

lemma aligned_or:
  fixes x :: u32
  assumes "x AND 0xFFF = 0"
  shows "x OR 3 = x + 3" "(ucast (x OR 3) :: u64) AND ENTRY_ADDRESS_MASK = ucast x"
    "bit (x OR 3) 0" "\<not> bit (x OR 3) 7"
proof -
  have low: "\<not> bit x n" if "n < 12" for n
  proof -
    have "(0xFFF :: u32) = mask 12" by (simp add: mask_eq_exp_minus_1)
    then have "\<not> bit (x AND mask 12) n" using assms by simp
    then show ?thesis using that by (simp add: bit_and_iff bit_mask_iff)
  qed
  have three: "bit (3 :: u32) n \<longleftrightarrow> n < 2" for n
  proof -
    have "(3 :: u32) = mask 2" by (simp add: mask_eq_exp_minus_1)
    then show ?thesis unfolding \<open>3 = mask 2\<close> bit_mask_iff by auto
  qed
  show "x OR 3 = x + 3" by (rule disjunctive_add [symmetric]) (use low three in auto)
  show "(ucast (x OR 3) :: u64) AND ENTRY_ADDRESS_MASK = ucast x"
    by (rule bit_word_eqI)
      (use low three bit_imp_le_length [of x] in
        \<open>fastforce simp: bit_and_iff bit_or_iff bit_ucast_iff bit_address_mask not_less [symmetric]\<close>)
  show "bit (x OR 3) 0" "\<not> bit (x OR 3) 7" using low by (simp_all add: bit_or_iff three)
qed

section \<open>The identity mapping\<close>

text \<open>The entries that map the first 4 GiB.\<close>

definition identity_tables :: "u32 \<Rightarrow> memory \<Rightarrow> bool" where
  "identity_tables t m \<longleftrightarrow>
     read64 (phys m) (unat t) = ucast (p3_table t OR 3) \<and>
     (\<forall>q < 4. read64 (phys m) (unat t + 4096 + 8 * q) = ucast ((p2_tables t + of_nat q * 0x1000) OR 3)) \<and>
     (\<forall>n < 2048. read64 (phys m) (unat t + 8192 + 8 * n) = ucast (0x83 + of_nat n * 0x200000 :: u32))"

lemma aligned_unat: "w AND 0xFFF = 0 \<longleftrightarrow> unat w mod 4096 = 0" for w :: u32
proof -
  have "w AND 0xFFF = take_bit 12 w" by (simp add: take_bit_eq_mask mask_eq_exp_minus_1)
  moreover have "unat (take_bit 12 w) = take_bit 12 (unat w)" by (rule unsigned_take_bit_eq)
  then have "unat (take_bit 12 w) = unat w mod 4096" unfolding take_bit_eq_mod [of 12 "unat w"] by simp
  ultimately show ?thesis by (metis unsigned_eq_0_iff)
qed

lemma tables_aligned:
  assumes "tables_fit t"
  shows "p3_table t AND 0xFFF = 0" "(p2_tables t + of_nat q * 0x1000) AND 0xFFF = 0"
proof -
  have "unat (t + 4096 * x) mod 4096 = 0" for x :: u32
    using assms by (auto simp: tables_fit_def aligned_unat unat_word_ariths mod_mod_cancel mod_eq_0_iff_dvd intro!: dvd_add dvd_mod)
  then have "(t + 4096 * x) AND 0xFFF = 0" for x :: u32 by (simp add: aligned_unat)
  from this [of 1] this [of "2 + of_nat q"]
  show "p3_table t AND 0xFFF = 0" "(p2_tables t + of_nat q * 0x1000) AND 0xFFF = 0"
    by (simp_all add: p3_table_def p2_tables_def algebra_simps)
qed

lemma identity_bootstrap:
  assumes fit: "tables_fit t" and bss: "bss_clear t m"
  shows "identity_tables t (bootstrap t m)"
  unfolding identity_tables_def
proof (intro conjI allI impI)
  show "read64 (phys (bootstrap t m)) (unat t) = ucast (p3_table t OR 3)"
    using upper_read [OF fit, of 0 m] by (simp add: upper_entry_def)
  fix q :: nat assume q: "q < 4"
  have "read64 (phys (bootstrap t m)) (unat t + (4096 + 8 * q)) = ucast (upper_entry t (4096 + 8 * q))"
    by (rule upper_read [OF fit]) (use q in presburger)+
  moreover have "q = 0 \<or> q = 1 \<or> q = 2 \<or> q = 3" using q by auto
  then have "upper_entry t (4096 + 8 * q) = (p2_tables t + of_nat q * 0x1000) OR 3"
    unfolding aligned_or(1) [OF tables_aligned(2) [OF fit]]
    using aligned_or(1) [OF tables_aligned(2) [OF fit, of 0]]
    by (elim disjE) (simp_all add: upper_entry_def)
  ultimately show "read64 (phys (bootstrap t m)) (unat t + 4096 + 8 * q) = ucast ((p2_tables t + of_nat q * 0x1000) OR 3)"
    by (simp add: add.assoc)
qed (rule identity_read [OF fit bss])

text \<open>A large page of the identity mapping.\<close>

lemma bit_large_flags: "bit (0x83 :: u64) k \<longleftrightarrow> k < 2 \<or> k = 7"
proof -
  have e: "(0x83 :: u64) = mask 2 OR push_bit 7 1" by (simp add: mask_eq_exp_minus_1)
  show ?thesis unfolding e bit_or_iff bit_mask_iff bit_single by auto
qed

lemma unat_u64: "unat (ucast (w :: u32) :: u64) = unat w"
proof -
  have "unat w < 2 ^ LENGTH(32)" by (rule unsigned_less)
  then show ?thesis by (simp add: unsigned_ucast_eq take_bit_eq_mod)
qed

lemma large_page:
  assumes n: "n < 2048"
  shows "(ucast (0x83 + of_nat n * 0x200000 :: u32) :: u64) = 0x83 OR push_bit 21 (of_nat n)"
proof -
  have "(0x83 :: u64) OR push_bit 21 (of_nat n) = 0x83 + push_bit 21 (of_nat n)"
  proof (rule disjunctive_add [symmetric])
    fix k
    show "\<not> bit (0x83 :: u64) k \<or> \<not> bit (push_bit 21 (of_nat n :: u64)) k"
      unfolding bit_large_flags bit_push_bit_iff by auto
  qed
  also have "\<dots> = 0x83 + of_nat n * 0x200000" by (simp add: push_bit_eq_mult)
  finally have "(0x83 :: u64) OR push_bit 21 (of_nat n) = 0x83 + of_nat n * 0x200000" .
  moreover have "unat (0x83 + of_nat n * 0x200000 :: u32) = 131 + n * 2097152"
    using n by (simp add: unat_word_ariths unat_of_nat)
  moreover have "unat (0x83 + of_nat n * 0x200000 :: u64) = 131 + n * 2097152"
    using n by (simp add: unat_word_ariths unat_of_nat)
  ultimately show ?thesis using n by (intro iffD2 [OF word_unat_eq_iff]) (simp add: unsigned_ucast_eq take_bit_eq_mod)
qed

lemma large_page_address:
  assumes va: "unat va < 2 ^ 32"
  defines "e \<equiv> 0x83 OR push_bit 21 (of_nat (unat va div 2 ^ 21)) :: u64"
  shows "e AND PRESENT \<noteq> 0" "e AND HUGE_PAGE \<noteq> 0"
    "(e AND ENTRY_ADDRESS_MASK AND NOT (mask 21)) OR (va AND mask 21) = va"
proof -
  have d: "(of_nat (unat va div 2 ^ 21) :: u64) = drop_bit 21 va"
  proof (rule iffD2 [OF word_unat_eq_iff])
    have "unat (drop_bit 21 va) = drop_bit 21 (unat va)" by (rule unat_drop_bit_eq)
    then have "unat (drop_bit 21 va) = unat va div 2 ^ 21" unfolding drop_bit_eq_div [of 21 "unat va"] .
    then show "unat (of_nat (unat va div 2 ^ 21) :: u64) = unat (drop_bit 21 va)"
      using va by (simp add: unat_of_nat)
  qed
  have top: "n < 32" if "bit va n" for n
  proof (rule ccontr)
    assume "\<not> n < 32"
    moreover have "take_bit 32 va = va"
    proof (rule iffD2 [OF word_unat_eq_iff])
      have "unat (take_bit 32 va) = take_bit 32 (unat va)" by (rule unsigned_take_bit_eq)
      then show "unat (take_bit 32 va) = unat va" using take_bit_nat_eq_self [OF va] by simp
    qed
    ultimately show False using that bit_take_bit_iff [of 32 va n] by simp
  qed
  show "e AND PRESENT \<noteq> 0" "e AND HUGE_PAGE \<noteq> 0"
    by (simp_all add: e_def present_iff huge_iff bit_or_iff bit_large_flags)
  show "(e AND ENTRY_ADDRESS_MASK AND NOT (mask 21)) OR (va AND mask 21) = va"
    unfolding e_def d
  proof (rule bit_word_eqI)
    fix k assume "k < LENGTH(64)"
    then show "bit (((0x83 OR push_bit 21 (drop_bit 21 va)) AND ENTRY_ADDRESS_MASK AND NOT (mask 21)) OR (va AND mask 21)) k = bit va k"
      using top [of k]
      unfolding bit_and_iff bit_or_iff bit_not_iff bit_mask_iff bit_large_flags bit_push_bit_iff bit_drop_bit_eq bit_address_mask
      by (auto simp: comp_def)
  qed
qed

lemma bootstrap_root: "(ucast t :: u64) AND ENTRY_ADDRESS_MASK = ucast t" if "tables_fit t"
proof -
  have al: "(ucast (t OR 3) :: u64) AND ENTRY_ADDRESS_MASK = ucast t"
    using that by (intro aligned_or(2)) (simp add: tables_fit_def)
  have "(ucast t :: u64) AND ENTRY_ADDRESS_MASK = (ucast (t OR 3) AND ENTRY_ADDRESS_MASK) AND ENTRY_ADDRESS_MASK"
    by (simp only: al)
  also have "\<dots> = ucast (t OR 3) AND ENTRY_ADDRESS_MASK" by (simp only: and.assoc and.idem)
  also have "\<dots> = ucast t" by (rule al)
  finally show ?thesis .
qed

lemma translate_identity:
  assumes fit: "tables_fit t" and tables: "identity_tables t m" and root: "cr3 m = ucast t" and va: "unat va < 2 ^ 32"
  shows "translate va m = Some va"
proof -
  define q where "q = unat va div 2 ^ 30"
  have q: "q < 4" "unat va div 2 ^ 30 mod 512 = q" using va by (auto simp: q_def)
  have n: "unat va div 2 ^ 21 < 2048" using va by auto
  have top: "unat va div 2 ^ 39 mod 512 = 0" using va by simp
  note p4 = bootstrap_root [OF fit]
  have e4: "table_entry (ucast t) 0 m = ucast (p3_table t OR 3)"
    using tables by (simp add: identity_tables_def table_entry_def unat_u64)
  have e3: "table_entry (ucast (p3_table t)) q m = ucast ((p2_tables t + of_nat q * 0x1000) OR 3)"
    using tables q(1) tables_fitD(1) [OF fit] by (simp add: identity_tables_def table_entry_def unat_u64)
  have "unat (p2_tables t + of_nat q * 0x1000) = unat t + 8192 + 4096 * q"
    using fit q(1) tables_fitD(2) [OF fit] by (simp add: unat_word_ariths unat_of_nat tables_fit_def)
  moreover have "unat va div 2 ^ 21 = 512 * q + unat va div 2 ^ 21 mod 512"
    using div_mult2_eq [of "unat va" "2 ^ 21" "2 ^ 9"] by (simp add: q_def)
  ultimately have "unat (p2_tables t + of_nat q * 0x1000) + 8 * (unat va div 2 ^ 21 mod 512) =
      unat t + 8192 + 8 * (unat va div 2 ^ 21)"
    by simp
  moreover have "read64 (phys m) (unat t + 8192 + 8 * (unat va div 2 ^ 21)) =
      ucast (0x83 + of_nat (unat va div 2 ^ 21) * 0x200000 :: u32)"
    using tables n unfolding identity_tables_def by blast
  ultimately have e2: "table_entry (ucast (p2_tables t + of_nat q * 0x1000)) (unat va div 2 ^ 21 mod 512) m =
      0x83 OR push_bit 21 (of_nat (unat va div 2 ^ 21))"
    unfolding table_entry_def unat_u64 large_page [OF n] by simp
  have p: "(ucast (x OR 3) :: u64) AND PRESENT \<noteq> 0" "(ucast (x OR 3) :: u64) AND HUGE_PAGE = 0" if "x AND 0xFFF = 0" for x :: u32
    using aligned_or(3,4) [OF that] by (simp_all add: present_iff huge_iff bit_ucast_iff)
  note a = tables_aligned [OF fit]
  have "translate_from [21, 12] va (ucast (p2_tables t + of_nat q * 0x1000)) m = Some va"
    unfolding translate_from.simps(2) Let_def table_index_nat e2
    using large_page_address [OF va] by simp
  then have "translate_from [30, 21, 12] va (ucast (p3_table t)) m = Some va"
    unfolding translate_from.simps(2) [of 30] Let_def table_index_nat q(2) e3 aligned_or(2) [OF a(2)]
    using p [OF a(2)] by simp
  then have "translate_from [39, 30, 21, 12] va (ucast t) m = Some va"
    unfolding translate_from.simps(2) [of 39] Let_def table_index_nat top e4 aligned_or(2) [OF a(1)]
    using p [OF a(1)] by simp
  then show ?thesis by (simp add: translate_def root p4)
qed

text \<open>Nothing above 4 GiB is mapped; the processor refuses addresses that are not canonical.\<close>

definition canonical :: "u64 \<Rightarrow> bool" where
  "canonical va \<longleftrightarrow> unat va < 2 ^ 47 \<or> 2 ^ 64 - 2 ^ 47 \<le> unat va"

lemma bootstrap_upper:
  assumes fit: "tables_fit t" and va: "canonical va" "2 ^ 32 \<le> unat va"
  shows "translate va (bootstrap t m) = None"
proof -
  have cr3: "cr3 (bootstrap t m) = ucast t" by (simp add: bootstrap_def)
  show ?thesis
  proof (cases "unat va div 2 ^ 39 mod 512 = 0")
  case True
  have "unat va < 2 ^ LENGTH(64)" by (rule unsigned_less)
  then have bound: "unat va div 2 ^ 39 < 2 ^ 25" by auto
  obtain k where k: "unat va div 2 ^ 39 = 512 * k" using True by (auto elim!: dvdE)
  have low: "unat va < 2 ^ 39"
  proof (rule ccontr)
    assume "\<not> unat va < 2 ^ 39"
    then have "0 < unat va div 2 ^ 39" by (simp add: div_greater_zero_iff)
    then have "256 \<le> unat va div 2 ^ 39" using k by simp
    then have "2 ^ 47 \<le> unat va" by (simp add: div_le_dividend less_eq_div_iff_mult_less_eq)
    then have "2 ^ 64 - 2 ^ 47 \<le> unat va" using va(1) by (simp add: canonical_def)
    then have "2 ^ 25 - 256 \<le> unat va div 2 ^ 39" by (simp add: less_eq_div_iff_mult_less_eq)
    then show False using k bound by simp
  qed
  define q where "q = unat va div 2 ^ 30"
  have q: "4 \<le> q" "q < 512" using low va(2) by (auto simp: q_def)
  then have i: "unat va div 2 ^ 30 mod 512 = q" by (simp add: q_def)
  have e4: "table_entry (ucast t) 0 (bootstrap t m) = ucast (p3_table t OR 3)"
    using upper_read [OF fit, of 0 m] by (simp add: table_entry_def unat_u64 upper_entry_def)
  have "upper_entry t (4096 + 8 * q) = 0" using q by (simp add: upper_entry_def)
  then have e3: "table_entry (ucast (p3_table t)) q (bootstrap t m) = 0"
    using upper_read [OF fit, of "4096 + 8 * q" m] q tables_fitD(1) [OF fit]
    by (simp add: table_entry_def unat_u64 add.assoc mod_simps)
  note a = aligned_or [OF tables_aligned(1) [OF fit]]
  show ?thesis
    unfolding translate_def cr3 bootstrap_root [OF fit] translate_from.simps(2) Let_def table_index_nat True i e4 a(2) e3
    by simp
next
  case False
  define q where "q = unat va div 2 ^ 39 mod 512"
  have q: "0 < q" "q < 512" using False by (auto simp: q_def)
  then have "upper_entry t (8 * q) = 0" by (auto simp: upper_entry_def)
  then have "table_entry (ucast t) q (bootstrap t m) = 0"
    using upper_read [OF fit, of "8 * q" m] q by (simp add: table_entry_def unat_u64)
  then show ?thesis
    unfolding translate_def cr3 bootstrap_root [OF fit] translate_from.simps(2) Let_def table_index_nat q_def [symmetric]
    by simp
  qed
qed

theorem bootstrap_maps_identity:
  assumes "tables_fit t" and "bss_clear t m" and "canonical va"
  shows "translate va (bootstrap t m) = (if unat va < 2 ^ 32 then Some va else None)"
proof (cases "unat va < 2 ^ 32")
  case True
  moreover have "cr3 (bootstrap t m) = ucast t" by (simp add: bootstrap_def)
  ultimately show ?thesis
    using translate_identity [OF assms(1) identity_bootstrap [OF assms(1,2)]] by simp
next
  case False
  then show ?thesis using bootstrap_upper [OF assms(1,3), of m] by simp
qed

end
