(* ===== verification/BootAdapters.thy ===== *)
theory BootAdapters
  imports Bootstrap Traps
begin

text \<open>
  The two ways into the kernel, \<open>limine-adapter/src/main.rs\<close> and \<open>multiboot2-adapter/src/main.rs\<close>:
  what the boot loader says of memory, modules and the screen becomes the first state of the
  machine.  What the crates for the protocols answer is an argument.
\<close>

section \<open>Limine\<close>

record limine_framebuffer =
  limine_width :: u64
  limine_height :: u64
  limine_pitch :: u64
  limine_bpp :: u16

record limine_entry_type =
  entry_base :: u64
  entry_length :: u64
  entry_usable :: bool

record limine_module =
  module_addr :: u64
  module_size :: u64
  module_string :: "u8 list"

text \<open>The responses to the requests; a missing one is None.\<close>

record limine_responses =
  revision_supported :: bool
  framebuffer_response :: "limine_framebuffer list option"
  executable_response :: "(u64 \<times> u64) option"
  hhdm_response :: "u64 option"
  memory_map_response :: "limine_entry_type list option"
  module_response :: "limine_module list option"

definition limine_display :: "limine_responses \<Rightarrow> display" where
  "limine_display r =
     (case framebuffer_response r of
        Some (fb # _) \<Rightarrow> DisplayFramebuffer \<lparr>fb_address = Primary, fb_width = unat (limine_width fb),
          fb_height = unat (limine_height fb), fb_pitch = unat (limine_pitch fb), bits_per_pixel = unat (limine_bpp fb)\<rparr>
      | _ \<Rightarrow> DisplayNone)"

text \<open>The physical base and the virtual base of the executable, and the symbols of the linker.\<close>

definition limine_kernel_range :: "limine_responses \<Rightarrow> u64 \<Rightarrow> u64 \<Rightarrow> memory_range" where
  "limine_kernel_range r kernel_start kernel_end =
     (case executable_response r of
        None \<Rightarrow> \<lparr>range_base = 0, range_length = 0\<rparr>
      | Some (physical_base, virtual_base) \<Rightarrow>
          \<lparr>range_base = physical_base + (kernel_start - virtual_base), range_length = kernel_end - kernel_start\<rparr>)"

definition limine_offset :: "limine_responses \<Rightarrow> u64" where
  "limine_offset r = (case hhdm_response r of None \<Rightarrow> 0 | Some offset \<Rightarrow> offset)"

definition limine_regions :: "limine_responses \<Rightarrow> memory_region list" where
  "limine_regions r =
     map (\<lambda>e. \<lparr>region_base = entry_base e, region_length = entry_length e,
       region_kind = (if entry_usable e then Usable else Reserved)\<rparr>)
       (case memory_map_response r of None \<Rightarrow> [] | Some entries \<Rightarrow> entries)"

definition limine_modules :: "limine_responses \<Rightarrow> limine_module list" where
  "limine_modules r = (case module_response r of None \<Rightarrow> [] | Some modules \<Rightarrow> modules)"

definition module_range :: "limine_responses \<Rightarrow> limine_module \<Rightarrow> memory_range" where
  "module_range r module =
     \<lparr>range_base = (if limine_offset r \<le> module_addr module then module_addr module - limine_offset r
        else module_addr module),
      range_length = module_size module\<rparr>"

text \<open>
  The bytes of a module stay in place; the boot loader has mapped them where the adapter finds
  them, at the offset of its direct map.
\<close>

definition range_bytes :: "memory_range \<Rightarrow> memory \<Rightarrow> u8 list" where
  "range_bytes extent m = map (\<lambda>i. phys m (unat (range_base extent) + i)) [0..<unat (range_length extent)]"

definition limine_files :: "limine_responses \<Rightarrow> memory \<Rightarrow> (u8 list \<times> u8 list) list" where
  "limine_files r m =
     List.map_filter (\<lambda>module.
       if module_string module \<in> {ascii ''std-smoke'', ascii ''console'', ascii ''init''}
       then Some (module_string module, range_bytes (module_range r module) m) else None)
     (limine_modules r)"

definition limine_ranges :: "limine_responses \<Rightarrow> u64 \<Rightarrow> u64 \<Rightarrow> memory_range list" where
  "limine_ranges r kernel_start kernel_end =
     limine_kernel_range r kernel_start kernel_end # map (module_range r) (limine_modules r)"

definition limine_memory :: "limine_responses \<Rightarrow> u64 \<Rightarrow> u64 \<Rightarrow> memory \<Rightarrow> memory" where
  "limine_memory r kernel_start kernel_end m =
     (let kernel_range = limine_kernel_range r kernel_start kernel_end;
          m = boot_memory (limine_regions r) (limine_ranges r kernel_start kernel_end) m
      in snd (initialize_virtual_memory \<lparr>physical_memory_offset = limine_offset r,
           kernel_virtual_base = kernel_start, kernel_physical_base = range_base kernel_range,
           kernel_size = range_length kernel_range\<rparr> m))"

text \<open>The bits of the control registers that \<open>enable_sse\<close> clears and sets.\<close>

definition enable_sse :: "control \<Rightarrow> control" where
  "enable_sse c = c\<lparr>control_cr0 := (control_cr0 c AND NOT (push_bit 2 1)) OR push_bit 1 1,
     control_cr4 := control_cr4 c OR (push_bit 9 1 OR push_bit 10 1)\<rparr>"

definition limine_entry ::
  "'d hardware \<Rightarrow> trap_code \<Rightarrow> code_addresses \<Rightarrow> limine_responses \<Rightarrow> u64 \<Rightarrow> u64 \<Rightarrow> 'd \<Rightarrow> memory \<Rightarrow>
   (nat \<Rightarrow> u8) \<Rightarrow> outcome \<times> 'd machine" where
  "limine_entry hw tc ca r kernel_start kernel_end d m pixels =
     (let status = (if revision_supported r then BootReady else InvalidBootInfo);
          m = limine_memory r kernel_start kernel_end m
      in run_state (boot hw tc \<lparr>display = limine_display r, bootloader = ascii ''Limine'', boot_status = status\<rparr>)
           (machine_initial d m ca (limine_files r m) pixels))"

section \<open>Multiboot2\<close>

record multiboot_framebuffer =
  multiboot_width :: u32
  multiboot_height :: u32
  multiboot_pitch :: u32
  multiboot_bpp :: u8

record multiboot_area =
  area_start :: u64
  area_size :: u64
  area_available :: bool

text \<open>A command line that is not valid text is None.\<close>

record multiboot_module =
  start_address :: u32
  multiboot_size :: u32
  cmdline :: "u8 list option"

text \<open>What the boot information says; a framebuffer of an unknown type is an error of the crate.\<close>

record boot_information =
  framebuffer_tag :: "(unit + multiboot_framebuffer) option"
  memory_map_tag :: "multiboot_area list option"
  module_tags :: "multiboot_module list"

definition multiboot_display :: "boot_information \<Rightarrow> display" where
  "multiboot_display b =
     (case framebuffer_tag b of
        Some (Inr fb) \<Rightarrow>
          (if multiboot_bpp fb = 32
           then DisplayFramebuffer \<lparr>fb_address = Primary, fb_width = unat (multiboot_width fb),
             fb_height = unat (multiboot_height fb), fb_pitch = unat (multiboot_pitch fb),
             bits_per_pixel = unat (multiboot_bpp fb)\<rparr>
           else VgaText)
      | _ \<Rightarrow> VgaText)"

definition multiboot_regions :: "boot_information \<Rightarrow> memory_region list" where
  "multiboot_regions b =
     map (\<lambda>a. \<lparr>region_base = area_start a, region_length = area_size a,
       region_kind = (if area_available a then Usable else Reserved)\<rparr>)
       (case memory_map_tag b of None \<Rightarrow> [] | Some areas \<Rightarrow> areas)"

definition multiboot_module_range :: "multiboot_module \<Rightarrow> memory_range" where
  "multiboot_module_range module =
     \<lparr>range_base = ucast (start_address module), range_length = ucast (multiboot_size module)\<rparr>"

definition multiboot_ranges :: "boot_information \<Rightarrow> u64 \<Rightarrow> u64 \<Rightarrow> memory_range list" where
  "multiboot_ranges b kernel_start kernel_end =
     \<lparr>range_base = kernel_start, range_length = kernel_end - kernel_start\<rparr> #
     map multiboot_module_range (module_tags b)"

text \<open>Every module that is not one of the two programs is the first process.\<close>

definition multiboot_files :: "boot_information \<Rightarrow> memory \<Rightarrow> (u8 list \<times> u8 list) list" where
  "multiboot_files b m =
     map (\<lambda>module.
       (if cmdline module = Some (ascii ''std-smoke'') then ascii ''std-smoke''
        else if cmdline module = Some (ascii ''console'') then ascii ''console''
        else ascii ''init'',
        range_bytes (multiboot_module_range module) m)) (module_tags b)"

definition multiboot_paging :: "boot_information \<Rightarrow> u64 \<Rightarrow> u64 \<Rightarrow> memory \<Rightarrow> (paging_error + unit) \<times> memory" where
  "multiboot_paging b kernel_start kernel_end m =
     initialize_virtual_memory \<lparr>physical_memory_offset = 0, kernel_virtual_base = kernel_start,
         kernel_physical_base = kernel_start, kernel_size = kernel_end - kernel_start\<rparr>
       (boot_memory (multiboot_regions b) (multiboot_ranges b kernel_start kernel_end) m)"

text \<open>
  \<open>handoff_magic\<close> is the constant of the crate and \<open>loaded\<close> what it makes of the boot information.
  With a wrong number or a failure, \<open>boot\<close> is told so and does not return.
\<close>

definition kernel_main ::
  "'d hardware \<Rightarrow> trap_code \<Rightarrow> code_addresses \<Rightarrow> u32 \<Rightarrow> u32 \<Rightarrow> (unit + boot_information) \<Rightarrow> u64 \<Rightarrow> u64 \<Rightarrow> 'd \<Rightarrow>
   memory \<Rightarrow> (nat \<Rightarrow> u8) \<Rightarrow> outcome \<times> 'd machine" where
  "kernel_main hw tc ca handoff_magic magic loaded kernel_start kernel_end d m pixels =
     (let loader = ascii ''GRUB Multiboot2'';
          invalid = run_state (boot hw tc \<lparr>display = VgaText, bootloader = loader, boot_status = InvalidBootInfo\<rparr>)
            (machine_initial d (boot_memory [] [] m) ca [] pixels)
      in if magic \<noteq> handoff_magic then invalid
         else case loaded of
             Inl _ \<Rightarrow> invalid
           | Inr b \<Rightarrow>
               let m = snd (multiboot_paging b kernel_start kernel_end m)
               in run_state (boot hw tc \<lparr>display = multiboot_display b, bootloader = loader, boot_status = BootReady\<rparr>)
                    (machine_initial d m ca (multiboot_files b m) pixels))"

section \<open>Panic\<close>

text \<open>The panic handlers of both adapters call \<open>panic\<close> of \<open>kernel-core/src/lib.rs\<close>.\<close>

definition kernel_panic :: "'d hardware \<Rightarrow> ('d machine, outcome) state" where
  "kernel_panic hw = do {
     com1_write hw (ascii ''open-kernel: panic'' @ CRLF);
     State_Monad.return Halted
   }"

section \<open>What the allocator manages\<close>

definition range_addresses :: "memory_range \<Rightarrow> nat set" where
  "range_addresses extent = {unat (range_base extent) ..< unat (range_base extent) + unat (range_length extent)}"

definition frame_addresses :: "u64 \<Rightarrow> nat set" where
  "frame_addresses frame = {unat frame ..< unat frame + 4096}"

definition usable_addresses :: "memory_region list \<Rightarrow> nat set" where
  "usable_addresses regions =
     (\<Union>r \<in> {r \<in> set regions. region_kind r = Usable}. {unat (region_base r) ..< unat (region_base r) + unat (region_length r)})"

lemma pool_boot:
  "pool (boot_memory regions ranges m) = frame_address ` {f. f < MAX_PHYSICAL_FRAMES \<and> 256 \<le> f \<and>
     usable_frame regions f \<and> \<not> touched_frame ranges f}"
proof -
  obtain stats s' where s: "frames_initialize regions ranges (mem_frames m) = (stats, s')" by fastforce
  then show ?thesis using frames_initialized [of regions ranges "mem_frames m"]
    by (simp add: pool_def boot_memory_def avail_frames_def owned_frames_def)
qed


lemma pool_boot_inside:
  assumes "a \<in> pool (boot_memory regions ranges m)"
  shows "frame_addresses a \<subseteq> usable_addresses regions - (\<Union> (range_addresses ` set ranges)) - {..<2 ^ 20}"
proof -
  obtain f where f: "a = frame_address f" "f < MAX_PHYSICAL_FRAMES" "256 \<le> f" "usable_frame regions f"
    "\<not> touched_frame ranges f"
    using assms by (auto simp: pool_boot)
  have a: "frame_addresses a = {4096 * f ..< 4096 * f + 4096}"
    using f(1,2) by (simp add: frame_addresses_def unat_frame_address mult.commute)
  have "frame_addresses a \<subseteq> usable_addresses regions"
    using f(4) unfolding a usable_frame_def usable_addresses_def by (fastforce simp: list_ex_iff)
  moreover have "frame_addresses a \<inter> range_addresses r = {}" if "r \<in> set ranges" for r
    using f(5) that unfolding a touched_frame_def range_addresses_def by (fastforce simp: list_ex_iff)
  moreover have "frame_addresses a \<inter> {..<2 ^ 20} = {}" using f(3) by (auto simp: a)
  ultimately show ?thesis by blast
qed


section \<open>New tables in fresh frames\<close>

lemma zero_table_outside: "k \<notin> frame_addresses u \<Longrightarrow> phys (zero_table u m) k = phys m k"
proof -
  have "phys (fold (\<lambda>j m. set_entry u j 0 m) is m) k = phys m k"
    if "k \<notin> frame_addresses u" "set is \<subseteq> {..<512}" for "is"
    using that(2)
  proof (induction "is" arbitrary: m)
    case (Cons j "is")
    then show ?case using that(1) by (auto simp: set_entry_def write64_def frame_addresses_def)
  qed simp
  from this [of "[0..<512]"] show "k \<notin> frame_addresses u \<Longrightarrow> phys (zero_table u m) k = phys m k"
    unfolding zero_table_def by (simp add: lessThan_atLeast0 del: upt.simps)
qed

lemma entry_kept:
  assumes "\<And>k. k \<in> frame_addresses t \<Longrightarrow> phys m' k = phys m k" and "i < 512"
  shows "table_entry t i m' = table_entry t i m"
  unfolding table_entry_def using assms by (intro read64_cong) (auto simp: frame_addresses_def)

lemma frames_apart: "frame_ok t \<Longrightarrow> frame_ok u \<Longrightarrow> t \<noteq> u \<Longrightarrow> frame_addresses t \<inter> frame_addresses u = {}"
  using frame_gap [of t u] by (auto simp: frame_addresses_def)

lemma avail_ok: "f \<in> avail_frames s \<Longrightarrow> frame_ok f"
  using fa.frame_aligned [of f s] by (auto simp: frame_ok_def)

lemma finite_avail: "finite (avail_frames s)"
  by (simp add: avail_frames_def free_set_def)

lemma walk_create_fresh:
  assumes "frames_inv (mem_frames m)" and "frame_ok t" and "t \<notin> avail_frames (mem_frames m)" and "is \<noteq> []"
    and "list_all (\<lambda>i. i < 512) is" and "table_entry t (hd is) m AND PRESENT = 0"
    and "walk_create flags is t m = (res, m')"
  shows "(\<forall>k. phys m' k \<noteq> phys m k \<longrightarrow> unat t + 8 * hd is \<le> k \<and> k < unat t + 8 * hd is + 8 \<or>
      k \<in> \<Union> (frame_addresses ` avail_frames (mem_frames m))) \<and> cr3 m' = cr3 m \<and>
    avail_frames (mem_frames m') \<subseteq> avail_frames (mem_frames m) \<and>
    ((\<exists>u. res = Inr u \<and> u \<in> avail_frames (mem_frames m) \<and> (\<forall>j < 512. table_entry u j m' = 0) \<and>
        (\<forall>j v. j < 512 \<longrightarrow> walk_present is t (set_entry u j v m') = Some u)) \<or>
     (\<exists>e. res = Inl e \<and> card (avail_frames (mem_frames m)) < length is))"
  using assms
proof (induction "is" arbitrary: t m)
  case (Cons i "is")
  let ?A = "avail_frames (mem_frames m)"
  have i: "i < 512" using Cons.prems(5) by simp
  note tok = Cons.prems(2)
  obtain x m1 where al: "allocate_physical_frame m = (x, m1)" by fastforce
  then obtain fs where fs: "frames_allocate (mem_frames m) = (x, fs)" "m1 = m\<lparr>mem_frames := fs\<rparr>"
    by (auto simp: allocate_physical_frame_def split: prod.splits)
  show ?case
  proof (cases x)
    case None
    then have "?A = {}" "fs = mem_frames m" using fa.allocate_None fs(1) by blast+
    moreover have "m' = m1" "res = Inl FrameAllocationFailed" using Cons.prems(6,7) al None by (simp_all add: Let_def)
    ultimately show ?thesis using fs(2) by simp
  next
    case (Some f)
    have A: "f \<in> ?A" "avail_frames fs = ?A - {f}" using fa.allocate_Some fs(1) Some by blast+
    note fok = avail_ok [OF A(1)]
    have tf: "t \<noteq> f" using A(1) Cons.prems(3) by blast
    define m3 where "m3 = zero_table f (set_entry t i (table_bits flags f) m1)"
    have m3: "cr3 m3 = cr3 m" "mem_frames m3 = fs" by (simp_all add: m3_def fs(2))
    have entry: "table_entry t i m3 = table_bits flags f"
      using tok fok tf i by (simp add: m3_def zero_table_entries table_entry_set)
    have zero: "table_entry f j m3 = 0" if "j < 512" for j
      using that fok by (simp add: m3_def zero_table_entries)
    have changed: "unat t + 8 * i \<le> k \<and> k < unat t + 8 * i + 8 \<or> k \<in> frame_addresses f" if "phys m3 k \<noteq> phys m k" for k
      using that zero_table_outside [of k f "set_entry t i (table_bits flags f) m1"]
      by (auto simp: m3_def fs(2) set_entry_def write64_def split: if_splits)
    have rec: "walk_create flags is f m3 = (res, m')"
      using Cons.prems(6,7) al Some entry by (simp add: Let_def m3_def [symmetric] table_value(1) [OF fok])
    have grow: "card (?A - {f}) < length is \<Longrightarrow> card ?A < length (i # is)"
      using A(1) finite_avail [of "mem_frames m"] by (simp add: card_Diff_singleton)
    have path: "walk_present (i # is) t (set_entry u j v m') = walk_present is f (set_entry u j v m')"
      if "u \<in> ?A" "j < 512" "table_entry t i m' = table_bits flags f" for u j v
    proof -
      have "t \<noteq> u" using that(1) Cons.prems(3) by blast
      then show ?thesis
        using table_entry_set [OF tok avail_ok [OF that(1)] i that(2), of v m'] that(3) table_value [OF fok]
        by (simp add: Let_def)
    qed
    show ?thesis
    proof (cases "is = []")
      case True
      then have r: "res = Inr f" "m' = m3" using rec by simp_all
      have "\<forall>k. phys m3 k \<noteq> phys m k \<longrightarrow> unat t + 8 * i \<le> k \<and> k < unat t + 8 * i + 8 \<or>
          k \<in> \<Union> (frame_addresses ` ?A)"
        using changed A(1) by blast
      moreover have "walk_present [i] t (set_entry f j v m3) = Some f" if "j < 512" for j v
        using path [of f j v] A(1) that entry True r(2) by simp
      ultimately show ?thesis using True r m3 A zero by auto
    next
      case False
      have "frames_inv (mem_frames m3)" using fa.valid_allocate [OF Cons.prems(1) fs(1)] by (simp add: m3(2))
      note IH = Cons.IH [OF this fok _ False _ _ rec]
      have R: "(\<forall>k. phys m' k \<noteq> phys m3 k \<longrightarrow> unat f + 8 * hd is \<le> k \<and> k < unat f + 8 * hd is + 8 \<or>
          k \<in> \<Union> (frame_addresses ` (?A - {f}))) \<and> cr3 m' = cr3 m3 \<and> avail_frames (mem_frames m') \<subseteq> ?A - {f} \<and>
        ((\<exists>u. res = Inr u \<and> u \<in> ?A - {f} \<and> (\<forall>j < 512. table_entry u j m' = 0) \<and>
          (\<forall>j v. j < 512 \<longrightarrow> walk_present is f (set_entry u j v m') = Some u)) \<or>
         (\<exists>e. res = Inl e \<and> card (?A - {f}) < length is))"
        using IH False zero Cons.prems(5) A by (cases "is") (simp_all add: m3(2))
      have hd: "hd is < 512" using False Cons.prems(5) by (cases "is") simp_all
      have later: "k \<in> \<Union> (frame_addresses ` ?A)" if "phys m' k \<noteq> phys m3 k" for k
      proof -
        have "unat f + 8 * hd is \<le> k \<and> k < unat f + 8 * hd is + 8 \<or> k \<in> \<Union> (frame_addresses ` (?A - {f}))"
          using that by (rule conjunct1 [OF R, THEN spec, THEN mp])
        then show ?thesis
        proof
          assume "unat f + 8 * hd is \<le> k \<and> k < unat f + 8 * hd is + 8"
          then have "k \<in> frame_addresses f" using hd by (simp add: frame_addresses_def)
          then show ?thesis using A(1) by (rule UN_I [rotated])
        qed auto
      qed
      have "phys m' k = phys m3 k" if "k \<in> frame_addresses t" for k
        using later [of k] that frames_apart [OF tok avail_ok] Cons.prems(3) by blast
      then have e: "table_entry t i m' = table_bits flags f" using entry_kept [of t m' m3 i] i entry by simp
      show ?thesis
      proof (intro conjI allI impI)
        fix k assume "phys m' k \<noteq> phys m k"
        then show "unat t + 8 * hd (i # is) \<le> k \<and> k < unat t + 8 * hd (i # is) + 8 \<or> k \<in> \<Union> (frame_addresses ` ?A)"
          using changed [of k] later [of k] A(1) by (cases "phys m' k = phys m3 k") auto
      next
        show "cr3 m' = cr3 m" "avail_frames (mem_frames m') \<subseteq> ?A" using R m3(1) by auto
      next
        consider u where "res = Inr u" "u \<in> ?A" "\<forall>j < 512. table_entry u j m' = 0"
            "\<forall>j v. j < 512 \<longrightarrow> walk_present is f (set_entry u j v m') = Some u"
          | e where "res = Inl e" "card ?A < length (i # is)"
          using R grow by auto
        then show "(\<exists>u. res = Inr u \<and> u \<in> ?A \<and> (\<forall>j < 512. table_entry u j m' = 0) \<and>
            (\<forall>j v. j < 512 \<longrightarrow> walk_present (i # is) t (set_entry u j v m') = Some u)) \<or>
            (\<exists>e. res = Inl e \<and> card ?A < length (i # is))"
        proof cases
          case (1 u)
          then show ?thesis
            using path [OF 1(2) _ e] by (intro disjI1 exI [of _ u]) (simp del: walk_present.simps)
        qed blast
      qed
    qed
  qed
qed simp

section \<open>The address space after Multiboot2\<close>

lemma translate_present:
  assumes "walk_present (take 3 (table_indices va)) (cr3 m AND ENTRY_ADDRESS_MASK) m = Some u"
    and "table_entry u (table_indices va ! 3) m AND PRESENT \<noteq> 0"
  shows "translate va m =
    Some ((table_entry u (table_indices va ! 3) m AND ENTRY_ADDRESS_MASK AND NOT (mask 12)) OR (va AND mask 12))"
  using assms unfolding translate_def table_indices_def
  by (auto simp: Let_def split: if_splits)

lemma device_window_indices: "table_indices DEVICE_WINDOW_BASE = [510, 0, 0, 0]"
  by (simp add: table_indices_nat DEVICE_WINDOW_BASE_def)

lemma device_leaf: "((0xB8000 AND ENTRY_ADDRESS_MASK) OR flag_bits Device) AND ENTRY_ADDRESS_MASK AND NOT (mask 12) = (0xB8000 :: u64)"
  unfolding and.assoc [symmetric] leaf_value(1) by (simp add: ENTRY_ADDRESS_MASK_def mask_eq_exp_minus_1)

text \<open>The tables lie in the image of the kernel, which no frame of the allocator overlaps.\<close>

lemma tables_apart:
  assumes "unat kernel_start \<le> unat t" and "unat t + 24576 \<le> unat kernel_end"
    and f: "f \<in> avail_frames (mem_frames (boot_memory regions (multiboot_ranges b kernel_start kernel_end) m))"
  shows "frame_addresses f \<inter> {unat t ..< unat t + 24576} = {}"
proof -
  let ?r = "\<lparr>range_base = kernel_start, range_length = kernel_end - kernel_start\<rparr>"
  have "kernel_start \<le> kernel_end" using assms(1,2) by (simp add: word_le_nat_alt)
  then have "unat (kernel_end - kernel_start) = unat kernel_end - unat kernel_start" by (rule unat_sub)
  then have "{unat t ..< unat t + 24576} \<subseteq> range_addresses ?r"
    using assms(1,2) by (auto simp: range_addresses_def)
  moreover have "frame_addresses f \<inter> range_addresses ?r = {}"
    using pool_boot_inside [of f regions "multiboot_ranges b kernel_start kernel_end" m] f
    by (auto simp: pool_def multiboot_ranges_def)
  ultimately show ?thesis by blast
qed

text \<open>
  C37: after the start through GRUB the kernel reaches all memory it manages.  The page tables of the
  assembly, with the one page the kernel adds to them, map every address below 4 GiB to itself, for
  tables within the image of the kernel and whatever the boot information says; and with three
  frames to take tables from, the window for devices begins with the text buffer of the screen.
\<close>

theorem multiboot_direct_map:
  assumes "tables_fit t" and "bss_clear t m"
    and "unat kernel_start \<le> unat t" and "unat t + 24576 \<le> unat kernel_end"
  shows "case multiboot_paging b kernel_start kernel_end (bootstrap t m) of (res, m') \<Rightarrow>
    {va. unat va < 2 ^ 32} \<subseteq> {va. translate va m' = Some va} \<and>
    (if 3 \<le> card (pool (boot_memory (multiboot_regions b) (multiboot_ranges b kernel_start kernel_end) m))
     then res = Inr () \<and> translate DEVICE_WINDOW_BASE m' = Some 0xB8000 else True)"
proof -
  let ?b = "bootstrap t m"
  let ?ranges = "multiboot_ranges b kernel_start kernel_end"
  define m0 where "m0 = (boot_memory (multiboot_regions b) ?ranges ?b)\<lparr>phys_offset := 0\<rparr>"
  let ?A = "avail_frames (mem_frames m0)"
  have m0: "phys m0 = phys ?b" "cr3 m0 = ucast t" by (simp_all add: m0_def boot_memory_def bootstrap_def)
  have root: "cr3 m0 AND ENTRY_ADDRESS_MASK = ucast t" using bootstrap_root [OF assms(1)] m0(2) by simp
  have inv: "frames_inv (mem_frames m0)" using boot_memory_inv(1) by (simp add: m0_def)
  have owned: "owned_frames (mem_frames m0) = {}" using boot_memory_inv(2) by (simp add: m0_def)
  have apart: "frame_addresses f \<inter> {unat t ..< unat t + 24576} = {}" if "f \<in> ?A" for f
    using that tables_apart [OF assms(3,4), of f "multiboot_regions b" b ?b] by (simp add: m0_def)
  have tok: "frame_ok (ucast t)"
  proof -
    have "unat t < 2 ^ LENGTH(32)" by (rule unsigned_less)
    then show ?thesis using assms(1) by (simp add: frame_ok_def unat_u64 tables_fit_def aligned_unat)
  qed
  have tA: "ucast t \<notin> ?A" using apart [of "ucast t"] by (auto simp: frame_addresses_def unat_u64)
  have empty: "table_entry (ucast t) 510 m0 = 0"
    using upper_read [OF assms(1), of 4080 m] by (simp add: table_entry_def unat_u64 m0(1) upper_entry_def)
  obtain w m1 where w: "walk_create Device [510, 0, 0] (ucast t) m0 = (w, m1)" by fastforce
  have W: "(\<forall>k. phys m1 k \<noteq> phys m0 k \<longrightarrow> unat t + 4080 \<le> k \<and> k < unat t + 4088 \<or>
      k \<in> \<Union> (frame_addresses ` ?A)) \<and> cr3 m1 = ucast t"
    "(\<exists>u. w = Inr u \<and> u \<in> ?A \<and> (\<forall>j < 512. table_entry u j m1 = 0) \<and>
        (\<forall>j v. j < 512 \<longrightarrow> walk_present [510, 0, 0] (ucast t) (set_entry u j v m1) = Some u)) \<or>
     (\<exists>e. w = Inl e \<and> card ?A < 3)"
    using walk_create_fresh [OF inv tok tA _ _ _ w] empty
    by (simp_all add: unat_u64 m0(2) add.commute numeral_3_eq_3 del: walk_present.simps)
  let ?leaf = "(0xB8000 AND ENTRY_ADDRESS_MASK) OR flag_bits Device"
  obtain res m' where r: "multiboot_paging b kernel_start kernel_end ?b = (res, m')" by fastforce
  have m': "(res, m') = (case w of Inl e \<Rightarrow> (Inl e, m1) | Inr u \<Rightarrow>
      if table_entry u 0 m1 AND PRESENT \<noteq> 0 then (Inl AlreadyMapped, m1) else (Inr (), set_entry u 0 ?leaf m1))"
  proof -
    have "multiboot_paging b kernel_start kernel_end ?b = map_page_in (cr3 m0) DEVICE_WINDOW_BASE 0xB8000 Device m0"
      by (simp add: multiboot_paging_def initialize_virtual_memory_def map_page_def m0_def)
    then show ?thesis
      unfolding map_page_in_def device_window_indices root r
      by (simp add: w nth_Cons' split: sum.splits del: walk_create.simps flag_bits.simps)
  qed
  have phys: "phys m' k = phys ?b k" if "unat t \<le> k" "k < unat t + 24576" "k < unat t + 4080 \<or> unat t + 4088 \<le> k" for k
  proof -
    have k: "k \<notin> frame_addresses f" if "f \<in> ?A" for f using apart [OF that] \<open>unat t \<le> k\<close> \<open>k < unat t + 24576\<close> by auto
    have "phys m1 k = phys m0 k" using W(1) k that(3) by force
    moreover have "phys (set_entry u 0 ?leaf m1) k = phys m1 k" if "u \<in> ?A" for u
      using k [OF that] by (auto simp: set_entry_def write64_def frame_addresses_def)
    ultimately show ?thesis using m' W(2) m0(1) by (auto split: if_splits)
  qed
  have "identity_tables t ?b" by (rule identity_bootstrap [OF assms(1,2)])
  moreover have "read64 (phys m') a = read64 (phys ?b) a"
    if "unat t \<le> a" "a + 8 \<le> unat t + 24576" "a + 8 \<le> unat t + 4080 \<or> unat t + 4088 \<le> a" for a
    by (rule read64_cong) (use that in \<open>auto intro!: phys\<close>)
  ultimately have "identity_tables t m'" by (simp add: identity_tables_def)
  moreover have "cr3 m' = ucast t" using m' W by (auto split: if_splits)
  ultimately have identity: "{va. unat va < 2 ^ 32} \<subseteq> {va. translate va m' = Some va}"
    using translate_identity [OF assms(1)] by auto
  have window: "res = Inr () \<and> translate DEVICE_WINDOW_BASE m' = Some 0xB8000" if three: "3 \<le> card ?A"
  proof -
    obtain u where u: "w = Inr u" "u \<in> ?A" "table_entry u 0 m1 = 0" "walk_present [510, 0, 0] (ucast t) (set_entry u 0 ?leaf m1) = Some u"
      using W(2) three by (elim disjE exE conjE) (simp_all del: walk_present.simps)
    then have e: "res = Inr ()" "m' = set_entry u 0 ?leaf m1" using m' by simp_all
    have "table_entry u 0 m' = ?leaf"
      using table_entry_set [OF avail_ok [OF u(2)] avail_ok [OF u(2)], of 0 0] by (simp add: e(2))
    moreover have "cr3 m' AND ENTRY_ADDRESS_MASK = ucast t"
      using bootstrap_root [OF assms(1)] W(1) by (simp add: e(2))
    moreover have "DEVICE_WINDOW_BASE AND mask 12 = 0"
      by (simp add: DEVICE_WINDOW_BASE_def mask_eq_exp_minus_1)
    ultimately have "translate DEVICE_WINDOW_BASE m' = Some 0xB8000"
      using translate_present [of DEVICE_WINDOW_BASE m' u] u(4) leaf_value(2) [of _ Device] device_leaf
      by (simp add: device_window_indices e(2) del: walk_present.simps flag_bits.simps)
    then show ?thesis using e(1) by simp
  qed
  have "pool (boot_memory (multiboot_regions b) ?ranges m) = ?A"
    using pool_boot [of "multiboot_regions b" ?ranges m] pool_boot [of "multiboot_regions b" ?ranges ?b] owned
    by (simp add: pool_def m0_def)
  then show ?thesis using identity window by (simp add: r)
qed

text \<open>A machine with 256 MiB and nothing but the kernel loaded, at 1 MiB.\<close>

definition a_handoff :: boot_information where
  "a_handoff = \<lparr>framebuffer_tag = None,
     memory_map_tag = Some [\<lparr>area_start = 0, area_size = 0x10000000, area_available = True\<rparr>], module_tags = []\<rparr>"

lemma a_handoff_frames:
  "3 \<le> card (pool (boot_memory (multiboot_regions a_handoff) (multiboot_ranges a_handoff 0x100000 0x300000) m))"
proof -
  let ?F = "{f. f < MAX_PHYSICAL_FRAMES \<and> 256 \<le> f \<and> usable_frame (multiboot_regions a_handoff) f \<and>
     \<not> touched_frame (multiboot_ranges a_handoff 0x100000 0x300000) f}"
  have "{1024, 1025, 1026} \<subseteq> ?F"
    by (simp add: a_handoff_def multiboot_regions_def multiboot_ranges_def usable_frame_def touched_frame_def
        MAX_PHYSICAL_FRAMES_def)
  then have "card {1024, 1025, 1026 :: nat} \<le> card ?F" by (rule card_mono [rotated]) simp
  moreover have "inj_on frame_address ?F" by (auto intro!: inj_onI simp: frame_address_inject)
  ultimately show ?thesis by (simp add: pool_boot card_image)
qed

lemma multiboot_direct_map_witness:
  "\<forall>fs. case multiboot_paging a_handoff 0x100000 0x300000
        (bootstrap 0x200000 \<lparr>mem_frames = fs, phys = (\<lambda>_. 0), cr3 = 0, phys_offset = 0\<rparr>) of (res, m') \<Rightarrow>
     {va. unat va < 2 ^ 32} \<subseteq> {va. translate va m' = Some va} \<and> res = Inr () \<and>
     translate DEVICE_WINDOW_BASE m' = Some 0xB8000"
proof
  fix fs
  let ?m = "\<lparr>mem_frames = fs, phys = (\<lambda>_. 0), cr3 = 0, phys_offset = 0\<rparr>"
  have "tables_fit 0x200000" "bss_clear 0x200000 ?m" by (simp_all add: tables_fit_def bss_clear_def)
  then show "case multiboot_paging a_handoff 0x100000 0x300000 (bootstrap 0x200000 ?m) of (res, m') \<Rightarrow>
     {va. unat va < 2 ^ 32} \<subseteq> {va. translate va m' = Some va} \<and> res = Inr () \<and>
     translate DEVICE_WINDOW_BASE m' = Some 0xB8000"
    using multiboot_direct_map [where t = "0x200000" and m = ?m and kernel_start = "0x100000" and kernel_end = "0x300000" and b = a_handoff] a_handoff_frames [of ?m]
    by (auto split: prod.splits)
qed

end
