(* ===== verification/Spec2Isabelle.thy ===== *)
theory Spec2Isabelle
  imports Frames Pty Vfs Paging Scheduling Processes Images Transfers Heap ProcessStack
    ConsoleSafety Deadlines Peripherals CallBuffers CallReturns Supervision
    Disk LineEditor Runtime BootAdapters
begin

text \<open>
  A model of \<open>open-kernel\<close> and its correctness: the kernel (\<open>src/kernel-core\<close>), its first process
  (\<open>src/init\<close>), the console program (\<open>src/user-program\<close>) and the runtime of user programs
  (\<open>src/openkernel-rt\<close>), and the ways into the kernel from two boot loaders.  The kernel takes over from a boot loader, manages physical frames and page
  tables, runs threads and processes round robin, loads ELF programs into address spaces of their
  own, and gives them files, a heap, virtual terminals, pseudo-terminals, time, futexes, random
  numbers and a disk through system calls.  The theories follow the modules of the source; each
  opens with the data of its module, then its operations, then its lemmas.

  \<^bold>\<open>The parts and their theories.\<close>

  \<^item> \<open>Prelude\<close>: machine integers with the checked and saturating operations of Rust, the loops that
    the modules share, byte-string helpers and the contract of a bounded FIFO (locale
    \<open>bounded_fifo\<close>).
  \<^item> \<open>Frames\<close>, for \<open>memory.rs\<close>: the two bitmaps and the counters of the physical frame allocator
    (\<open>frame_state\<close>), with initialisation, allocation and release.  The operations refine a
    set-based allocator; the locale \<open>frame_allocator\<close> is what the page tables rely on.
  \<^item> \<open>Paging\<close> and \<open>Contents\<close>, for \<open>paging.rs\<close>: physical memory as bytes, four-level tables read and
    written in it, mapping, unmapping, creation and destruction of address spaces, stacks and the
    access checks.  The invariant \<open>forest\<close> says that the tables of the live address spaces form
    disjoint trees of owned frames; from it follow exact access, isolation, accounting of frames
    and stability of contents.
  \<^item> \<open>Threads\<close>, \<open>Scheduling\<close>, \<open>Processes\<close>, for \<open>threads.rs\<close>: the thread table, the run queue, context
    switches on the callee-saved registers, blocking, joining, exit, and the process table.  A run
    is a sequence of operations of the current thread; the invariant relates the queue, the states
    and the waiters.
  \<^item> \<open>Pty\<close>, for \<open>pty.rs\<close>: two rings per pseudo-terminal, refined to bounded FIFO queues.
  \<^item> \<open>Storage\<close>, \<open>Vfs\<close>, for \<open>storage.rs\<close> and \<open>vfs.rs\<close>: boot files, the table of RAM files and path
    resolution over both.
  \<^item> \<open>Elf\<close>, \<open>Loader\<close>, \<open>Images\<close>, for \<open>elf.rs\<close>: parsing of headers, the page loops, the initial
    thread-local block, and what an accepted image has in memory.
  \<^item> \<open>Descriptors\<close>, \<open>Files\<close>, \<open>Transfers\<close>, for the file calls of \<open>user.rs\<close>: descriptor tables and
    working directories per process, refined to maps of open files.
  \<^item> \<open>Launch\<close>, \<open>UserMemory\<close>, \<open>Heap\<close>, \<open>ProcessStack\<close>, for the rest of \<open>user.rs\<close>: \<open>brk\<close>, the initial
    stack, \<open>spawn\<close> and the start of the first process.  The locale \<open>byte_store\<close> is the kernel's view
    of user memory as a partial map from addresses to bytes.
  \<^item> \<open>Console\<close>, \<open>Screen\<close>, \<open>Terminals\<close>, \<open>Displays\<close>, \<open>ConsoleSafety\<close>, for \<open>console.rs\<close>: the virtual terminals
    with their frame buffers, glyphs, cursor and scan codes (\<open>terminals\<close>).  A terminal buffer is the
    picture of an abstract text screen, the hardware frame buffer that of the selected terminal,
    and no write leaves either.
  \<^item> \<open>Timers\<close>, \<open>Deadlines\<close>, for the tick of \<open>arch.rs\<close>: sleepers and futex waiters with wrapping
    deadlines, refined to countdowns.
  \<^item> \<open>Hardware\<close>, \<open>Sata\<close>, \<open>Entropy\<close>, \<open>Peripherals\<close>, for \<open>serial.rs\<close>, \<open>pci.rs\<close>, \<open>sata.rs\<close>, \<open>random.rs\<close>,
    \<open>mouse.rs\<close>, \<open>xhci.rs\<close> and \<open>drivers.rs\<close>: the drivers as programs of the state monad over a
    parameter \<open>hardware\<close>, which gives what ports, device registers and the entropy instructions
    answer and what a device does to memory.  \<open>Disk\<close> puts the disk driver against a device that
    follows the AHCI protocol.
  \<^item> \<open>Machine\<close>, \<open>Syscalls\<close>, \<open>Traps\<close>, for \<open>arch.rs\<close> and the start-up of \<open>console.rs\<close>: the state of the
    whole machine (\<open>machine\<close>), the checks of user buffers, every system call, the entry and the
    return, interrupts, exceptions, descriptor tables and the boot sequence.
  \<^item> \<open>Composition\<close>, \<open>Invariants\<close>, \<open>MachineRuns\<close>, \<open>CallBuffers\<close>, \<open>CallReturns\<close>: what any run of the
    machine from boot on does to its components, the invariant of the whole, refused buffers, and
    the way back to user code.
  \<^item> \<open>Bootstrap\<close>, \<open>BootAdapters\<close>, for \<open>multiboot2-adapter-bootstrap\<close>, \<open>multiboot2-adapter\<close> and
    \<open>limine-adapter\<close>: the page tables that the assembly builds and what the processor makes of them
    (\<open>translate\<close>), and the way from what a boot loader says to the first state of the machine.
  \<^item> \<open>Programs\<close>: a user program as a program of the state monad over a parameter \<open>os\<close>, what the kernel
    answers to a call with its operands; buffers that the kernel fills come back with the answer.
  \<^item> \<open>Init\<close>, \<open>StartOrder\<close>, \<open>Supervision\<close>, for \<open>init\<close>: the service table, the order of the start, one-shot
    services with their attempts, daemons, reaping, restarting and the shutdown.
  \<^item> \<open>Shell\<close>, \<open>LineEditor\<close>, for \<open>user-program\<close>: the wrappers of the system calls, the commands,
    completion and the line editor.
  \<^item> \<open>Runtime\<close>, for \<open>openkernel-rt\<close>: the entry of a program and the memory functions.

  \<^bold>\<open>How the parts interact.\<close>  The frame allocator is reached through \<open>mem_frames\<close> of the record
  \<open>memory\<close>, which also holds the bytes and the active root; \<open>kmem\<close> of the record \<open>kernel\<close> is that
  memory; the record \<open>system\<close> joins the kernel, the file system and the statics of \<open>user.rs\<close>; the
  record \<open>machine\<close> joins the system, the terminals, the pseudo-terminals, the timers, the drivers
  and the descriptor tables.  An operation that touches a part takes and returns the whole record
  it lives in; a driver works on the memory of the kernel through the record \<open>io\<close>.

  \<^bold>\<open>Conventions.\<close>  \<open>u8\<close>, \<open>u16\<close>, \<open>u32\<close>, \<open>u64\<close> are words and wrap; \<open>usize\<close> counters that the code keeps
  small are natural numbers; byte strings and paths are lists of bytes.  Errors are left
  injections of a sum, \<open>Option\<close> is option, and \<open>u64::MAX\<close> is \<open>u64_max\<close>.  A kernel page fault, a halt,
  a panic and a missing option that the code unwraps are the value None.

  \<^bold>\<open>Loops.\<close>  The loops of the kernel are structural recursion, a fold over their index range or a
  search over it, so its functions are total: page walks have depth four, table loops 512 entries,
  the release of a table recurses on its level.  A driver that polls does so for at most the rounds
  of the code (\<open>wait_rounds\<close>, \<open>poll_rounds\<close>), and not being ready by then is a branch of the model.  The
  order of the services is found by \<open>while_option\<close>, shown to end.  Loops that run as long as the
  program does, or until the kernel gives another answer, are partial functions whose value None
  is not returning: \<open>reap_children\<close>, \<open>supervise\<close>, \<open>read_char\<close>, \<open>shell_loop\<close>, \<open>list_entries\<close>, \<open>strlen_from\<close>.
  Statements about them say when they return.

  \<^bold>\<open>What the lemmas show.\<close>  For every component: an invariant kept by every operation; the answer of
  every operation on every branch; and refinement of an abstract specification over whole runs
  (sets of frames, maps from pages to frames, queues of threads, FIFO queues, maps from names to
  contents, maps of open files, text screens, countdowns).  Across components: the machine makes
  only runs of its components and keeps their invariants; a call returns to where it was made;
  loaded segments lie in the image's own address space with the file's bytes and permissions,
  loading and mapping disturb nobody, the initial stack is exactly the documented vector, and the
  heap below the break stays mapped.  For the programs: \<open>init\<close> starts services after what they depend
  on, keeps them and stops them in reverse; the console runs the line it shows.  For the start: the
  images the boot loader brought are never given out, and through GRUB all memory the kernel
  manages is mapped where the model of the page tables reads and writes it.

  \<^bold>\<open>Known deviations shown by theorems.\<close>  \<open>brk_regrow_refused\<close>: after a shrink and a small growth the
  heap cannot be grown again over pages it still has.  \<open>process_stack_layout\<close> gives the stack pointer
  at entry; it is 8 modulo 16 only for an odd argument count.

  \<^bold>\<open>Where the model is coarser than the code.\<close>  A call with an input buffer reads it as a whole
  before it acts (\<open>with_input\<close>), and a call with an output buffer writes it as a whole afterwards; a
  fault on the way is the value None, the halted machine.  The kernel writes to user pages whatever
  their write bit, since the code leaves write protection of the supervisor off.  Device registers
  are addressed in the device window.  The end of another process (call 39) is a definition and is
  shown correct on every reachable state, but it leaves its entry in the run queue, so the runs of
  \<open>MachineRuns\<close> do not contain it.  The order in which \<open>init\<close> iterates its table is that of insertion.
  Text that user programs print is valid UTF-8, on which the lossy conversion is the identity.

  \<^bold>\<open>Not modelled.\<close>  The translation cache; model-specific and control registers other than the active
  root; the instructions of context switches and privilege changes, which are modelled by their
  effect on registers; \<open>scheduler.rs\<close>, which is not
  compiled (\<open>lib.rs\<close> takes the module from \<open>threads.rs\<close>); the direct map that Limine sets up, which
  is taken to be as its protocol says; the program that only exercises the standard library
  (\<open>std-program\<close>).
\<close>

end
